(* ===== verification/Vool_Prelude.thy ===== *)
theory Vool_Prelude
  imports Complex_Main "HOL-Library.AList" "HOL-Library.Sublist"
begin

text \<open>
  Shared vocabulary of the development: Python strings, dictionaries and clocks as HOL types,
  the generic lemmas on them, the fact collections that carry the component proofs, and the
  interfaces (locales) that several components implement.

  Conventions.
  \<^item> A Python \<open>str\<close> is a \<open>string\<close>; a character is a code point below 256.
  \<^item> A Python \<open>dict\<close> (and a keyed SQL table) is an association list in insertion order, because
    the code iterates over \<open>items()\<close>: \<open>AList.update\<close> overwrites in place or appends, as
    \<open>d[k] = v\<close> does, and \<open>AList.delete\<close> is \<open>d.pop(k, None)\<close>.
  \<^item> A clock reading or another finite \<open>float\<close> that is only compared, added or subtracted is a
    rational (every finite double is one); the rounding of a double sum is not modelled.
  \<^item> An operation that may raise returns the state it leaves behind together with a sum:
    \<open>Inl\<close> for the exception, \<open>Inr\<close> for the result.
\<close>

named_theorems inv_intros "preservation of a component's invariant by its operations"
named_theorems frame_simps "what an operation leaves unchanged"

type_synonym ('k, 'v) dict = "('k \<times> 'v) list"
type_synonym time = rat

abbreviation dict_get :: "('k, 'v) dict \<Rightarrow> 'k \<Rightarrow> 'v option" where
  "dict_get d k \<equiv> map_of d k"

abbreviation dict_set :: "'k \<Rightarrow> 'v \<Rightarrow> ('k, 'v) dict \<Rightarrow> ('k, 'v) dict" where
  "dict_set k v d \<equiv> AList.update k v d"

abbreviation dict_pop :: "'k \<Rightarrow> ('k, 'v) dict \<Rightarrow> ('k, 'v) dict" where
  "dict_pop k d \<equiv> AList.delete k d"

abbreviation dict_keys :: "('k, 'v) dict \<Rightarrow> 'k list" where
  "dict_keys d \<equiv> map fst d"

abbreviation wf_dict :: "('k, 'v) dict \<Rightarrow> bool" where
  "wf_dict d \<equiv> distinct (dict_keys d)"

section \<open>Dictionaries\<close>

lemma dict_get_set [simp]: "dict_get (dict_set k v d) k' = (if k' = k then Some v else dict_get d k')"
  by (simp add: update_conv')

lemma dict_get_pop [simp]: "dict_get (dict_pop k d) k' = (if k' = k then None else dict_get d k')"
  by (simp add: delete_conv')

lemma wf_dict_set [simp, intro]: "wf_dict d \<Longrightarrow> wf_dict (dict_set k v d)"
  by (rule distinct_update)

lemma wf_dict_pop [simp, intro]: "wf_dict d \<Longrightarrow> wf_dict (dict_pop k d)"
  by (simp add: distinct_delete)

lemma set_dict_set: "wf_dict d \<Longrightarrow> set (dict_set k v d) = {(k, v)} \<union> {p \<in> set d. fst p \<noteq> k}"
  by (induction d) (auto simp: image_iff)

lemma set_dict_pop: "set (dict_pop k d) = {p \<in> set d. fst p \<noteq> k}"
  by (auto simp: AList.delete_eq)

lemma dict_get_mem: "dict_get d k = Some v \<Longrightarrow> (k, v) \<in> set d"
  by (rule map_of_SomeD)

lemma dict_mem_get: "wf_dict d \<Longrightarrow> (k, v) \<in> set d \<Longrightarrow> dict_get d k = Some v"
  by (rule map_of_is_SomeI)

lemma dict_get_None_iff: "dict_get d k = None \<longleftrightarrow> k \<notin> set (dict_keys d)"
  by (simp add: map_of_eq_None_iff)

lemma dict_set_append: "dict_get d k = None \<Longrightarrow> dict_set k v d = d @ [(k, v)]"
  by (induction d) (auto split: if_splits)

text \<open>A sum over the values of a dictionary: what totals and reservations are made of.\<close>

definition dict_sum :: "('v \<Rightarrow> 'n::ab_group_add) \<Rightarrow> ('k, 'v) dict \<Rightarrow> 'n" where
  "dict_sum f d = sum_list (map (\<lambda>(k, v). f v) d)"

lemma dict_sum_Nil [simp]: "dict_sum f [] = 0"
  by (simp add: dict_sum_def)

lemma dict_sum_Cons [simp]: "dict_sum f ((k, v) # d) = f v + dict_sum f d"
  by (simp add: dict_sum_def)

lemma dict_pop_absent: "dict_get d k = None \<Longrightarrow> dict_pop k d = d"
  by (induction d) (auto split: if_splits)

lemma dict_sum_pop:
  "wf_dict d \<Longrightarrow> dict_sum f (dict_pop k d) = dict_sum f d - (case dict_get d k of None \<Rightarrow> 0 | Some v \<Rightarrow> f v)"
proof (induction d)
  case (Cons p d)
  then show ?case
    by (cases p; cases "fst p = k") (auto simp: dict_pop_absent dict_get_None_iff)
qed simp

lemma dict_sum_set:
  "wf_dict d \<Longrightarrow> dict_sum f (dict_set k v d)
     = dict_sum f d - (case dict_get d k of None \<Rightarrow> 0 | Some w \<Rightarrow> f w) + f v"
proof (induction d)
  case (Cons p d)
  then show ?case by (cases p; cases "fst p = k") auto
qed simp

lemma dict_sum_nonneg:
  fixes f :: "'v \<Rightarrow> 'n::{ordered_ab_group_add}"
  assumes "\<And>k v. (k, v) \<in> set d \<Longrightarrow> 0 \<le> f v"
  shows "0 \<le> dict_sum f d"
  unfolding dict_sum_def by (rule sum_list_nonneg) (use assms in auto)

lemma dict_sum_cong:
  assumes "\<And>k v. (k, v) \<in> set d \<Longrightarrow> f v = g v"
  shows "dict_sum f d = dict_sum g d"
  unfolding dict_sum_def by (rule arg_cong [where f = sum_list], rule map_cong) (use assms in auto)

lemma dict_sum_diff: "dict_sum (\<lambda>v. f v - g v) d = dict_sum f d - dict_sum g d"
  by (induction d) auto

lemma dict_sum_zero:
  assumes "\<And>k v. (k, v) \<in> set d \<Longrightarrow> f v = 0"
  shows "dict_sum f d = 0"
  using dict_sum_cong [of d f "\<lambda>_. 0"] assms by (simp add: dict_sum_def split_def)

section \<open>Python strings\<close>

text \<open>\<open>str.isspace\<close> on code points below 256: the whitespace that \<open>str.strip()\<close> removes.\<close>

definition py_isspace :: "char \<Rightarrow> bool" where
  "py_isspace c \<longleftrightarrow> (let n = of_char c :: nat in
     (9 \<le> n \<and> n \<le> 13) \<or> (28 \<le> n \<and> n \<le> 32) \<or> n = 133 \<or> n = 160)"

definition py_lstrip :: "string \<Rightarrow> string" where
  "py_lstrip s = dropWhile py_isspace s"

definition py_strip :: "string \<Rightarrow> string" where
  "py_strip s = rev (dropWhile py_isspace (rev (py_lstrip s)))"

text \<open>\<open>s.split(c)\<close> for a one-character separator: never empty, keeps empty fields.\<close>

fun py_split :: "char \<Rightarrow> string \<Rightarrow> string list" where
  "py_split c [] = [[]]"
| "py_split c (x # xs) =
     (if x = c then [] # py_split c xs
      else (case py_split c xs of [] \<Rightarrow> [[x]] | w # ws \<Rightarrow> (x # w) # ws))"

fun py_join :: "string \<Rightarrow> string list \<Rightarrow> string" where
  "py_join sep [] = []"
| "py_join sep [w] = w"
| "py_join sep (w # v # ws) = w @ sep @ py_join sep (v # ws)"

text \<open>\<open>re.split\<close> on a class of separator characters with the empty fields dropped: the words of a text.\<close>

fun split_on :: "(char \<Rightarrow> bool) \<Rightarrow> string \<Rightarrow> string list" where
  "split_on P [] = [[]]"
| "split_on P (x # xs) =
     (if P x then [] # split_on P xs
      else (case split_on P xs of [] \<Rightarrow> [[x]] | w # ws \<Rightarrow> (x # w) # ws))"

definition words_on :: "(char \<Rightarrow> bool) \<Rightarrow> string \<Rightarrow> string list" where
  "words_on P s = filter (\<lambda>w. w \<noteq> []) (split_on P s)"

text \<open>\<open>s.strip(chars)\<close>, and case folding on code points below 256.\<close>

definition strip_chars :: "string \<Rightarrow> string \<Rightarrow> string" where
  "strip_chars cs s = rev (dropWhile (\<lambda>c. c \<in> set cs) (rev (dropWhile (\<lambda>c. c \<in> set cs) s)))"

definition lower_char :: "char \<Rightarrow> char" where
  "lower_char c = (let n = of_char c :: nat in
     if (65 \<le> n \<and> n \<le> 90) \<or> (192 \<le> n \<and> n \<le> 222 \<and> n \<noteq> 215) then char_of (n + 32) else c)"

definition py_lower :: "string \<Rightarrow> string" where
  "py_lower s = map lower_char s"

definition contains_text :: "string \<Rightarrow> string \<Rightarrow> bool" where
  "contains_text pat s \<longleftrightarrow> list_ex (prefix pat) (suffixes s)"

definition upper_char :: "char \<Rightarrow> string" where
  "upper_char c = (let n = of_char c :: nat in
     if (97 \<le> n \<and> n \<le> 122) \<or> (224 \<le> n \<and> n \<le> 254 \<and> n \<noteq> 247) then [char_of (n - 32)]
     else if n = 223 then ''SS'' else [c])"

definition py_upper :: "string \<Rightarrow> string" where
  "py_upper s = concat (map upper_char s)"

text \<open>\<open>dict.fromkeys(xs)\<close>: the first occurrence of each element, in order.\<close>

fun py_unique_onto :: "'a list \<Rightarrow> 'a list \<Rightarrow> 'a list" where
  "py_unique_onto acc [] = acc"
| "py_unique_onto acc (x # xs) = (if x \<in> set acc then py_unique_onto acc xs
                                  else py_unique_onto (acc @ [x]) xs)"

definition py_unique :: "'a list \<Rightarrow> 'a list" where
  "py_unique xs = py_unique_onto [] xs"

lemma py_split_nonempty [simp]: "py_split c s \<noteq> []"
  by (induction s) (auto split: list.splits)

lemma py_split_no_sep: "w \<in> set (py_split c s) \<Longrightarrow> c \<notin> set w"
proof (induction s arbitrary: w)
  case (Cons x xs)
  then show ?case by (cases "py_split c xs") (auto split: if_splits)
qed simp

lemma py_join_split [simp]: "py_join [c] (py_split c s) = s"
proof (induction s)
  case (Cons x xs)
  then show ?case by (cases "py_split c xs" rule: list.exhaust; cases "tl (py_split c xs)") auto
qed simp

lemma split_on_nonempty [simp]: "split_on P s \<noteq> []"
  by (induction s) (auto split: list.splits)

lemma split_on_clean: "w \<in> set (split_on P s) \<Longrightarrow> list_all (\<lambda>c. \<not> P c) w"
proof (induction s arbitrary: w)
  case (Cons x xs)
  then show ?case by (cases "split_on P xs") (auto split: if_splits)
qed simp

lemma words_on_clean: "w \<in> set (words_on P s) \<Longrightarrow> w \<noteq> [] \<and> list_all (\<lambda>c. \<not> P c) w"
  using split_on_clean by (auto simp: words_on_def)

lemma split_on_id: "list_all (\<lambda>c. \<not> P c) w \<Longrightarrow> split_on P w = [w]"
  by (induction w) auto

lemma split_on_append_sep:
  "list_all (\<lambda>c. \<not> P c) w \<Longrightarrow> P x \<Longrightarrow> split_on P (w @ x # s) = w # split_on P s"
  by (induction w) auto

lemma words_on_join:
  assumes "P x" and "\<And>w. w \<in> set ws \<Longrightarrow> w \<noteq> [] \<and> list_all (\<lambda>c. \<not> P c) w"
  shows "words_on P (py_join [x] ws) = ws"
  using assms(2)
proof (induction "[x]" ws rule: py_join.induct)
  case (2 w)
  then show ?case by (simp add: words_on_def split_on_id)
next
  case (3 w v ws)
  then show ?case by (simp add: words_on_def split_on_append_sep [of P _ x, OF _ assms(1)])
qed (simp add: words_on_def)

lemma py_strip_stripped:
  assumes "s = [] \<or> \<not> py_isspace (hd s) \<and> \<not> py_isspace (last s)"
  shows "py_strip s = s"
proof (cases "s = []")
  case True
  then show ?thesis by (simp add: py_strip_def py_lstrip_def)
next
  case False
  with assms have "py_lstrip s = s" by (cases s) (simp_all add: py_lstrip_def)
  moreover from False assms have "dropWhile py_isspace (rev s) = rev s"
    by (cases s rule: rev_cases) simp_all
  ultimately show ?thesis by (simp add: py_strip_def)
qed

lemma last_rev_dropWhile: "dropWhile P xs \<noteq> [] \<Longrightarrow> \<not> P (last (rev (dropWhile P xs)))"
  by (simp add: last_rev hd_dropWhile)

lemma py_strip_edges: "py_strip s \<noteq> [] \<Longrightarrow> \<not> py_isspace (hd (py_strip s)) \<and> \<not> py_isspace (last (py_strip s))"
proof
  assume ne: "py_strip s \<noteq> []"
  then have "dropWhile py_isspace (rev (py_lstrip s)) \<noteq> []"
    by (auto simp only: py_strip_def rev.simps)
  from last_rev_dropWhile [OF this] show "\<not> py_isspace (last (py_strip s))"
    by (simp only: py_strip_def not_False_eq_True)
  define t where "t = py_lstrip s"
  have "\<exists>w. t = py_strip s @ w"
    by (metis py_strip_def t_def rev_append rev_rev_ident takeWhile_dropWhile_id)
  then obtain w where w: "t = py_strip s @ w" ..
  with ne have "hd (py_strip s) = hd t" "t \<noteq> []" by auto
  then show "\<not> py_isspace (hd (py_strip s))"
    by (simp add: t_def py_lstrip_def hd_dropWhile)
qed

lemma py_strip_idem [simp]: "py_strip (py_strip s) = py_strip s"
  using py_strip_edges by (intro py_strip_stripped) blast

lemma py_strip_Nil [simp]: "py_strip [] = []"
  by (simp add: py_strip_def py_lstrip_def)

lemma set_py_unique_onto: "set (py_unique_onto acc xs) = set acc \<union> set xs"
  by (induction xs arbitrary: acc) auto

lemma distinct_py_unique_onto: "distinct acc \<Longrightarrow> distinct (py_unique_onto acc xs)"
  by (induction xs arbitrary: acc) auto

lemma set_py_unique [simp]: "set (py_unique xs) = set xs"
  by (simp add: py_unique_def set_py_unique_onto)

lemma distinct_py_unique [simp]: "distinct (py_unique xs)"
  by (simp add: py_unique_def distinct_py_unique_onto)

section \<open>Decimal text\<close>

definition is_digit :: "char \<Rightarrow> bool" where
  "is_digit c \<longleftrightarrow> (let n = of_char c :: nat in 48 \<le> n \<and> n \<le> 57)"

definition digit_char :: "nat \<Rightarrow> char" where
  "digit_char n = char_of (48 + n)"

definition digit_val :: "char \<Rightarrow> nat" where
  "digit_val c = of_char c - 48"

text \<open>\<open>str(n)\<close> of a non-negative integer, and \<open>int(s)\<close> of a string of digits.\<close>

fun show_nat :: "nat \<Rightarrow> string" where
  "show_nat n = (if n < 10 then [digit_char n] else show_nat (n div 10) @ [digit_char (n mod 10)])"

declare show_nat.simps [simp del]

definition read_nat :: "string \<Rightarrow> nat" where
  "read_nat s = foldl (\<lambda>a c. 10 * a + digit_val c) 0 s"

lemma of_char_digit: "n < 10 \<Longrightarrow> (of_char (digit_char n) :: nat) = 48 + n"
  by (simp add: digit_char_def)

lemma digit_char_simps [simp]:
  "n < 10 \<Longrightarrow> is_digit (digit_char n)" "n < 10 \<Longrightarrow> digit_val (digit_char n) = n"
  by (simp_all add: is_digit_def digit_val_def of_char_digit)

lemma digit_char_0: "digit_char 0 = CHR ''0''"
  by code_simp

lemma digit_val_0 [simp]: "digit_val (CHR ''0'') = 0" "is_digit (CHR ''0'')"
  by code_simp+

lemma digit_val_inj: "is_digit c \<Longrightarrow> is_digit d \<Longrightarrow> digit_val c = digit_val d \<Longrightarrow> c = d"
  by (auto simp: is_digit_def digit_val_def Let_def) (metis diff_is_0_eq le_add_diff_inverse of_char_eq_iff)

lemma is_digit_not_space [simp]: "is_digit c \<Longrightarrow> \<not> py_isspace c"
  by (auto simp: is_digit_def py_isspace_def Let_def)

lemma read_nat_Nil [simp]: "read_nat [] = 0"
  by (simp add: read_nat_def)

lemma read_nat_snoc [simp]: "read_nat (s @ [c]) = 10 * read_nat s + digit_val c"
  by (simp add: read_nat_def)

lemma show_nat_nonempty [simp]: "show_nat n \<noteq> []"
  by (subst show_nat.simps) simp

lemma show_nat_digits [simp]: "list_all is_digit (show_nat n)"
proof (induction n rule: show_nat.induct)
  case (1 n)
  then show ?case by (subst show_nat.simps) auto
qed

lemma show_nat_is_digit: "c \<in> set (show_nat n) \<Longrightarrow> is_digit c"
  using show_nat_digits [of n] by (simp add: list_all_iff)

lemma read_show_nat [simp]: "read_nat (show_nat n) = n"
proof (induction n rule: show_nat.induct)
  case (1 n)
  show ?case
  proof (cases "n < 10")
    case True
    then show ?thesis by (subst show_nat.simps) (simp add: read_nat_def)
  next
    case False
    then show ?thesis using 1 by (subst show_nat.simps) simp
  qed
qed

text \<open>Closed decimal texts are evaluated by \<open>simp add: show_nat_eval\<close>, in binary arithmetic.\<close>

lemma show_nat_small: "n < 10 \<Longrightarrow> show_nat n = [digit_char n]"
  by (subst show_nat.simps) simp

lemma show_nat_step: "10 \<le> n \<Longrightarrow> show_nat n = show_nat (n div 10) @ [digit_char (n mod 10)]"
  by (subst show_nat.simps) simp

lemma digit_char_eval:
  "digit_char 0 = CHR ''0''" "digit_char 1 = CHR ''1''" "digit_char (Suc 0) = CHR ''1''" "digit_char 2 = CHR ''2''"
  "digit_char 3 = CHR ''3''" "digit_char 4 = CHR ''4''" "digit_char 5 = CHR ''5''" "digit_char 6 = CHR ''6''"
  "digit_char 7 = CHR ''7''" "digit_char 8 = CHR ''8''" "digit_char 9 = CHR ''9''"
  by code_simp+

lemmas show_nat_eval = show_nat_small show_nat_step digit_char_eval

lemma show_nat_inj [simp]: "show_nat m = show_nat n \<longleftrightarrow> m = n"
  using read_show_nat by metis

lemma show_nat_leading: "hd (show_nat n) = CHR ''0'' \<longleftrightarrow> n = 0"
proof (induction n rule: show_nat.induct)
  case (1 n)
  show ?case
  proof (cases "n < 10")
    case True
    have "digit_char n = CHR ''0'' \<longleftrightarrow> digit_val (digit_char n) = 0"
      using digit_char_simps(1) [OF True] digit_char_0
      by (metis digit_val_inj digit_char_simps(1) digit_val_0)
    then have "digit_char n = CHR ''0'' \<longleftrightarrow> n = 0" using True by simp
    then show ?thesis using True by (subst show_nat.simps) simp
  next
    case False
    then have "show_nat n = show_nat (n div 10) @ [digit_char (n mod 10)]" by (subst show_nat.simps) simp
    then show ?thesis using 1 False by simp
  qed
qed

lemma show_nat_0 [simp]: "show_nat 0 = ''0''"
  by (subst show_nat.simps) (simp add: digit_char_0)

lemma length_show_nat: "n < 10 ^ k \<Longrightarrow> 0 < k \<Longrightarrow> length (show_nat n) \<le> k"
proof (induction n arbitrary: k rule: show_nat.induct)
  case (1 n)
  show ?case
  proof (cases "n < 10")
    case True
    then show ?thesis using 1 by (subst show_nat.simps) simp
  next
    case False
    then obtain j where j: "k = Suc j" "0 < j" using 1 by (cases k; cases "k - 1") auto
    then have "n div 10 < 10 ^ j" using 1 by (simp add: less_mult_imp_div_less)
    with 1 False j have "length (show_nat (n div 10)) \<le> j" by blast
    then show ?thesis using False j by (subst show_nat.simps) simp
  qed
qed

lemma read_nat_append: "read_nat (s @ t) = read_nat s * 10 ^ length t + read_nat t"
  by (induction t rule: rev_induct) (simp_all add: algebra_simps flip: append_assoc)

text \<open>\<open>str.rjust\<close> and \<open>str.rstrip\<close> with zeros.\<close>

definition rjust0 :: "nat \<Rightarrow> string \<Rightarrow> string" where
  "rjust0 n s = replicate (n - length s) (CHR ''0'') @ s"

definition rstrip0 :: "string \<Rightarrow> string" where
  "rstrip0 s = rev (dropWhile (\<lambda>c. c = CHR ''0'') (rev s))"

lemma digit_run_0 [simp]: "list_all is_digit (replicate k (CHR ''0''))"
  by (simp add: list_all_iff)

lemma read_nat_zeros [simp]: "read_nat (replicate k (CHR ''0'')) = 0"
proof (induction k)
  case (Suc k)
  then show ?case using read_nat_append [of "''0''" "replicate k (CHR ''0'')"]
    by (simp add: read_nat_def)
qed simp

lemma read_nat_leading0 [simp]: "read_nat (replicate k (CHR ''0'') @ s) = read_nat s"
  by (simp add: read_nat_append)

lemma rjust0_simps [simp]:
  "read_nat (rjust0 n (show_nat m)) = m" "list_all is_digit (rjust0 n (show_nat m))"
  "n \<le> length (rjust0 n s)"
  using show_nat_is_digit by (auto simp: rjust0_def list_all_iff)

lemma digit_val_bound: "is_digit c \<Longrightarrow> digit_val c < 10"
  by (auto simp: is_digit_def digit_val_def Let_def)

lemma read_nat_bound: "list_all is_digit s \<Longrightarrow> read_nat s < 10 ^ length s"
proof (induction s rule: rev_induct)
  case (snoc c s)
  then have "read_nat s + 1 \<le> 10 ^ length s" "digit_val c < 10" by (auto intro: digit_val_bound)
  then show ?case by simp
qed simp

section \<open>Operations that may raise\<close>

text \<open>Sequencing, mapping and checking over \<open>error + result\<close>: the first exception wins.\<close>

definition and_then :: "'e + 'a \<Rightarrow> ('a \<Rightarrow> 'e + 'b) \<Rightarrow> 'e + 'b" where
  "and_then x f = (case x of Inl e \<Rightarrow> Inl e | Inr a \<Rightarrow> f a)"

fun each :: "('a \<Rightarrow> 'e + 'b) \<Rightarrow> 'a list \<Rightarrow> 'e + 'b list" where
  "each f [] = Inr []"
| "each f (x # xs) = and_then (f x) (\<lambda>y. and_then (each f xs) (\<lambda>ys. Inr (y # ys)))"

fun check_all :: "('a \<Rightarrow> 'e option) \<Rightarrow> 'a list \<Rightarrow> 'e + unit" where
  "check_all f [] = Inr ()"
| "check_all f (x # xs) = (case f x of Some e \<Rightarrow> Inl e | None \<Rightarrow> check_all f xs)"

lemma and_then_simps [simp]: "and_then (Inl e) f = Inl e" "and_then (Inr a) f = f a"
  by (simp_all add: and_then_def)

lemma and_then_Inr: "and_then x f = Inr b \<longleftrightarrow> (\<exists>a. x = Inr a \<and> f a = Inr b)"
  by (cases x) simp_all

lemma and_then_Inl: "and_then x f = Inl e \<longleftrightarrow> x = Inl e \<or> (\<exists>a. x = Inr a \<and> f a = Inl e)"
  by (cases x) simp_all

lemma and_then_not: "x \<noteq> Inl e \<Longrightarrow> (\<And>a. x = Inr a \<Longrightarrow> f a \<noteq> Inl e) \<Longrightarrow> and_then x f \<noteq> Inl e"
  by (cases x) simp_all

lemma if_not: "(P \<Longrightarrow> a \<noteq> e) \<Longrightarrow> (\<not> P \<Longrightarrow> b \<noteq> e) \<Longrightarrow> (if P then a else b) \<noteq> e"
  by simp

lemma and_then_cong [fundef_cong]:
  "x = y \<Longrightarrow> (\<And>a. y = Inr a \<Longrightarrow> f a = g a) \<Longrightarrow> and_then x f = and_then y g"
  by (cases y) simp_all

lemma each_cong [fundef_cong]:
  "xs = ys \<Longrightarrow> (\<And>x. x \<in> set ys \<Longrightarrow> f x = g x) \<Longrightarrow> each f xs = each g ys"
  by (induction ys arbitrary: xs) auto

lemma each_Inr: "each f xs = Inr ys \<longleftrightarrow> list_all2 (\<lambda>x y. f x = Inr y) xs ys"
proof (induction xs arbitrary: ys)
  case (Cons x xs)
  then show ?case by (cases ys) (auto simp: and_then_Inr)
qed auto

lemma each_Inl: "each f xs = Inl e \<Longrightarrow> \<exists>x\<in>set xs. f x = Inl e"
  by (induction xs) (auto simp: and_then_Inl)

lemma each_mem: "each f xs = Inr ys \<Longrightarrow> x \<in> set xs \<Longrightarrow> \<exists>y. f x = Inr y"
  by (induction xs arbitrary: ys) (auto simp: and_then_Inr)

lemma check_all_Inr [simp]: "check_all f xs = Inr u \<longleftrightarrow> list_all (\<lambda>x. f x = None) xs"
  by (induction xs) (auto split: option.splits)

lemma check_all_Inl: "check_all f xs = Inl e \<Longrightarrow> \<exists>x\<in>set xs. f x = Some e"
  by (induction xs) (auto split: option.splits)

section \<open>Interfaces\<close>

text \<open>
  A system whose operations keep an invariant as long as each of them is lawful in the state it
  meets. The client's facts about runs follow from the one-step law.
\<close>

locale lawful_system =
  fixes step :: "'op \<Rightarrow> 's \<Rightarrow> 's"
    and lawful :: "'op \<Rightarrow> 's \<Rightarrow> bool"
    and good :: "'s \<Rightarrow> bool"
  assumes good_step: "good s \<Longrightarrow> lawful x s \<Longrightarrow> good (step x s)"
begin

fun lawful_run :: "'op list \<Rightarrow> 's \<Rightarrow> bool" where
  "lawful_run [] s = True"
| "lawful_run (x # xs) s = (lawful x s \<and> lawful_run xs (step x s))"

lemma run_good: "good s \<Longrightarrow> lawful_run xs s \<Longrightarrow> good (fold step xs s)"
  by (induction xs arbitrary: s) (simp_all add: good_step)

lemma lawful_run_append: "lawful_run (xs @ ys) s \<longleftrightarrow> lawful_run xs s \<and> lawful_run ys (fold step xs s)"
  by (induction xs arbitrary: s) auto

end

text \<open>
  A bounded counter: what every budget, quota and rate limit of the program promises. A good state
  is within its ceiling and no lawful step moves the ceiling up; then no lawful run passes the
  ceiling it started with.
\<close>

locale bounded_meter = lawful_system step lawful good
  for step :: "'op \<Rightarrow> 's \<Rightarrow> 's" and lawful :: "'op \<Rightarrow> 's \<Rightarrow> bool" and good :: "'s \<Rightarrow> bool" +
  fixes usage :: "'s \<Rightarrow> 'n::linorder"
    and ceiling :: "'s \<Rightarrow> 'n"
  assumes good_within: "good s \<Longrightarrow> usage s \<le> ceiling s"
    and ceiling_step: "good s \<Longrightarrow> lawful x s \<Longrightarrow> ceiling (step x s) \<le> ceiling s"
begin

lemma ceiling_run: "good s \<Longrightarrow> lawful_run xs s \<Longrightarrow> ceiling (fold step xs s) \<le> ceiling s"
proof (induction xs arbitrary: s)
  case (Cons x xs)
  then have "ceiling (fold step xs (step x s)) \<le> ceiling (step x s)" by (simp add: good_step)
  also have "\<dots> \<le> ceiling s" using Cons.prems by (simp add: ceiling_step)
  finally show ?case by simp
qed simp

lemma run_within: "good s \<Longrightarrow> lawful_run xs s \<Longrightarrow> usage (fold step xs s) \<le> ceiling s"
  using good_within [OF run_good] ceiling_run order_trans by blast

end

text \<open>
  A state machine given by a table of successors. A state with no successor is terminal: no run
  of transitions leaves it.
\<close>

locale transition_table =
  fixes successors :: "'s \<Rightarrow> 's list"
    and terminal :: "'s \<Rightarrow> bool"
  assumes terminal_successors: "terminal x \<Longrightarrow> successors x = []"
begin

fun walk :: "'s \<Rightarrow> 's list \<Rightarrow> bool" where
  "walk x [] = True"
| "walk x (y # ys) = (y \<in> set (successors x) \<and> walk y ys)"

lemma walk_append: "walk x (ys @ zs) \<longleftrightarrow> walk x ys \<and> walk (last (x # ys)) zs"
  by (induction ys arbitrary: x) auto

lemma terminal_stuck: "terminal x \<Longrightarrow> walk x ys \<Longrightarrow> ys = []"
  by (cases ys) (simp_all add: terminal_successors)

lemma walk_no_inner_terminal: "walk x (ys @ y # zs) \<Longrightarrow> terminal y \<Longrightarrow> zs = []"
  by (auto simp: walk_append intro: terminal_stuck)

end

text \<open>
  Fencing: an epoch that only rises, handed out with every grant. A token issued before the last
  grant is not the current one.
\<close>

locale fencing_authority =
  fixes epoch :: "'s \<Rightarrow> int"
    and step :: "'op \<Rightarrow> 's \<Rightarrow> 's"
    and good :: "'s \<Rightarrow> bool"
  assumes good_step: "good s \<Longrightarrow> good (step x s)"
    and epoch_step: "good s \<Longrightarrow> epoch s \<le> epoch (step x s)"
begin

lemma run_good: "good s \<Longrightarrow> good (fold step xs s)"
  by (induction xs arbitrary: s) (simp_all add: good_step)

lemma epoch_run: "good s \<Longrightarrow> epoch s \<le> epoch (fold step xs s)"
proof (induction xs arbitrary: s)
  case (Cons x xs)
  then have "epoch (step x s) \<le> epoch (fold step xs (step x s))" by (simp add: good_step)
  with epoch_step [OF Cons.prems, of x] show ?case by simp
qed simp

end

end
