(* ===== verification/Task_Dag.thy ===== *)
theory Task_Dag
  imports Vool_Prelude
begin

text \<open>
  The council's task ledger, \<open>core/council/task_dag.py\<close>: the dependency DAG, the writer leases
  with their fencing counters, and the snapshot on disk that a restart reads.

  \<open>dag_state\<close> is the dictionary \<open>self._state\<close> (\<open>tasks\<close>, \<open>leases\<close>, \<open>fencing\<close>); a
  \<open>task_ledger\<close> adds the last snapshot \<open>_write_state\<close> put in \<open>tasks.json\<close> (\<open>None\<close>: no
  readable file) and the rows appended to \<open>tasks.events.jsonl\<close>. The clock reading of each call
  and the \<open>uuid4\<close> lease id are arguments; the \<open>ts\<close> stamp of an event row is not modelled.
\<close>

section \<open>Data\<close>

datatype task_status = PENDING | RUNNING | COMPLETE | FAILED | PAUSED

record task_row =
  row_status :: task_status
  row_deps :: "string list"

record writer_lease =
  lease_id :: string
  lease_task :: string
  lease_scope :: "string list"
  lease_holder :: string
  fencing_counter :: int
  acquired_at :: time
  expires_at :: time

datatype dag_event =
    TaskAdded string "string list"
  | TaskStatusSet string task_status
  | LeaseRenewed string string string
  | LeaseBroken string string "string option"
  | LeaseAcquired writer_lease
  | TaskCommitted string string int string time

record dag_state =
  tasks :: "(string, task_row) dict"
  leases :: "(string, writer_lease) dict"
  fence_global :: int
  fence_last :: "(string, int) dict"

record task_ledger =
  mem :: dag_state
  disk :: "dag_state option"
  log :: "dag_event list"

datatype dag_error =
    TaskDagError
  | DuplicateTaskRefused
  | DAGCycleRefused
  | OverlappingWriterRefused writer_lease
  | StaleLeaseRefused

record task_commit =
  commit_task :: string
  commit_lease :: string
  commit_counter :: int
  commit_payload :: string
  committed_at :: time

section \<open>Paths and scopes\<close>

definition components :: "string \<Rightarrow> string list" where
  "components path = filter (\<lambda>part. part \<noteq> [] \<and> part \<noteq> ''.'') (py_split (CHR ''/'') (py_strip path))"

definition paths_overlap :: "string \<Rightarrow> string \<Rightarrow> bool" where
  "paths_overlap a b =
     (let left = components a; right = components b in
      if left = [] \<or> right = [] then False
      else (let shorter = min (length left) (length right)
            in take shorter left = take shorter right))"

definition scopes_overlap :: "string list \<Rightarrow> string list \<Rightarrow> bool" where
  "scopes_overlap scope_a scope_b = list_ex (\<lambda>a. list_ex (\<lambda>b. paths_overlap a b) scope_b) scope_a"

definition live_at :: "writer_lease \<Rightarrow> time \<Rightarrow> bool" where
  "live_at l now \<longleftrightarrow> now < expires_at l"

definition lease_covers :: "writer_lease \<Rightarrow> string \<Rightarrow> bool" where
  "lease_covers l path = list_ex (\<lambda>item. paths_overlap item path) (lease_scope l)"

section \<open>State on disk\<close>

definition empty_state :: dag_state where
  "empty_state = \<lparr>tasks = [], leases = [], fence_global = 0, fence_last = []\<rparr>"

text \<open>\<open>_read_state\<close>: a missing or corrupt file gives the empty authority.\<close>

definition read_state :: "dag_state option \<Rightarrow> dag_state" where
  "read_state d = (case d of None \<Rightarrow> empty_state | Some s \<Rightarrow> s)"

definition write_state :: "task_ledger \<Rightarrow> task_ledger" where
  "write_state L = L\<lparr>disk := Some (mem L)\<rparr>"

definition emit :: "dag_event \<Rightarrow> task_ledger \<Rightarrow> task_ledger" where
  "emit e L = L\<lparr>log := log L @ [e]\<rparr>"

text \<open>\<open>TaskLedger(root)\<close> on an existing directory: the process state is gone, the files stay.\<close>

definition open_ledger :: "dag_state option \<Rightarrow> dag_event list \<Rightarrow> task_ledger" where
  "open_ledger d es = \<lparr>mem = read_state d, disk = d, log = es\<rparr>"

section \<open>The dependency graph\<close>

definition deps_of :: "(string, task_row) dict \<Rightarrow> string \<Rightarrow> string list" where
  "deps_of ts n = (case dict_get ts n of None \<Rightarrow> [] | Some r \<Rightarrow> row_deps r)"

text \<open>The frontier loop of \<open>add_task\<close>: pop from the end, skip what was seen, push dependencies.\<close>

function cycle_search :: "(string, task_row) dict \<Rightarrow> string \<Rightarrow> string list \<Rightarrow> string list \<Rightarrow> bool" where
  "cycle_search ts clean frontier seen =
     (if frontier = [] then False
      else (let node = last frontier; rest = butlast frontier in
            if node = clean then True
            else if node \<in> set seen then cycle_search ts clean rest seen
            else cycle_search ts clean (rest @ deps_of ts node) (node # seen)))"
  by pat_completeness auto
termination
proof (relation "measures [\<lambda>(ts, clean, frontier, seen). card (set (dict_keys ts) - set seen),
                            \<lambda>(ts, clean, frontier, seen). length frontier]", goal_cases)
  case (3 ts clean frontier seen node rest)
  show ?case
  proof (cases "node \<in> set (dict_keys ts)")
    case True
    with 3 have "set (dict_keys ts) - set (node # seen) \<subset> set (dict_keys ts) - set seen" by auto
    then have "card (set (dict_keys ts) - set (node # seen)) < card (set (dict_keys ts) - set seen)"
      by (intro psubset_card_mono) auto
    then show ?thesis by simp
  next
    case False
    then have "dict_get ts node = None" by (simp add: dict_get_None_iff)
    moreover have "set (dict_keys ts) - insert node (set seen) = set (dict_keys ts) - set seen"
      using False by auto
    ultimately show ?thesis using 3 by (simp add: deps_of_def)
  qed
qed auto

declare cycle_search.simps [simp del]

definition add_task :: "string \<Rightarrow> string list \<Rightarrow> task_ledger \<Rightarrow> task_ledger \<times> (dag_error + task_status)" where
  "add_task task_id dependencies L =
     (let clean = py_strip task_id;
          deps = filter (\<lambda>d. d \<noteq> []) (map py_strip dependencies);
          ts = tasks (mem L)
      in if clean = [] then (L, Inl TaskDagError)
         else if dict_get ts clean \<noteq> None then (L, Inl DuplicateTaskRefused)
         else if clean \<in> set deps then (L, Inl DAGCycleRefused)
         else if cycle_search ts clean deps [] then (L, Inl DAGCycleRefused)
         else let row = \<lparr>row_status = PENDING, row_deps = deps\<rparr>;
                  L1 = L\<lparr>mem := (mem L)\<lparr>tasks := dict_set clean row ts\<rparr>\<rparr>
              in (emit (TaskAdded clean deps) (write_state L1), Inr PENDING))"

definition task_row_of :: "task_ledger \<Rightarrow> string \<Rightarrow> dag_error + task_row" where
  "task_row_of L task_id =
     (case dict_get (tasks (mem L)) (py_strip task_id) of None \<Rightarrow> Inl TaskDagError | Some r \<Rightarrow> Inr r)"

definition set_status :: "string \<Rightarrow> task_status \<Rightarrow> task_ledger \<Rightarrow> task_ledger \<times> (dag_error + unit)" where
  "set_status task_id status L =
     (case task_row_of L task_id of
        Inl e \<Rightarrow> (L, Inl e)
      | Inr row \<Rightarrow>
          let clean = py_strip task_id in
          if row_status row = COMPLETE \<and> status \<noteq> COMPLETE then (L, Inl TaskDagError)
          else let L1 = L\<lparr>mem := (mem L)\<lparr>tasks := dict_set clean (row\<lparr>row_status := status\<rparr>) (tasks (mem L))\<rparr>\<rparr>
               in (emit (TaskStatusSet clean status) (write_state L1), Inr ()))"

definition status_of :: "task_ledger \<Rightarrow> string \<Rightarrow> task_status option" where
  "status_of L task_id = map_option row_status (dict_get (tasks (mem L)) (py_strip task_id))"

definition dependencies_of :: "task_ledger \<Rightarrow> string \<Rightarrow> dag_error + string list" where
  "dependencies_of L task_id =
     (case task_row_of L task_id of Inl e \<Rightarrow> Inl e | Inr row \<Rightarrow> Inr (row_deps row))"

definition incomplete_dependencies :: "task_ledger \<Rightarrow> string \<Rightarrow> dag_error + string list" where
  "incomplete_dependencies L task_id =
     (case task_row_of L task_id of
        Inl e \<Rightarrow> Inl e
      | Inr row \<Rightarrow> Inr (filter (\<lambda>dep. case dict_get (tasks (mem L)) dep of
                                         None \<Rightarrow> True | Some r \<Rightarrow> row_status r \<noteq> COMPLETE) (row_deps row)))"

section \<open>Writer leases\<close>

definition lease_rows_live :: "time \<Rightarrow> task_ledger \<Rightarrow> (string, writer_lease) dict" where
  "lease_rows_live now L = filter (\<lambda>(lid, row). now < expires_at row) (leases (mem L))"

definition live_leases :: "time \<Rightarrow> task_ledger \<Rightarrow> writer_lease list" where
  "live_leases now L = map snd (lease_rows_live now L)"

definition fencing_epoch :: "task_ledger \<Rightarrow> string \<Rightarrow> int" where
  "fencing_epoch L task_id = (case dict_get (fence_last (mem L)) (py_strip task_id) of None \<Rightarrow> 0 | Some n \<Rightarrow> n)"

definition pop_lease :: "string \<Rightarrow> task_ledger \<Rightarrow> task_ledger" where
  "pop_lease lid L = L\<lparr>mem := (mem L)\<lparr>leases := dict_pop lid (leases (mem L))\<rparr>\<rparr>"

text \<open>The first loop of \<open>acquire_lease\<close>, over the snapshot \<open>list(self._state["leases"].items())\<close>;
  \<open>Some other\<close> is the lease the refusal names.\<close>

fun claim_loop :: "string \<Rightarrow> string list \<Rightarrow> string \<Rightarrow> time \<Rightarrow> (string, writer_lease) dict \<Rightarrow> task_ledger
                   \<Rightarrow> task_ledger \<times> writer_lease option" where
  "claim_loop clean scope who now [] L = (L, None)"
| "claim_loop clean scope who now ((lid, other) # rest) L =
     (let same_task = (lease_task other = clean) in
      if expires_at other \<le> now then claim_loop clean scope who now rest L
      else if \<not> same_task \<and> \<not> scopes_overlap (lease_scope other) scope
           then claim_loop clean scope who now rest L
      else if same_task \<and> lease_holder other = who
           then claim_loop clean scope who now rest (emit (LeaseRenewed clean who lid) (pop_lease lid L))
      else (L, Some other))"

text \<open>The second loop: stale leases on this authority are broken on the way in.\<close>

fun sweep_loop :: "string \<Rightarrow> string list \<Rightarrow> time \<Rightarrow> (string, writer_lease) dict \<Rightarrow> task_ledger \<Rightarrow> task_ledger" where
  "sweep_loop clean scope now [] L = L"
| "sweep_loop clean scope now ((lid, other) # rest) L =
     (if now < expires_at other then sweep_loop clean scope now rest L
      else if scopes_overlap (lease_scope other) scope \<or> lease_task other = clean
           then sweep_loop clean scope now rest (emit (LeaseBroken lid (lease_task other) (Some clean)) (pop_lease lid L))
      else sweep_loop clean scope now rest L)"

definition grant_lease :: "string \<Rightarrow> string list \<Rightarrow> string \<Rightarrow> time \<Rightarrow> time \<Rightarrow> string \<Rightarrow> task_ledger
                           \<Rightarrow> task_ledger \<times> writer_lease" where
  "grant_lease clean scope who ttl now fresh L =
     (let epoch = fence_global (mem L) + 1;
          lease = \<lparr>lease_id = fresh, lease_task = clean, lease_scope = scope, lease_holder = who,
                   fencing_counter = epoch, acquired_at = now, expires_at = now + ttl\<rparr>;
          L1 = L\<lparr>mem := (mem L)\<lparr>leases := dict_set fresh lease (leases (mem L)), fence_global := epoch,
                                fence_last := dict_set clean epoch (fence_last (mem L))\<rparr>\<rparr>
      in (emit (LeaseAcquired lease) (write_state L1), lease))"

definition acquire_lease :: "string \<Rightarrow> string list \<Rightarrow> string \<Rightarrow> time \<Rightarrow> time \<Rightarrow> string \<Rightarrow> task_ledger
                             \<Rightarrow> task_ledger \<times> (dag_error + writer_lease)" where
  "acquire_lease task_id scope who ttl now fresh L =
     (let clean = py_strip task_id;
          clean_scope = py_unique (filter (\<lambda>i. i \<noteq> []) (map py_strip scope))
      in if clean_scope = [] then (L, Inl TaskDagError)
         else if ttl < 1 then (L, Inl TaskDagError)
         else case task_row_of L clean of
             Inl e \<Rightarrow> (L, Inl e)
           | Inr row \<Rightarrow>
               if row_status row = COMPLETE then (L, Inl TaskDagError)
               else case claim_loop clean clean_scope who now (leases (mem L)) L of
                   (L1, Some other) \<Rightarrow> (L1, Inl (OverlappingWriterRefused other))
                 | (L1, None) \<Rightarrow>
                     let L2 = sweep_loop clean clean_scope now (leases (mem L1)) L1;
                         (L3, lease) = grant_lease clean clean_scope who ttl now fresh L2
                     in (L3, Inr lease))"

definition break_stale_lease :: "string \<Rightarrow> time \<Rightarrow> task_ledger \<Rightarrow> task_ledger \<times> bool" where
  "break_stale_lease lid now L =
     (case dict_get (leases (mem L)) lid of
        None \<Rightarrow> (L, False)
      | Some row \<Rightarrow>
          if now < expires_at row then (L, False)
          else (emit (LeaseBroken lid (lease_task row) None) (write_state (pop_lease lid L)), True))"

definition commit_with_lease :: "string \<Rightarrow> int \<Rightarrow> string \<Rightarrow> time \<Rightarrow> task_ledger
                                 \<Rightarrow> task_ledger \<times> (dag_error + task_commit)" where
  "commit_with_lease lid counter payload now L =
     (case dict_get (leases (mem L)) lid of
        None \<Rightarrow> (L, Inl StaleLeaseRefused)
      | Some row \<Rightarrow>
          if expires_at row \<le> now then (L, Inl StaleLeaseRefused)
          else if counter \<noteq> fencing_counter row then (L, Inl StaleLeaseRefused)
          else (emit (TaskCommitted (lease_task row) lid counter payload now) L,
                Inr \<lparr>commit_task = lease_task row, commit_lease = lid, commit_counter = counter,
                     commit_payload = payload, committed_at = now\<rparr>))"

text \<open>The ledger's operations as one step, and a restart that reads the snapshot back.\<close>

datatype dag_op =
    AddTask string "string list"
  | SetStatus string task_status
  | Acquire string "string list" string time time string
  | BreakStale string time
  | Commit string int string time
  | Restart

fun dag_step :: "dag_op \<Rightarrow> task_ledger \<Rightarrow> task_ledger" where
  "dag_step (AddTask t ds) L = fst (add_task t ds L)"
| "dag_step (SetStatus t s) L = fst (set_status t s L)"
| "dag_step (Acquire t sc who ttl now fresh) L = fst (acquire_lease t sc who ttl now fresh L)"
| "dag_step (BreakStale lid now) L = fst (break_stale_lease lid now L)"
| "dag_step (Commit lid c p now) L = fst (commit_with_lease lid c p now L)"
| "dag_step Restart L = open_ledger (disk L) (log L)"

definition dag_run :: "dag_op list \<Rightarrow> task_ledger" where
  "dag_run ops = fold dag_step ops (open_ledger None [])"

section \<open>Overlap\<close>

lemma paths_overlap_sym: "paths_overlap a b = paths_overlap b a"
  by (simp add: paths_overlap_def Let_def min.commute) metis

lemma scopes_overlap_iff: "scopes_overlap xs ys \<longleftrightarrow> (\<exists>a\<in>set xs. \<exists>b\<in>set ys. paths_overlap a b)"
  by (simp add: scopes_overlap_def list_ex_iff)

lemma scopes_overlap_sym: "scopes_overlap xs ys = scopes_overlap ys xs"
  unfolding scopes_overlap_iff using paths_overlap_sym by blast

lemma take_min_prefix: "take (min (length xs) (length ys)) xs = take (min (length xs) (length ys)) ys
    \<longleftrightarrow> prefix xs ys \<or> prefix ys xs"
proof (cases "length xs \<le> length ys")
  case True
  then show ?thesis by (auto simp: min_def prefix_def append_eq_conv_conj) (metis append_take_drop_id)
next
  case False
  then show ?thesis by (auto simp: min_def prefix_def append_eq_conv_conj) (metis append_take_drop_id)
qed

text \<open>Overlap is containment of component lists, never of strings.\<close>

lemma paths_overlap_prefix:
  "paths_overlap a b \<longleftrightarrow> components a \<noteq> [] \<and> components b \<noteq> []
     \<and> (prefix (components a) (components b) \<or> prefix (components b) (components a))"
  by (auto simp: paths_overlap_def Let_def take_min_prefix)

section \<open>The cycle search\<close>

definition dep_rel :: "(string, task_row) dict \<Rightarrow> (string \<times> string) set" where
  "dep_rel ts = {(a, b). b \<in> set (deps_of ts a)}"

lemma cycle_search_sound:
  "cycle_search ts clean frontier seen \<Longrightarrow> \<exists>f\<in>set frontier. (f, clean) \<in> (dep_rel ts)\<^sup>*"
proof (induction ts clean frontier seen rule: cycle_search.induct)
  case (1 ts clean frontier seen)
  then have ne: "frontier \<noteq> []" by (auto simp: cycle_search.simps [of ts clean frontier])
  let ?n = "last frontier" and ?r = "butlast frontier"
  have fr: "set frontier = insert ?n (set ?r)" using ne by (metis append_butlast_last_id set_append Un_insert_right list.simps(15) Un_empty_right empty_set)
  consider "?n = clean" | "?n \<noteq> clean" "?n \<in> set seen" | "?n \<noteq> clean" "?n \<notin> set seen" by blast
  then show ?case
  proof cases
    case 1 then show ?thesis using fr by auto
  next
    case 2
    with "1.prems" ne have "cycle_search ts clean ?r seen"
      by (simp add: cycle_search.simps [of ts clean frontier] Let_def)
    with "1.IH"(1) [OF ne refl refl] 2 show ?thesis using fr by auto
  next
    case 3
    with "1.prems" ne have "cycle_search ts clean (?r @ deps_of ts ?n) (?n # seen)"
      by (simp add: cycle_search.simps [of ts clean frontier] Let_def)
    with "1.IH"(2) [OF ne refl refl] 3 obtain f where
      f: "f \<in> set ?r \<or> f \<in> set (deps_of ts ?n)" "(f, clean) \<in> (dep_rel ts)\<^sup>*" by auto
    then show ?thesis
    proof (elim disjE)
      assume "f \<in> set (deps_of ts ?n)"
      then have "(?n, f) \<in> dep_rel ts" by (simp add: dep_rel_def)
      then have "(?n, clean) \<in> (dep_rel ts)\<^sup>*" using f(2) by (rule converse_rtrancl_into_rtrancl)
      then show ?thesis using fr by auto
    qed (use fr in auto)
  qed
qed

lemma cycle_search_complete:
  "\<not> cycle_search ts clean frontier seen \<Longrightarrow> clean \<notin> set seen \<Longrightarrow>
   (\<forall>x\<in>set seen. set (deps_of ts x) \<subseteq> set seen \<union> set frontier) \<Longrightarrow>
   \<exists>S. set frontier \<union> set seen \<subseteq> S \<and> clean \<notin> S \<and> (\<forall>x\<in>S. set (deps_of ts x) \<subseteq> S)"
proof (induction ts clean frontier seen rule: cycle_search.induct)
  case (1 ts clean frontier seen)
  show ?case
  proof (cases "frontier = []")
    case True
    with "1.prems" show ?thesis by (intro exI [of _ "set seen"]) auto
  next
    case ne: False
    let ?n = "last frontier" and ?r = "butlast frontier"
    have fr: "set frontier = insert ?n (set ?r)" using ne by (metis append_butlast_last_id set_append Un_insert_right list.simps(15) Un_empty_right empty_set)
    have nc: "?n \<noteq> clean" using "1.prems"(1) ne by (auto simp: cycle_search.simps [of ts clean frontier] Let_def)
    show ?thesis
    proof (cases "?n \<in> set seen")
      case True
      with "1.prems"(1) ne nc have "\<not> cycle_search ts clean ?r seen"
        by (simp add: cycle_search.simps [of ts clean frontier] Let_def)
      moreover have "\<forall>x\<in>set seen. set (deps_of ts x) \<subseteq> set seen \<union> set ?r"
        using "1.prems"(3) fr True by auto
      ultimately obtain S where "set ?r \<union> set seen \<subseteq> S" "clean \<notin> S" "\<forall>x\<in>S. set (deps_of ts x) \<subseteq> S"
        using "1.IH"(1) [OF ne refl refl nc True] "1.prems"(2) by blast
      then show ?thesis using fr True by (intro exI [of _ S]) auto
    next
      case False
      with "1.prems"(1) ne nc have "\<not> cycle_search ts clean (?r @ deps_of ts ?n) (?n # seen)"
        by (simp add: cycle_search.simps [of ts clean frontier] Let_def)
      moreover have "\<forall>x\<in>set (?n # seen). set (deps_of ts x) \<subseteq> set (?n # seen) \<union> set (?r @ deps_of ts ?n)"
        using "1.prems"(3) fr by auto
      ultimately obtain S where "set (?r @ deps_of ts ?n) \<union> set (?n # seen) \<subseteq> S" "clean \<notin> S"
          "\<forall>x\<in>S. set (deps_of ts x) \<subseteq> S"
        using "1.IH"(2) [OF ne refl refl nc False] "1.prems"(2) nc by auto
      then show ?thesis using fr by (intro exI [of _ S]) auto
    qed
  qed
qed

lemma closed_rtrancl: "(a, b) \<in> (dep_rel ts)\<^sup>* \<Longrightarrow> a \<in> S \<Longrightarrow> (\<forall>x\<in>S. set (deps_of ts x) \<subseteq> S) \<Longrightarrow> b \<in> S"
  by (induction rule: rtrancl_induct) (auto simp: dep_rel_def)

lemma cycle_search_iff:
  "cycle_search ts clean ds [] \<longleftrightarrow> (\<exists>d\<in>set ds. (d, clean) \<in> (dep_rel ts)\<^sup>*)"
proof
  show "cycle_search ts clean ds [] \<Longrightarrow> \<exists>d\<in>set ds. (d, clean) \<in> (dep_rel ts)\<^sup>*"
    by (rule cycle_search_sound)
  assume ex: "\<exists>d\<in>set ds. (d, clean) \<in> (dep_rel ts)\<^sup>*"
  show "cycle_search ts clean ds []"
  proof (rule ccontr)
    assume "\<not> cycle_search ts clean ds []"
    then obtain S where "set ds \<subseteq> S" "clean \<notin> S" "\<forall>x\<in>S. set (deps_of ts x) \<subseteq> S"
      using cycle_search_complete [of ts clean ds "[]"] by auto
    with ex show False using closed_rtrancl by blast
  qed
qed

lemma dep_rel_add:
  assumes "dict_get ts c = None"
  shows "dep_rel (dict_set c \<lparr>row_status = st, row_deps = ds\<rparr> ts) = dep_rel ts \<union> {c} \<times> set ds"
  using assms by (auto simp: dep_rel_def deps_of_def split: if_splits)

lemma acyclic_add:
  assumes "acyclic r" and "\<forall>d\<in>D. d \<noteq> c" and "\<forall>d\<in>D. (d, c) \<notin> r\<^sup>*"
  shows "acyclic (r \<union> {c} \<times> D)"
proof (rule acyclicI, intro allI notI)
  fix x assume cyc: "(x, x) \<in> (r \<union> {c} \<times> D)\<^sup>+"
  have step: "(a, b) \<in> (r \<union> {c} \<times> D)\<^sup>+ \<Longrightarrow> (a, b) \<in> r\<^sup>+ \<or> (a, c) \<in> r\<^sup>* \<and> (\<exists>d\<in>D. (d, b) \<in> r\<^sup>*)" for a b
  proof (induction rule: trancl_induct)
    case (base y)
    then show ?case by auto
  next
    case (step y z)
    then show ?case
      by (auto intro: trancl_into_trancl rtrancl_into_rtrancl trancl_into_rtrancl)
  qed
  from step [OF cyc] assms(1) obtain d where d: "d \<in> D" "(x, c) \<in> r\<^sup>*" "(d, x) \<in> r\<^sup>*"
    unfolding acyclic_def by blast
  then have "(d, c) \<in> r\<^sup>*" by auto
  with assms(3) d(1) show False by blast
qed

section \<open>The ledger invariant\<close>

definition exclusive :: "(string, writer_lease) dict \<Rightarrow> bool" where
  "exclusive ls \<longleftrightarrow> (\<forall>(i, a)\<in>set ls. \<forall>(j, b)\<in>set ls. i \<noteq> j \<longrightarrow>
     lease_task a \<noteq> lease_task b \<and> \<not> scopes_overlap (lease_scope a) (lease_scope b))"

definition state_inv :: "dag_state \<Rightarrow> bool" where
  "state_inv s \<longleftrightarrow> wf_dict (tasks s) \<and> wf_dict (leases s) \<and> acyclic (dep_rel (tasks s))
     \<and> exclusive (leases s)
     \<and> (\<forall>(i, a)\<in>set (leases s). lease_id a = i \<and> fencing_counter a \<le> fence_global s)"

definition ledger_inv :: "task_ledger \<Rightarrow> bool" where
  "ledger_inv L \<longleftrightarrow> state_inv (mem L) \<and> state_inv (read_state (disk L))
     \<and> tasks (read_state (disk L)) = tasks (mem L)
     \<and> fence_global (read_state (disk L)) = fence_global (mem L)
     \<and> fence_last (read_state (disk L)) = fence_last (mem L)
     \<and> set (leases (mem L)) \<subseteq> set (leases (read_state (disk L)))"

lemma exclusive_subset: "exclusive ls \<Longrightarrow> set ls' \<subseteq> set ls \<Longrightarrow> exclusive ls'"
  unfolding exclusive_def by blast

lemma state_inv_leases:
  "state_inv s \<Longrightarrow> set ls \<subseteq> set (leases s) \<Longrightarrow> wf_dict ls \<Longrightarrow> state_inv (s\<lparr>leases := ls\<rparr>)"
  unfolding state_inv_def by (auto intro: exclusive_subset)

lemma write_state_simps [simp]:
  "mem (write_state L) = mem L" "disk (write_state L) = Some (mem L)" "log (write_state L) = log L"
  by (simp_all add: write_state_def)

lemma emit_simps [simp]:
  "mem (emit e L) = mem L" "disk (emit e L) = disk L" "log (emit e L) = log L @ [e]"
  by (simp_all add: emit_def)

lemma read_state_Some [simp]: "read_state (Some s) = s"
  by (simp add: read_state_def)

lemma ledger_inv_written [inv_intros]: "state_inv (mem L) \<Longrightarrow> disk L = Some (mem L) \<Longrightarrow> ledger_inv L"
  by (simp add: ledger_inv_def)

lemma ledger_inv_shrunk:
  assumes "ledger_inv L" and "mem L' = (mem L)\<lparr>leases := ls\<rparr>" and "disk L' = disk L"
    and "set ls \<subseteq> set (leases (mem L))" and "wf_dict ls"
  shows "ledger_inv L'"
  using assms by (auto simp: ledger_inv_def intro: state_inv_leases)

lemma state_inv_empty: "state_inv empty_state"
  by (simp add: state_inv_def empty_state_def exclusive_def dep_rel_def deps_of_def acyclic_def)

lemma ledger_inv_open: "state_inv (read_state d) \<Longrightarrow> ledger_inv (open_ledger d es)"
  by (simp add: ledger_inv_def open_ledger_def)

lemma dep_rel_update_status:
  "dict_get ts c = Some row \<Longrightarrow> dep_rel (dict_set c (row\<lparr>row_status := st\<rparr>) ts) = dep_rel ts"
  by (auto simp: dep_rel_def deps_of_def split: if_splits)

lemma state_inv_add_task:
  assumes "state_inv s" and "dict_get (tasks s) c = None" and "c \<notin> set ds"
    and "\<not> cycle_search (tasks s) c ds []"
  shows "state_inv (s\<lparr>tasks := dict_set c \<lparr>row_status = st, row_deps = ds\<rparr> (tasks s)\<rparr>)"
  using assms by (auto simp: state_inv_def dep_rel_add cycle_search_iff intro!: acyclic_add)

lemma add_task_inv [inv_intros]: "ledger_inv L \<Longrightarrow> ledger_inv (fst (add_task t ds L))"
  by (auto simp: add_task_def Let_def ledger_inv_def intro!: state_inv_add_task)

lemma set_status_inv [inv_intros]: "ledger_inv L \<Longrightarrow> ledger_inv (fst (set_status t s L))"
  by (auto simp: set_status_def Let_def task_row_of_def ledger_inv_def state_inv_def
      dep_rel_update_status split: option.splits sum.splits)

lemma claim_loop_frame:
  "claim_loop c sc w now xs L = (L', r) \<Longrightarrow>
   \<exists>ls. mem L' = (mem L)\<lparr>leases := ls\<rparr> \<and> disk L' = disk L \<and> set ls \<subseteq> set (leases (mem L))
     \<and> (wf_dict (leases (mem L)) \<longrightarrow> wf_dict ls)"
proof (induction c sc w now xs L rule: claim_loop.induct)
  case (1 c sc w now L)
  then show ?case by (intro exI [of _ "leases (mem L)"]) auto
next
  case (2 c sc w now lid other rest L)
  show ?case
  proof (cases "now < expires_at other \<and> lease_task other = c \<and> lease_holder other = w")
    case True
    with 2(3) [OF refl] 2(4)
    obtain ls where "mem L' = (mem (pop_lease lid L))\<lparr>leases := ls\<rparr>" "disk L' = disk (pop_lease lid L)"
        "set ls \<subseteq> set (leases (mem (pop_lease lid L)))"
        "wf_dict (leases (mem (pop_lease lid L))) \<longrightarrow> wf_dict ls"
      by (auto simp: Let_def)
    then show ?thesis
      by (intro exI [of _ ls]) (auto simp: pop_lease_def set_dict_pop)
  next
    case False
    with 2(1,2) [OF refl] 2(4) show ?thesis
      by (auto simp: Let_def split: if_splits intro: exI [of _ "leases (mem L)"])
  qed
qed

lemma sweep_loop_frame:
  "\<exists>ls. mem (sweep_loop c sc now xs L) = (mem L)\<lparr>leases := ls\<rparr> \<and> disk (sweep_loop c sc now xs L) = disk L
     \<and> set ls \<subseteq> set (leases (mem L)) \<and> (wf_dict (leases (mem L)) \<longrightarrow> wf_dict ls)"
proof (induction c sc now xs L rule: sweep_loop.induct)
  case (1 c sc now L)
  then show ?case by (intro exI [of _ "leases (mem L)"]) auto
next
  case (2 c sc now lid other rest L)
  show ?case
  proof (cases "\<not> now < expires_at other \<and> (scopes_overlap (lease_scope other) sc \<or> lease_task other = c)")
    case True
    let ?L = "emit (LeaseBroken lid (lease_task other) (Some c)) (pop_lease lid L)"
    from True 2(2) obtain ls where "mem (sweep_loop c sc now rest ?L) = (mem ?L)\<lparr>leases := ls\<rparr>"
        "disk (sweep_loop c sc now rest ?L) = disk ?L" "set ls \<subseteq> set (leases (mem ?L))"
        "wf_dict (leases (mem ?L)) \<longrightarrow> wf_dict ls" by auto
    with True show ?thesis
      by (intro exI [of _ ls]) (auto simp: pop_lease_def set_dict_pop)
  qed (use 2(1,3) in auto)
qed

text \<open>After the first loop no live lease of this task or on this scope is left; after the second no
  stale one is.\<close>

lemma claim_loop_cleared:
  "claim_loop c sc w now xs L = (L', None) \<Longrightarrow> (lid, o') \<in> set xs \<Longrightarrow> now < expires_at o' \<Longrightarrow>
   (lid, o') \<in> set (leases (mem L')) \<Longrightarrow> lease_task o' \<noteq> c \<and> \<not> scopes_overlap (lease_scope o') sc"
proof (induction c sc w now xs L rule: claim_loop.induct)
  case (2 c sc w now lid2 other rest L)
  show ?case
  proof (cases "now < expires_at other \<and> lease_task other = c \<and> lease_holder other = w")
    case True
    let ?L = "emit (LeaseRenewed c w lid2) (pop_lease lid2 L)"
    from True 2(4) have run: "claim_loop c sc w now rest ?L = (L', None)" by (simp add: Let_def)
    show ?thesis
    proof (cases "(lid, o') = (lid2, other)")
      case eq: True
      from claim_loop_frame [OF run] 2(7) have "(lid, o') \<in> set (dict_pop lid2 (leases (mem L)))"
        by (auto simp: pop_lease_def)
      with eq show ?thesis by (simp add: set_dict_pop)
    qed (use 2(3) [OF refl] True run 2(5-7) in auto)
  next
    case False
    with 2(1,2) [OF refl] 2(4-7) show ?thesis by (auto simp: Let_def split: if_splits)
  qed
qed simp

lemma sweep_loop_cleared:
  "(lid, o') \<in> set xs \<Longrightarrow> \<not> now < expires_at o' \<Longrightarrow>
   (lid, o') \<in> set (leases (mem (sweep_loop c sc now xs L))) \<Longrightarrow>
   lease_task o' \<noteq> c \<and> \<not> scopes_overlap (lease_scope o') sc"
proof (induction c sc now xs L rule: sweep_loop.induct)
  case (2 c sc now lid2 other rest L)
  show ?case
  proof (cases "\<not> now < expires_at other \<and> (scopes_overlap (lease_scope other) sc \<or> lease_task other = c)")
    case True
    let ?L = "emit (LeaseBroken lid2 (lease_task other) (Some c)) (pop_lease lid2 L)"
    show ?thesis
    proof (cases "(lid, o') = (lid2, other)")
      case eq: True
      from sweep_loop_frame [of c sc now rest ?L] True 2(6)
      have "(lid, o') \<in> set (dict_pop lid2 (leases (mem L)))" by (auto simp: pop_lease_def)
      with eq show ?thesis by (simp add: set_dict_pop)
    qed (use 2 True in auto)
  qed (use 2 in \<open>auto split: if_splits\<close>)
qed simp

lemma grant_lease_fields:
  "grant_lease c sc w ttl now fresh L = (L', l) \<Longrightarrow>
     mem L' = (mem L)\<lparr>leases := dict_set fresh l (leases (mem L)), fence_global := fence_global (mem L) + 1,
                      fence_last := dict_set c (fence_global (mem L) + 1) (fence_last (mem L))\<rparr>
     \<and> disk L' = Some (mem L') \<and> lease_id l = fresh \<and> lease_task l = c \<and> lease_scope l = sc
     \<and> lease_holder l = w \<and> fencing_counter l = fence_global (mem L) + 1 \<and> expires_at l = now + ttl"
  by (auto simp: grant_lease_def Let_def)

lemma grant_lease_fence:
  "(L', l) = grant_lease c sc w ttl now fresh L \<Longrightarrow> fence_global (mem L') = fence_global (mem L) + 1"
  using grant_lease_fields [of c sc w ttl now fresh L L' l] by simp

lemma grant_lease_inv:
  assumes inv: "state_inv (mem L)"
    and clear: "\<forall>(i, a)\<in>set (leases (mem L)). lease_task a \<noteq> c \<and> \<not> scopes_overlap (lease_scope a) sc"
  shows "ledger_inv (fst (grant_lease c sc w ttl now fresh L))"
proof (rule ledger_inv_written)
  show "disk (fst (grant_lease c sc w ttl now fresh L)) = Some (mem (fst (grant_lease c sc w ttl now fresh L)))"
    by (simp add: grant_lease_def Let_def)
  have "scopes_overlap sc (lease_scope a) = scopes_overlap (lease_scope a) sc" for a
    by (rule scopes_overlap_sym)
  with inv clear show "state_inv (mem (fst (grant_lease c sc w ttl now fresh L)))"
    by (fastforce simp: grant_lease_def Let_def state_inv_def exclusive_def set_dict_set)
qed

text \<open>One successful acquisition: what was cleared away, and what was granted.\<close>

lemma acquire_lease_Inr:
  assumes inv: "ledger_inv L" and acq: "acquire_lease t sc w ttl now fresh L = (L', Inr l)"
  obtains L2 c sc' where "c = py_strip t" "sc' = py_unique (filter (\<lambda>i. i \<noteq> []) (map py_strip sc))"
    "(L', l) = grant_lease c sc' w ttl now fresh L2" "state_inv (mem L2)" "sc' \<noteq> []"
    "fence_global (mem L2) = fence_global (mem L)" "tasks (mem L2) = tasks (mem L)"
    "set (leases (mem L2)) \<subseteq> set (leases (mem L))"
    "\<forall>(i, a)\<in>set (leases (mem L2)). lease_task a \<noteq> c \<and> \<not> scopes_overlap (lease_scope a) sc'"
proof -
  let ?c = "py_strip t" and ?sc = "py_unique (filter (\<lambda>i. i \<noteq> []) (map py_strip sc))"
  from acq obtain L1 where L1: "claim_loop ?c ?sc w now (leases (mem L)) L = (L1, None)"
    and ne: "?sc \<noteq> []"
    and gr: "(L', l) = grant_lease ?c ?sc w ttl now fresh (sweep_loop ?c ?sc now (leases (mem L1)) L1)"
    by (auto simp: acquire_lease_def Let_def split: if_splits sum.splits prod.splits option.splits)
  let ?L2 = "sweep_loop ?c ?sc now (leases (mem L1)) L1"
  from claim_loop_frame [OF L1] obtain ls1 where ls1: "mem L1 = (mem L)\<lparr>leases := ls1\<rparr>"
      "set ls1 \<subseteq> set (leases (mem L))" "wf_dict (leases (mem L)) \<longrightarrow> wf_dict ls1" by blast
  from sweep_loop_frame [of ?c ?sc now "leases (mem L1)" L1] obtain ls2 where
      ls2: "mem ?L2 = (mem L1)\<lparr>leases := ls2\<rparr>" "set ls2 \<subseteq> set ls1" "wf_dict ls1 \<longrightarrow> wf_dict ls2"
    using ls1 by auto
  have "state_inv (mem L)" using inv by (simp add: ledger_inv_def)
  then have inv2: "state_inv (mem ?L2)"
    using ls1 ls2 state_inv_leases [of "mem L" ls2] by (auto simp: state_inv_def)
  have clear: "lease_task a \<noteq> ?c \<and> \<not> scopes_overlap (lease_scope a) ?sc"
    if "(i, a) \<in> set (leases (mem ?L2))" for i a
  proof (cases "now < expires_at a")
    case True
    then show ?thesis using claim_loop_cleared [OF L1] that ls1 ls2 by auto
  next
    case False
    then show ?thesis using sweep_loop_cleared [of i a "leases (mem L1)" now ?c ?sc L1] that ls1 ls2 by auto
  qed
  show thesis
    by (rule that [OF refl refl gr inv2 ne]) (use ls1 ls2 clear in auto)
qed

lemma acquire_refused:
  assumes "snd (acquire_lease t sc w ttl now fresh L) = Inl e"
  shows "fst (acquire_lease t sc w ttl now fresh L) = L
    \<or> (\<exists>c sc' r. claim_loop c sc' w now (leases (mem L)) L = (fst (acquire_lease t sc w ttl now fresh L), r))"
  using assms by (auto simp: acquire_lease_def Let_def split: if_splits sum.splits prod.splits option.splits)

lemma claim_loop_ledger_inv:
  assumes "ledger_inv L" and "claim_loop c sc w now (leases (mem L)) L = (L1, r)"
  shows "ledger_inv L1"
proof -
  from claim_loop_frame [OF assms(2)] obtain ls where
    "mem L1 = (mem L)\<lparr>leases := ls\<rparr>" "disk L1 = disk L" "set ls \<subseteq> set (leases (mem L))"
    "wf_dict (leases (mem L)) \<longrightarrow> wf_dict ls" by blast
  moreover have "wf_dict (leases (mem L))" using assms(1) by (simp add: ledger_inv_def state_inv_def)
  ultimately show ?thesis using ledger_inv_shrunk [OF assms(1)] by blast
qed

lemma acquire_success:
  assumes "ledger_inv L" and "acquire_lease t sc w ttl now fresh L = (L', Inr l)"
  shows "ledger_inv L' \<and> fence_global (mem L') = fence_global (mem L) + 1"
proof (rule acquire_lease_Inr [OF assms])
  fix L2 c sc'
  assume g: "(L', l) = grant_lease c sc' w ttl now fresh L2" and i: "state_inv (mem L2)"
    and f: "fence_global (mem L2) = fence_global (mem L)"
    and cl: "\<forall>(i, a)\<in>set (leases (mem L2)). lease_task a \<noteq> c \<and> \<not> scopes_overlap (lease_scope a) sc'"
  from grant_lease_inv [OF i cl, of w ttl now fresh] have "ledger_inv L'" unfolding g [symmetric] by simp
  with grant_lease_fence [OF g] f show ?thesis by simp
qed

lemma acquire_lease_inv [inv_intros]:
  assumes "ledger_inv L"
  shows "ledger_inv (fst (acquire_lease t sc w ttl now fresh L))"
proof (cases "snd (acquire_lease t sc w ttl now fresh L)")
  case (Inr l)
  then show ?thesis using acquire_success [OF assms, of t sc w ttl now fresh _ l] by (metis prod.collapse)
next
  case (Inl e)
  from acquire_refused [OF this] claim_loop_ledger_inv [OF assms] assms show ?thesis by auto
qed

lemma break_stale_inv [inv_intros]: "ledger_inv L \<Longrightarrow> ledger_inv (fst (break_stale_lease lid now L))"
  by (auto simp: break_stale_lease_def pop_lease_def set_dict_pop split: option.splits
      intro!: ledger_inv_written state_inv_leases) (auto simp: ledger_inv_def state_inv_def)

lemma commit_inv [inv_intros]: "ledger_inv L \<Longrightarrow> ledger_inv (fst (commit_with_lease lid n p now L))"
  by (auto simp: commit_with_lease_def ledger_inv_def split: option.splits)

lemma restart_inv [inv_intros]: "ledger_inv L \<Longrightarrow> ledger_inv (open_ledger (disk L) es)"
  by (rule ledger_inv_open) (simp add: ledger_inv_def)

lemma dag_step_inv: "ledger_inv L \<Longrightarrow> ledger_inv (dag_step op' L)"
  by (cases op') (simp_all add: inv_intros)

lemma ledger_inv_init: "ledger_inv (open_ledger None [])"
  by (rule ledger_inv_open) (simp add: read_state_def state_inv_empty)

lemma fence_global_step:
  assumes "ledger_inv L"
  shows "fence_global (mem L) \<le> fence_global (mem (dag_step op' L))"
proof (cases op')
  case (Acquire t sc w ttl now fresh)
  show ?thesis
  proof (cases "snd (acquire_lease t sc w ttl now fresh L)")
    case (Inr l)
    then have "fence_global (mem (fst (acquire_lease t sc w ttl now fresh L))) = fence_global (mem L) + 1"
      using acquire_success [OF assms, of t sc w ttl now fresh _ l] by (metis prod.collapse)
    with Acquire show ?thesis by simp
  next
    case (Inl e)
    from acquire_refused [OF this] claim_loop_frame Acquire show ?thesis by fastforce
  qed
qed (use assms in \<open>auto simp: add_task_def set_status_def break_stale_lease_def commit_with_lease_def
      pop_lease_def open_ledger_def ledger_inv_def Let_def split: option.splits sum.splits\<close>)

interpretation dag: fencing_authority "\<lambda>L. fence_global (mem L)" dag_step ledger_inv
  by unfold_locales (simp_all add: dag_step_inv fence_global_step)

lemma dag_run_inv: "ledger_inv (dag_run ops)"
  unfolding dag_run_def by (rule dag.run_good [OF ledger_inv_init])

lemma dag_run_state_inv: "state_inv (mem (dag_run ops))"
  using dag_run_inv [of ops] by (simp add: ledger_inv_def)

lemma live_leases_mem: "ledger_inv L \<Longrightarrow> a \<in> set (live_leases now L) \<Longrightarrow> (lease_id a, a) \<in> set (leases (mem L))"
  by (auto simp: live_leases_def lease_rows_live_def ledger_inv_def state_inv_def)

section \<open>Completion\<close>

lemma status_frame [frame_simps]: "tasks (mem L') = tasks (mem L) \<Longrightarrow> status_of L' t = status_of L t"
  by (simp add: status_of_def)

lemma acquire_tasks [frame_simps]:
  assumes "ledger_inv L"
  shows "tasks (mem (fst (acquire_lease t sc w ttl now fresh L))) = tasks (mem L)"
proof (cases "snd (acquire_lease t sc w ttl now fresh L)")
  case (Inl e)
  from acquire_refused [OF this] claim_loop_frame show ?thesis by fastforce
next
  case (Inr l)
  then have "acquire_lease t sc w ttl now fresh L = (fst (acquire_lease t sc w ttl now fresh L), Inr l)"
    by (metis prod.collapse)
  then show ?thesis
  proof (rule acquire_lease_Inr [OF assms])
    fix L2 c sc'
    assume "(fst (acquire_lease t sc w ttl now fresh L), l) = grant_lease c sc' w ttl now fresh L2"
      and "tasks (mem L2) = tasks (mem L)"
    then show ?thesis
      using grant_lease_fields [of c sc' w ttl now fresh L2 "fst (acquire_lease t sc w ttl now fresh L)" l] by simp
  qed
qed

lemma complete_step:
  assumes "ledger_inv L" and "status_of L t = Some COMPLETE"
  shows "status_of (dag_step x L) t = Some COMPLETE"
proof (cases x)
  case (Acquire t' sc w ttl now fresh)
  then show ?thesis using assms acquire_tasks [OF assms(1)] by (simp add: status_of_def)
next
  case Restart
  then show ?thesis using assms by (simp add: status_of_def open_ledger_def ledger_inv_def)
qed (use assms in \<open>auto simp: add_task_def set_status_def break_stale_lease_def commit_with_lease_def
       task_row_of_def pop_lease_def status_of_def Let_def split: option.splits\<close>)

lemma complete_run:
  "ledger_inv L \<Longrightarrow> status_of L t = Some COMPLETE \<Longrightarrow> status_of (fold dag_step ops L) t = Some COMPLETE"
  by (induction ops arbitrary: L) (simp_all add: complete_step dag_step_inv)

lemma complete_never_leases:
  "status_of L t = Some COMPLETE \<Longrightarrow> \<exists>e. acquire_lease t sc w ttl now fresh L = (L, Inl e)"
  by (auto simp: acquire_lease_def Let_def status_of_def task_row_of_def)

section \<open>Properties\<close>

text \<open>C3. One writer per authority: after any sequence of ledger operations, restarts included, two
  different live leases belong to different tasks and their writable scopes share no path.\<close>

theorem live_leases_exclusive:
  assumes "a \<in> set (live_leases now (dag_run ops))" and "b \<in> set (live_leases now (dag_run ops))"
    and "lease_id a \<noteq> lease_id b"
  shows "lease_task a \<noteq> lease_task b \<and> \<not> scopes_overlap (lease_scope a) (lease_scope b)"
proof -
  have "exclusive (leases (mem (dag_run ops)))"
    using dag_run_state_inv by (simp add: state_inv_def)
  with live_leases_mem [OF dag_run_inv assms(1)] live_leases_mem [OF dag_run_inv assms(2)] assms(3)
  show ?thesis unfolding exclusive_def by blast
qed

definition two_writers :: "dag_op list" where
  "two_writers = [AddTask ''a'' [], AddTask ''b'' [''a''],
     Acquire ''a'' [''core/council''] ''h1'' 60 100 ''lease-1'',
     Acquire ''b'' [''core/council-2''] ''h2'' 60 110 ''lease-2'']"

lemma two_writers_live:
  "map lease_id (live_leases 120 (dag_run two_writers)) = [''lease-1'', ''lease-2'']"
  by code_simp

theorem live_leases_exclusive_witness:
  "let ls = live_leases 120 (dag_run two_writers)
   in lease_task (ls ! 0) \<noteq> lease_task (ls ! 1) \<and> \<not> scopes_overlap (lease_scope (ls ! 0)) (lease_scope (ls ! 1))"
proof -
  let ?ls = "live_leases 120 (dag_run two_writers)"
  have len: "length ?ls = 2" using arg_cong [OF two_writers_live, of length] by simp
  then have "lease_id (?ls ! 0) = ''lease-1''" "lease_id (?ls ! 1) = ''lease-2''"
    using arg_cong [OF two_writers_live, of "\<lambda>x. x ! 0"] arg_cong [OF two_writers_live, of "\<lambda>x. x ! 1"]
    by simp_all
  moreover have "?ls ! 0 \<in> set ?ls" "?ls ! 1 \<in> set ?ls" using len by simp_all
  ultimately show ?thesis
    using live_leases_exclusive [of "?ls ! 0" 120 two_writers "?ls ! 1"] by (simp add: Let_def)
qed


definition handover :: "dag_op list" where
  "handover = [AddTask ''a'' [], AddTask ''b'' [], Acquire ''a'' [''core''] ''h1'' 10 100 ''lease-1'']"


text \<open>C29. The dependency graph stays acyclic: a new task is refused as a cycle exactly when one of its
  dependencies is the task itself or already depends on it, directly or through other tasks
  (forward references to tasks not added yet included).\<close>

theorem add_task_refuses_exactly_cycles:
  assumes "py_strip t \<noteq> []" and "dict_get (tasks (mem (dag_run ops))) (py_strip t) = None"
  shows "snd (add_task t ds (dag_run ops)) = Inl DAGCycleRefused
      \<longleftrightarrow> (\<exists>d\<in>set (map py_strip ds) - {[]}. (d, py_strip t) \<in> (dep_rel (tasks (mem (dag_run ops))))\<^sup>*)"
    (is "?refused \<longleftrightarrow> ?path")
  using assms by (auto simp: add_task_def Let_def cycle_search_iff split: if_splits)

theorem add_task_refuses_exactly_cycles_witness:
  "snd (add_task ''c'' [''a''] (dag_run [AddTask ''a'' [''b''], AddTask ''b'' [''c'']])) = Inl DAGCycleRefused
   \<and> (\<exists>d\<in>set (map py_strip [''a'']) - {[]}.
        (d, py_strip ''c'') \<in> (dep_rel (tasks (mem (dag_run [AddTask ''a'' [''b''], AddTask ''b'' [''c'']]))))\<^sup>*)"
proof -
  let ?ops = "[AddTask ''a'' [''b''], AddTask ''b'' [''c'']]"
  have "py_strip ''c'' \<noteq> []" "dict_get (tasks (mem (dag_run ?ops))) (py_strip ''c'') = None"
    and r: "snd (add_task ''c'' [''a''] (dag_run ?ops)) = Inl DAGCycleRefused" by code_simp+
  from add_task_refuses_exactly_cycles [OF this(1,2), of "[''a'']"] r show ?thesis by simp
qed

text \<open>No run of the ledger, restarts included, ever holds a dependency cycle.\<close>

theorem dependencies_acyclic: "acyclic (dep_rel (tasks (mem (dag_run ops))))"
  using dag_run_state_inv [of ops] by (simp add: state_inv_def)

text \<open>Completion is terminal: once complete, a task stays complete under every further operation
  and every restart, and no writer lease is ever granted on it again.\<close>

theorem completion_is_terminal:
  assumes "status_of (dag_run ops) t = Some COMPLETE"
  shows "status_of (dag_run (ops @ later)) t = Some COMPLETE
    \<and> (\<exists>e. acquire_lease t sc w ttl now fresh (dag_run (ops @ later)) = (dag_run (ops @ later), Inl e))"
proof -
  have "status_of (dag_run (ops @ later)) t = Some COMPLETE"
    using complete_run [OF dag_run_inv assms, of later] by (simp add: dag_run_def)
  then show ?thesis using complete_never_leases by blast
qed

theorem completion_is_terminal_witness:
  "status_of (dag_run ([AddTask ''a'' [], SetStatus ''a'' COMPLETE] @ [SetStatus ''a'' RUNNING, Restart])) ''a'' = Some COMPLETE"
  using completion_is_terminal [of "[AddTask ''a'' [], SetStatus ''a'' COMPLETE]" "''a''" "[SetStatus ''a'' RUNNING, Restart]"]
  by (auto simp: dag_run_def add_task_def set_status_def task_row_of_def status_of_def open_ledger_def
      read_state_def empty_state_def cycle_search.simps Let_def py_strip_def py_lstrip_def py_isspace_def)

text \<open>Restart safety: reopening the ledger from its snapshot gives back the same tasks, the same
  fencing counters, and every lease the process held.\<close>

theorem restart_recovers:
  "let L = dag_run ops; R = dag_run (ops @ [Restart])
   in tasks (mem R) = tasks (mem L) \<and> fence_global (mem R) = fence_global (mem L)
      \<and> fence_last (mem R) = fence_last (mem L) \<and> set (leases (mem L)) \<subseteq> set (leases (mem R))"
  using dag_run_inv [of ops] by (simp add: dag_run_def ledger_inv_def open_ledger_def Let_def)

section \<open>Divergences\<close>

text \<open>A refused claim is not side-effect free: the holder of a live lease who asks for more scope, and
  is refused because of another writer, loses the lease it had (the log says it was renewed), so its
  next commit is refused although no successor exists; the snapshot on disk still has the lease.\<close>

theorem refused_claim_drops_own_lease:
  "let L = dag_run two_writers;
       r = acquire_lease ''a'' [''core/council'', ''core/council-2''] ''h1'' 60 120 ''lease-3'' L
   in (\<exists>other. snd r = Inl (OverlappingWriterRefused other) \<and> lease_task other = ''b'')
      \<and> snd (commit_with_lease ''lease-1'' 1 ''sha'' 121 L) \<noteq> Inl StaleLeaseRefused
      \<and> snd (commit_with_lease ''lease-1'' 1 ''sha'' 121 (fst r)) = Inl StaleLeaseRefused
      \<and> disk (fst r) = Some (mem L)"
proof -
  let ?L = "dag_run two_writers"
  let ?r = "acquire_lease ''a'' [''core/council'', ''core/council-2''] ''h1'' 60 120 ''lease-3'' ?L"
  let ?other = "\<lparr>lease_id = ''lease-2'', lease_task = ''b'', lease_scope = [''core/council-2''],
     lease_holder = ''h2'', fencing_counter = 2, acquired_at = 110, expires_at = 170\<rparr>"
  have "snd ?r = Inl (OverlappingWriterRefused ?other)" by code_simp
  moreover have "snd (commit_with_lease ''lease-1'' 1 ''sha'' 121 ?L) \<noteq> Inl StaleLeaseRefused" by code_simp
  moreover have "snd (commit_with_lease ''lease-1'' 1 ''sha'' 121 (fst ?r)) = Inl StaleLeaseRefused" by code_simp
  moreover have "disk (fst ?r) = Some (mem ?L)" by code_simp
  ultimately show ?thesis by (auto simp: Let_def)
qed

text \<open>Breaking a stale lease does not touch the fencing epoch of the broken task.\<close>

theorem break_keeps_epoch: "fencing_epoch (fst (break_stale_lease lid now L)) t = fencing_epoch L t"
  by (auto simp: break_stale_lease_def fencing_epoch_def pop_lease_def split: option.splits)

end
