(* ===== verification/Updater_Versions.thy ===== *)
theory Updater_Versions
  imports Vool_Prelude "HOL-Library.List_Lexorder" "HOL-Library.Char_ord" "HOL-Library.Product_Lexorder"
begin

text \<open>
  Strict semantic versions of the signed update lane, \<open>core/updater/versions.py\<close>: the parser that
  the regular expression \<open>_VERSION_RE\<close> describes, the printer, and the precedence order.
  A \<open>ValueError\<close> is \<open>None\<close>. The regular expression's \<open>$\<close> matches at the end of the text
  or just before a final newline, and the model keeps that.
\<close>

section \<open>Data and order\<close>

text \<open>A dot-separated prerelease identifier; \<open>_prerelease_key\<close> tags a number \<open>(0, n)\<close> and a word
  \<open>(1, s)\<close>, so numbers come before words, numbers in numeric and words in code-point order.\<close>

datatype pre_ident = Num nat | Word string

instantiation pre_ident :: linorder
begin

fun less_eq_pre_ident :: "pre_ident \<Rightarrow> pre_ident \<Rightarrow> bool" where
  "less_eq_pre_ident (Num m) (Num n) = (m \<le> n)"
| "less_eq_pre_ident (Num m) (Word s) = True"
| "less_eq_pre_ident (Word s) (Num n) = False"
| "less_eq_pre_ident (Word s) (Word t) = (s \<le> t)"

definition less_pre_ident :: "pre_ident \<Rightarrow> pre_ident \<Rightarrow> bool" where
  "less_pre_ident x y \<longleftrightarrow> x \<le> y \<and> \<not> y \<le> x"

instance
proof
  fix x y z :: pre_ident
  show "x \<le> x" by (cases x) auto
  show "x \<le> y \<Longrightarrow> y \<le> z \<Longrightarrow> x \<le> z" by (cases x; cases y; cases z) auto
  show "x \<le> y \<Longrightarrow> y \<le> x \<Longrightarrow> x = y" by (cases x; cases y) auto
  show "x \<le> y \<or> y \<le> x" by (cases x; cases y) auto
qed (rule less_pre_ident_def)

end

record semver =
  major :: nat
  minor :: nat
  patch :: nat
  prerelease :: "pre_ident list"
  build :: string

type_synonym sv_key = "nat \<times> nat \<times> nat \<times> nat \<times> pre_ident list"

definition comparable :: "semver \<Rightarrow> sv_key" where
  "comparable v = (major v, minor v, patch v, (if prerelease v = [] then 1 else 0), prerelease v)"

definition semver_eq :: "semver \<Rightarrow> semver \<Rightarrow> bool" where
  "semver_eq a b \<longleftrightarrow> comparable a = comparable b"

definition semver_less :: "semver \<Rightarrow> semver \<Rightarrow> bool" where
  "semver_less a b \<longleftrightarrow> comparable a < comparable b"

definition is_prerelease :: "semver \<Rightarrow> bool" where
  "is_prerelease v \<longleftrightarrow> prerelease v \<noteq> []"

section \<open>Printing and parsing\<close>

fun show_ident :: "pre_ident \<Rightarrow> string" where
  "show_ident (Num n) = show_nat n"
| "show_ident (Word s) = s"

definition show_semver :: "semver \<Rightarrow> string" where
  "show_semver v =
     (let base = show_nat (major v) @ ''.'' @ show_nat (minor v) @ ''.'' @ show_nat (patch v);
          base = (if prerelease v \<noteq> [] then base @ ''-'' @ py_join ''.'' (map show_ident (prerelease v)) else base)
      in if build v \<noteq> [] then base @ ''+'' @ build v else base)"

text \<open>\<open>0|[1-9]\d*\<close>: a run of digits without a leading zero.\<close>

definition number_ok :: "string \<Rightarrow> bool" where
  "number_ok s \<longleftrightarrow> s \<noteq> [] \<and> list_all is_digit s \<and> (s = ''0'' \<or> hd s \<noteq> CHR ''0'')"

definition is_ident_char :: "char \<Rightarrow> bool" where
  "is_ident_char c \<longleftrightarrow> (let n = of_char c :: nat in
     (48 \<le> n \<and> n \<le> 57) \<or> (65 \<le> n \<and> n \<le> 90) \<or> (97 \<le> n \<and> n \<le> 122) \<or> n = 45)"

definition ident_or_dot :: "char \<Rightarrow> bool" where
  "ident_or_dot c \<longleftrightarrow> is_ident_char c \<or> c = CHR ''.''"

text \<open>\<open>[0-9A-Za-z-]+(\.[0-9A-Za-z-]+)*\<close>\<close>

definition dotted_ok :: "string \<Rightarrow> bool" where
  "dotted_ok s \<longleftrightarrow> list_all (\<lambda>w. w \<noteq> [] \<and> list_all is_ident_char w) (py_split (CHR ''.'') s)"

definition parse_ident :: "string \<Rightarrow> pre_ident" where
  "parse_ident part = (if part \<noteq> [] \<and> list_all is_digit part then Num (read_nat part) else Word part)"

definition at_end :: "string \<Rightarrow> bool" where
  "at_end s \<longleftrightarrow> s = [] \<or> s = [CHR 0x0A]"

definition parse_build :: "string \<Rightarrow> string option" where
  "parse_build s =
     (if at_end s then Some []
      else if hd s = CHR ''+'' then
        (let b = takeWhile ident_or_dot (tl s); rest = dropWhile ident_or_dot (tl s)
         in if dotted_ok b \<and> at_end rest then Some b else None)
      else None)"

definition parse_tail :: "string \<Rightarrow> (pre_ident list \<times> string) option" where
  "parse_tail s =
     (if s \<noteq> [] \<and> hd s = CHR ''-'' then
        (let p = takeWhile ident_or_dot (tl s); rest = dropWhile ident_or_dot (tl s)
         in if dotted_ok p then map_option (\<lambda>b. (map parse_ident (py_split (CHR ''.'') p), b)) (parse_build rest)
            else None)
      else map_option (\<lambda>b. ([], b)) (parse_build s))"

definition parse_number :: "string \<Rightarrow> (nat \<times> string) option" where
  "parse_number s =
     (let d = takeWhile is_digit s in if number_ok d then Some (read_nat d, dropWhile is_digit s) else None)"

definition expect :: "char \<Rightarrow> string \<Rightarrow> string option" where
  "expect c s = (if s \<noteq> [] \<and> hd s = c then Some (tl s) else None)"

definition parse_semver :: "string \<Rightarrow> semver option" where
  "parse_semver text =
     (let s0 = (if text \<noteq> [] \<and> hd text = CHR ''v'' then tl text else text) in
      case parse_number s0 of None \<Rightarrow> None | Some (ma, s1) \<Rightarrow>
      (case expect (CHR ''.'') s1 of None \<Rightarrow> None | Some s2 \<Rightarrow>
      (case parse_number s2 of None \<Rightarrow> None | Some (mi, s3) \<Rightarrow>
      (case expect (CHR ''.'') s3 of None \<Rightarrow> None | Some s4 \<Rightarrow>
      (case parse_number s4 of None \<Rightarrow> None | Some (pa, s5) \<Rightarrow>
      (case parse_tail s5 of None \<Rightarrow> None | Some (pre, b) \<Rightarrow>
         Some \<lparr>major = ma, minor = mi, patch = pa, prerelease = pre, build = b\<rparr>))))))"

definition is_strictly_newer :: "string \<Rightarrow> string \<Rightarrow> bool option" where
  "is_strictly_newer candidate installed =
     (case parse_semver candidate of None \<Rightarrow> None | Some c \<Rightarrow>
      (case parse_semver installed of None \<Rightarrow> None | Some i \<Rightarrow> Some (semver_less i c)))"

section \<open>The order\<close>

text \<open>What a client of the version order relies on: a strict order that is total up to
  precedence equality, and a congruence for it.\<close>

locale version_order =
  fixes less :: "'v \<Rightarrow> 'v \<Rightarrow> bool" and same :: "'v \<Rightarrow> 'v \<Rightarrow> bool"
  assumes irrefl: "\<not> less x x"
    and trans: "less x y \<Longrightarrow> less y z \<Longrightarrow> less x z"
    and total: "less x y \<or> same x y \<or> less y x"
    and same_less: "same x y \<Longrightarrow> less x z = less y z \<and> less z x = less z y"
begin

lemma asym: "less x y \<Longrightarrow> \<not> less y x"
  using irrefl trans by blast

lemma exclusive: "less x y \<Longrightarrow> \<not> same x y"
  using irrefl same_less by blast

lemma not_less: "\<not> less x y \<Longrightarrow> same x y \<or> less y x"
  using total by blast

end

interpretation sv: version_order semver_less semver_eq
  by unfold_locales (auto simp: semver_less_def semver_eq_def)

section \<open>Round trip\<close>

definition wf_ident :: "pre_ident \<Rightarrow> bool" where
  "wf_ident i = (case i of Num n \<Rightarrow> True
     | Word s \<Rightarrow> s \<noteq> [] \<and> list_all is_ident_char s \<and> \<not> list_all is_digit s)"

definition wf_semver :: "semver \<Rightarrow> bool" where
  "wf_semver v \<longleftrightarrow> list_all wf_ident (prerelease v) \<and> (build v = [] \<or> dotted_ok (build v))"

lemma digit_ident [simp]: "is_digit c \<Longrightarrow> is_ident_char c"
  by (simp add: is_digit_def is_ident_char_def Let_def)

lemma sep_chars [simp]: "\<not> is_digit (CHR ''.'')" "\<not> is_digit (CHR ''-'')" "\<not> is_digit (CHR ''+'')"
  "\<not> is_digit (CHR ''v'')" "\<not> ident_or_dot (CHR ''+'')" "ident_or_dot (CHR ''.'')" "\<not> is_ident_char (CHR ''.'')"
  by code_simp+

lemma number_ok_show [simp]: "number_ok (show_nat n)"
  by (auto simp: number_ok_def show_nat_leading)

lemma takeWhile_app: "list_all P xs \<Longrightarrow> ys = [] \<or> \<not> P (hd ys) \<Longrightarrow> takeWhile P (xs @ ys) = xs"
  by (induction xs) (cases ys; simp)+

lemma dropWhile_app: "list_all P xs \<Longrightarrow> ys = [] \<or> \<not> P (hd ys) \<Longrightarrow> dropWhile P (xs @ ys) = ys"
  by (induction xs) (cases ys; simp)+

lemma parse_number_show:
  "rest = [] \<or> \<not> is_digit (hd rest) \<Longrightarrow> parse_number (show_nat n @ rest) = Some (n, rest)"
  by (simp add: parse_number_def takeWhile_app dropWhile_app)

lemma py_split_join: "ws \<noteq> [] \<Longrightarrow> \<forall>w\<in>set ws. c \<notin> set w \<Longrightarrow> py_split c (py_join [c] ws) = ws"
proof (induction "[c]" ws rule: py_join.induct)
  case (2 w)
  then show ?case by (induction w) auto
next
  case (3 w v ws)
  have app: "c \<notin> set w \<Longrightarrow> py_split c (w @ c # t) = w # py_split c t" for w t
    by (induction w) auto
  from 3 show ?case by (simp add: app)
qed simp

lemma wf_ident_show: "wf_ident i \<Longrightarrow> show_ident i \<noteq> [] \<and> list_all is_ident_char (show_ident i)"
  using show_nat_digits by (cases i) (auto simp: wf_ident_def list_all_iff)

lemma parse_show_ident: "wf_ident i \<Longrightarrow> parse_ident (show_ident i) = i"
  by (cases i) (auto simp: wf_ident_def parse_ident_def)

lemma ident_no_dot: "list_all is_ident_char s \<Longrightarrow> CHR ''.'' \<notin> set s"
  by (auto simp: list_all_iff)

lemma split_shown:
  "ids \<noteq> [] \<Longrightarrow> list_all wf_ident ids \<Longrightarrow>
   py_split (CHR ''.'') (py_join ''.'' (map show_ident ids)) = map show_ident ids"
  using wf_ident_show ident_no_dot by (intro py_split_join) (fastforce simp: list_all_iff)+

lemma dotted_shown: "ids \<noteq> [] \<Longrightarrow> list_all wf_ident ids \<Longrightarrow> dotted_ok (py_join ''.'' (map show_ident ids))"
  using wf_ident_show by (auto simp: dotted_ok_def split_shown list_all_iff)

lemma dotted_chars: "dotted_ok s \<Longrightarrow> list_all ident_or_dot s"
proof -
  assume ok: "dotted_ok s"
  have "c \<in> set (py_join ''.'' ws) \<Longrightarrow> (\<exists>w\<in>set ws. c \<in> set w) \<or> c = CHR ''.''" for c ws
    by (induction "''.''" ws rule: py_join.induct) auto
  from this [of _ "py_split (CHR ''.'') s"] ok show ?thesis
    by (fastforce simp: dotted_ok_def list_all_iff ident_or_dot_def)
qed

lemma parse_build_shown:
  assumes "dotted_ok b"
  shows "parse_build (CHR ''+'' # b) = Some b"
proof -
  from dotted_chars [OF assms] have "takeWhile ident_or_dot b = b" "dropWhile ident_or_dot b = []"
    using takeWhile_app [of ident_or_dot b "[]"] dropWhile_app [of ident_or_dot b "[]"] by simp_all
  with assms show ?thesis
    by (simp add: parse_build_def at_end_def Let_def takeWhile_eq_all_conv [THEN iffD2])
qed

lemma parse_build_Nil [simp]: "parse_build [] = Some []"
  by (simp add: parse_build_def at_end_def)

text \<open>The part of the printed text after the patch number.\<close>

definition show_tail :: "semver \<Rightarrow> string" where
  "show_tail v = (if prerelease v \<noteq> [] then ''-'' @ py_join ''.'' (map show_ident (prerelease v)) else [])
     @ (if build v \<noteq> [] then ''+'' @ build v else [])"

lemma show_semver_tail:
  "show_semver v = show_nat (major v) @ CHR ''.'' # show_nat (minor v) @ CHR ''.'' # show_nat (patch v) @ show_tail v"
  by (simp add: show_semver_def show_tail_def Let_def)

lemma parse_tail_shown:
  assumes "wf_semver v"
  shows "parse_tail (show_tail v) = Some (prerelease v, build v)"
proof -
  let ?b = "if build v \<noteq> [] then ''+'' @ build v else []"
  have b: "parse_build ?b = Some (build v)"
    using assms by (auto simp: wf_semver_def parse_build_shown)
  have hd_b: "?b = [] \<or> \<not> ident_or_dot (hd ?b)" by auto
  show ?thesis
  proof (cases "prerelease v = []")
    case True
    then show ?thesis using b by (simp add: show_tail_def parse_tail_def split: if_splits)
  next
    case False
    let ?p = "py_join ''.'' (map show_ident (prerelease v))"
    have wf: "list_all wf_ident (prerelease v)" using assms by (simp add: wf_semver_def)
    note ok = dotted_shown [OF False wf]
    have "takeWhile ident_or_dot (?p @ ?b) = ?p" "dropWhile ident_or_dot (?p @ ?b) = ?b"
      using takeWhile_app [OF dotted_chars [OF ok] hd_b] dropWhile_app [OF dotted_chars [OF ok] hd_b] by blast+
    moreover have "map parse_ident (map show_ident (prerelease v)) = prerelease v"
      using wf by (induction "prerelease v") (auto simp: parse_show_ident list_all_iff map_idI)
    ultimately show ?thesis
      using False ok b split_shown [OF False wf] by (simp add: show_tail_def parse_tail_def Let_def)
  qed
qed

lemma show_tail_start: "show_tail v = [] \<or> \<not> is_digit (hd (show_tail v))"
  by (auto simp: show_tail_def)

lemma hd_show_nat_not_v: "hd (show_nat n @ xs) \<noteq> CHR ''v''"
  using show_nat_is_digit [of "hd (show_nat n)" n] by (auto simp: hd_append)

section \<open>Properties\<close>

text \<open>Printing and parsing a version are inverse: every well-formed version is read back from the
  text \<open>str()\<close> gives, prerelease identifiers and build metadata included.\<close>

theorem parse_show_semver:
  assumes "wf_semver v"
  shows "parse_semver (show_semver v) = Some v"
proof -
  have "parse_number (show_nat (patch v) @ show_tail v) = Some (patch v, show_tail v)"
    by (rule parse_number_show [OF show_tail_start])
  then show ?thesis
    using hd_show_nat_not_v [of "major v"] parse_tail_shown [OF assms]
    by (simp add: parse_semver_def show_semver_tail parse_number_show expect_def Let_def)
qed

theorem parse_show_semver_witness:
  "let v = \<lparr>major = 0, minor = 7, patch = 10, prerelease = [Word ''beta'', Num 2], build = ''abc.1''\<rparr>
   in show_semver v = ''0.7.10-beta.2+abc.1'' \<and> parse_semver (show_semver v) = Some v"
proof -
  let ?v = "\<lparr>major = 0, minor = 7, patch = 10, prerelease = [Word ''beta'', Num 2], build = ''abc.1''\<rparr>"
  have "wf_semver ?v" and s: "show_semver ?v = ''0.7.10-beta.2+abc.1''" by code_simp+
  from parse_show_semver [OF this(1)] s show ?thesis by (simp only: Let_def)
qed

lemma parse_tagged: "parse_semver (CHR ''v'' # show_semver v) = parse_semver (show_semver v)"
proof -
  have "hd (show_semver v) \<noteq> CHR ''v''" unfolding show_semver_tail by (rule hd_show_nat_not_v)
  moreover have "show_semver v \<noteq> []" by (simp add: show_semver_tail)
  ultimately show ?thesis by (simp add: parse_semver_def)
qed

text \<open>The precedence rules of Semantic Versioning 2.0.0, clause 11, written down on their own: two
  sequences are compared at the first position where they differ, a proper prefix being the smaller.\<close>

definition first_difference :: "('a \<Rightarrow> 'a \<Rightarrow> bool) \<Rightarrow> 'a list \<Rightarrow> 'a list \<Rightarrow> bool" where
  "first_difference before xs ys \<longleftrightarrow>
     (\<exists>k\<in>set [0..<Suc (length xs)]. take k xs = take k ys \<and> k < length ys
        \<and> (k = length xs \<or> before (xs ! k) (ys ! k)))"

definition ident_precedes :: "pre_ident \<Rightarrow> pre_ident \<Rightarrow> bool" where
  "ident_precedes x y \<longleftrightarrow> (case (x, y) of
       (Num m, Num n) \<Rightarrow> m < n
     | (Num m, Word t) \<Rightarrow> True
     | (Word s, Num n) \<Rightarrow> False
     | (Word s, Word t) \<Rightarrow> first_difference (\<lambda>c d. (of_char c :: nat) < of_char d) s t)"

definition semver_precedes :: "semver \<Rightarrow> semver \<Rightarrow> bool" where
  "semver_precedes a b \<longleftrightarrow>
     (if major a \<noteq> major b then major a < major b
      else if minor a \<noteq> minor b then minor a < minor b
      else if patch a \<noteq> patch b then patch a < patch b
      else if prerelease b = [] then prerelease a \<noteq> []
      else prerelease a \<noteq> [] \<and> first_difference ident_precedes (prerelease a) (prerelease b))"

lemma first_difference_less: "first_difference (<) xs ys \<longleftrightarrow> xs < ys"
  for xs ys :: "'a::linorder list"
proof -
  have "first_difference (<) xs ys \<longleftrightarrow>
      length xs < length ys \<and> take (length xs) ys = xs
      \<or> (\<exists>k. k < min (length xs) (length ys) \<and> take k xs = take k ys \<and> xs ! k < ys ! k)" (is "_ \<longleftrightarrow> ?prefix \<or> ?pos")
  proof
    assume "first_difference (<) xs ys"
    then obtain k where k: "k \<in> set [0..<Suc (length xs)]" "take k xs = take k ys" "k < length ys" "k = length xs \<or> xs ! k < ys ! k"
      unfolding first_difference_def by blast
    show "?prefix \<or> ?pos" using k by (cases "k = length xs") auto
  next
    assume "?prefix \<or> ?pos"
    then show "first_difference (<) xs ys"
    proof
      assume ?prefix
      then show ?thesis unfolding first_difference_def by (intro bexI [of _ "length xs"]) simp_all
    next
      assume ?pos
      then obtain k where "k < min (length xs) (length ys)" "take k xs = take k ys" "xs ! k < ys ! k" by blast
      then show ?thesis unfolding first_difference_def by (intro bexI [of _ k]) simp_all
    qed
  qed
  then show ?thesis by (simp add: list_less_def lexord_take_index_conv)
qed

lemma ident_precedes_less: "ident_precedes x y \<longleftrightarrow> x < y"
proof (cases x; cases y)
  fix s t
  assume "x = Word s" "y = Word t"
  moreover have "(\<lambda>c d. (of_char c :: nat) < of_char d) = ((<) :: char \<Rightarrow> char \<Rightarrow> bool)"
    by (simp add: fun_eq_iff less_char_def)
  ultimately show ?thesis by (auto simp: ident_precedes_def first_difference_less less_pre_ident_def)
qed (auto simp: ident_precedes_def less_pre_ident_def)

lemma ident_precedes_is_less: "ident_precedes = (<)"
  by (simp add: fun_eq_iff ident_precedes_less)

lemma semver_precedes_less: "semver_precedes a b \<longleftrightarrow> semver_less a b"
proof -
  have idents: "first_difference ident_precedes xs ys \<longleftrightarrow> xs < ys" for xs ys
    by (simp add: ident_precedes_is_less first_difference_less)
  show ?thesis by (auto simp: semver_precedes_def semver_less_def comparable_def idents)
qed

text \<open>C40. The update lane compares version texts exactly by the precedence of Semantic Versioning
  2.0.0: for every two well-formed versions, asking whether the text of the first is strictly newer
  than the text of the second (either text may carry the leading \<open>v\<close> of a release tag) answers
  whether the second precedes the first: the numeric triple decides first; on equal triples a
  prerelease is below its release; two prereleases are decided at their first differing identifier,
  numbers by value, words by code point, a number below a word, a proper prefix below its extension.
  Build metadata never decides.\<close>

theorem newer_is_semver_precedence:
  assumes "wf_semver c" and "wf_semver i" and "tag \<in> {[], ''v''}" and "tag' \<in> {[], ''v''}"
  shows "is_strictly_newer (tag @ show_semver c) (tag' @ show_semver i) = Some (semver_precedes i c)"
proof -
  have "parse_semver (t @ show_semver x) = Some x" if "wf_semver x" "t \<in> {[], ''v''}" for t x
    using that parse_show_semver [OF that(1)] parse_tagged [of x] by auto
  with assms show ?thesis by (simp add: is_strictly_newer_def semver_precedes_less)
qed

theorem newer_is_semver_precedence_witness:
  "is_strictly_newer ''v1.0.0-rc.10+b7'' ''1.0.0-rc.9'' = Some True
   \<and> is_strictly_newer ''v1.0.0-rc.10+b7'' ''1.0.0'' = Some False"
proof -
  let ?rc = "\<lambda>n b. \<lparr>major = 1, minor = 0, patch = 0, prerelease = [Word ''rc'', Num n], build = b\<rparr>"
  let ?c = "?rc 10 ''b7''" and ?i = "?rc 9 []"
  let ?r = "\<lparr>major = 1, minor = 0, patch = 0, prerelease = [], build = []\<rparr>"
  have wf: "wf_semver ?c" "wf_semver ?i" "wf_semver ?r" by code_simp+
  have sh: "show_semver ?c = ''1.0.0-rc.10+b7''" "show_semver ?i = ''1.0.0-rc.9''" "show_semver ?r = ''1.0.0''"
    by code_simp+
  have pr: "semver_precedes ?i ?c" "\<not> semver_precedes ?r ?c"
    by (simp_all add: semver_precedes_def first_difference_def ident_precedes_def)
  have "is_strictly_newer (''v'' @ show_semver ?c) ([] @ show_semver ?i) = Some (semver_precedes ?i ?c)"
    by (rule newer_is_semver_precedence [OF wf(1,2)]) simp_all
  moreover have "is_strictly_newer (''v'' @ show_semver ?c) ([] @ show_semver ?r) = Some (semver_precedes ?r ?c)"
    by (rule newer_is_semver_precedence [OF wf(1,3)]) simp_all
  ultimately show ?thesis unfolding sh append_Cons append_Nil by (simp only: pr simp_thms)
qed

section \<open>Divergences\<close>

text \<open>The parser's documentation says surrounding whitespace is not tolerated; a final newline is.\<close>

theorem parse_accepts_final_newline:
  "parse_semver (''1.2.3'' @ [CHR 0x0A]) = parse_semver ''1.2.3'' \<and> parse_semver ''1.2.3'' \<noteq> None"
  by code_simp

end
