(* ===== verification/Updater_Flow.thy ===== *)
theory Updater_Flow
  imports Updater_Versions
begin

text \<open>
  The update decision (\<open>core/updater/decision.py\<close>), the replay marks
  (\<open>HighWaterStore\<close> of \<open>core/updater/state.py\<close>) and the data migrations
  (\<open>core/updater/migrations.py\<close>).

  A manifest is the verified record; its canonical SHA-256 is a field, since the hash is not
  modelled. A \<open>ValueError\<close> of the version parser is \<open>None\<close>. The user's home is a map from a
  relative path to an opaque content (a file or a directory tree; an affected path nested inside
  another is not modelled), with the recorded schema version beside it. The forward and backward
  code of a migration step, and the outcome of every read, write and copy, are arguments; a step's code
  is taken to write the user's home and not its snapshot directory or the schema file.
\<close>

section \<open>Deciding\<close>

datatype decision_reason = UPDATE_AVAILABLE | UP_TO_DATE | CHANNEL_MISMATCH | REPLAYED_MANIFEST
  | DOWNGRADE_REFUSED | NO_ARTIFACT_FOR_PLATFORM | UNSUPPORTED_INSTALLER_PLATFORM

record artifact_entry =
  art_url :: string
  art_size :: int
  art_sha256 :: string

record verified_manifest =
  mf_channel :: string
  mf_version :: string
  mf_sequence :: int
  mf_minimum_compatible :: string
  mf_artifacts :: "(string, artifact_entry) dict"
  mf_canonical_sha256 :: string

record high_water =
  hw_sequence :: int
  hw_version :: string
  hw_sha256 :: string
  hw_recorded_at :: time

record downgrade_authorization =
  da_target_version :: string

record update_decision =
  ud_reason :: decision_reason
  ud_artifact :: "artifact_entry option"
  ud_authorized_downgrade :: bool
  ud_below_minimum :: bool

definition da_covers :: "downgrade_authorization \<Rightarrow> string \<Rightarrow> bool" where
  "da_covers a version \<longleftrightarrow> da_target_version a = version"

definition should_install :: "update_decision \<Rightarrow> bool" where
  "should_install d \<longleftrightarrow> ud_reason d = UPDATE_AVAILABLE \<and> ud_artifact d \<noteq> None"

text \<open>The checks of \<open>decide_update\<close> in its order, once both versions are parsed.\<close>

definition decide_checks :: "verified_manifest \<Rightarrow> semver \<Rightarrow> semver \<Rightarrow> string \<Rightarrow> string \<Rightarrow> high_water option \<Rightarrow> bool
    \<Rightarrow> downgrade_authorization option \<Rightarrow> decision_reason \<times> artifact_entry option \<times> bool" where
  "decide_checks mf installed candidate channel platform_key hw installer_available auth =
     (let seen_sequence = (case hw of None \<Rightarrow> 0 | Some h \<Rightarrow> hw_sequence h);
          seen_sha = (case hw of None \<Rightarrow> [] | Some h \<Rightarrow> hw_sha256 h);
          older = semver_less candidate installed
      in if mf_channel mf \<noteq> channel then (CHANNEL_MISMATCH, None, False)
         else if mf_sequence mf = seen_sequence \<and> seen_sha \<noteq> mf_canonical_sha256 mf
              then (REPLAYED_MANIFEST, None, False)
         else if mf_sequence mf < seen_sequence then (REPLAYED_MANIFEST, None, False)
         else if semver_eq candidate installed then (UP_TO_DATE, None, False)
         else if older \<and> (case auth of None \<Rightarrow> True | Some a \<Rightarrow> \<not> da_covers a (mf_version mf))
              then (DOWNGRADE_REFUSED, None, False)
         else (case dict_get (mf_artifacts mf) platform_key of
                 None \<Rightarrow> (NO_ARTIFACT_FOR_PLATFORM, None, False)
               | Some art \<Rightarrow>
                   if \<not> installer_available then (UNSUPPORTED_INSTALLER_PLATFORM, None, False)
                   else (UPDATE_AVAILABLE, Some art, older)))"

definition decide_update :: "verified_manifest \<Rightarrow> string \<Rightarrow> string \<Rightarrow> string \<Rightarrow> high_water option \<Rightarrow> bool
                             \<Rightarrow> downgrade_authorization option \<Rightarrow> update_decision option" where
  "decide_update mf installed_version channel platform_key hw installer_available auth =
     (case parse_semver installed_version of None \<Rightarrow> None | Some installed \<Rightarrow>
      (case parse_semver (mf_version mf) of None \<Rightarrow> None | Some candidate \<Rightarrow>
       (let below = (case parse_semver (mf_minimum_compatible mf) of None \<Rightarrow> False | Some m \<Rightarrow> semver_less installed m);
            (reason, art, down) = decide_checks mf installed candidate channel platform_key hw installer_available auth
        in Some \<lparr>ud_reason = reason, ud_artifact = art, ud_authorized_downgrade = down, ud_below_minimum = below\<rparr>)))"

section \<open>Replay marks\<close>

text \<open>The parsed object of \<open>high_water.json\<close>; a value that is not an object is \<open>None\<close>. The file on
  disk is \<open>None\<close> when it is missing, is not JSON or is not an object.\<close>

type_synonym high_water_map = "(string, high_water option) dict"
type_synonym high_water_file = "high_water_map option"

text \<open>\<open>read_ok\<close> is false where this read raised an \<open>OSError\<close>: \<open>_read_json\<close> answers \<open>None\<close> for it, as it
  does for a file that does not parse, and the store reads as empty.\<close>

definition hw_load_all :: "bool \<Rightarrow> high_water_file \<Rightarrow> high_water_map" where
  "hw_load_all read_ok f = (if read_ok then (case f of None \<Rightarrow> [] | Some m \<Rightarrow> m) else [])"

definition hw_load :: "string \<Rightarrow> bool \<Rightarrow> high_water_file \<Rightarrow> high_water option" where
  "hw_load channel read_ok f = (case dict_get (hw_load_all read_ok f) channel of None \<Rightarrow> None | Some entry \<Rightarrow> entry)"

text \<open>\<open>record\<close> reads the file twice, once for this channel's mark and once for the object it rewrites;
  each read has its own outcome. \<open>write_ok\<close> is false where the write raised the \<open>OSError\<close> the code
  suppresses.\<close>

record hw_io =
  read_mark_ok :: bool
  read_all_ok :: bool
  write_ok :: bool

definition hw_record :: "string \<Rightarrow> int \<Rightarrow> string \<Rightarrow> string \<Rightarrow> time \<Rightarrow> hw_io \<Rightarrow> high_water_file \<Rightarrow> high_water_file" where
  "hw_record channel sequence version sha now io f =
     (if (case hw_load channel (read_mark_ok io) f of None \<Rightarrow> False | Some current \<Rightarrow> hw_sequence current \<ge> sequence) then f
      else (let entry = \<lparr>hw_sequence = sequence, hw_version = version, hw_sha256 = sha, hw_recorded_at = now\<rparr>;
                data = dict_set channel (Some entry) (hw_load_all (read_all_ok io) f)
            in if write_ok io then Some data else f))"

datatype hw_op = Record string int string string time hw_io

fun hw_step :: "hw_op \<Rightarrow> high_water_file \<Rightarrow> high_water_file" where
  "hw_step (Record ch n v sha now io) f = hw_record ch n v sha now io f"

definition hw_mark :: "string \<Rightarrow> high_water_file \<Rightarrow> int" where
  "hw_mark channel f = (case hw_load channel True f of None \<Rightarrow> 0 | Some h \<Rightarrow> max 0 (hw_sequence h))"

text \<open>What keeps the mark of a channel: a recording that writes has read what it needed to, the mark
  itself for a recording of this channel, the whole object for one of another channel.\<close>

fun keeps_mark :: "string \<Rightarrow> hw_op \<Rightarrow> bool" where
  "keeps_mark channel (Record ch n v sha now io) \<longleftrightarrow>
     (write_ok io \<longrightarrow> (if ch = channel then read_mark_ok io else read_all_ok io))"

section \<open>Migrations\<close>

type_synonym content = string
type_synonym files = "string \<Rightarrow> content option"
type_synonym snapshot = "(string, content) dict"

record user_home =
  home_files :: files
  home_schema :: string

record migration_step =
  ms_name :: string
  ms_from :: string
  ms_to :: string
  ms_affected :: "string list"
  ms_forward :: "snapshot \<Rightarrow> files \<Rightarrow> files \<times> bool"
  ms_backward :: "(snapshot \<Rightarrow> files \<Rightarrow> files \<times> bool) option"

datatype migration_reason = MIG_OK | NO_PATH | STEP_FAILED | RESTORE_FAILED | DATA_TOO_NEW

record migration_result =
  mr_ok :: bool
  mr_reason :: migration_reason
  mr_applied :: "string list"
  mr_rolled_back :: "string list"

text \<open>\<open>Path.name\<close>: the last component.\<close>

definition path_name :: "string \<Rightarrow> string" where
  "path_name p = (let parts = filter (\<lambda>w. w \<noteq> []) (py_split (CHR ''/'') p) in if parts = [] then [] else last parts)"

text \<open>What the file system does to one migration, by the index of the step: whether the snapshot
  directory can be made, what an earlier attempt left in it, which paths fail to copy into it and out
  of it, and what becomes of the final write of the recorded schema, which raises without having
  touched the file or after having truncated it.\<close>

datatype schema_write = Schema_written | Schema_untouched | Schema_truncated

record migration_io =
  mkdir_ok :: "nat \<Rightarrow> bool"
  old_snapshot :: "nat \<Rightarrow> snapshot"
  snapshot_bad :: "nat \<Rightarrow> string \<Rightarrow> bool"
  restore_bad :: "string \<Rightarrow> bool"
  schema_write :: schema_write

text \<open>\<open>bad p\<close>: copying \<open>p\<close> raises. The result says whether the whole copy succeeded.\<close>

fun snapshot_loop :: "(string \<Rightarrow> bool) \<Rightarrow> files \<Rightarrow> string list \<Rightarrow> snapshot \<Rightarrow> snapshot \<times> bool" where
  "snapshot_loop bad home [] snap = (snap, True)"
| "snapshot_loop bad home (source # rest) snap =
     (case home source of
        None \<Rightarrow> snapshot_loop bad home rest snap
      | Some c \<Rightarrow> if bad source then (dict_pop (path_name source) snap, False)
                  else snapshot_loop bad home rest (dict_set (path_name source) c snap))"

definition snapshot_tree :: "migration_io \<Rightarrow> nat \<Rightarrow> files \<Rightarrow> string list \<Rightarrow> snapshot \<times> bool" where
  "snapshot_tree io i home sources =
     (if mkdir_ok io i then snapshot_loop (snapshot_bad io i) home sources (old_snapshot io i)
      else (old_snapshot io i, False))"

fun restore_tree :: "(string \<Rightarrow> bool) \<Rightarrow> snapshot \<Rightarrow> string list \<Rightarrow> files \<Rightarrow> files \<times> bool" where
  "restore_tree bad snap [] home = (home, True)"
| "restore_tree bad snap (destination # rest) home =
     (let cleared = home(destination := None) in
      case dict_get snap (path_name destination) of
        None \<Rightarrow> restore_tree bad snap rest cleared
      | Some c \<Rightarrow> if bad destination then (cleared, False)
                  else restore_tree bad snap rest (cleared(destination \<mapsto> c)))"

type_synonym applied_step = "migration_step \<times> snapshot"

fun undo_steps :: "applied_step list \<Rightarrow> files \<Rightarrow> string list \<Rightarrow> files \<times> string list" where
  "undo_steps [] home names = (home, names)"
| "undo_steps ((st, snap) # rest) home names =
     (case ms_backward st of
        None \<Rightarrow> undo_steps rest home (names @ [ms_name st])
      | Some bw \<Rightarrow> (case bw snap home of
            (home', True) \<Rightarrow> undo_steps rest home' (names @ [ms_name st])
          | (home', False) \<Rightarrow> undo_steps rest home' names))"

fun restore_all :: "(string \<Rightarrow> bool) \<Rightarrow> (snapshot \<times> string list) list \<Rightarrow> files \<Rightarrow> bool \<Rightarrow> files \<times> bool" where
  "restore_all bad [] home ok = (home, ok)"
| "restore_all bad ((snap, aff) # rest) home ok =
     (case restore_tree bad snap aff home of (home', r) \<Rightarrow> restore_all bad rest home' (ok \<and> r))"

text \<open>The loop over the steps from index \<open>i\<close>; \<open>applied\<close> is most recent first.\<close>

fun migrate_loop :: "migration_io \<Rightarrow> nat \<Rightarrow> migration_step list \<Rightarrow> applied_step list \<Rightarrow> files
                     \<Rightarrow> files \<times> migration_result" where
  "migrate_loop io i [] applied home =
     (home, \<lparr>mr_ok = True, mr_reason = MIG_OK, mr_applied = map (\<lambda>(s, _). ms_name s) (rev applied), mr_rolled_back = []\<rparr>)"
| "migrate_loop io i (st # rest) applied home =
     (let (snap, complete) = snapshot_tree io i home (ms_affected st);
          (home1, ok) = (if complete then ms_forward st snap home else (home, False))
      in if ok then migrate_loop io (i + 1) rest ((st, snap) # applied) home1
         else
           (let (home2, rolled) = undo_steps applied home1 [];
                order = (if complete then [(snap, ms_affected st)] else [])
                        @ map (\<lambda>(s, sn). (sn, ms_affected s)) applied;
                (home3, restored) = restore_all (restore_bad io) order home2 True
            in (home3, \<lparr>mr_ok = False, mr_reason = (if restored then STEP_FAILED else RESTORE_FAILED),
                        mr_applied = map (\<lambda>(s, _). ms_name s) (rev applied), mr_rolled_back = rolled\<rparr>)))"

type_synonym catalog = "((sv_key \<times> sv_key) \<times> migration_step) list"

definition catalog_register :: "migration_step \<Rightarrow> catalog \<Rightarrow> catalog option" where
  "catalog_register st cat =
     (case parse_semver (ms_from st) of None \<Rightarrow> None | Some f \<Rightarrow>
      (case parse_semver (ms_to st) of None \<Rightarrow> None | Some t \<Rightarrow>
        Some (dict_set (comparable f, comparable t) st cat)))"

definition max_supported_version :: "catalog \<Rightarrow> sv_key" where
  "max_supported_version cat =
     (case map (\<lambda>((f, t), s). t) cat of [] \<Rightarrow> (0, 0, 0, 1, []) | t # ts \<Rightarrow> fold max ts t)"

text \<open>\<open>min(candidates, key=to)\<close>: the first candidate with the least target.\<close>

fun least_hop :: "(sv_key \<times> migration_step) list \<Rightarrow> (sv_key \<times> migration_step) option" where
  "least_hop [] = None"
| "least_hop (c # cs) = (case least_hop cs of None \<Rightarrow> Some c
                         | Some d \<Rightarrow> if fst d < fst c then Some d else Some c)"

fun path_loop :: "nat \<Rightarrow> catalog \<Rightarrow> sv_key \<Rightarrow> sv_key \<Rightarrow> migration_step list \<Rightarrow> migration_step list" where
  "path_loop 0 cat target current chain = []"
| "path_loop (Suc n) cat target current chain =
     (if current = target then chain
      else (case least_hop (map (\<lambda>((f, t), s). (t, s)) (filter (\<lambda>((f, t), s). f = current) cat)) of
              None \<Rightarrow> []
            | Some (to, st) \<Rightarrow> path_loop n cat target to (chain @ [st])))"

definition catalog_path :: "catalog \<Rightarrow> sv_key \<Rightarrow> sv_key \<Rightarrow> migration_step list" where
  "catalog_path cat source target = path_loop 16 cat target source []"

text \<open>What \<open>run_migrations\<close> raises: the \<open>ValueError\<close> of the version parser, or the \<open>OSError\<close> of the
  final \<open>write_recorded_schema\<close>, which nothing catches.\<close>

datatype migration_error = Bad_version | Schema_write_failed

definition write_recorded_schema :: "schema_write \<Rightarrow> string \<Rightarrow> user_home \<Rightarrow> user_home \<times> bool" where
  "write_recorded_schema w version home =
     (case w of Schema_written \<Rightarrow> (home\<lparr>home_schema := version\<rparr>, True)
      | Schema_untouched \<Rightarrow> (home, False)
      | Schema_truncated \<Rightarrow> (home\<lparr>home_schema := []\<rparr>, False))"

definition run_migrations :: "migration_io \<Rightarrow> catalog \<Rightarrow> string \<Rightarrow> string \<Rightarrow> string option \<Rightarrow> user_home
                              \<Rightarrow> user_home \<times> (migration_error + migration_result)" where
  "run_migrations io cat from_version to_version recorded_schema home =
     (case parse_semver from_version of None \<Rightarrow> (home, Inl Bad_version) | Some source \<Rightarrow>
      (case parse_semver to_version of None \<Rightarrow> (home, Inl Bad_version) | Some target \<Rightarrow>
       (let recorded = (case recorded_schema of Some r \<Rightarrow> r | None \<Rightarrow> home_schema home);
            too_new = (recorded \<noteq> [] \<and> (case parse_semver recorded of None \<Rightarrow> False
                        | Some r \<Rightarrow> max_supported_version cat < comparable r));
            refuse = (\<lambda>reason. \<lparr>mr_ok = False, mr_reason = reason, mr_applied = [], mr_rolled_back = []\<rparr>)
        in if too_new then (home, Inr (refuse DATA_TOO_NEW))
           else if semver_eq source target then (home, Inr \<lparr>mr_ok = True, mr_reason = MIG_OK, mr_applied = [], mr_rolled_back = []\<rparr>)
           else (let steps = catalog_path cat (comparable source) (comparable target) in
                 if steps = [] then (home, Inr (refuse NO_PATH))
                 else (let (fs, res) = migrate_loop io 0 steps [] (home_files home);
                           home1 = home\<lparr>home_files := fs\<rparr>
                       in if \<not> mr_ok res then (home1, Inr res)
                          else (case write_recorded_schema (schema_write io) to_version home1 of
                                  (home2, True) \<Rightarrow> (home2, Inr res)
                                | (home2, False) \<Rightarrow> (home2, Inl Schema_write_failed)))))))"

section \<open>Replay marks only rise\<close>

lemma hw_mark_step: "keeps_mark ch x \<Longrightarrow> hw_mark ch f \<le> hw_mark ch (hw_step x f)"
  by (cases x) (auto simp: hw_mark_def hw_record_def hw_load_def hw_load_all_def Let_def split: option.splits if_splits)

interpretation hw: lawful_system hw_step "\<lambda>x f. keeps_mark ch x" "\<lambda>f. n \<le> hw_mark ch f" for ch n
  by unfold_locales (meson hw_mark_step order_trans)

lemma hw_lawful: "list_all (keeps_mark ch) xs \<Longrightarrow> hw.lawful_run ch xs f"
  by (induction xs arbitrary: f) simp_all

lemma hw_mark_recorded:
  "0 \<le> n \<Longrightarrow> write_ok io \<Longrightarrow> n \<le> hw_mark ch (hw_record ch n v sha now io f)"
  by (auto simp: hw_mark_def hw_record_def hw_load_def hw_load_all_def Let_def split: option.splits if_splits)

section \<open>Restoring a snapshot\<close>

lemma snapshot_loop_get:
  "snapshot_loop sbad home aff snap = (snap', True) \<Longrightarrow> distinct (map path_name aff) \<Longrightarrow>
   (\<forall>p\<in>set aff. dict_get snap' (path_name p)
       = (case home p of None \<Rightarrow> dict_get snap (path_name p) | Some c \<Rightarrow> Some c))
   \<and> (\<forall>n. n \<notin> path_name ` set aff \<longrightarrow> dict_get snap' n = dict_get snap n)"
proof (induction sbad home aff snap rule: snapshot_loop.induct)
  case (2 sbad home p rest snap)
  have new: "path_name q \<noteq> path_name p" if "q \<in> set rest" for q
    using 2(4) that by (force simp: image_iff)
  show ?case
  proof (cases "home p")
    case None
    with 2 have "snapshot_loop sbad home rest snap = (snap', True)" "distinct (map path_name rest)" by simp_all
    note IH = 2(1) [OF None this]
    have "path_name p \<notin> path_name ` set rest" using 2(4) by simp
    then show ?thesis using IH None by auto
  next
    case (Some c)
    with 2 have b: "\<not> sbad p" "snapshot_loop sbad home rest (dict_set (path_name p) c snap) = (snap', True)"
        "distinct (map path_name rest)" by (auto split: if_splits)
    note IH = 2(2) [OF Some b]
    have "path_name p \<notin> path_name ` set rest" using 2(4) by simp
    then show ?thesis using IH Some new by (auto split: option.splits)
  qed
qed simp

lemma snapshot_tree_lookup:
  assumes "snapshot_tree io i home aff = (snap, True)" and "old_snapshot io i = []"
    and "distinct (map path_name aff)" and "p \<in> set aff"
  shows "dict_get snap (path_name p) = home p"
  using snapshot_loop_get [of "snapshot_bad io i" home aff "[]" snap] assms
  by (auto simp: snapshot_tree_def split: option.splits if_splits)

lemma restore_tree_ok: "snd (restore_tree (\<lambda>_. False) snap aff home)"
  by (induction "\<lambda>_::string. False" snap aff home rule: restore_tree.induct) (auto simp: Let_def split: option.splits)

lemma restore_tree_files:
  "fst (restore_tree (\<lambda>_. False) snap aff home) p = (if p \<in> set aff then dict_get snap (path_name p) else home p)"
  by (induction "\<lambda>_::string. False" snap aff home rule: restore_tree.induct) (auto simp: Let_def split: option.splits)

lemma restore_all_fst:
  "fst (restore_all (\<lambda>_. False) ((snap, aff) # rest) home ok)
   = fst (restore_all (\<lambda>_. False) rest (fst (restore_tree (\<lambda>_. False) snap aff home)) True)"
proof -
  have "fst (restore_all (\<lambda>_. False) xs h b) = fst (restore_all (\<lambda>_. False) xs h True)" for xs h b
    by (induction xs arbitrary: h b) (auto split: prod.splits, metis fst_conv)
  then show ?thesis by (simp split: prod.splits)
qed

text \<open>A step that keeps to the paths it declares, with distinct names so its snapshot is faithful.\<close>

definition step_frame :: "migration_step \<Rightarrow> bool" where
  "step_frame st \<longleftrightarrow> distinct (map path_name (ms_affected st))
     \<and> (\<forall>sn h p. p \<notin> set (ms_affected st) \<longrightarrow> fst (ms_forward st sn h) p = h p)
     \<and> (\<forall>b sn h p. ms_backward st = Some b \<longrightarrow> p \<notin> set (ms_affected st) \<longrightarrow> fst (b sn h) p = h p)"

definition touched :: "applied_step list \<Rightarrow> string set" where
  "touched ap = (\<Union>(s, sn)\<in>set ap. set (ms_affected s))"

definition undo_order :: "applied_step list \<Rightarrow> (snapshot \<times> string list) list" where
  "undo_order ap = map (\<lambda>(s, sn). (sn, ms_affected s)) ap"

definition recoverable :: "applied_step list \<Rightarrow> files \<Rightarrow> files \<Rightarrow> bool" where
  "recoverable ap h0 h \<longleftrightarrow> (\<forall>p. p \<notin> touched ap \<longrightarrow> h p = h0 p)
     \<and> (\<forall>g p. fst (restore_all (\<lambda>_. False) (undo_order ap) g True) p = (if p \<in> touched ap then h0 p else g p))"

lemma recoverable_Nil: "recoverable [] h h"
  by (simp add: recoverable_def touched_def undo_order_def)

lemma undo_steps_frame:
  "list_all (\<lambda>(s, sn). step_frame s) ap \<Longrightarrow> p \<notin> touched ap \<Longrightarrow> fst (undo_steps ap h ns) p = h p"
proof (induction ap h ns rule: undo_steps.induct)
  case (2 st snap rest home names)
  then show ?case
    by (auto simp: touched_def step_frame_def split: option.splits prod.splits bool.splits) (metis fst_conv)+
qed simp

lemma recoverable_step:
  assumes rec: "recoverable ap h0 h" and fr: "step_frame st"
    and snap: "snapshot_tree io i h (ms_affected st) = (snap, True)" "old_snapshot io i = []"
    and g: "\<And>p. p \<notin> set (ms_affected st) \<Longrightarrow> h' p = h p"
  shows "recoverable ((st, snap) # ap) h0 h'"
proof -
  have t: "touched ((st, snap) # ap) = set (ms_affected st) \<union> touched ap" by (simp add: touched_def)
  have o: "undo_order ((st, snap) # ap) = (snap, ms_affected st) # undo_order ap" by (simp add: undo_order_def)
  have kept: "dict_get snap (path_name p) = h p" if "p \<in> set (ms_affected st)" for p
    using snapshot_tree_lookup [OF snap _ that] fr by (simp add: step_frame_def)
  show ?thesis
    using rec g unfolding recoverable_def t o restore_all_fst
    by (auto simp: restore_tree_files kept)
qed

lemma migrate_loop_restores:
  "recoverable ap h0 h \<Longrightarrow> list_all (\<lambda>(s, sn). step_frame s) ap \<Longrightarrow> list_all step_frame steps \<Longrightarrow>
   \<forall>i. old_snapshot io i = [] \<Longrightarrow> restore_bad io = (\<lambda>_. False) \<Longrightarrow>
   migrate_loop io i steps ap h = (h', r) \<Longrightarrow> mr_reason r \<noteq> MIG_OK \<Longrightarrow> h' = h0 \<and> mr_reason r = STEP_FAILED"
proof (induction steps arbitrary: i ap h)
  case Nil
  then show ?case by auto
next
  case (Cons st rest)
  obtain snap complete where sn: "snapshot_tree io i h (ms_affected st) = (snap, complete)" by fastforce
  obtain h1 fin where run: "(if complete then ms_forward st snap h else (h, False)) = (h1, fin)" by fastforce
  have fr: "step_frame st" using Cons.prems(3) by simp
  have old: "old_snapshot io i = []" using Cons.prems(4) by simp
  have h1: "h1 p = h p" if "p \<notin> set (ms_affected st)" for p
    using run fr that by (auto simp: step_frame_def split: if_splits) (metis fst_conv)
  show ?case
  proof (cases fin)
    case True
    then have sn': "snapshot_tree io i h (ms_affected st) = (snap, True)" using run sn by (auto split: if_splits)
    have rec: "recoverable ((st, snap) # ap) h0 h1"
      by (rule recoverable_step [OF Cons.prems(1) fr sn' old h1])
    show ?thesis
      by (rule Cons.IH [OF rec _ _ Cons.prems(4,5) _ Cons.prems(7)]) (use Cons.prems fr sn run True in \<open>auto simp: Let_def\<close>)
  next
    case False
    let ?h2 = "fst (undo_steps ap h1 [])"
    let ?order = "(if complete then [(snap, ms_affected st)] else []) @ undo_order ap"
    have r_ok: "snd (restore_all (\<lambda>_. False) xs g True)" for xs g
      by (induction xs arbitrary: g) (auto split: prod.splits, metis restore_tree_ok snd_conv)
    have h': "h' = fst (restore_all (\<lambda>_. False) ?order ?h2 True)" and res: "mr_reason r = STEP_FAILED"
      using Cons.prems(5,6) sn run False r_ok [of ?order ?h2]
      by (auto simp: Let_def undo_order_def split: prod.splits if_splits)
    have h2: "?h2 p = h1 p" if "p \<notin> touched ap" for p
      using undo_steps_frame [OF Cons.prems(2) that] .
    have "h' = h0"
    proof (cases complete)
      case False
      then have "h1 = h" using run by simp
      then show ?thesis
        using Cons.prems(1) h2 unfolding h' recoverable_def by (auto simp: False fun_eq_iff)
    next
      case True
      have sn': "snapshot_tree io i h (ms_affected st) = (snap, True)" using sn True by simp
      from recoverable_step [OF Cons.prems(1) fr sn' old h1] True h2
      have "h' p = h0 p" for p
        unfolding h' recoverable_def
        by (auto simp: undo_order_def touched_def)
      then show ?thesis by (simp add: fun_eq_iff)
    qed
    with res show ?thesis by simp
  qed
qed

section \<open>Migration paths\<close>

fun chain_from :: "catalog \<Rightarrow> sv_key \<Rightarrow> migration_step list \<Rightarrow> sv_key \<Rightarrow> bool" where
  "chain_from cat cur [] target = (cur = target)"
| "chain_from cat cur (st # rest) target = list_ex (\<lambda>((f, t), s). f = cur \<and> s = st \<and> chain_from cat t rest target) cat"

lemma least_hop_mem: "least_hop cs = Some c \<Longrightarrow> c \<in> set cs"
  by (induction cs arbitrary: c) (auto split: option.splits if_splits)

lemma path_loop_chain:
  "path_loop n cat target cur chain = r \<Longrightarrow> r \<noteq> [] \<Longrightarrow>
   \<exists>rest. r = chain @ rest \<and> chain_from cat cur rest target \<and> length rest < n \<and> set rest \<subseteq> snd ` set cat"
proof (induction n cat target cur chain rule: path_loop.induct)
  case (2 n cat target cur chain)
  show ?case
  proof (cases "cur = target")
    case True
    with 2 show ?thesis by (intro exI [of _ "[]"]) simp
  next
    case False
    with 2(2,3) obtain to st where hop:
      "least_hop (map (\<lambda>((f, t), s). (t, s)) (filter (\<lambda>((f, t), s). f = cur) cat)) = Some (to, st)"
      and r: "path_loop n cat target to (chain @ [st]) = r" by (auto split: option.splits)
    from least_hop_mem [OF hop] have mem: "((cur, to), st) \<in> set cat" by auto
    from 2(1) [OF False hop refl r 2(3)] obtain rest where rest:
      "r = (chain @ [st]) @ rest" "chain_from cat to rest target" "length rest < n" "set rest \<subseteq> snd ` set cat" by blast
    have "chain_from cat cur (st # rest) target"
      using mem rest(2) by (simp add: list_ex_iff) (rule bexI [OF _ mem], simp)
    moreover have "st \<in> snd ` set cat" by (rule image_eqI [OF _ mem]) simp
    ultimately show ?thesis using rest by (intro exI [of _ "st # rest"]) simp
  qed
qed simp

lemma catalog_path_chain:
  "catalog_path cat a b \<noteq> [] \<Longrightarrow>
   chain_from cat a (catalog_path cat a b) b \<and> length (catalog_path cat a b) < 16 \<and> set (catalog_path cat a b) \<subseteq> snd ` set cat"
  using path_loop_chain [of 16 cat b a "[]"] by (auto simp: catalog_path_def)

lemma migrate_loop_reason:
  "migrate_loop io i steps ap h = (h', r) \<Longrightarrow> mr_ok r \<longleftrightarrow> mr_reason r = MIG_OK"
  by (induction steps arbitrary: i ap h) (auto simp: Let_def split: prod.splits if_splits)

section \<open>Properties\<close>

lemma decide_checks_available:
  assumes "decide_checks mf vi vc channel platform hw avail auth = (UPDATE_AVAILABLE, art, down)"
  shows "mf_channel mf = channel \<and> avail \<and> art = dict_get (mf_artifacts mf) platform
    \<and> (\<forall>h. hw = Some h \<longrightarrow> hw_sequence h < mf_sequence mf
             \<or> hw_sequence h = mf_sequence mf \<and> hw_sha256 h = mf_canonical_sha256 mf)
    \<and> \<not> semver_eq vc vi \<and> down = semver_less vc vi
    \<and> (down \<longrightarrow> (\<exists>a. auth = Some a \<and> da_target_version a = mf_version mf))"
  using assms unfolding decide_checks_def Let_def da_covers_def
  by (auto split: if_split_asm option.split_asm)

lemma decide_update_install:
  assumes "decide_update mf installed channel platform hw avail auth = Some d" and "should_install d"
  obtains vi vc where "parse_semver installed = Some vi" "parse_semver (mf_version mf) = Some vc"
    "decide_checks mf vi vc channel platform hw avail auth = (UPDATE_AVAILABLE, ud_artifact d, ud_authorized_downgrade d)"
  using assms by (auto simp: decide_update_def should_install_def Let_def split: option.split_asm prod.split_asm)

lemma install_not_replayed:
  assumes "decide_update mf installed channel platform (Some h) avail auth = Some d" and "should_install d"
  shows "hw_sequence h \<le> mf_sequence mf"
proof (rule decide_update_install [OF assms])
  fix vi vc
  assume "decide_checks mf vi vc channel platform (Some h) avail auth = (UPDATE_AVAILABLE, ud_artifact d, ud_authorized_downgrade d)"
  from decide_checks_available [OF this] show ?thesis by auto
qed

text \<open>C36. What may be installed: a decision to install names the artifact of this platform, on the
  configured channel, from a manifest no older than the newest one seen, and the offered version is
  strictly newer than the installed one, or is older and exactly the version the operator pinned.\<close>

theorem install_is_newer_or_pinned:
  assumes "decide_update mf installed channel platform hw avail auth = Some d" and "should_install d"
  shows "mf_channel mf = channel \<and> avail \<and> ud_artifact d = dict_get (mf_artifacts mf) platform
    \<and> (\<forall>h. hw = Some h \<longrightarrow> hw_sequence h < mf_sequence mf
             \<or> hw_sequence h = mf_sequence mf \<and> hw_sha256 h = mf_canonical_sha256 mf)
    \<and> (is_strictly_newer (mf_version mf) installed = Some True \<and> \<not> ud_authorized_downgrade d
       \<or> is_strictly_newer installed (mf_version mf) = Some True \<and> ud_authorized_downgrade d
         \<and> (\<exists>a. auth = Some a \<and> da_target_version a = mf_version mf))"
proof (rule decide_update_install [OF assms])
  fix vi vc
  assume v: "parse_semver installed = Some vi" "parse_semver (mf_version mf) = Some vc"
    and "decide_checks mf vi vc channel platform hw avail auth = (UPDATE_AVAILABLE, ud_artifact d, ud_authorized_downgrade d)"
  note c = decide_checks_available [OF this(3)]
  have "semver_less vi vc" if "\<not> semver_less vc vi"
    using that c sv.total [of vi vc] sv.same_less [of vi vc vc] sv.same_less [of vc vi] by (auto simp: semver_eq_def)
  with c v show ?thesis
    by (cases "semver_less vc vi") (simp_all add: is_strictly_newer_def)
qed

definition example_manifest :: verified_manifest where
  "example_manifest = \<lparr>mf_channel = ''stable'', mf_version = ''0.7.7'', mf_sequence = 12, mf_minimum_compatible = ''0.7.0'',
     mf_artifacts = [(''macos-arm64'', \<lparr>art_url = ''u'', art_size = 1, art_sha256 = ''s''\<rparr>)], mf_canonical_sha256 = ''c12''\<rparr>"

theorem install_is_newer_or_pinned_witness:
  "\<exists>d. decide_update example_manifest ''0.7.6'' ''stable'' ''macos-arm64'' None True None = Some d \<and> should_install d
     \<and> is_strictly_newer (mf_version example_manifest) ''0.7.6'' = Some True \<and> \<not> ud_authorized_downgrade d"
proof -
  let ?d = "\<lparr>ud_reason = UPDATE_AVAILABLE, ud_artifact = Some \<lparr>art_url = ''u'', art_size = 1, art_sha256 = ''s''\<rparr>,
     ud_authorized_downgrade = False, ud_below_minimum = False\<rparr>"
  have dec: "decide_update example_manifest ''0.7.6'' ''stable'' ''macos-arm64'' None True None = Some ?d" by code_simp
  moreover have ins: "should_install ?d" by code_simp
  ultimately show ?thesis using install_is_newer_or_pinned [OF dec ins] by auto
qed

text \<open>C37. Replay protection: once a manifest sequence has been written to the replay marks of a
  channel, then after any further recordings, on any channel, a manifest of that channel with a
  smaller sequence is refused. Writes may fail; of the reads it is enough that a recording which
  writes could read the mark (when it is of this channel) or the object it rewrites (when it is of
  another one), and that the read of the decision itself succeeds: a read that fails counts as an
  empty store.\<close>

theorem replay_refused:
  assumes "0 < n" and "mf_sequence mf < n" and "write_ok io" and "list_all (keeps_mark channel) later"
    and "f' = fold hw_step later (hw_record channel n v sha now io f)"
    and "decide_update mf installed channel platform (hw_load channel True f') avail auth = Some d"
  shows "\<not> should_install d"
proof
  assume ins: "should_install d"
  have "n \<le> hw_mark channel f'"
    using hw_mark_recorded [of n io channel v sha now f] assms(1,3)
      hw.run_good [OF _ hw_lawful [OF assms(4)], of n "hw_record channel n v sha now io f"]
    unfolding assms(5) by simp
  then have "mf_sequence mf < hw_mark channel f'" "0 < hw_mark channel f'"
    using assms(1,2) by linarith+
  then obtain h where "hw_load channel True f' = Some h" "mf_sequence mf < hw_sequence h"
    by (auto simp: hw_mark_def split: option.splits)
  with install_not_replayed [of mf installed channel platform h avail auth d] assms(6) ins show False by simp
qed

definition all_ok :: hw_io where
  "all_ok = \<lparr>read_mark_ok = True, read_all_ok = True, write_ok = True\<rparr>"

definition later_marks :: "hw_op list" where
  "later_marks = [Record ''beta'' 3 ''0.8.0'' ''b3'' 5 all_ok, Record ''stable'' 4 ''0.7.1'' ''c4'' 6 all_ok,
     Record ''beta'' 4 ''0.8.1'' ''b4'' 7 (all_ok\<lparr>read_all_ok := False, write_ok := False\<rparr>)]"

definition seen_marks :: high_water_file where
  "seen_marks = fold hw_step later_marks (hw_record ''stable'' 20 ''0.7.8'' ''c20'' 1 all_ok None)"

theorem replay_refused_witness:
  "\<exists>d. decide_update example_manifest ''0.7.6'' ''stable'' ''macos-arm64'' (hw_load ''stable'' True seen_marks) True None = Some d
     \<and> \<not> should_install d"
proof -
  obtain d where d: "decide_update example_manifest ''0.7.6'' ''stable'' ''macos-arm64'' (hw_load ''stable'' True seen_marks) True None = Some d"
    by (cases "decide_update example_manifest ''0.7.6'' ''stable'' ''macos-arm64'' (hw_load ''stable'' True seen_marks) True None")
      (code_simp, simp)
  have "\<not> should_install d"
    by (rule replay_refused [of 20 example_manifest all_ok "''stable''" later_marks seen_marks "''0.7.8''" "''c20''" 1 None
          "''0.7.6''" "''macos-arm64''" True None])
      (use d in \<open>simp_all add: example_manifest_def seen_marks_def later_marks_def all_ok_def\<close>)
  with d show ?thesis by blast
qed

text \<open>C38. Migrations are all or nothing. When every step touches only the paths it declares, with
  distinct base names, the snapshot directories start empty and the backups can be restored, then
  whatever step fails, in its snapshot or half way through its own code, and whatever the backward
  code does: a run that answers with a failure has left the user's files and the recorded schema
  exactly as they were, and a run that answers with success has recorded the schema it migrated to
  (or had nothing to do). The one way left to migrate files without recording it is the last write:
  the run then raises instead of answering, and the recorded schema is the old one or unreadable.\<close>

theorem migration_all_or_nothing:
  assumes "list_all step_frame (map snd cat)" and "\<forall>i. old_snapshot io i = []" and "restore_bad io = (\<lambda>_. False)"
    and "run_migrations io cat from_version to_version recorded home = (home', out)"
  shows "case out of
      Inr r \<Rightarrow> if mr_ok r then home' = home \<or> home_schema home' = to_version
               else home' = home \<and> mr_reason r \<noteq> RESTORE_FAILED
    | Inl Bad_version \<Rightarrow> home' = home
    | Inl Schema_write_failed \<Rightarrow> home_schema home' = home_schema home \<or> home_schema home' = []"
proof (cases "parse_semver from_version = None \<or> parse_semver to_version = None")
  case True
  then show ?thesis using assms(4) by (auto simp: run_migrations_def split: option.splits)
next
  case False
  then obtain a b where v: "parse_semver from_version = Some a" "parse_semver to_version = Some b" by auto
  let ?steps = "catalog_path cat (comparable a) (comparable b)"
  obtain fs res where loop: "migrate_loop io 0 ?steps [] (home_files home) = (fs, res)" by fastforce
  have fr: "list_all step_frame ?steps" if "?steps \<noteq> []"
    using catalog_path_chain [OF that] assms(1) by (auto simp: list_all_iff)
  have restored: "fs = home_files home \<and> mr_reason res = STEP_FAILED" if "?steps \<noteq> []" "\<not> mr_ok res"
    using migrate_loop_restores [OF recoverable_Nil _ fr [OF that(1)] assms(2,3) loop] that(2) migrate_loop_reason [OF loop]
    by simp
  show ?thesis
    using assms(4) v loop restored
    by (auto simp: run_migrations_def Let_def write_recorded_schema_def split: if_splits schema_write.splits)
qed

definition rename_step :: migration_step where
  "rename_step = \<lparr>ms_name = ''split-settings'', ms_from = ''1.0.0'', ms_to = ''1.1.0'', ms_affected = [''settings.json''],
     ms_forward = (\<lambda>sn h. (h(''settings.json'' \<mapsto> ''half written''), False)), ms_backward = None\<rparr>"

definition good_io :: migration_io where
  "good_io = \<lparr>mkdir_ok = (\<lambda>_. True), old_snapshot = (\<lambda>_. []), snapshot_bad = (\<lambda>_ _. False),
     restore_bad = (\<lambda>_. False), schema_write = Schema_written\<rparr>"

theorem migration_all_or_nothing_witness:
  "\<exists>cat r. catalog_register rename_step [] = Some cat
     \<and> run_migrations good_io cat ''1.0.0'' ''1.1.0'' None \<lparr>home_files = [''settings.json'' \<mapsto> ''old''], home_schema = ''1.0.0''\<rparr>
        = (\<lparr>home_files = [''settings.json'' \<mapsto> ''old''], home_schema = ''1.0.0''\<rparr>, Inr r)
     \<and> mr_reason r = STEP_FAILED"
proof -
  let ?key = "\<lambda>m. (1, m, 0, 1, []) :: sv_key"
  let ?cat = "[((?key 0, ?key 1), rename_step)]"
  let ?home = "\<lparr>home_files = [''settings.json'' \<mapsto> ''old''], home_schema = ''1.0.0''\<rparr>"
  let ?r = "\<lparr>mr_ok = False, mr_reason = STEP_FAILED, mr_applied = [], mr_rolled_back = []\<rparr>"
  have p: "parse_semver ''1.0.0'' = Some \<lparr>major = 1, minor = 0, patch = 0, prerelease = [], build = []\<rparr>"
    "parse_semver ''1.1.0'' = Some \<lparr>major = 1, minor = 1, patch = 0, prerelease = [], build = []\<rparr>" by code_simp+
  have reg: "catalog_register rename_step [] = Some ?cat"
    by (simp add: catalog_register_def rename_step_def p comparable_def)
  have fr: "list_all step_frame (map snd ?cat)" by (simp add: step_frame_def rename_step_def)
  have io: "\<forall>i. old_snapshot good_io i = []" "restore_bad good_io = (\<lambda>_. False)" by (simp_all add: good_io_def)
  have "snd (run_migrations good_io ?cat ''1.0.0'' ''1.1.0'' None ?home) = Inr ?r" by code_simp
  then obtain home' where run: "run_migrations good_io ?cat ''1.0.0'' ''1.1.0'' None ?home = (home', Inr ?r)"
    by (metis prod.collapse)
  from migration_all_or_nothing [OF fr io run] reg run show ?thesis by auto
qed

section \<open>Divergences\<close>

text \<open>The path search takes the least target at every hop, not the least that moves toward the goal:
  with a direct hop in the catalog it still finds no path when a smaller side hop exists.\<close>

theorem path_misses_direct_hop:
  "let hop = (\<lambda>a b. \<lparr>ms_name = a @ b, ms_from = a, ms_to = b, ms_affected = [], ms_forward = (\<lambda>sn h. (h, True)), ms_backward = None\<rparr>);
       k = (\<lambda>m. (1, m, 0, 1, []) :: sv_key);
       cat = [((k 0, k 2), hop ''1.0.0'' ''1.2.0''), ((k 0, k 1), hop ''1.0.0'' ''1.1.0'')]
   in catalog_path cat (k 0) (k 2) = [] \<and> catalog_path (take 1 cat) (k 0) (k 2) \<noteq> []"
  by (simp add: catalog_path_def eval_nat_numeral Let_def)

text \<open>A snapshot is keyed by the last path component: two affected paths of one step with the same name
  share one backup, and restoring gives both the content of the second.\<close>

theorem snapshot_name_collision:
  "let home = [''a/settings.json'' \<mapsto> ''A'', ''b/settings.json'' \<mapsto> ''B''];
       aff = [''a/settings.json'', ''b/settings.json''];
       snap = fst (snapshot_tree good_io 0 home aff)
   in fst (restore_tree (\<lambda>_. False) snap aff home) ''a/settings.json'' = Some ''B''"
  by (simp add: snapshot_tree_def good_io_def path_name_def Let_def)

text \<open>The replay marks are said to move only forward, and tampering to fail closed. One failed read
  is enough to lose them: a recording of another channel that cannot read the file rewrites it with its
  own mark alone, and the superseded manifest installs again.\<close>

theorem unread_marks_are_forgotten:
  "let f = hw_record ''stable'' 20 ''0.7.8'' ''c20'' 1 all_ok None;
       f' = hw_record ''beta'' 3 ''0.8.0'' ''b3'' 5 (all_ok\<lparr>read_all_ok := False\<rparr>) f;
       decide = (\<lambda>hw. map_option should_install
         (decide_update example_manifest ''0.7.6'' ''stable'' ''macos-arm64'' hw True None))
   in decide (hw_load ''stable'' True f) = Some False \<and> hw_load ''stable'' True f' = None
      \<and> decide (hw_load ''stable'' True f') = Some True \<and> decide (hw_load ''stable'' False f) = Some True"
  by code_simp

text \<open>A migration whose last write fails raises with the files already migrated and the old schema
  recorded: nothing is rolled back, and the next run migrates the migrated files again.\<close>

theorem schema_failure_keeps_migrated_files:
  "let step = rename_step\<lparr>ms_forward := (\<lambda>sn h. (h(''settings.json'' \<mapsto> ''new''), True))\<rparr>;
       home = \<lparr>home_files = [''settings.json'' \<mapsto> ''old''], home_schema = ''1.0.0''\<rparr>;
       cat = the (catalog_register step []);
       (home', out) = run_migrations (good_io\<lparr>schema_write := Schema_untouched\<rparr>) cat ''1.0.0'' ''1.1.0'' None home
   in out = Inl Schema_write_failed \<and> home_files home' ''settings.json'' = Some ''new'' \<and> home_schema home' = ''1.0.0''"
  by code_simp

text \<open>A snapshot directory that an earlier attempt left behind is not emptied: a file that did not exist
  when the failed migration began comes back from the older attempt.\<close>

theorem old_snapshot_resurrects_a_file:
  "let io = good_io\<lparr>old_snapshot := (\<lambda>_. [(''settings.json'', ''of an earlier attempt'')])\<rparr>;
       home = \<lparr>home_files = (\<lambda>_. None), home_schema = ''1.0.0''\<rparr>;
       cat = the (catalog_register rename_step []);
       (home', out) = run_migrations io cat ''1.0.0'' ''1.1.0'' None home
   in home_files home' ''settings.json'' = Some ''of an earlier attempt''
      \<and> (case out of Inr r \<Rightarrow> mr_reason r = STEP_FAILED | Inl e \<Rightarrow> False)"
  by code_simp

end
