(* ===== verification/Wallet_Amounts.thy ===== *)
theory Wallet_Amounts
  imports Vool_Prelude
begin

text \<open>
  Exact money amounts, \<open>core/wallet/amounts.py\<close>: human decimals to atomic units and back, the
  signed 64-bit storage ceiling, and the one presentation owner for shortened money.

  A \<open>py_value\<close> is the dynamically typed argument; a float is given by its \<open>repr\<close> text, the only
  thing the code reads of it. A refusal (\<open>wallet_amount_invalid\<close> with its reason) is \<open>Inl\<close>.
  Decimal arithmetic is exact integer arithmetic here: storable amounts have at most 19 digits,
  well inside the 28 digits of Python's default decimal context.
\<close>

section \<open>Parsing\<close>

datatype py_value = PyNone | PyBool bool | PyInt int | PyFloat string | PyStr string | PyOther

datatype amount_error = Amount_missing_or_not_a_number | Amount_not_a_plain_decimal
  | Amount_float_precision_ambiguous | Amount_precision_exceeds_asset
  | Amount_must_be_positive | Amount_exceeds_pilot_storage_ceiling

definition int64_max :: int where
  "int64_max = 2 ^ 63 - 1"

definition max_float_digits :: nat where
  "max_float_digits = 15"

definition show_int :: "int \<Rightarrow> string" where
  "show_int i = (if i < 0 then ''-'' @ show_nat (nat (- i)) else show_nat (nat i))"

definition text_of :: "py_value \<Rightarrow> amount_error + string" where
  "text_of value =
     (case value of
        PyBool b \<Rightarrow> Inl Amount_missing_or_not_a_number
      | PyNone \<Rightarrow> Inl Amount_missing_or_not_a_number
      | PyInt i \<Rightarrow> Inr (show_int i)
      | PyFloat text \<Rightarrow>
          if \<not> list_all (\<lambda>ch. is_digit ch \<or> ch \<in> set ''.-'') text then Inl Amount_not_a_plain_decimal
          else if length (dropWhile (\<lambda>c. c = CHR ''0'') (filter (\<lambda>c. c \<noteq> CHR ''-'' \<and> c \<noteq> CHR ''.'') text)) > max_float_digits
               then Inl Amount_float_precision_ambiguous
          else Inr text
      | PyStr s \<Rightarrow> Inr (py_strip s)
      | PyOther \<Rightarrow> Inl Amount_missing_or_not_a_number)"

text \<open>The groups of \<open>^(\d*)(?:\.(\d*))?$\<close>; the text is stripped, so \<open>$\<close> is its end.\<close>

definition decimal_match :: "string \<Rightarrow> (string \<times> string) option" where
  "decimal_match text =
     (let whole = takeWhile is_digit text; rest = dropWhile is_digit text in
      if rest = [] then Some (whole, [])
      else if hd rest = CHR ''.'' \<and> list_all is_digit (tl rest) then Some (whole, tl rest)
      else None)"

definition ljust0 :: "nat \<Rightarrow> string \<Rightarrow> string" where
  "ljust0 n s = s @ replicate (n - length s) (CHR ''0'')"

definition minor_of :: "string \<Rightarrow> string \<Rightarrow> nat \<Rightarrow> int" where
  "minor_of whole fraction places = int (read_nat whole * 10 ^ places + read_nat (ljust0 places fraction))"

definition parse_human_amount :: "py_value \<Rightarrow> nat \<Rightarrow> amount_error + int" where
  "parse_human_amount value places =
     (case text_of value of
        Inl e \<Rightarrow> Inl e
      | Inr text \<Rightarrow>
         (case decimal_match text of
            None \<Rightarrow> Inl Amount_not_a_plain_decimal
          | Some (g1, g2) \<Rightarrow>
             if text = [] \<or> (g1 = [] \<and> g2 = []) then Inl Amount_not_a_plain_decimal
             else (let whole = (if g1 = [] then ''0'' else g1) in
               if length g2 > places \<and> list_ex (\<lambda>c. c \<noteq> CHR ''0'') (drop places g2)
               then Inl Amount_precision_exceeds_asset
               else (let fraction = take places g2;
                         minor = minor_of whole fraction places
                     in if minor \<le> 0 then Inl Amount_must_be_positive
                        else if minor > int64_max then Inl Amount_exceeds_pilot_storage_ceiling
                        else Inr minor))))"

section \<open>Formatting\<close>

definition format_minor :: "int \<Rightarrow> nat \<Rightarrow> string" where
  "format_minor value places =
     (let sign = (if value < 0 then ''-'' else []);
          digits = rjust0 (places + 1) (show_nat (nat \<bar>value\<bar>));
          whole = take (length digits - places) digits;
          fraction = rstrip0 (drop (length digits - places) digits)
      in if fraction \<noteq> [] then sign @ whole @ ''.'' @ fraction else sign @ whole)"

definition fits_storage :: "int list \<Rightarrow> bool" where
  "fits_storage numbers \<longleftrightarrow> list_all (\<lambda>n. 0 \<le> n \<and> n \<le> int64_max) numbers \<and> sum_list numbers \<le> int64_max"

section \<open>Shortened money\<close>

datatype round_mode = ROUND_NEAREST | ROUND_UP | ROUND_DOWN

definition short_significant :: int where "short_significant = 3"

definition short_max_places :: int where "short_max_places = 8"

text \<open>\<open>n / d\<close> as an integer by the decimal rounding of the mode: half-even, ceiling, floor.\<close>

definition round_div :: "round_mode \<Rightarrow> int \<Rightarrow> int \<Rightarrow> int" where
  "round_div mode n d =
     (case mode of
        ROUND_DOWN \<Rightarrow> n div d
      | ROUND_UP \<Rightarrow> - ((- n) div d)
      | ROUND_NEAREST \<Rightarrow>
          let q = n div d; r = n mod d in
          if 2 * r < d then q else if 2 * r > d then q + 1 else if even q then q else q + 1)"

text \<open>\<open>magnitude.adjusted()\<close>: the position of the leading significant digit.\<close>

definition adjusted :: "int \<Rightarrow> nat \<Rightarrow> int" where
  "adjusted minor decimals = int (length (show_nat (nat \<bar>minor\<bar>))) - 1 - int decimals"

definition short_places :: "int \<Rightarrow> nat \<Rightarrow> nat" where
  "short_places minor decimals =
     nat (max 0 (min short_max_places (short_significant - 1 - adjusted minor decimals)))"

text \<open>The rounded coefficient at \<open>short_places\<close> places.\<close>

definition short_coefficient :: "int \<Rightarrow> nat \<Rightarrow> round_mode \<Rightarrow> int" where
  "short_coefficient minor decimals mode = round_div mode (minor * 10 ^ short_places minor decimals) (10 ^ decimals)"

definition shorten_minor :: "int \<Rightarrow> nat \<Rightarrow> round_mode \<Rightarrow> string" where
  "shorten_minor minor decimals mode =
     (if minor = 0 then ''0''
      else if adjusted minor decimals < - short_max_places then format_minor minor decimals
      else format_minor (short_coefficient minor decimals mode) (short_places minor decimals))"

text \<open>The leading mark of an estimate is the one character \<open>APPROX_MARK\<close>, an argument here.\<close>

definition display_amount :: "string \<Rightarrow> int \<Rightarrow> nat \<Rightarrow> string \<Rightarrow> round_mode \<Rightarrow> bool \<Rightarrow> string" where
  "display_amount approx_mark minor decimals symbol mode exact =
     (let full = format_minor minor decimals in
      if exact then py_strip (full @ '' '' @ symbol)
      else (let short = shorten_minor minor decimals mode in
        if short = full then py_strip (full @ '' '' @ symbol)
        else (case mode of
            ROUND_UP \<Rightarrow> py_strip (''at most '' @ short @ '' '' @ symbol)
          | ROUND_DOWN \<Rightarrow> py_strip (''at least '' @ short @ '' '' @ symbol)
          | ROUND_NEAREST \<Rightarrow> py_strip (approx_mark @ short @ '' '' @ symbol))))"

section \<open>Round trip\<close>

lemma read_nat_replicate0: "read_nat (s @ replicate k (CHR ''0'')) = read_nat s * 10 ^ k"
  by (simp add: read_nat_append)

lemma rstrip0_decomp: "s = rstrip0 s @ replicate (length s - length (rstrip0 s)) (CHR ''0'')"
proof -
  let ?t = "takeWhile (\<lambda>c. c = CHR ''0'') (rev s)"
  have split: "s = rstrip0 s @ rev ?t"
    by (metis rev_append rev_rev_ident rstrip0_def takeWhile_dropWhile_id)
  have "replicate (length (rev ?t)) (CHR ''0'') = rev ?t"
    by (rule replicate_length_same) (auto dest: set_takeWhileD)
  moreover have "length (rev ?t) = length s - length (rstrip0 s)"
    using arg_cong [OF split, of length] by simp
  ultimately show ?thesis using split by metis
qed

lemma length_rstrip0: "length (rstrip0 s) \<le> length s"
  using length_dropWhile_le [of "\<lambda>c. c = CHR ''0''" "rev s"] by (simp add: rstrip0_def)

lemma rstrip0_digits: "list_all is_digit s \<Longrightarrow> list_all is_digit (rstrip0 s)"
  by (auto simp: rstrip0_def list_all_iff dest!: set_dropWhileD)

lemma read_ljust_rstrip: "length s = n \<Longrightarrow> read_nat (ljust0 n (rstrip0 s)) = read_nat s"
  using rstrip0_decomp [of s] by (metis ljust0_def)

text \<open>The digits \<open>format_minor\<close> cuts in two: enough of them, and worth the amount.\<close>

lemma read_nat_cut: "read_nat s = read_nat (take (length s - k) s) * 10 ^ min k (length s) + read_nat (drop (length s - k) s)"
  by (metis append_take_drop_id diff_diff_cancel length_drop min.commute min_def nat_le_linear read_nat_append diff_is_0_eq' diff_zero)

lemma decimal_match_digits:
  "list_all is_digit w \<Longrightarrow> list_all is_digit f \<Longrightarrow>
   decimal_match (w @ (if f \<noteq> [] then CHR ''.'' # f else [])) = Some (w, f)"
proof -
  assume w: "list_all is_digit w" and f: "list_all is_digit f"
  have nd: "\<not> is_digit (CHR ''.'')" by code_simp
  have tk: "takeWhile is_digit (w @ (if f \<noteq> [] then CHR ''.'' # f else [])) = w"
    using w nd by (induction w) auto
  have dr: "dropWhile is_digit (w @ (if f \<noteq> [] then CHR ''.'' # f else [])) = (if f \<noteq> [] then CHR ''.'' # f else [])"
    using w nd by (induction w) auto
  show ?thesis using f by (simp add: decimal_match_def tk dr Let_def)
qed

lemma no_space_strip:
  assumes "list_all is_digit w" and "w \<noteq> []" and "list_all is_digit f"
  shows "py_strip (w @ (if f \<noteq> [] then CHR ''.'' # f else [])) = w @ (if f \<noteq> [] then CHR ''.'' # f else [])"
proof (rule py_strip_stripped, rule disjI2)
  have "last (w @ (if f \<noteq> [] then CHR ''.'' # f else [])) \<in> set w \<union> set f"
    using assms(2) by (cases "f = []") auto
  then show "\<not> py_isspace (hd (w @ (if f \<noteq> [] then CHR ''.'' # f else [])))
      \<and> \<not> py_isspace (last (w @ (if f \<noteq> [] then CHR ''.'' # f else [])))"
    using assms by (auto simp: list_all_iff hd_append)
qed

text \<open>The formatted text of a positive amount: digits, and a fraction no longer than the asset allows.\<close>

lemma format_minor_shape:
  assumes "0 < n"
  obtains w f where "format_minor n places = w @ (if f \<noteq> [] then CHR ''.'' # f else [])"
    "w \<noteq> []" "list_all is_digit w" "list_all is_digit f" "length f \<le> places"
    "read_nat w * 10 ^ places + read_nat (ljust0 places f) = nat n"
proof -
  let ?d = "rjust0 (places + 1) (show_nat (nat n))"
  let ?w = "take (length ?d - places) ?d" and ?t = "drop (length ?d - places) ?d"
  have len: "places + 1 \<le> length ?d" by (rule rjust0_simps(3))
  then have lt: "length ?t = places" by (simp only: length_drop)
  have lw: "?w \<noteq> []" using len by (metis Suc_eq_plus1 diff_is_0_eq length_0_conv length_take min.cobounded2
      min_def not_less_eq_eq rjust0_simps(3) take_eq_Nil)
  have dg: "list_all is_digit ?d" by simp
  then have "list_all is_digit ?w" "list_all is_digit ?t"
    by (auto simp: list_all_iff dest: in_set_takeD in_set_dropD)
  moreover have "length (rstrip0 ?t) \<le> places" using length_rstrip0 [of ?t] lt by simp
  moreover have "read_nat ?w * 10 ^ places + read_nat (ljust0 places (rstrip0 ?t)) = nat n"
    using read_nat_cut [of ?d places] min_absorb1 [of places "length ?d"] len
    unfolding read_ljust_rstrip [OF lt] by (simp only: rjust0_simps)
  moreover have "format_minor n places = ?w @ (if rstrip0 ?t \<noteq> [] then CHR ''.'' # rstrip0 ?t else [])"
    using assms by (simp add: format_minor_def Let_def)
  ultimately show thesis using that lw rstrip0_digits by blast
qed

section \<open>Properties\<close>

text \<open>The displayed exact amount is the amount: every storable positive number of atomic units is
  parsed back from the decimal that \<open>format_minor\<close> shows for it, for any number of decimals.\<close>

theorem parse_format_minor:
  assumes "0 < n" and "n \<le> int64_max"
  shows "parse_human_amount (PyStr (format_minor n places)) places = Inr n"
proof -
  obtain w f where s: "format_minor n places = w @ (if f \<noteq> [] then CHR ''.'' # f else [])"
    and w: "w \<noteq> []" "list_all is_digit w" and f: "list_all is_digit f" "length f \<le> places"
    and v: "read_nat w * 10 ^ places + read_nat (ljust0 places f) = nat n"
    using format_minor_shape [OF assms(1)] .
  have v': "minor_of w f places = n"
    unfolding minor_of_def v using assms(1) by simp
  have t: "text_of (PyStr (format_minor n places)) = Inr (format_minor n places)"
    unfolding s text_of_def by (simp only: py_value.case no_space_strip [OF w(2,1) f(1)])
  have m: "decimal_match (format_minor n places) = Some (w, f)"
    unfolding s by (rule decimal_match_digits [OF w(2) f(1)])
  have ne: "format_minor n places \<noteq> []" using s w(1) by simp
  show ?thesis
    using assms w(1) f(2) v' by (simp add: parse_human_amount_def t m ne Let_def)
qed

theorem parse_format_minor_witness:
  "format_minor 250 4 = ''0.025'' \<and> parse_human_amount (PyStr (format_minor 250 4)) 4 = Inr 250"
proof -
  have "format_minor 250 4 = ''0.025''"
    by code_simp
  moreover have "(0::int) < 250" "250 \<le> int64_max" by (simp_all add: int64_max_def)
  ultimately show ?thesis using parse_format_minor [of 250 4] by simp
qed

text \<open>C39. Never rounded, never out of range: whatever the caller sends, an accepted amount is a positive
  64-bit integer, and it is exactly the decimal that was sent.\<close>

theorem accepted_amount_exact:
  assumes "parse_human_amount value places = Inr n"
  shows "0 < n \<and> n \<le> int64_max \<and> (\<exists>text whole fraction. text_of value = Inr text
      \<and> decimal_match text = Some (whole, fraction)
      \<and> n * 10 ^ length fraction = int (read_nat (whole @ fraction)) * 10 ^ places)"
proof -
  obtain txt' g1 g2 where t: "text_of value = Inr txt'" "decimal_match txt' = Some (g1, g2)"
    using assms by (auto simp: parse_human_amount_def split: sum.splits option.splits)
  let ?w = "if g1 = [] then ''0'' else g1"
  let ?m = "read_nat ?w * 10 ^ places + read_nat (ljust0 places (take places g2))"
  have ok: "\<not> (length g2 > places \<and> list_ex (\<lambda>c. c \<noteq> CHR ''0'') (drop places g2))"
    and n': "minor_of ?w (take places g2) places = n" and n: "0 < n" "n \<le> int64_max"
    using assms by (auto simp: parse_human_amount_def t Let_def split: if_split_asm)
  have m: "int ?m = n" using n' by (simp add: minor_of_def)
  have w: "read_nat ?w = read_nat g1" by (simp add: read_nat_def digit_val_def)
  have "read_nat (ljust0 places (take places g2)) * 10 ^ length g2 = read_nat g2 * 10 ^ places"
  proof (cases "length g2 > places")
    case True
    have "replicate (length (drop places g2)) (CHR ''0'') = drop places g2"
      by (rule replicate_length_same) (use ok True in \<open>auto simp: list_ex_iff\<close>)
    then have "g2 = take places g2 @ replicate (length g2 - places) (CHR ''0'')"
      by (metis append_take_drop_id length_drop)
    then have "read_nat g2 = read_nat (take places g2) * 10 ^ (length g2 - places)"
      by (metis read_nat_replicate0)
    then show ?thesis using True
      by (simp add: ljust0_def mult.assoc flip: power_add)
  next
    case False
    then show ?thesis by (simp add: ljust0_def read_nat_replicate0 mult.assoc flip: power_add)
  qed
  then have "?m * 10 ^ length g2 = read_nat (g1 @ g2) * 10 ^ places"
    unfolding w by (simp add: read_nat_append algebra_simps)
  from arg_cong [OF this, of int] have "n * 10 ^ length g2 = int (read_nat (g1 @ g2)) * 10 ^ places"
    unfolding m [symmetric] by (simp only: of_nat_mult of_nat_power of_nat_numeral)
  with t n show ?thesis by blast
qed

section \<open>Shortened amounts never mislead\<close>

lemma format_minor_nonzero: "n \<noteq> 0 \<Longrightarrow> format_minor n places \<noteq> ''0''"
proof
  assume n: "n \<noteq> 0" and z: "format_minor n places = ''0''"
  then have "0 < n" by (cases "n < 0") (auto simp: format_minor_def Let_def split: if_splits)
  then obtain w f where s: "format_minor n places = w @ (if f \<noteq> [] then CHR ''.'' # f else [])" "w \<noteq> []"
    "read_nat w * 10 ^ places + read_nat (ljust0 places f) = nat n" by (rule format_minor_shape) blast
  with z have "w = ''0''" "f = []" by (auto simp: append_eq_Cons_conv split: if_splits)
  with s(3) have "nat n = 0" by (simp add: ljust0_def) (simp add: read_nat_def digit_val_def)
  with \<open>0 < n\<close> show False by simp
qed

lemma show_nat_lower: "0 < n \<Longrightarrow> 10 ^ (length (show_nat n) - 1) \<le> n"
proof (induction n rule: show_nat.induct)
  case (1 n)
  show ?case
  proof (cases "n < 10")
    case True
    then show ?thesis using 1 by (simp add: show_nat_small)
  next
    case False
    then have "10 ^ (length (show_nat (n div 10)) - 1) \<le> n div 10" using 1 by simp
    then have "10 * 10 ^ (length (show_nat (n div 10)) - 1) \<le> n" by linarith
    moreover have "length (show_nat (n div 10)) = Suc (length (show_nat (n div 10)) - 1)" by (cases "show_nat (n div 10)") auto
    ultimately show ?thesis using False by (metis diff_Suc_1 length_append_singleton power_Suc show_nat_step not_less)
  qed
qed

lemma round_div_bounds:
  assumes "0 < d"
  shows "n div d \<le> round_div mode n d" and "round_div mode n d \<le> n div d + 1"
    and "mode = ROUND_UP \<Longrightarrow> n \<le> round_div mode n d * d" and "mode = ROUND_DOWN \<Longrightarrow> round_div mode n d * d \<le> n"
proof -
  have up: "- ((- n) div d) = (if n mod d = 0 then n div d else n div d + 1)"
    using assms by (simp add: zdiv_zminus1_eq_if)
  show "n div d \<le> round_div mode n d" "round_div mode n d \<le> n div d + 1"
    by (cases mode; simp add: round_div_def up Let_def)+
  have split: "n = n div d * d + n mod d" "n mod d < d" "0 \<le> n mod d" using assms by simp_all
  show "mode = ROUND_UP \<Longrightarrow> n \<le> round_div mode n d * d"
  proof -
    have "n \<le> (if n mod d = 0 then n div d else n div d + 1) * d"
    proof (cases "n mod d = 0")
      case False
      have "n \<le> n div d * d + d" using split by linarith
      then show ?thesis using False by (simp add: distrib_right)
    qed (use split in simp)
    then show "mode = ROUND_UP \<Longrightarrow> n \<le> round_div mode n d * d" by (simp add: round_div_def up)
  qed
  show "mode = ROUND_DOWN \<Longrightarrow> round_div mode n d * d \<le> n"
  proof -
    have "n div d * d \<le> n" using split by linarith
    then show "mode = ROUND_DOWN \<Longrightarrow> round_div mode n d * d \<le> n" by (simp add: round_div_def)
  qed
qed

text \<open>The kept places reach the leading digit, so the scaled amount is at least one unit.\<close>

lemma short_scaled_ge:
  assumes "0 < minor" and "- short_max_places \<le> adjusted minor decimals"
  shows "10 ^ decimals \<le> minor * 10 ^ short_places minor decimals"
proof -
  let ?l = "length (show_nat (nat minor)) - 1"
  have l: "int ?l = adjusted minor decimals + int decimals"
    using assms(1) by (cases "show_nat (nat minor)") (auto simp: adjusted_def)
  then have "decimals \<le> ?l + short_places minor decimals"
    using assms(2) by (auto simp: short_places_def short_max_places_def short_significant_def)
  then have "(10::int) ^ decimals \<le> 10 ^ ?l * 10 ^ short_places minor decimals"
    by (simp flip: power_add)
  also have "\<dots> \<le> minor * 10 ^ short_places minor decimals"
  proof (rule mult_right_mono)
    have "10 ^ ?l \<le> nat minor" using assms(1) by (intro show_nat_lower) simp
    then have "int (10 ^ ?l) \<le> int (nat minor)" by (simp only: of_nat_le_iff)
    then show "(10::int) ^ ?l \<le> minor" using assms(1) by simp
  qed simp
  finally show ?thesis .
qed

text \<open>What a person reads first never misleads: shortening a positive amount never shows zero; as a
  maximum it never shows less than the amount, and as a guaranteed minimum never more.\<close>

theorem shortened_amount_honest:
  assumes "0 < minor"
  shows "shorten_minor minor decimals mode \<noteq> ''0''
    \<and> (\<exists>r p. shorten_minor minor decimals mode = format_minor r p \<and> 0 < r
         \<and> (mode = ROUND_UP \<longrightarrow> minor * 10 ^ p \<le> r * 10 ^ decimals)
         \<and> (mode = ROUND_DOWN \<longrightarrow> r * 10 ^ decimals \<le> minor * 10 ^ p))"
proof (cases "adjusted minor decimals < - short_max_places")
  case True
  then have "shorten_minor minor decimals mode = format_minor minor decimals"
    using assms by (simp add: shorten_minor_def)
  then show ?thesis using assms format_minor_nonzero [of minor decimals] by (auto intro!: exI [of _ minor] exI [of _ decimals])
next
  case False
  let ?p = "short_places minor decimals" and ?r = "short_coefficient minor decimals mode"
  have eq: "shorten_minor minor decimals mode = format_minor ?r ?p"
    using False assms by (simp add: shorten_minor_def)
  have d: "(0::int) < 10 ^ decimals" by simp
  have "1 \<le> minor * 10 ^ ?p div 10 ^ decimals"
    using short_scaled_ge [OF assms] False zdiv_mono1 [OF _ d, of "10 ^ decimals" "minor * 10 ^ ?p"] by simp
  then have r: "0 < ?r"
    using round_div_bounds(1) [OF d, of "minor * 10 ^ ?p" mode] unfolding short_coefficient_def by linarith
  then have "format_minor ?r ?p \<noteq> ''0''" by (intro format_minor_nonzero) simp
  moreover have "mode = ROUND_UP \<longrightarrow> minor * 10 ^ ?p \<le> ?r * 10 ^ decimals"
    "mode = ROUND_DOWN \<longrightarrow> ?r * 10 ^ decimals \<le> minor * 10 ^ ?p"
    using round_div_bounds(3,4) [OF d, of mode "minor * 10 ^ ?p"] unfolding short_coefficient_def by blast+
  ultimately show ?thesis using eq r by metis
qed

theorem shortened_amount_honest_witness:
  "shorten_minor 9264 6 ROUND_UP = ''0.00927'' \<and> shorten_minor 9264 6 ROUND_UP \<noteq> ''0''"
proof -
  have a: "adjusted 9264 6 = -3" "short_places 9264 6 = 5" "short_coefficient 9264 6 ROUND_UP = 927"
    by (simp_all add: adjusted_def short_max_places_def short_significant_def short_coefficient_def
        short_places_def round_div_def show_nat_eval)
  have "format_minor 927 5 = ''0.00927''" by code_simp
  then have "shorten_minor 9264 6 ROUND_UP = ''0.00927''"
    by (simp add: shorten_minor_def a short_max_places_def)
  then show ?thesis using shortened_amount_honest [of 9264 6 ROUND_UP] by simp
qed

theorem accepted_amount_exact_witness:
  "parse_human_amount (PyStr '' 0.10 '') 3 = Inr 100
   \<and> (\<exists>t w f. text_of (PyStr '' 0.10 '') = Inr t \<and> decimal_match t = Some (w, f)
        \<and> (100::int) * 10 ^ length f = int (read_nat (w @ f)) * 10 ^ 3)"
proof -
  have "parse_human_amount (PyStr '' 0.10 '') 3 = Inr 100" by code_simp
  with accepted_amount_exact [OF this] show ?thesis by blast
qed

end
