(* ===== verification/Team_Budget.thy ===== *)
theory Team_Budget
  imports Vool_Prelude
begin

text \<open>
  The spend limits of an agent team, from \<open>src/core/agent_team/limits.py\<close>: validated \<open>Limits\<close>, the
  \<open>PausableClock\<close>, the books of the team and of each agent, and \<open>TeamBudget\<close>, the one door every
  model call passes: \<open>reserve\<close> before the call, \<open>settle\<close> after it. Dollars and seconds are rationals.
  Every operation runs under the budget's lock, so a run is a sequence of operations.
\<close>

section \<open>Limits\<close>

text \<open>What a caller may pass where a limit is expected; \<open>NMissing\<close> is an absent dictionary key.\<close>

datatype raw_number = NMissing | NBool bool | NInt int | NFloat rat | NInf | NNan | NOther

record limits =
  max_usd :: rat
  max_tokens :: int
  max_calls :: int
  wall_clock_seconds :: rat

datatype budget_axis = Agent_axis | Wall_clock | Calls | Tokens | Usd

datatype budget_scope = AgentScope | TeamScope

datatype budget_error = LimitsRefused | BudgetRefused budget_axis budget_scope | BudgetKeyError

text \<open>\<open>Limits.__post_init__\<close>: whole positive counts, positive finite amounts.\<close>

definition positive_count :: "raw_number \<Rightarrow> int option" where
  "positive_count v = (case v of NInt n \<Rightarrow> if n \<le> 0 then None else Some n | _ \<Rightarrow> None)"

definition positive_amount :: "raw_number \<Rightarrow> rat option" where
  "positive_amount v = (case v of
     NInt n \<Rightarrow> if \<not> 0 < n then None else Some (of_int n)
   | NFloat q \<Rightarrow> if \<not> 0 < q then None else Some q
   | _ \<Rightarrow> None)"

definition make_limits :: "raw_number \<Rightarrow> raw_number \<Rightarrow> raw_number \<Rightarrow> raw_number \<Rightarrow> budget_error + limits" where
  "make_limits usd tokens calls seconds =
     (case (positive_count tokens, positive_count calls, positive_amount usd, positive_amount seconds) of
        (Some t, Some c, Some u, Some w) \<Rightarrow>
          Inr \<lparr>max_usd = u, max_tokens = t, max_calls = c, wall_clock_seconds = w\<rparr>
      | _ \<Rightarrow> Inl LimitsRefused)"

text \<open>\<open>Limits.from_dict\<close>: \<open>None\<close> stands for anything that is not a dictionary.\<close>

definition limits_from_dict :: "(string, raw_number) dict option \<Rightarrow> budget_error + limits" where
  "limits_from_dict raw = (case raw of None \<Rightarrow> Inl LimitsRefused | Some d \<Rightarrow>
     (let key = (\<lambda>k. case dict_get d k of None \<Rightarrow> NMissing | Some v \<Rightarrow> v)
      in if list_ex (\<lambda>k. key k = NMissing) [''max_usd'', ''max_tokens'', ''max_calls'', ''wall_clock_seconds'']
         then Inl LimitsRefused
         else make_limits (key ''max_usd'') (key ''max_tokens'') (key ''max_calls'') (key ''wall_clock_seconds'')))"

definition narrowed_by :: "limits \<Rightarrow> limits \<Rightarrow> budget_error + limits" where
  "narrowed_by a b = make_limits (NFloat (min (max_usd a) (max_usd b))) (NInt (min (max_tokens a) (max_tokens b)))
     (NInt (min (max_calls a) (max_calls b))) (NFloat (min (wall_clock_seconds a) (wall_clock_seconds b)))"

section \<open>Running time\<close>

record pclock =
  carried :: rat
  running_since :: "time option"

definition clock_new :: "rat \<Rightarrow> pclock" where
  "clock_new c = \<lparr>carried = max 0 c, running_since = None\<rparr>"

definition clock_start :: "time \<Rightarrow> pclock \<Rightarrow> pclock" where
  "clock_start now k = (case running_since k of None \<Rightarrow> k\<lparr>running_since := Some now\<rparr> | Some _ \<Rightarrow> k)"

definition clock_pause :: "time \<Rightarrow> pclock \<Rightarrow> pclock" where
  "clock_pause now k = (case running_since k of None \<Rightarrow> k
     | Some since \<Rightarrow> k\<lparr>carried := carried k + (now - since), running_since := None\<rparr>)"

definition clock_paused :: "pclock \<Rightarrow> bool" where
  "clock_paused k \<longleftrightarrow> running_since k = None"

definition clock_elapsed :: "time \<Rightarrow> pclock \<Rightarrow> rat" where
  "clock_elapsed now k = carried k + (case running_since k of None \<Rightarrow> 0 | Some since \<Rightarrow> now - since)"

section \<open>Books, reservations and the budget\<close>

record books =
  book_limits :: limits
  usd_spent :: rat
  tokens_spent :: int
  calls_made :: int
  usd_reserved :: rat
  tokens_reserved :: int

definition new_books :: "limits \<Rightarrow> books" where
  "new_books l = \<lparr>book_limits = l, usd_spent = 0, tokens_spent = 0, calls_made = 0, usd_reserved = 0, tokens_reserved = 0\<rparr>"

definition usd_left :: "books \<Rightarrow> rat" where
  "usd_left b = max_usd (book_limits b) - usd_spent b - usd_reserved b"

definition tokens_left :: "books \<Rightarrow> int" where
  "tokens_left b = max_tokens (book_limits b) - tokens_spent b - tokens_reserved b"

definition calls_left :: "books \<Rightarrow> int" where
  "calls_left b = max_calls (book_limits b) - calls_made b"

record reservation =
  reservation_id :: string
  res_agent :: string
  res_tokens :: int
  res_usd :: rat

record team_budget =
  team :: books
  agents :: "(string, books) dict"
  clocks :: "(string, pclock) dict"
  open_res :: "(string, reservation) dict"

definition new_team :: "limits \<Rightarrow> team_budget" where
  "new_team l = \<lparr>team = new_books l, agents = [], clocks = [], open_res = []\<rparr>"

text \<open>Spending carried over a restart: dollars, tokens, calls.\<close>

type_synonym spent = "rat \<times> int \<times> int"

definition add_agent :: "string \<Rightarrow> limits \<Rightarrow> rat \<Rightarrow> spent option \<Rightarrow> team_budget \<Rightarrow> team_budget \<times> (budget_error + unit)" where
  "add_agent agent_id l carried_seconds spent B =
     (case narrowed_by l (book_limits (team B)) of
        Inl e \<Rightarrow> (B, Inl e)
      | Inr l' \<Rightarrow>
          let (u, t, c) = (case spent of None \<Rightarrow> (0, 0, 0) | Some s \<Rightarrow> s);
              b = (new_books l')\<lparr>usd_spent := u, tokens_spent := t, calls_made := c\<rparr>;
              tm = team B
          in (B\<lparr>team := tm\<lparr>usd_spent := usd_spent tm + u, tokens_spent := tokens_spent tm + t, calls_made := calls_made tm + c\<rparr>,
                agents := dict_set agent_id b (agents B),
                clocks := dict_set agent_id (clock_new carried_seconds) (clocks B)\<rparr>, Inr ()))"

definition wall_clock_exhausted :: "string \<Rightarrow> time \<Rightarrow> team_budget \<Rightarrow> budget_error + bool" where
  "wall_clock_exhausted agent_id now B =
     (case (dict_get (agents B) agent_id, dict_get (clocks B) agent_id) of
        (Some b, Some k) \<Rightarrow> Inr (wall_clock_seconds (book_limits b) \<le> clock_elapsed now k)
      | _ \<Rightarrow> Inl BudgetKeyError)"

text \<open>The check of one book inside \<open>reserve\<close>; the small constant absorbs the rounding of dollars.\<close>

definition usd_slack :: rat where "usd_slack = 1 / 10 ^ 12"

definition book_refusal :: "int \<Rightarrow> rat \<Rightarrow> budget_scope \<Rightarrow> books \<Rightarrow> budget_error option" where
  "book_refusal tokens usd scope b =
     (if calls_left b < 1 then Some (BudgetRefused Calls scope)
      else if tokens > tokens_left b then Some (BudgetRefused Tokens scope)
      else if usd > usd_left b + usd_slack then Some (BudgetRefused Usd scope)
      else None)"

definition book_reserve :: "int \<Rightarrow> rat \<Rightarrow> books \<Rightarrow> books" where
  "book_reserve tokens usd b = b\<lparr>calls_made := calls_made b + 1, tokens_reserved := tokens_reserved b + tokens,
     usd_reserved := usd_reserved b + usd\<rparr>"

definition reserve :: "string \<Rightarrow> int \<Rightarrow> rat \<Rightarrow> time \<Rightarrow> string \<Rightarrow> team_budget \<Rightarrow> team_budget \<times> (budget_error + reservation)" where
  "reserve agent_id tokens usd now fresh B =
     (let tokens' = max 0 tokens; usd' = max 0 usd in
      case dict_get (agents B) agent_id of
        None \<Rightarrow> (B, Inl (BudgetRefused Agent_axis AgentScope))
      | Some b \<Rightarrow>
         (case wall_clock_exhausted agent_id now B of
            Inl e \<Rightarrow> (B, Inl e)
          | Inr True \<Rightarrow> (B, Inl (BudgetRefused Wall_clock AgentScope))
          | Inr False \<Rightarrow>
             (case book_refusal tokens' usd' AgentScope b of
                Some e \<Rightarrow> (B, Inl e)
              | None \<Rightarrow>
                 (case book_refusal tokens' usd' TeamScope (team B) of
                    Some e \<Rightarrow> (B, Inl e)
                  | None \<Rightarrow>
                      let r = \<lparr>reservation_id = fresh, res_agent = agent_id, res_tokens = tokens', res_usd = usd'\<rparr>
                      in (B\<lparr>team := book_reserve tokens' usd' (team B),
                            agents := dict_set agent_id (book_reserve tokens' usd' b) (agents B),
                            open_res := dict_set fresh r (open_res B)\<rparr>, Inr r)))))"

definition book_settle :: "reservation \<Rightarrow> int \<Rightarrow> rat \<Rightarrow> books \<Rightarrow> books" where
  "book_settle r tokens usd b = b\<lparr>tokens_reserved := tokens_reserved b - res_tokens r, usd_reserved := usd_reserved b - res_usd r,
     tokens_spent := tokens_spent b + max 0 tokens, usd_spent := usd_spent b + max 0 usd\<rparr>"

definition settle :: "reservation \<Rightarrow> int \<Rightarrow> rat \<Rightarrow> team_budget \<Rightarrow> team_budget \<times> (budget_error + unit)" where
  "settle r tokens usd B =
     (case dict_get (open_res B) (reservation_id r) of
        None \<Rightarrow> (B, Inr ())
      | Some _ \<Rightarrow>
         (let B1 = B\<lparr>open_res := dict_pop (reservation_id r) (open_res B)\<rparr> in
          case dict_get (agents B1) (res_agent r) of
            None \<Rightarrow> (B1, Inl BudgetKeyError)
          | Some b \<Rightarrow> (B1\<lparr>agents := dict_set (res_agent r) (book_settle r tokens usd b) (agents B1),
                            team := book_settle r tokens usd (team B1)\<rparr>, Inr ())))"

text \<open>\<open>clock_for(agent_id).start()\<close> and \<open>.pause()\<close>.\<close>

definition with_clock :: "(pclock \<Rightarrow> pclock) \<Rightarrow> string \<Rightarrow> team_budget \<Rightarrow> team_budget" where
  "with_clock f agent_id B =
     (case dict_get (clocks B) agent_id of None \<Rightarrow> B
      | Some k \<Rightarrow> B\<lparr>clocks := dict_set agent_id (f k) (clocks B)\<rparr>)"

datatype budget_op =
    AddAgent string limits rat "spent option"
  | Reserve string int rat time string
  | Settle reservation int rat
  | StartClock string time
  | PauseClock string time

fun budget_step :: "budget_op \<Rightarrow> team_budget \<Rightarrow> team_budget" where
  "budget_step (AddAgent a l c s) B = fst (add_agent a l c s B)"
| "budget_step (Reserve a t u now fresh) B = fst (reserve a t u now fresh B)"
| "budget_step (Settle r t u) B = fst (settle r t u B)"
| "budget_step (StartClock a now) B = with_clock (clock_start now) a B"
| "budget_step (PauseClock a now) B = with_clock (clock_pause now) a B"

definition budget_run :: "budget_op list \<Rightarrow> team_budget \<Rightarrow> team_budget" where
  "budget_run ops B = fold budget_step ops B"

section \<open>Limits are positive and narrowing tightens them\<close>

definition wf_limits :: "limits \<Rightarrow> bool" where
  "wf_limits l \<longleftrightarrow> 0 < max_usd l \<and> 0 < max_tokens l \<and> 0 < max_calls l \<and> 0 < wall_clock_seconds l"

lemma make_limits_wf: "make_limits u t c w = Inr l \<Longrightarrow> wf_limits l"
  by (auto simp: make_limits_def positive_count_def positive_amount_def wf_limits_def
      split: option.splits raw_number.splits if_splits)

lemma narrowed_by_wf:
  "wf_limits a \<Longrightarrow> wf_limits b \<Longrightarrow> narrowed_by a b = Inr \<lparr>max_usd = min (max_usd a) (max_usd b),
     max_tokens = min (max_tokens a) (max_tokens b), max_calls = min (max_calls a) (max_calls b),
     wall_clock_seconds = min (wall_clock_seconds a) (wall_clock_seconds b)\<rparr>"
  by (auto simp: narrowed_by_def make_limits_def positive_count_def positive_amount_def wf_limits_def)

section \<open>The books stay balanced\<close>

text \<open>Lookups stay lookups: the proofs below never leave \<open>dict_get\<close> for membership.\<close>

declare map_of_eq_Some_iff [simp del] Some_eq_map_of_iff [simp del]

text \<open>What the caller owes the budget: agent ids and reservation ids are fresh, and a reservation that
  is settled is one the budget issued.\<close>

fun issued :: "budget_op \<Rightarrow> team_budget \<Rightarrow> bool" where
  "issued (AddAgent a l c s) B \<longleftrightarrow> dict_get (agents B) a = None"
| "issued (Reserve a t u now fresh) B \<longleftrightarrow> dict_get (open_res B) fresh = None"
| "issued (Settle r t u) B \<longleftrightarrow> dict_get (open_res B) (reservation_id r) \<in> {None, Some r}"
| "issued _ B \<longleftrightarrow> True"

definition held_by :: "string \<Rightarrow> ('n \<Rightarrow> 'm::zero) \<Rightarrow> (reservation \<Rightarrow> 'n) \<Rightarrow> reservation \<Rightarrow> 'm" where
  "held_by a c f r = (if res_agent r = a then c (f r) else 0)"

definition res_ok :: "(string, books) dict \<Rightarrow> string \<Rightarrow> reservation \<Rightarrow> bool" where
  "res_ok ags k r \<longleftrightarrow> reservation_id r = k \<and> dict_get ags (res_agent r) \<noteq> None \<and> 0 \<le> res_tokens r \<and> 0 \<le> res_usd r"

definition well_formed :: "team_budget \<Rightarrow> bool" where
  "well_formed B \<longleftrightarrow> wf_dict (agents B) \<and> wf_dict (open_res B)
     \<and> (\<forall>k r. dict_get (open_res B) k = Some r \<longrightarrow> res_ok (agents B) k r)"

lemma res_ok_set [simp]: "res_ok ags k r \<Longrightarrow> res_ok (dict_set a b ags) k r"
  by (simp add: res_ok_def)

lemma res_ok_new [simp]:
  "res_ok (dict_set a b ags) k \<lparr>reservation_id = k, res_agent = a, res_tokens = max 0 t, res_usd = max 0 u\<rparr>"
  by (simp add: res_ok_def)

text \<open>The team's books are the sum of the agents' books, and every reserved token and dollar belongs
  to an open reservation.\<close>

definition spent_balanced :: "team_budget \<Rightarrow> bool" where
  "spent_balanced B \<longleftrightarrow> calls_made (team B) = dict_sum calls_made (agents B)
     \<and> tokens_spent (team B) = dict_sum tokens_spent (agents B)
     \<and> usd_spent (team B) = dict_sum usd_spent (agents B)"

definition team_reserved_balanced :: "team_budget \<Rightarrow> bool" where
  "team_reserved_balanced B \<longleftrightarrow> tokens_reserved (team B) = dict_sum res_tokens (open_res B)
     \<and> usd_reserved (team B) = dict_sum res_usd (open_res B)"

definition agent_reserved_balanced :: "team_budget \<Rightarrow> bool" where
  "agent_reserved_balanced B \<longleftrightarrow> (\<forall>a b. dict_get (agents B) a = Some b \<longrightarrow>
       tokens_reserved b = dict_sum (held_by a id res_tokens) (open_res B)
     \<and> usd_reserved b = dict_sum (held_by a id res_usd) (open_res B))"

definition balanced :: "team_budget \<Rightarrow> bool" where
  "balanced B \<longleftrightarrow> well_formed B \<and> spent_balanced B \<and> team_reserved_balanced B \<and> agent_reserved_balanced B"

text \<open>What each operation does to the state when it does anything.\<close>

lemma reserve_cases:
  obtains (refused) e where "reserve a t u now fresh B = (B, Inl e)"
  | (granted) b k where "dict_get (agents B) a = Some b" "dict_get (clocks B) a = Some k"
      "clock_elapsed now k < wall_clock_seconds (book_limits b)"
      "book_refusal (max 0 t) (max 0 u) AgentScope b = None" "book_refusal (max 0 t) (max 0 u) TeamScope (team B) = None"
      "reserve a t u now fresh B =
         (B\<lparr>team := book_reserve (max 0 t) (max 0 u) (team B), agents := dict_set a (book_reserve (max 0 t) (max 0 u) b) (agents B),
            open_res := dict_set fresh \<lparr>reservation_id = fresh, res_agent = a, res_tokens = max 0 t, res_usd = max 0 u\<rparr> (open_res B)\<rparr>,
          Inr \<lparr>reservation_id = fresh, res_agent = a, res_tokens = max 0 t, res_usd = max 0 u\<rparr>)"
proof (cases "\<exists>e. reserve a t u now fresh B = (B, Inl e)")
  case False
  then obtain b where b: "dict_get (agents B) a = Some b"
    by (cases "dict_get (agents B) a") (auto simp: reserve_def)
  with False obtain k where k: "dict_get (clocks B) a = Some k"
    by (cases "dict_get (clocks B) a") (auto simp: reserve_def wall_clock_exhausted_def)
  from False show ?thesis
    by (intro granted [OF b k]) (auto simp: reserve_def wall_clock_exhausted_def b k Let_def split: option.splits bool.splits)
qed (use refused in blast)

lemma settle_cases [consumes 2, case_names nothing settled]:
  assumes "well_formed B" and "issued (Settle r t u) B"
  obtains (nothing) "dict_get (open_res B) (reservation_id r) = None" "settle r t u B = (B, Inr ())"
  | (settled) b where "dict_get (open_res B) (reservation_id r) = Some r" "dict_get (agents B) (res_agent r) = Some b"
      "settle r t u B = (B\<lparr>open_res := dict_pop (reservation_id r) (open_res B),
           agents := dict_set (res_agent r) (book_settle r t u b) (agents B), team := book_settle r t u (team B)\<rparr>, Inr ())"
proof (cases "dict_get (open_res B) (reservation_id r)")
  case None
  show ?thesis by (rule nothing) (simp_all add: settle_def None)
next
  case (Some r')
  with assms have r: "dict_get (open_res B) (reservation_id r) = Some r" by auto
  with assms(1) obtain b where b: "dict_get (agents B) (res_agent r) = Some b"
    unfolding well_formed_def res_ok_def by blast
  show ?thesis by (rule settled [OF r b]) (simp add: settle_def r b)
qed

lemma well_formed_reserve:
  assumes "well_formed B" "issued (Reserve a t u now fresh) B"
  shows "well_formed (fst (reserve a t u now fresh B))"
proof (cases rule: reserve_cases [of a t u now fresh B])
  case (granted b k)
  show ?thesis unfolding granted(6) using assms granted(1) by (simp add: well_formed_def)
qed (use assms in simp)

lemma well_formed_settle:
  assumes "well_formed B" "issued (Settle r t u) B"
  shows "well_formed (fst (settle r t u B))"
  using assms by (cases rule: settle_cases) (use assms(1) in \<open>auto simp: well_formed_def\<close>)

lemma well_formed_add_agent:
  "well_formed B \<Longrightarrow> well_formed (fst (add_agent a l c s B))"
  by (auto simp: add_agent_def well_formed_def Let_def split: sum.split option.split prod.split)

lemma with_clock_frame [simp]:
  "agents (with_clock f a B) = agents B" "team (with_clock f a B) = team B" "open_res (with_clock f a B) = open_res B"
  by (simp_all add: with_clock_def split: option.splits)

lemma well_formed_step: "well_formed B \<Longrightarrow> issued x B \<Longrightarrow> well_formed (budget_step x B)"
proof (cases x)
  case (AddAgent a l c s)
  then show "well_formed B \<Longrightarrow> issued x B \<Longrightarrow> ?thesis" by (simp add: well_formed_add_agent)
next
  case (Reserve a t u now fresh)
  then show "well_formed B \<Longrightarrow> issued x B \<Longrightarrow> ?thesis" by (simp add: well_formed_reserve)
next
  case (Settle r t u)
  then show "well_formed B \<Longrightarrow> issued x B \<Longrightarrow> ?thesis" using well_formed_settle [of B r t u] by simp
qed (simp_all add: well_formed_def)

lemma book_reserve_fields [simp]:
  "calls_made (book_reserve t u b) = calls_made b + 1" "tokens_spent (book_reserve t u b) = tokens_spent b"
  "usd_spent (book_reserve t u b) = usd_spent b" "tokens_reserved (book_reserve t u b) = tokens_reserved b + t"
  "usd_reserved (book_reserve t u b) = usd_reserved b + u" "book_limits (book_reserve t u b) = book_limits b"
  by (simp_all add: book_reserve_def)

lemma book_settle_fields [simp]:
  "calls_made (book_settle r t u b) = calls_made b" "tokens_spent (book_settle r t u b) = tokens_spent b + max 0 t"
  "usd_spent (book_settle r t u b) = usd_spent b + max 0 u"
  "tokens_reserved (book_settle r t u b) = tokens_reserved b - res_tokens r"
  "usd_reserved (book_settle r t u b) = usd_reserved b - res_usd r" "book_limits (book_settle r t u b) = book_limits b"
  by (simp_all add: book_settle_def)

lemma spent_balanced_step:
  assumes "well_formed B" "issued x B" "spent_balanced B"
  shows "spent_balanced (budget_step x B)"
proof (cases x)
  case (AddAgent a l c s)
  with assms show ?thesis
    by (auto simp: add_agent_def spent_balanced_def new_books_def Let_def well_formed_def dict_sum_set
        split: sum.splits option.splits prod.splits)
next
  case (Reserve a t u now fresh)
  show ?thesis
  proof (cases rule: reserve_cases [of a t u now fresh B])
    case (granted b k)
    show ?thesis unfolding Reserve budget_step.simps granted(6)
      using assms granted(1) Reserve by (simp add: spent_balanced_def well_formed_def dict_sum_set)
  qed (use assms Reserve in simp)
next
  case (Settle r t u)
  with assms have i: "issued (Settle r t u) B" by simp
  from assms(1) i show ?thesis
  proof (cases rule: settle_cases)
    case (settled b)
    show ?thesis unfolding Settle budget_step.simps settled(3)
      using assms settled(1,2) by (simp add: spent_balanced_def well_formed_def dict_sum_set)
  qed (use assms Settle in simp)
qed (use assms in \<open>simp_all add: spent_balanced_def\<close>)

lemma team_reserved_step:
  assumes "well_formed B" "issued x B" "team_reserved_balanced B"
  shows "team_reserved_balanced (budget_step x B)"
proof (cases x)
  case (AddAgent a l c s)
  with assms show ?thesis
    by (auto simp: add_agent_def team_reserved_balanced_def Let_def split: sum.splits option.splits prod.splits)
next
  case (Reserve a t u now fresh)
  show ?thesis
  proof (cases rule: reserve_cases [of a t u now fresh B])
    case (granted b k)
    show ?thesis unfolding Reserve budget_step.simps granted(6)
      using assms granted(1) Reserve by (simp add: team_reserved_balanced_def well_formed_def dict_sum_set)
  qed (use assms Reserve in simp)
next
  case (Settle r t u)
  with assms have i: "issued (Settle r t u) B" by simp
  from assms(1) i show ?thesis
  proof (cases rule: settle_cases)
    case (settled b)
    show ?thesis unfolding Settle budget_step.simps settled(3)
      using assms settled(1,2) by (simp add: team_reserved_balanced_def well_formed_def dict_sum_pop)
  qed (use assms Settle in simp)
qed (use assms in \<open>simp_all add: team_reserved_balanced_def\<close>)

lemma held_by_absent:
  assumes "well_formed B" "dict_get (agents B) a = None"
  shows "dict_sum (held_by a id f) (open_res B) = 0"
proof (rule dict_sum_zero)
  fix k r
  assume "(k, r) \<in> set (open_res B)"
  with assms(1) have "dict_get (open_res B) k = Some r" by (auto simp: well_formed_def intro: dict_mem_get)
  with assms have "res_agent r \<noteq> a" unfolding well_formed_def res_ok_def by metis
  then show "held_by a id f r = 0" by (simp add: held_by_def)
qed

lemma agent_reserved_step:
  assumes "well_formed B" "issued x B" "agent_reserved_balanced B"
  shows "agent_reserved_balanced (budget_step x B)"
proof (cases x)
  case (AddAgent a l c s)
  with assms have z: "dict_sum (held_by a id res_tokens) (open_res B) = 0" "dict_sum (held_by a id res_usd) (open_res B) = 0"
    by (auto intro: held_by_absent)
  from AddAgent assms show ?thesis
    by (auto simp: add_agent_def agent_reserved_balanced_def Let_def well_formed_def new_books_def z
        split: sum.splits option.splits prod.splits)
next
  case (Reserve a t u now fresh)
  show ?thesis
  proof (cases rule: reserve_cases [of a t u now fresh B])
    case (granted b k)
    show ?thesis unfolding Reserve budget_step.simps granted(6)
      using assms granted(1) Reserve by (simp add: agent_reserved_balanced_def well_formed_def dict_sum_set held_by_def)
  qed (use assms Reserve in simp)
next
  case (Settle r t u)
  with assms have i: "issued (Settle r t u) B" by simp
  from assms(1) i show ?thesis
  proof (cases rule: settle_cases)
    case (settled b)
    show ?thesis unfolding Settle budget_step.simps settled(3)
      using assms settled(1,2) by (simp add: agent_reserved_balanced_def well_formed_def dict_sum_pop held_by_def)
  qed (use assms Settle in simp)
qed (use assms in \<open>simp_all add: agent_reserved_balanced_def\<close>)

interpretation ledger: lawful_system budget_step issued balanced
  by unfold_locales
    (simp add: balanced_def well_formed_step spent_balanced_step team_reserved_step agent_reserved_step)

section \<open>No book passes its limits\<close>

definition fits :: "books \<Rightarrow> bool" where
  "fits b \<longleftrightarrow> calls_made b \<le> max_calls (book_limits b)
     \<and> tokens_spent b + tokens_reserved b \<le> max_tokens (book_limits b)
     \<and> usd_spent b + usd_reserved b \<le> max_usd (book_limits b) + usd_slack"

definition all_fit :: "team_budget \<Rightarrow> bool" where
  "all_fit B \<longleftrightarrow> fits (team B) \<and> (\<forall>a b. dict_get (agents B) a = Some b \<longrightarrow> fits b)"

text \<open>A lawful operation, on top of being issued: agents start with nothing spent and valid limits,
  and a call settles for no more than was reserved for it.\<close>

fun honest :: "budget_op \<Rightarrow> team_budget \<Rightarrow> bool" where
  "honest (AddAgent a l c s) B \<longleftrightarrow> dict_get (agents B) a = None \<and> wf_limits l \<and> s = None"
| "honest (Reserve a t u now fresh) B \<longleftrightarrow> dict_get (open_res B) fresh = None"
| "honest (Settle r t u) B \<longleftrightarrow> dict_get (open_res B) (reservation_id r) \<in> {None, Some r} \<and> t \<le> res_tokens r \<and> u \<le> res_usd r"
| "honest _ B \<longleftrightarrow> True"

lemma honest_issued: "honest x B \<Longrightarrow> issued x B"
  by (cases x) auto

lemma fits_reserve: "book_refusal t u sc b = None \<Longrightarrow> fits (book_reserve t u b)"
  by (auto simp: book_refusal_def fits_def calls_left_def tokens_left_def usd_left_def split: if_splits)

lemma fits_settle:
  "fits b \<Longrightarrow> t \<le> res_tokens r \<Longrightarrow> u \<le> res_usd r \<Longrightarrow> 0 \<le> res_tokens r \<Longrightarrow> 0 \<le> res_usd r \<Longrightarrow> fits (book_settle r t u b)"
  unfolding fits_def by (auto simp: max_def)

lemma fits_new: "wf_limits l \<Longrightarrow> fits (new_books l)"
  by (simp add: fits_def new_books_def wf_limits_def usd_slack_def)

definition team_good :: "team_budget \<Rightarrow> bool" where
  "team_good B \<longleftrightarrow> balanced B \<and> all_fit B \<and> wf_limits (book_limits (team B))"

lemma team_good_new: "wf_limits l \<Longrightarrow> team_good (new_team l)"
  by (simp add: team_good_def balanced_def well_formed_def spent_balanced_def team_reserved_balanced_def
      agent_reserved_balanced_def all_fit_def fits_new new_team_def) (simp add: new_books_def)

lemma honest_step:
  assumes "team_good B" "honest x B"
  shows "all_fit (budget_step x B) \<and> book_limits (team (budget_step x B)) = book_limits (team B)"
proof (cases x)
  case (AddAgent a l c s)
  with assms have l: "wf_limits l" "wf_limits (book_limits (team B))" "s = None" by (auto simp: team_good_def)
  obtain l' where l': "narrowed_by l (book_limits (team B)) = Inr l'" "wf_limits l'"
    using narrowed_by_wf [OF l(1,2)] make_limits_wf unfolding narrowed_by_def by metis
  then have f: "fits (new_books l')" by (intro fits_new)
  have "fits (team B)" using assms by (simp add: team_good_def all_fit_def)
  with f show ?thesis
    using assms AddAgent l(3) l' by (auto simp: add_agent_def all_fit_def team_good_def fits_def new_books_def)
next
  case (Reserve a t u now fresh)
  show ?thesis
  proof (cases rule: reserve_cases [of a t u now fresh B])
    case (granted b k)
    show ?thesis unfolding Reserve budget_step.simps granted(6)
      using assms(1) fits_reserve [OF granted(4)] fits_reserve [OF granted(5)] by (simp add: team_good_def all_fit_def)
  qed (use assms Reserve in \<open>simp add: team_good_def\<close>)
next
  case (Settle r t u)
  with assms have i: "issued (Settle r t u) B" and w: "well_formed B" and h: "t \<le> res_tokens r" "u \<le> res_usd r"
    by (auto simp: team_good_def balanced_def)
  from w i show ?thesis
  proof (cases rule: settle_cases)
    case (settled b)
    have "0 \<le> res_tokens r" "0 \<le> res_usd r" using w settled(1) unfolding well_formed_def res_ok_def by blast+
    moreover have "fits b" "fits (team B)" using assms(1) settled(2) by (auto simp: team_good_def all_fit_def)
    ultimately show ?thesis unfolding Settle budget_step.simps settled(3)
      using assms(1) h by (simp add: fits_settle team_good_def all_fit_def)
  qed (use assms Settle in \<open>simp add: team_good_def\<close>)
qed (use assms in \<open>simp_all add: team_good_def all_fit_def\<close>)

lemma team_good_step: "team_good B \<Longrightarrow> honest x B \<Longrightarrow> team_good (budget_step x B)"
  using honest_step [of B x] ledger.good_step [of B x] honest_issued [of x B] by (simp add: team_good_def)

lemma team_within:
  assumes "team_good B"
  shows "calls_made (team B) \<le> max_calls (book_limits (team B))"
    and "tokens_spent (team B) + tokens_reserved (team B) \<le> max_tokens (book_limits (team B))"
    and "usd_spent (team B) + usd_reserved (team B) \<le> max_usd (book_limits (team B)) + usd_slack"
  using assms by (simp_all add: team_good_def all_fit_def fits_def)

interpretation team_calls: bounded_meter budget_step honest team_good
    "\<lambda>B. calls_made (team B)" "\<lambda>B. max_calls (book_limits (team B))"
  by unfold_locales (simp_all add: team_good_step honest_step team_within)

interpretation team_tokens: bounded_meter budget_step honest team_good
    "\<lambda>B. tokens_spent (team B) + tokens_reserved (team B)" "\<lambda>B. max_tokens (book_limits (team B))"
  by unfold_locales (simp_all add: honest_step team_within)

interpretation team_usd: bounded_meter budget_step honest team_good
    "\<lambda>B. usd_spent (team B) + usd_reserved (team B)" "\<lambda>B. max_usd (book_limits (team B)) + usd_slack"
  by unfold_locales (simp_all add: honest_step team_within)

section \<open>What the budget promises\<close>


definition demo_limits :: limits where
  "demo_limits = \<lparr>max_usd = 1, max_tokens = 10, max_calls = 2, wall_clock_seconds = 5\<rparr>"

definition demo_ops :: "budget_op list" where
  "demo_ops = [AddAgent ''a'' demo_limits 0 None, StartClock ''a'' 1, Reserve ''a'' 6 (1/2) 2 ''r1'',
     Reserve ''a'' 6 (1/2) 2 ''r2'', Settle \<lparr>reservation_id = ''r1'', res_agent = ''a'', res_tokens = 6, res_usd = 1/2\<rparr> 4 (1/4)]"


text \<open>The books always balance: after any run, restarts with carried spending included, the team's
  calls, tokens and dollars are the sums over its agents, and what the team and each agent hold in
  reserve is exactly what the open reservations hold.\<close>

theorem books_balance:
  assumes "ledger.lawful_run ops (new_team l)" and "B = budget_run ops (new_team l)"
  shows "spent_balanced B \<and> team_reserved_balanced B \<and> agent_reserved_balanced B"
proof -
  have "balanced (new_team l)"
    by (simp add: balanced_def well_formed_def spent_balanced_def team_reserved_balanced_def
        agent_reserved_balanced_def new_team_def new_books_def)
  from ledger.run_good [OF this assms(1)] show ?thesis by (simp add: assms(2) budget_run_def balanced_def)
qed

theorem books_balance_witness:
  "spent_balanced (budget_run (AddAgent ''b'' demo_limits 0 (Some (1/4, 3, 1)) # demo_ops) (new_team demo_limits))"
proof -
  have "ledger.lawful_run (AddAgent ''b'' demo_limits 0 (Some (1/4, 3, 1)) # demo_ops) (new_team demo_limits)"
    by (simp only: demo_ops_def ledger.lawful_run.simps) code_simp
  from books_balance [OF this refl] show ?thesis by simp
qed

definition room_for :: "int \<Rightarrow> rat \<Rightarrow> books \<Rightarrow> bool" where
  "room_for t u b \<longleftrightarrow> 1 \<le> calls_left b \<and> max 0 t \<le> tokens_left b \<and> max 0 u \<le> usd_left b + usd_slack"

lemma book_refusal_room: "book_refusal (max 0 t) (max 0 u) sc b = None \<longleftrightarrow> room_for t u b"
  by (auto simp: book_refusal_def room_for_def)

text \<open>Refused before the call: a reservation is granted exactly when the agent is known, its running
  time is not used up, and both its own and the team's books have the call, the tokens and the dollars
  left; a refusal changes nothing.\<close>

theorem reserve_granted_iff:
  "((\<exists>r. snd (reserve a t u now fresh B) = Inr r) \<longleftrightarrow>
     (\<exists>b k. dict_get (agents B) a = Some b \<and> dict_get (clocks B) a = Some k
        \<and> clock_elapsed now k < wall_clock_seconds (book_limits b)
        \<and> room_for t u b \<and> room_for t u (team B)))
   \<and> ((\<exists>r. snd (reserve a t u now fresh B) = Inr r) \<or> fst (reserve a t u now fresh B) = B)"
proof (cases "dict_get (agents B) a")
  case b: (Some b)
  show ?thesis
  proof (cases "dict_get (clocks B) a")
    case (Some k)
    with b show ?thesis
        by (cases "clock_elapsed now k < wall_clock_seconds (book_limits b)")
          (simp_all add: reserve_def wall_clock_exhausted_def Let_def
            book_refusal_room [of t u AgentScope b, symmetric] book_refusal_room [of t u TeamScope "team B", symmetric] split: option.split)
  qed (simp add: reserve_def wall_clock_exhausted_def b)
qed (simp add: reserve_def)

text \<open>Settling is idempotent: the second settlement of a reservation, with whatever numbers, changes
  nothing.\<close>

theorem settle_once: "settle r t' u' (fst (settle r t u B)) = (fst (settle r t u B), Inr ())"
  by (simp add: settle_def Let_def split: option.split)

text \<open>A child never outspends its parent: the limits an agent runs under are no wider than its own
  contract and no wider than the team's, on every axis.\<close>

theorem agent_limits_narrowed:
  assumes "wf_limits l" "wf_limits (book_limits (team B))"
    and "dict_get (agents (fst (add_agent a l c s B))) a = Some b"
  shows "\<forall>p \<in> {l, book_limits (team B)}. max_usd (book_limits b) \<le> max_usd p \<and> max_tokens (book_limits b) \<le> max_tokens p
    \<and> max_calls (book_limits b) \<le> max_calls p \<and> wall_clock_seconds (book_limits b) \<le> wall_clock_seconds p"
  using assms(3) by (auto simp: add_agent_def narrowed_by_wf [OF assms(1,2)] new_books_def Let_def split: prod.splits)

theorem agent_limits_narrowed_witness:
  "dict_get (agents (fst (add_agent ''a'' (demo_limits\<lparr>max_calls := 9\<rparr>) 0 None (new_team demo_limits)))) ''a'' = Some (new_books demo_limits)
   \<and> max_calls demo_limits \<le> max_calls (demo_limits\<lparr>max_calls := 9\<rparr>)"
proof -
  let ?B = "new_team demo_limits" and ?l = "demo_limits\<lparr>max_calls := 9\<rparr>"
  have "wf_limits ?l" "wf_limits (book_limits (team ?B))" by code_simp+
  moreover have "dict_get (agents (fst (add_agent ''a'' ?l 0 None ?B))) ''a'' = Some (new_books demo_limits)" by code_simp
  moreover note agent_limits_narrowed [OF calculation]
  ultimately show ?thesis by (simp add: new_books_def)
qed

text \<open>The running time of a clock is the total length of its running intervals.\<close>

datatype clock_event = ClockStart time | ClockPause time

fun clock_event_step :: "clock_event \<Rightarrow> pclock \<Rightarrow> pclock" where
  "clock_event_step (ClockStart now) k = clock_start now k"
| "clock_event_step (ClockPause now) k = clock_pause now k"

fun event_time :: "clock_event \<Rightarrow> time" where
  "event_time (ClockStart now) = now"
| "event_time (ClockPause now) = now"

text \<open>The specification: the time between two events counts when the clock ran in between.\<close>

fun running_time :: "bool \<Rightarrow> time \<Rightarrow> clock_event list \<Rightarrow> time \<Rightarrow> rat" where
  "running_time on since [] now = (if on then now - since else 0)"
| "running_time on since (e # es) now = (if on then event_time e - since else 0)
     + running_time (case e of ClockStart _ \<Rightarrow> True | ClockPause _ \<Rightarrow> False) (event_time e) es now"

lemma clock_elapsed_running:
  "clock_elapsed now (fold clock_event_step es k)
     = carried k + (case running_since k of None \<Rightarrow> running_time False t0 es now
                    | Some s \<Rightarrow> (t0 - s) + running_time True t0 es now)"
proof (induction es arbitrary: k t0)
  case Nil
  then show ?case by (simp add: clock_elapsed_def split: option.split)
next
  case (Cons e es)
  show ?case
    by (cases e) (simp_all add: Cons.IH [of _ "event_time e"] clock_start_def clock_pause_def split: option.split)
qed

text \<open>A pause is not billed: after any starts and pauses, repeated ones included, the elapsed time is the
  carried time plus exactly the time spent running.\<close>

theorem paused_time_not_billed:
  "clock_elapsed now (fold clock_event_step es (clock_new c)) = max 0 c + running_time False t0 es now"
  by (simp add: clock_elapsed_running [of now es _ t0] clock_new_def)

end
