(* ===== verification/Agent_Names.thy ===== *)
theory Agent_Names
  imports Vool_Prelude
begin

text \<open>
  Agent names, from \<open>src/core/agent_team/names.py\<close>: the title and importance rules, the generic-name
  test, the title derived from an objective and the assignment of display names that never merge.
  Regular expressions are spelled out as tests on characters; texts are Latin-1.
\<close>

datatype name_error = EmptyTitle | LongTitle | GenericTitle | BadImportance | NameLoopBound

definition importance_levels :: "string list" where
  "importance_levels = [''low'', ''normal'', ''high'', ''critical'']"

definition max_title_words :: nat where "max_title_words = 5"

text \<open>A blank, the middle dot, a blank.\<close>

definition name_separator :: string where
  "name_separator = [CHR '' '', char_of (183 :: nat), CHR '' '']"

definition generic_words :: "string list" where
  "generic_words = [''agent'', ''agents'', ''worker'', ''workers'', ''subagent'', ''sub-agent'', ''child'', ''helper'', ''bot'',
     ''task'', ''job'', ''assistant'', ''runner'', ''thread'', ''process'', ''proc'', ''unit'', ''node'', ''seat'',
     ''member'', ''instance'', ''delegate'', ''sub'', ''new'', ''my'', ''the'', ''a'', ''an'', ''number'', ''no'']"

definition filler_words :: "string list" where
  "filler_words = [''please'', ''the'', ''a'', ''an'', ''just'', ''kindly'', ''can'', ''you'', ''could'', ''would'', ''we'', ''i'',
     ''need'', ''needs'', ''want'', ''to'', ''should'', ''must'', ''go'', ''and'', ''then'', ''also'', ''that'',
     ''this'', ''it'', ''so'', ''of'', ''our'', ''my'', ''some'']"

section \<open>Words and generic names\<close>

definition word_sep :: "char \<Rightarrow> bool" where
  "word_sep c \<longleftrightarrow> py_isspace c \<or> c = CHR ''_''"

definition title_words :: "string \<Rightarrow> string list" where
  "title_words t = words_on word_sep (py_strip t)"

definition is_lower_letter :: "char \<Rightarrow> bool" where
  "is_lower_letter c \<longleftrightarrow> (let n = of_char c :: nat in 97 \<le> n \<and> n \<le> 122)"

text \<open>\<open>^(?:[a-z]|\d+|#\d+|[ivx]+|one|two|three|four|five|alpha|beta|gamma|delta)$\<close>\<close>

definition is_ordinal :: "string \<Rightarrow> bool" where
  "is_ordinal w \<longleftrightarrow> (length w = 1 \<and> is_lower_letter (hd w))
     \<or> (w \<noteq> [] \<and> list_all is_digit w)
     \<or> (w \<noteq> [] \<and> hd w = CHR ''#'' \<and> tl w \<noteq> [] \<and> list_all is_digit (tl w))
     \<or> (w \<noteq> [] \<and> list_all (\<lambda>c. c \<in> set ''ivx'') w)
     \<or> w \<in> set [''one'', ''two'', ''three'', ''four'', ''five'', ''alpha'', ''beta'', ''gamma'', ''delta'']"

definition rstrip_digits :: "string \<Rightarrow> string" where
  "rstrip_digits w = rev (dropWhile is_digit (rev w))"

definition generic_part :: "string \<Rightarrow> bool" where
  "generic_part p \<longleftrightarrow> p \<in> set generic_words \<or> is_ordinal p
     \<or> (let stem = rstrip_digits p in stem \<in> set generic_words \<or> (stem \<noteq> [] \<and> is_ordinal stem))"

definition hyphen_parts :: "string \<Rightarrow> string list" where
  "hyphen_parts w = (let ps = words_on (\<lambda>c. c = CHR ''-'') w in if ps = [] then [w] else ps)"

definition title_punct :: string where
  "title_punct = ''.,:;!?()[]{}'' @ [CHR 0x27, CHR 0x22, CHR ''-'']"

definition is_generic :: "string \<Rightarrow> bool" where
  "is_generic title =
     (let ws = filter (\<lambda>w. w \<noteq> []) (map (\<lambda>w. strip_chars title_punct (py_lower w)) (title_words title))
      in ws = [] \<or> list_all (\<lambda>w. list_all generic_part (hyphen_parts w)) ws)"

section \<open>Importance\<close>

fun list_index :: "'a list \<Rightarrow> 'a \<Rightarrow> nat" where
  "list_index [] y = 0"
| "list_index (x # xs) y = (if x = y then 0 else Suc (list_index xs y))"

text \<open>\<open>None\<close> is Python's \<open>None\<close>; an empty text also reads as normal.\<close>

definition normalize_importance :: "string option \<Rightarrow> name_error + string" where
  "normalize_importance value =
     (let v = (case value of None \<Rightarrow> ''normal'' | Some s \<Rightarrow> if s = [] then ''normal'' else s);
          clean = py_lower (py_strip v)
      in if clean \<notin> set importance_levels then Inl BadImportance else Inr clean)"

definition importance_rank :: "string \<Rightarrow> name_error + nat" where
  "importance_rank level = (case normalize_importance (Some level) of Inl e \<Rightarrow> Inl e | Inr l \<Rightarrow> Inr (list_index importance_levels l))"

definition raise_importance :: "string \<Rightarrow> int \<Rightarrow> name_error + string" where
  "raise_importance level steps =
     (case importance_rank level of Inl e \<Rightarrow> Inl e
      | Inr i \<Rightarrow> Inr (importance_levels ! min (length importance_levels - 1) (i + nat (max 0 steps))))"

section \<open>Titles\<close>

text \<open>\<open>re.split(r"(?<=[.!?;])\s|\n|:\s", text, maxsplit=1)[0]\<close>, scanning with the previous character.\<close>

fun first_clause :: "char option \<Rightarrow> string \<Rightarrow> string" where
  "first_clause prev [] = []"
| "first_clause prev (c # cs) =
     (if (case prev of None \<Rightarrow> False | Some p \<Rightarrow> p \<in> set ''.!?;'') \<and> py_isspace c then []
      else if c = CHR 0x0A then []
      else if c = CHR '':'' \<and> cs \<noteq> [] \<and> py_isspace (hd cs) then []
      else c # first_clause (Some c) cs)"

definition clause_punct :: string where
  "clause_punct = ''.,;:!?'' @ [CHR 0x22, CHR 0x27] @ ''()[]''"

definition title_from_objective :: "string \<Rightarrow> string" where
  "title_from_objective objective =
     (let first = first_clause None (py_strip objective);
          kept = filter (\<lambda>w. w \<noteq> [] \<and> py_lower w \<notin> set filler_words)
                   (map (strip_chars clause_punct) (title_words first));
          title = py_join '' '' (take max_title_words kept)
      in py_upper (take 1 title) @ drop 1 title)"

definition validate_title :: "string \<Rightarrow> name_error + string" where
  "validate_title title =
     (let clean = py_join '' '' (title_words title)
      in if clean = [] then Inl EmptyTitle
         else if length (title_words clean) > max_title_words then Inl LongTitle
         else if is_generic clean then Inl GenericTitle
         else Inr clean)"

definition display_name :: "string \<Rightarrow> string \<Rightarrow> name_error + string" where
  "display_name title importance =
     (case validate_title title of Inl e \<Rightarrow> Inl e | Inr t \<Rightarrow>
      (case normalize_importance (Some importance) of Inl e \<Rightarrow> Inl e | Inr i \<Rightarrow> Inr (t @ name_separator @ i)))"

section \<open>Display names\<close>

fun area_of :: "string list \<Rightarrow> string" where
  "area_of [] = []"
| "area_of (claim # claims) =
     (let clean = strip_chars ''/'' (py_strip claim) in if clean \<noteq> [] then clean @ ''/'' else area_of claims)"

type_synonym name_row = "string \<times> string \<times> string list"

definition count_name :: "string list \<Rightarrow> string \<Rightarrow> nat" where
  "count_name xs n = length (filter (\<lambda>x. x = n) xs)"

definition numbered_name :: "string \<Rightarrow> string \<Rightarrow> string \<Rightarrow> nat \<Rightarrow> string" where
  "numbered_name clean_title area importance n =
     clean_title @ '' ('' @ (if area \<noteq> [] then area @ '', '' @ show_nat n else show_nat n) @ '')'' @ name_separator @ importance"

text \<open>\<open>while candidate in used\<close>: one unit of fuel per turn of the loop.\<close>

fun free_name :: "nat \<Rightarrow> (nat \<Rightarrow> string) \<Rightarrow> string list \<Rightarrow> nat \<Rightarrow> string \<Rightarrow> name_error + string" where
  "free_name 0 numbered used n candidate = Inl NameLoopBound"
| "free_name (Suc fuel) numbered used n candidate =
     (if candidate \<notin> set used then Inr candidate else free_name fuel numbered used (n + 1) (numbered n))"

definition row_name :: "(string \<Rightarrow> nat) \<Rightarrow> string list \<Rightarrow> name_row \<Rightarrow> string \<Rightarrow> name_error + string" where
  "row_name counts used row name =
     (case row of (title, importance, claims) \<Rightarrow>
        if counts name > 1 \<or> name \<in> set used then
          (case validate_title title of Inl e \<Rightarrow> Inl e
           | Inr clean_title \<Rightarrow>
               let area = area_of claims;
                   candidate = (if area \<noteq> [] then clean_title @ '' ('' @ area @ '')'' @ name_separator @ importance else name)
               in free_name (length used + 2) (numbered_name clean_title area importance) used 2 candidate)
        else Inr name)"

fun name_loop :: "(string \<Rightarrow> nat) \<Rightarrow> string list \<Rightarrow> (name_row \<times> string) list \<Rightarrow> name_error + string list" where
  "name_loop counts used [] = Inr []"
| "name_loop counts used ((row, base) # rest) =
     (case row_name counts used row base of Inl e \<Rightarrow> Inl e
      | Inr name \<Rightarrow> (case name_loop counts (name # used) rest of Inl e \<Rightarrow> Inl e | Inr ns \<Rightarrow> Inr (name # ns)))"

fun base_names :: "name_row list \<Rightarrow> name_error + string list" where
  "base_names [] = Inr []"
| "base_names ((t, i, c) # rows) =
     (case display_name t i of Inl e \<Rightarrow> Inl e
      | Inr n \<Rightarrow> (case base_names rows of Inl e \<Rightarrow> Inl e | Inr ns \<Rightarrow> Inr (n # ns)))"

definition assign_display_names :: "name_row list \<Rightarrow> string list \<Rightarrow> name_error + string list" where
  "assign_display_names rows taken =
     (let used = py_unique taken in
      case base_names rows of Inl e \<Rightarrow> Inl e
      | Inr base \<Rightarrow> name_loop (count_name (base @ used)) used (zip rows base))"

section \<open>Titles are stable\<close>

lemma title_words_clean: "w \<in> set (title_words t) \<Longrightarrow> w \<noteq> [] \<and> list_all (\<lambda>c. \<not> word_sep c) w"
  unfolding title_words_def by (rule words_on_clean)

lemma join_edges:
  assumes "ws \<noteq> []" and "\<And>w. w \<in> set ws \<Longrightarrow> w \<noteq> [] \<and> list_all (\<lambda>c. \<not> Q c) w"
  shows "py_join s ws \<noteq> [] \<and> \<not> Q (hd (py_join s ws)) \<and> \<not> Q (last (py_join s ws))"
  using assms
proof (induction s ws rule: py_join.induct)
  case (2 s w)
  then have "w \<noteq> []" "list_all (\<lambda>c. \<not> Q c) w" by auto
  then show ?case by (metis hd_in_set last_in_set list_all_iff py_join.simps(2))
next
  case (3 s w v ws)
  then have "w \<noteq> []" "list_all (\<lambda>c. \<not> Q c) w" by auto
  moreover from 3 have "py_join s (v # ws) \<noteq> [] \<and> \<not> Q (last (py_join s (v # ws)))" by simp
  ultimately show ?case by (cases w) auto
qed simp

lemma title_words_join: "title_words (py_join '' '' (title_words t)) = title_words t"
proof (cases "title_words t = []")
  case False
  have clean: "w \<noteq> [] \<and> list_all (\<lambda>c. \<not> word_sep c) w" if "w \<in> set (title_words t)" for w
    using title_words_clean [OF that] .
  from join_edges [OF False, of word_sep "'' ''"] clean
  have "py_strip (py_join '' '' (title_words t)) = py_join '' '' (title_words t)"
    by (intro py_strip_stripped) (auto simp: word_sep_def)
  then show ?thesis
    unfolding title_words_def [of "py_join '' '' (title_words t)"]
    using clean by (simp add: words_on_join word_sep_def py_isspace_def Let_def)
qed (simp add: title_words_def words_on_def)

lemma validate_title_Inr:
  "validate_title t = Inr c \<longleftrightarrow> c = py_join '' '' (title_words t) \<and> c \<noteq> [] \<and> length (title_words t) \<le> max_title_words \<and> \<not> is_generic c"
  by (auto simp: validate_title_def title_words_join Let_def split: if_splits)

lemma validate_title_stable: "validate_title t = Inr c \<Longrightarrow> validate_title c = Inr c"
  unfolding validate_title_Inr by (metis title_words_join)

text \<open>A title that is accepted is at most five words, is not generic, and is a fixed point: validating
  the accepted text again gives the same text, so a stored title never drifts.\<close>

theorem accepted_title_stable:
  assumes "validate_title t = Inr c"
  shows "validate_title c = Inr c \<and> length (title_words c) \<le> 5 \<and> \<not> is_generic c \<and> py_strip c = c"
proof -
  have c: "c = py_join '' '' (title_words t)" "c \<noteq> []" and l: "length (title_words t) \<le> 5" "\<not> is_generic c"
    using assms unfolding validate_title_Inr max_title_words_def by blast+
  then have "title_words t \<noteq> []" by auto
  from join_edges [OF this, of word_sep "'' ''"] title_words_clean c(1)
  have "py_strip c = c" by (intro py_strip_stripped) (auto simp: word_sep_def)
  then show ?thesis using validate_title_stable [OF assms] l c(1) by (metis title_words_join)
qed

theorem accepted_title_stable_witness:
  "validate_title ''  Login_redirect   fix '' = Inr ''Login redirect fix'' \<and> validate_title ''Login redirect fix'' = Inr ''Login redirect fix''
   \<and> validate_title ''worker-2'' = Inl GenericTitle"
proof -
  have "validate_title ''  Login_redirect   fix '' = Inr ''Login redirect fix''" by code_simp
  moreover have "validate_title ''worker-2'' = Inl GenericTitle" by code_simp
  ultimately show ?thesis using accepted_title_stable by blast
qed

section \<open>Importance only rises\<close>

lemma normalize_importance_levels: "normalize_importance v = Inr l \<Longrightarrow> l \<in> set importance_levels"
  by (auto simp: normalize_importance_def Let_def split: if_splits)

lemma level_index: "l \<in> set importance_levels \<Longrightarrow> list_index importance_levels l < 4 \<and> importance_levels ! list_index importance_levels l = l"
  by (auto simp: importance_levels_def)

lemma normalize_level: "l \<in> set importance_levels \<Longrightarrow> normalize_importance (Some l) = Inr l"
proof -
  have "list_all (\<lambda>l. normalize_importance (Some l) = Inr l) importance_levels" by code_simp
  then show "l \<in> set importance_levels \<Longrightarrow> ?thesis" by (simp add: list_all_iff)
qed

lemma index_level: "i < 4 \<Longrightarrow> list_index importance_levels (importance_levels ! i) = i"
proof -
  have "list_all (\<lambda>i. list_index importance_levels (importance_levels ! i) = i) [0..<4]" by code_simp
  then show "i < 4 \<Longrightarrow> ?thesis" by (simp add: list_all_iff)
qed

text \<open>Waiting agents raise importance: the raised level ranks exactly one step higher per dependent,
  capped at critical, and never below the stated level.\<close>

theorem raise_importance_rank:
  assumes "importance_rank level = Inr i"
  shows "\<exists>l. raise_importance level steps = Inr l \<and> importance_rank l = Inr (min 3 (i + nat steps))
           \<and> i \<le> min 3 (i + nat steps)"
proof -
  obtain n where n: "normalize_importance (Some level) = Inr n" "i = list_index importance_levels n"
    using assms by (auto simp: importance_rank_def split: sum.splits)
  have i: "i < 4" using level_index [OF normalize_importance_levels [OF n(1)]] n(2) by simp
  let ?j = "min 3 (i + nat steps)"
  have j: "?j < 4" by simp
  have "importance_levels ! ?j \<in> set importance_levels" by (rule nth_mem) (use j in \<open>simp add: importance_levels_def\<close>)
  then have r: "importance_rank (importance_levels ! ?j) = Inr ?j"
    using index_level [OF j] by (simp add: importance_rank_def normalize_level)
  have "raise_importance level steps = Inr (importance_levels ! ?j)"
    using assms by (cases "0 \<le> steps") (simp_all add: raise_importance_def importance_levels_def max_def numeral_3_eq_3)
  with r i show ?thesis by auto
qed

theorem raise_importance_rank_witness:
  "raise_importance ''normal'' 1 = Inr ''high'' \<and> raise_importance '' High '' 7 = Inr ''critical''
   \<and> (\<exists>l. raise_importance ''normal'' 1 = Inr l \<and> importance_rank l = Inr 2)"
proof -
  have "importance_rank ''normal'' = Inr 1" by code_simp
  moreover have "raise_importance ''normal'' 1 = Inr ''high''" by code_simp
  moreover have "raise_importance '' High '' 7 = Inr ''critical''" by code_simp
  ultimately show ?thesis using raise_importance_rank [of "''normal''" 1 1] by (simp add: min_def)
qed

section \<open>Names never merge\<close>

lemma numbered_name_inj: "inj (numbered_name t a i)"
  by (rule injI) (auto simp: numbered_name_def split: if_splits)

lemma free_name_fresh: "free_name k f used n c = Inr m \<Longrightarrow> m \<notin> set used"
  by (induction k f used n c rule: free_name.induct) (auto split: if_splits)

lemma free_name_bound:
  "free_name k f used n c = Inl e \<Longrightarrow> \<forall>j. n \<le> j \<and> j < n + k - 1 \<longrightarrow> f j \<in> set used"
proof (induction k f used n c rule: free_name.induct)
  case (2 fuel f used n c)
  show ?case
  proof (intro allI impI)
    fix j
    assume j: "n \<le> j \<and> j < n + Suc fuel - 1"
    from 2 have rec: "free_name fuel f used (n + 1) (f n) = Inl e" "c \<in> set used" by (auto split: if_splits)
    show "f j \<in> set used"
    proof (cases "j = n")
      case True
      with rec(1) j show ?thesis by (cases fuel) (auto split: if_splits)
    next
      case False
      with "2.IH" 2 rec j show ?thesis by auto
    qed
  qed
qed auto

text \<open>Pigeonhole: among one more candidate than there are used names, one is free.\<close>

lemma free_name_finds:
  assumes "inj f"
  shows "\<exists>m. free_name (length used + 2) f used 2 c = Inr m \<and> m \<notin> set used"
proof (cases "free_name (length used + 2) f used 2 c")
  case (Inl e)
  from free_name_bound [OF this] have "f ` {2..<length used + 3} \<subseteq> set used" by auto
  then have "card (f ` {2..<length used + 3}) \<le> length used"
    by (meson List.finite_set card_length card_mono le_trans)
  moreover have "card (f ` {2..<length used + 3}) = length used + 1"
    using assms by (subst card_image) (auto intro: inj_on_subset)
  ultimately show ?thesis by simp
qed (use free_name_fresh in blast)

lemma row_name_fresh: "row_name counts used row base = Inr n \<Longrightarrow> n \<notin> set used"
  by (cases row) (auto simp: row_name_def Let_def split: if_splits sum.splits dest: free_name_fresh)

lemma row_name_total:
  assumes "display_name (fst row) (fst (snd row)) = Inr base"
  shows "\<exists>n. row_name counts used row base = Inr n"
proof -
  obtain t i c where r: "row = (t, i, c)" by (cases row)
  with assms obtain t' where t: "validate_title t = Inr t'" by (auto simp: display_name_def split: sum.splits)
  have "\<exists>n. free_name (length used + 2) (numbered_name t' a i) used 2 cand = Inr n" for a cand
    using free_name_finds [OF numbered_name_inj] by blast
  then show ?thesis by (simp add: row_name_def r t Let_def)
qed

lemma name_loop_distinct:
  "name_loop counts used rows = Inr ns \<Longrightarrow> length ns = length rows \<and> distinct ns \<and> set ns \<inter> set used = {}"
  by (induction counts used rows arbitrary: ns rule: name_loop.induct)
    (fastforce split: sum.splits dest: row_name_fresh)+

lemma name_loop_total:
  "(\<forall>(row, base)\<in>set rows. display_name (fst row) (fst (snd row)) = Inr base) \<Longrightarrow> \<exists>ns. name_loop counts used rows = Inr ns"
proof (induction counts used rows rule: name_loop.induct)
  case (2 counts used row base rest)
  then obtain n where n: "row_name counts used row base = Inr n" using row_name_total [of row base counts used] by auto
  with 2 show ?case by auto
qed simp

lemma base_names_display:
  "base_names rows = Inr bs \<Longrightarrow> length bs = length rows \<and> (\<forall>(row, base)\<in>set (zip rows bs). display_name (fst row) (fst (snd row)) = Inr base)"
proof (induction rows arbitrary: bs rule: base_names.induct)
  case (2 t i c rows)
  then obtain n ns where "display_name t i = Inr n" "base_names rows = Inr ns" "bs = n # ns" by (auto split: sum.splits)
  with "2.IH" show ?case by auto
qed simp

lemma base_names_total: "\<forall>r\<in>set rows. \<exists>n. display_name (fst r) (fst (snd r)) = Inr n \<Longrightarrow> \<exists>bs. base_names rows = Inr bs"
  by (induction rows rule: base_names.induct) auto

text \<open>Agents never share a name: whenever every title and importance is valid the assignment finishes,
  gives one name per agent, all different and none of them taken.\<close>

theorem display_names_unique:
  assumes "\<forall>r\<in>set rows. \<exists>n. display_name (fst r) (fst (snd r)) = Inr n"
  shows "\<exists>ns. assign_display_names rows taken = Inr ns \<and> length ns = length rows \<and> distinct ns \<and> set ns \<inter> set taken = {}"
proof -
  from base_names_total [OF assms] obtain bs where bs: "base_names rows = Inr bs" ..
  note d = base_names_display [OF bs]
  let ?counts = "count_name (bs @ py_unique taken)"
  from name_loop_total [of "zip rows bs" ?counts "py_unique taken"] d
  obtain ns where "name_loop ?counts (py_unique taken) (zip rows bs) = Inr ns" by auto
  with name_loop_distinct [OF this] d bs show ?thesis by (auto simp: assign_display_names_def)
qed

theorem display_names_unique_witness:
  "assign_display_names [(''Docs update'', ''low'', [''api'']), (''Docs_update'', ''low'', [''api/''])] []
     = Inr [''Docs update (api/)'' @ name_separator @ ''low'', ''Docs update (api/, 2)'' @ name_separator @ ''low'']
   \<and> (\<exists>ns. assign_display_names [(''Docs update'', ''low'', [''api'']), (''Docs_update'', ''low'', [''api/''])] [] = Inr ns \<and> distinct ns)"
proof -
  have "display_name ''Docs update'' ''low'' = Inr (''Docs update'' @ name_separator @ ''low'')"
    "display_name ''Docs_update'' ''low'' = Inr (''Docs update'' @ name_separator @ ''low'')" by code_simp+
  then have "\<forall>r\<in>set [(''Docs update'', ''low'', [''api'']), (''Docs_update'', ''low'', [''api/''])].
      \<exists>n. display_name (fst r) (fst (snd r)) = Inr n" by simp
  moreover have "assign_display_names [(''Docs update'', ''low'', [''api'']), (''Docs_update'', ''low'', [''api/''])] []
     = Inr [''Docs update (api/)'' @ name_separator @ ''low'', ''Docs update (api/, 2)'' @ name_separator @ ''low'']" by code_simp
  ultimately show ?thesis using display_names_unique by blast
qed

end
