(* ===== verification/Team_Plan.thy ===== *)
theory Team_Plan
  imports Task_Dag Team_Budget Agent_Names
begin

text \<open>
  The plan-level law of an agent team, from \<open>src/core/agent_team/contract.py\<close>: briefs, claims and
  \<open>validate_plan\<close>, with depths, sub-claims, one writer per file, dependencies and display names.
  Resolving a claim through the file system (symbolic links) is a parameter, \<open>leaves\<close>. Loops over
  parents and dependencies carry fuel; \<open>PlanLoops\<close> is the value of a loop that would not end.
\<close>

record agent_contract =
  a_key :: string
  a_objective :: string
  a_limits :: limits
  a_title :: string
  a_importance :: string
  a_kind :: string
  a_mode :: string
  a_claims :: "string list"
  a_command :: "string list"
  a_cwd :: string
  a_model :: string
  a_prompt :: string
  a_parent :: string
  a_depends :: "string list"
  a_steps :: int

record validated_agent =
  v_contract :: agent_contract
  v_title :: string
  v_importance :: string
  v_effective :: string
  v_name :: string
  v_depth :: nat

datatype plan_error =
    EmptyPlan | BadMaxDepth | NoObjective | NoKey | SharedKey string | BadKind | BadMode
  | NoCommand string | NoModel string | NoClaims string | EmptyClaim | AbsoluteClaim string | ClaimEscapes string
  | ClaimResolvesOutside string | NameRefused name_error | MissingParent string | OwnAncestor | TooDeep string nat
  | ClaimOutsideParent string string | BothClaim string string | UnknownDependency string string | DependencyCycle
  | NoLimits | ShellString | LimitError budget_error | PlanKeyError | PlanLoops

section \<open>Claims\<close>

definition normalize_claim :: "string \<Rightarrow> plan_error + string" where
  "normalize_claim claim =
     (let clean = map (\<lambda>c. if c = CHR 0x5C then CHR ''/'' else c) (py_strip claim) in
      if clean = [] then Inl EmptyClaim
      else if hd clean = CHR ''/'' \<or> (length clean > 1 \<and> clean ! 1 = CHR '':'') then Inl (AbsoluteClaim claim)
      else (let parts = filter (\<lambda>p. p \<noteq> [] \<and> p \<noteq> ''.'') (py_split (CHR ''/'') clean) in
            if parts = [] \<or> list_ex (\<lambda>p. p = ''..'') parts then Inl (ClaimEscapes claim)
            else Inr (py_join ''/'' parts)))"

definition claim_inside :: "string \<Rightarrow> string \<Rightarrow> bool" where
  "claim_inside child parent =
     (let c = py_split (CHR ''/'') child; p = py_split (CHR ''/'') parent in length p \<le> length c \<and> take (length p) c = p)"

section \<open>Briefs\<close>

text \<open>The raw brief: a field is \<open>None\<close> when its key is absent.\<close>

datatype raw_command = CommandText string | CommandList "string list"

record raw_brief =
  raw_limits :: "(string, raw_number) dict option"
  raw_command :: "raw_command option"
  raw_texts :: "(string, string) dict"
  raw_claims :: "string list option"
  raw_depends :: "string list option"
  raw_steps :: "int option"

definition raw_text :: "raw_brief \<Rightarrow> string \<Rightarrow> string" where
  "raw_text raw k = (case dict_get (raw_texts raw) k of None \<Rightarrow> [] | Some s \<Rightarrow> s)"

definition or_else :: "string \<Rightarrow> string \<Rightarrow> string" where
  "or_else a b = (if a \<noteq> [] then a else b)"

definition contract_from_dict :: "raw_brief option \<Rightarrow> limits option \<Rightarrow> plan_error + agent_contract" where
  "contract_from_dict raw_opt default_limits =
     (case raw_opt of None \<Rightarrow> Inl NoObjective
      | Some raw \<Rightarrow>
        and_then (case raw_limits raw of
            Some d \<Rightarrow> (case limits_from_dict (Some d) of Inl e \<Rightarrow> Inl (LimitError e) | Inr l \<Rightarrow> Inr l)
          | None \<Rightarrow> (case default_limits of None \<Rightarrow> Inl NoLimits | Some l \<Rightarrow> Inr l)) (\<lambda>l.
        and_then (case raw_command raw of
            None \<Rightarrow> Inr [] | Some (CommandText t) \<Rightarrow> (if t = [] then Inr [] else Inl ShellString)
          | Some (CommandList c) \<Rightarrow> Inr c) (\<lambda>cmd.
        Inr \<lparr>a_key = py_strip (or_else (raw_text raw ''key'') (or_else (raw_text raw ''title'') (raw_text raw ''objective''))),
             a_objective = py_strip (raw_text raw ''objective''), a_limits = l,
             a_title = py_strip (raw_text raw ''title''),
             a_importance = or_else (raw_text raw ''importance'') ''normal'',
             a_kind = or_else (raw_text raw ''kind'') (if raw_text raw ''model'' \<noteq> [] \<and> cmd = [] then ''model'' else ''process''),
             a_mode = or_else (raw_text raw ''mode'') (if raw_claims raw \<in> {None, Some []} then ''read'' else ''write''),
             a_claims = (case raw_claims raw of None \<Rightarrow> [] | Some cs \<Rightarrow> cs), a_command = cmd, a_cwd = raw_text raw ''cwd'',
             a_model = raw_text raw ''model'', a_prompt = raw_text raw ''prompt'', a_parent = raw_text raw ''parent'',
             a_depends = (case raw_depends raw of None \<Rightarrow> [] | Some ds \<Rightarrow> ds),
             a_steps = (case raw_steps raw of None \<Rightarrow> 0 | Some n \<Rightarrow> n)\<rparr>)))"

section \<open>The plan law\<close>

type_synonym contracts = "(string, agent_contract) dict"
type_synonym team_agents = "(string, validated_agent) dict"

definition hard_max_depth :: int where "hard_max_depth = 3"

text \<open>The first loop: every brief is complete and its key is new.\<close>

definition brief_error :: "team_agents \<Rightarrow> string list \<Rightarrow> agent_contract \<Rightarrow> plan_error option" where
  "brief_error existing seen a =
     (if a_objective a = [] then Some NoObjective
      else if a_key a = [] then Some NoKey
      else if a_key a \<in> set seen \<or> a_key a \<in> set (dict_keys existing) then Some (SharedKey (a_key a))
      else if a_kind a \<notin> {''process'', ''model''} then Some BadKind
      else if a_mode a \<notin> {''read'', ''write''} then Some BadMode
      else if a_kind a = ''process'' \<and> a_command a = [] then Some (NoCommand (a_key a))
      else if a_kind a = ''model'' \<and> a_model a = [] then Some (NoModel (a_key a))
      else if a_mode a = ''write'' \<and> a_claims a = [] then Some (NoClaims (a_key a))
      else None)"

fun collect_briefs :: "team_agents \<Rightarrow> contracts \<Rightarrow> agent_contract list \<Rightarrow> plan_error + contracts" where
  "collect_briefs existing by_key [] = Inr by_key"
| "collect_briefs existing by_key (a # rest) =
     (case brief_error existing (dict_keys by_key) a of Some e \<Rightarrow> Inl e
      | None \<Rightarrow> collect_briefs existing (dict_set (a_key a) a by_key) rest)"

definition claim_or_error :: "(string \<Rightarrow> bool) \<Rightarrow> string \<Rightarrow> plan_error option" where
  "claim_or_error leaves claim = (if leaves claim then Some (ClaimResolvesOutside claim) else None)"

definition name_result :: "name_error + 'a \<Rightarrow> plan_error + 'a" where
  "name_result r = (case r of Inl e \<Rightarrow> Inl (NameRefused e) | Inr x \<Rightarrow> Inr x)"

definition normalize_brief :: "(string \<Rightarrow> bool) \<Rightarrow> agent_contract \<Rightarrow> plan_error + agent_contract" where
  "normalize_brief leaves a =
     and_then (each normalize_claim (a_claims a)) (\<lambda>cs.
     (let claims = py_unique cs in
      and_then (check_all (claim_or_error leaves) claims) (\<lambda>_.
      and_then (if a_cwd a = [] then Inr () else
                and_then (normalize_claim (a_cwd a)) (\<lambda>cwd. check_all (claim_or_error leaves) [cwd])) (\<lambda>_.
      and_then (name_result (validate_title (or_else (a_title a) (title_from_objective (a_objective a))))) (\<lambda>title.
      and_then (name_result (normalize_importance (Some (a_importance a)))) (\<lambda>importance.
      Inr (a\<lparr>a_claims := claims, a_title := title, a_importance := importance\<rparr>)))))))"

lemma name_result_Inr [simp]: "name_result r = Inr x \<longleftrightarrow> r = Inr x"
  by (cases r) (simp_all add: name_result_def)

record plan =
  pl_new :: contracts
  pl_existing :: team_agents

definition known_keys :: "plan \<Rightarrow> string list" where
  "known_keys P = dict_keys (pl_existing P) @ dict_keys (pl_new P)"

definition contract_of :: "plan \<Rightarrow> string \<Rightarrow> agent_contract option" where
  "contract_of P k = (case dict_get (pl_new P) k of Some a \<Rightarrow> Some a
     | None \<Rightarrow> map_option v_contract (dict_get (pl_existing P) k))"

definition parent_of :: "plan \<Rightarrow> string \<Rightarrow> plan_error + (string \<times> agent_contract) option" where
  "parent_of P k =
     (case contract_of P k of None \<Rightarrow> Inl PlanKeyError
      | Some a \<Rightarrow>
          if a_parent a = [] then Inr None
          else (case contract_of P (a_parent a) of Some p \<Rightarrow> Inr (Some (a_parent a, p))
                | None \<Rightarrow> if dict_get (pl_new P) k = None then Inl PlanKeyError else Inl (MissingParent k)))"

function depth_of :: "plan \<Rightarrow> string list \<Rightarrow> string \<Rightarrow> plan_error + nat" where
  "depth_of P seen k =
     (if k \<in> set seen then Inl OwnAncestor
      else (case dict_get (pl_new P) k of
          None \<Rightarrow> (case dict_get (pl_existing P) k of None \<Rightarrow> Inl PlanKeyError | Some v \<Rightarrow> Inr (v_depth v))
        | Some _ \<Rightarrow> (case parent_of P k of Inl e \<Rightarrow> Inl e | Inr None \<Rightarrow> Inr 1
            | Inr (Some (p, _)) \<Rightarrow> and_then (depth_of P (k # seen) p) (\<lambda>d. Inr (1 + d)))))"
  by pat_completeness auto
termination
proof (relation "measure (\<lambda>(P, seen, k). card (set (dict_keys (pl_new P)) - set seen))")
  fix P :: plan and seen :: "string list" and k a x p y b
  assume "k \<notin> set seen" "dict_get (pl_new P) k = Some a"
  then have "k \<in> set (dict_keys (pl_new P)) - set seen" by (metis DiffI dict_get_None_iff option.distinct(1))
  then show "((P, k # seen, p), P, seen, k) \<in> measure (\<lambda>(P, seen, k). card (set (dict_keys (pl_new P)) - set seen))"
    using psubset_card_mono [of "set (dict_keys (pl_new P)) - set seen" "set (dict_keys (pl_new P)) - set (k # seen)"]
    by auto
qed simp

declare depth_of.simps [simp del]

definition depth_error :: "nat \<Rightarrow> string \<times> nat \<Rightarrow> plan_error option" where
  "depth_error max_depth kd = (if snd kd > max_depth then Some (TooDeep (fst kd) (snd kd)) else None)"

text \<open>A sub-agent's claim sits inside its parent's claim.\<close>

definition sub_claim_error :: "plan \<Rightarrow> string \<times> agent_contract \<Rightarrow> plan_error option" where
  "sub_claim_error P ka =
     (case parent_of P (fst ka) of Inl e \<Rightarrow> Some e | Inr None \<Rightarrow> None
      | Inr (Some (p, pa)) \<Rightarrow>
          (case find (\<lambda>c. \<not> list_ex (claim_inside c) (a_claims pa)) (a_claims (snd ka)) of
             None \<Rightarrow> None | Some c \<Rightarrow> Some (ClaimOutsideParent (fst ka) c)))"

text \<open>\<open>ancestors(key)\<close>: the parent chain, one unit of fuel per link.\<close>

fun ancestors_loop :: "nat \<Rightarrow> plan \<Rightarrow> string \<Rightarrow> string list \<Rightarrow> plan_error + string list" where
  "ancestors_loop 0 P current out = Inl PlanLoops"
| "ancestors_loop (Suc fuel) P current out =
     (case parent_of P current of Inl e \<Rightarrow> Inl e | Inr None \<Rightarrow> Inr out
      | Inr (Some (p, _)) \<Rightarrow> ancestors_loop fuel P p (p # out))"

definition ancestors :: "plan \<Rightarrow> string \<Rightarrow> plan_error + string list" where
  "ancestors P k = ancestors_loop (length (known_keys P) + 1) P k []"

definition pool :: "plan \<Rightarrow> contracts" where
  "pool P = map (\<lambda>(k, v). (k, v_contract v)) (pl_existing P) @ pl_new P"

definition pair_error :: "plan \<Rightarrow> string \<times> agent_contract \<Rightarrow> string \<times> agent_contract \<Rightarrow> plan_error option" where
  "pair_error P l r =
     (if fst l \<notin> set (dict_keys (pl_new P)) \<and> fst r \<notin> set (dict_keys (pl_new P)) then None
      else if a_mode (snd l) \<noteq> ''write'' \<or> a_mode (snd r) \<noteq> ''write'' then None
      else if \<not> scopes_overlap (a_claims (snd l)) (a_claims (snd r)) then None
      else case ancestors P (fst r) of Inl e \<Rightarrow> Some e
        | Inr rs \<Rightarrow> if fst l \<in> set rs then None
            else (case ancestors P (fst l) of Inl e \<Rightarrow> Some e
              | Inr ls \<Rightarrow> if fst r \<in> set ls then None else Some (BothClaim (fst l) (fst r))))"

text \<open>\<open>for i, left in enumerate(keys): for right in keys[i + 1:]\<close>\<close>

fun pairs_check :: "plan \<Rightarrow> contracts \<Rightarrow> plan_error + unit" where
  "pairs_check P [] = Inr ()"
| "pairs_check P (l # rest) = and_then (check_all (pair_error P l) rest) (\<lambda>_. pairs_check P rest)"

definition unknown_dep :: "plan \<Rightarrow> string \<times> agent_contract \<Rightarrow> plan_error option" where
  "unknown_dep P ka = map_option (UnknownDependency (fst ka))
     (find (\<lambda>d. d \<notin> set (dict_keys (pool P))) (a_depends (snd ka)))"

text \<open>\<open>visit\<close>: depth-first search over the dependencies; \<open>Open\<close> and \<open>Done\<close> are the source's 1 and 2.\<close>

datatype visit_mark = Open | Done

fun visit :: "nat \<Rightarrow> contracts \<Rightarrow> string \<Rightarrow> (string, visit_mark) dict \<Rightarrow> plan_error + (string, visit_mark) dict"
and visit_all :: "nat \<Rightarrow> contracts \<Rightarrow> string list \<Rightarrow> (string, visit_mark) dict \<Rightarrow> plan_error + (string, visit_mark) dict" where
  "visit 0 ps k st = Inl PlanLoops"
| "visit (Suc fuel) ps k st =
     (case dict_get st k of
        Some Done \<Rightarrow> Inr st
      | Some Open \<Rightarrow> Inl DependencyCycle
      | None \<Rightarrow>
         (case dict_get ps k of None \<Rightarrow> Inl PlanKeyError
          | Some a \<Rightarrow> and_then (visit_all fuel ps (a_depends a) (dict_set k Open st)) (\<lambda>st'. Inr (dict_set k Done st'))))"
| "visit_all fuel ps [] st = Inr st"
| "visit_all fuel ps (k # ks) st = and_then (visit fuel ps k st) (\<lambda>st'. visit_all fuel ps ks st')"

definition dependents :: "plan \<Rightarrow> string \<Rightarrow> nat" where
  "dependents P k = sum_list (map (\<lambda>(_, a). count_name (a_depends a) k) (pool P))"

definition name_row_of :: "plan \<Rightarrow> string \<times> agent_contract \<Rightarrow> plan_error + name_row" where
  "name_row_of P ka = and_then (name_result (raise_importance (a_importance (snd ka)) (int (dependents P (fst ka)))))
     (\<lambda>eff. Inr (a_title (snd ka), eff, a_claims (snd ka)))"

definition validated :: "(string \<times> agent_contract) \<times> (string \<times> nat) \<times> name_row \<times> string \<Rightarrow> validated_agent" where
  "validated r = (case r of ((k, a), (_, d), (_, eff, _), name) \<Rightarrow>
     \<lparr>v_contract = a, v_title = a_title a, v_importance = a_importance a, v_effective = eff, v_name = name, v_depth = d\<rparr>)"

text \<open>The checks after normalization, in the order of the code.\<close>

definition plan_checks :: "nat \<Rightarrow> plan \<Rightarrow> plan_error + (string \<times> nat) list" where
  "plan_checks max_depth P =
     and_then (each (\<lambda>k. and_then (depth_of P [] k) (\<lambda>d. Inr (k, d))) (dict_keys (pl_new P))) (\<lambda>depths.
     and_then (check_all (depth_error max_depth) depths) (\<lambda>_.
     and_then (check_all (sub_claim_error P) (pl_new P)) (\<lambda>_.
     and_then (pairs_check P (pool P)) (\<lambda>_.
     and_then (check_all (unknown_dep P) (pl_new P)) (\<lambda>_.
     and_then (visit_all (length (known_keys P) + 1) (pool P) (dict_keys (pl_new P)) []) (\<lambda>_.
     Inr depths))))))"

definition validate_plan :: "(string \<Rightarrow> bool) \<Rightarrow> agent_contract list \<Rightarrow> team_agents \<Rightarrow> int \<Rightarrow> plan_error + validated_agent list" where
  "validate_plan leaves raw_agents existing max_depth =
     (if raw_agents = [] then Inl EmptyPlan
      else if \<not> (1 \<le> max_depth \<and> max_depth \<le> hard_max_depth) then Inl BadMaxDepth
      else and_then (collect_briefs existing [] raw_agents) (\<lambda>by_key.
        and_then (each (\<lambda>(k, a). and_then (normalize_brief leaves a) (\<lambda>b. Inr (k, b))) by_key) (\<lambda>briefs.
        (let P = \<lparr>pl_new = briefs, pl_existing = existing\<rparr> in
         and_then (plan_checks (nat max_depth) P) (\<lambda>depths.
         and_then (each (name_row_of P) briefs) (\<lambda>rows.
         and_then (name_result (assign_display_names rows (map (\<lambda>(_, v). v_name v) existing))) (\<lambda>names.
         Inr (map validated (zip briefs (zip depths (zip rows names)))))))))))"

section \<open>What an accepted plan went through\<close>

definition plan_of :: "team_agents \<Rightarrow> validated_agent list \<Rightarrow> plan" where
  "plan_of existing out = \<lparr>pl_new = map (\<lambda>v. (a_key (v_contract v), v_contract v)) out, pl_existing = existing\<rparr>"

definition keyed :: "contracts \<Rightarrow> bool" where
  "keyed d \<longleftrightarrow> wf_dict d \<and> (\<forall>(k, a)\<in>set d. a_key a = k)"

lemma collect_briefs_keyed:
  "collect_briefs existing by_key raw = Inr d \<Longrightarrow> keyed by_key \<Longrightarrow> set (dict_keys by_key) \<inter> set (dict_keys existing) = {}
   \<Longrightarrow> keyed d \<and> set (dict_keys d) \<inter> set (dict_keys existing) = {}"
proof (induction existing by_key raw rule: collect_briefs.induct)
  case (2 existing by_key a rest)
  then have "a_key a \<notin> set (dict_keys by_key)" "a_key a \<notin> set (dict_keys existing)"
    by (auto simp: brief_error_def split: if_splits option.splits)
  moreover from this(1) have "dict_set (a_key a) a by_key = by_key @ [(a_key a, a)]"
    by (intro dict_set_append) (simp only: dict_get_None_iff not_False_eq_True)
  ultimately show ?case using 2 by (auto simp: keyed_def split: option.splits)
qed simp

lemma normalize_brief_key: "normalize_brief leaves a = Inr b \<Longrightarrow> a_key b = a_key a"
  by (auto simp: normalize_brief_def and_then_Inr Let_def)

lemma normalized_keyed:
  assumes "each (\<lambda>(k, a). and_then (normalize_brief leaves a) (\<lambda>b. Inr (k, b))) d = Inr briefs" "keyed d"
  shows "dict_keys briefs = dict_keys d \<and> keyed briefs"
proof -
  have l: "list_all2 (\<lambda>x y. fst y = fst x \<and> a_key (snd y) = a_key (snd x)) d briefs"
    using assms(1) unfolding each_Inr by (rule list_all2_mono) (auto simp: and_then_Inr dest: normalize_brief_key)
  then have keys: "dict_keys briefs = dict_keys d"
    by (induction rule: list_all2_induct) auto
  moreover have "(\<forall>(k, a)\<in>set d. a_key a = k) \<longrightarrow> (\<forall>(k, a)\<in>set briefs. a_key a = k)"
    using l by (induction rule: list_all2_induct) auto
  ultimately show ?thesis using assms(2) by (simp add: keyed_def)
qed

lemma plan_of_validated:
  assumes "keyed briefs" "length depths = length briefs" "length rows = length briefs" "length names = length briefs"
  shows "plan_of existing (map validated (zip briefs (zip depths (zip rows names)))) = \<lparr>pl_new = briefs, pl_existing = existing\<rparr>"
proof -
  have "map ((\<lambda>v. (a_key (v_contract v), v_contract v)) \<circ> validated) (zip briefs (zip depths (zip rows names))) = briefs"
    using assms by (intro nth_equalityI) (auto simp: validated_def keyed_def split: prod.splits dest!: nth_mem)
  then show ?thesis by (simp add: plan_of_def)
qed

lemma validate_plan_Inr:
  assumes "validate_plan leaves raw existing md = Inr out"
  obtains briefs depths rows names where
    "plan_of existing out = \<lparr>pl_new = briefs, pl_existing = existing\<rparr>"
    "keyed briefs" "set (dict_keys briefs) \<inter> set (dict_keys existing) = {}"
    "1 \<le> md" "md \<le> hard_max_depth" "plan_checks (nat md) (plan_of existing out) = Inr depths"
    "each (name_row_of (plan_of existing out)) briefs = Inr rows"
    "assign_display_names rows (map (\<lambda>(_, v). v_name v) existing) = Inr names"
    "out = map validated (zip briefs (zip depths (zip rows names)))"
    "length depths = length briefs" "length rows = length briefs" "length names = length briefs"
proof -
  from assms obtain by_key briefs depths rows names where
    b: "collect_briefs existing [] raw = Inr by_key"
    and n: "each (\<lambda>(k, a). and_then (normalize_brief leaves a) (\<lambda>b. Inr (k, b))) by_key = Inr briefs"
    and c: "plan_checks (nat md) \<lparr>pl_new = briefs, pl_existing = existing\<rparr> = Inr depths"
    and r: "each (name_row_of \<lparr>pl_new = briefs, pl_existing = existing\<rparr>) briefs = Inr rows"
    and a: "assign_display_names rows (map (\<lambda>(_, v). v_name v) existing) = Inr names"
    and o: "out = map validated (zip briefs (zip depths (zip rows names)))" and md: "1 \<le> md" "md \<le> hard_max_depth"
    by (auto simp: validate_plan_def and_then_Inr Let_def split: if_splits)
  have k: "keyed by_key \<and> set (dict_keys by_key) \<inter> set (dict_keys existing) = {}"
    by (rule collect_briefs_keyed [OF b]) (simp_all add: keyed_def)
  with normalized_keyed [OF n] have kn: "keyed briefs" "set (dict_keys briefs) \<inter> set (dict_keys existing) = {}" by auto
  have ld: "length depths = length briefs"
    using c by (auto simp: plan_checks_def and_then_Inr each_Inr dest: list_all2_lengthD)
  have lr: "length rows = length briefs" using r by (auto simp: each_Inr dest: list_all2_lengthD)
  have "length names = length rows"
    using a by (auto simp: assign_display_names_def Let_def split: sum.splits dest!: base_names_display name_loop_distinct)
  with lr have ln: "length names = length briefs" by simp
  have p: "plan_of existing out = \<lparr>pl_new = briefs, pl_existing = existing\<rparr>"
    unfolding o by (rule plan_of_validated [OF kn(1) ld lr ln])
  show ?thesis by (rule that [OF p kn md _ _ a o ld lr ln]) (simp_all add: p c r)
qed

section \<open>The law a team obeys\<close>

definition accepted :: "validated_agent list \<Rightarrow> team_agents" where
  "accepted out = map (\<lambda>v. (a_key (v_contract v), v)) out"

definition covers :: "string list \<Rightarrow> string list \<Rightarrow> bool" where
  "covers outer inner \<longleftrightarrow> list_all (\<lambda>c. list_ex (claim_inside c) outer) inner"

definition agent_parent :: "validated_agent \<Rightarrow> string" where
  "agent_parent v = a_parent (v_contract v)"

definition team_parent :: "team_agents \<Rightarrow> (string \<times> string) set" where
  "team_parent T = {(k, p). \<exists>v. dict_get T k = Some v \<and> agent_parent v = p \<and> p \<noteq> [] \<and> dict_get T p \<noteq> None}"

definition tree_law :: "team_agents \<Rightarrow> bool" where
  "tree_law T \<longleftrightarrow> (\<forall>k v. dict_get T k = Some v \<longrightarrow> v_depth v \<le> 3 \<and>
     (if agent_parent v = [] then v_depth v = 1
      else \<exists>w. dict_get T (agent_parent v) = Some w \<and> v_depth v = v_depth w + 1
             \<and> covers (a_claims (v_contract w)) (a_claims (v_contract v))))"

definition both_write :: "validated_agent \<Rightarrow> validated_agent \<Rightarrow> bool" where
  "both_write v w \<longleftrightarrow> a_mode (v_contract v) = ''write'' \<and> a_mode (v_contract w) = ''write''
     \<and> scopes_overlap (a_claims (v_contract v)) (a_claims (v_contract w))"

definition writer_law :: "team_agents \<Rightarrow> bool" where
  "writer_law T \<longleftrightarrow> (\<forall>k l v w. dict_get T k = Some v \<longrightarrow> dict_get T l = Some w \<longrightarrow> k \<noteq> l \<longrightarrow> both_write v w
     \<longrightarrow> (k, l) \<in> (team_parent T)\<^sup>+ \<or> (l, k) \<in> (team_parent T)\<^sup>+)"

text \<open>An agent can start once everything it depends on can: no cycle, nothing missing.\<close>

inductive can_start :: "team_agents \<Rightarrow> string \<Rightarrow> bool" for T where
  start: "dict_get T k = Some v \<Longrightarrow> (\<And>d. d \<in> set (a_depends (v_contract v)) \<Longrightarrow> can_start T d) \<Longrightarrow> can_start T k"

inductive_cases can_startE: "can_start T k"

definition team_law :: "team_agents \<Rightarrow> bool" where
  "team_law T \<longleftrightarrow> wf_dict T \<and> tree_law T \<and> writer_law T \<and> distinct (map (\<lambda>(_, v). v_name v) T)
     \<and> (\<forall>k v. dict_get T k = Some v \<longrightarrow> can_start T k)"

subsection \<open>The validated plan as a team\<close>

lemma keys_accepted: "dict_keys (pl_new (plan_of ex out)) = dict_keys (accepted out)"
  by (simp add: plan_of_def accepted_def comp_def)

lemma get_new: "dict_get (pl_new (plan_of ex out)) k = map_option v_contract (dict_get (accepted out) k)"
  by (simp add: plan_of_def accepted_def map_of_map comp_def flip: map_of_map [of v_contract])
    (induction out; simp)

lemma get_team:
  assumes "set (dict_keys (accepted out)) \<inter> set (dict_keys ex) = {}"
  shows "dict_get (ex @ accepted out) k = (case dict_get (accepted out) k of Some v \<Rightarrow> Some v | None \<Rightarrow> dict_get ex k)"
proof (cases "dict_get (accepted out) k")
  case (Some v)
  then have "k \<in> set (dict_keys (accepted out))" by (metis dict_get_None_iff option.distinct(1))
  with assms have "dict_get ex k = None" by (metis dict_get_None_iff disjoint_iff)
  with Some show ?thesis by (simp add: map_add_def)
qed (simp add: map_add_def split: option.split)

lemma contract_of_team:
  assumes "set (dict_keys (accepted out)) \<inter> set (dict_keys ex) = {}"
  shows "contract_of (plan_of ex out) k = map_option v_contract (dict_get (ex @ accepted out) k)"
  unfolding get_team [OF assms] by (simp add: contract_of_def get_new split: option.split) (simp add: plan_of_def)

lemma parent_of_contract: "parent_of P k = Inr (Some (p, pa)) \<Longrightarrow> contract_of P p = Some pa"
  by (auto simp: parent_of_def split: option.splits if_splits)

definition parent_rel :: "plan \<Rightarrow> (string \<times> string) set" where
  "parent_rel P = {(k, p). \<exists>pa. parent_of P k = Inr (Some (p, pa))}"

lemma parent_of_abs:
  assumes "\<And>k. contract_of P k = map_option v_contract (dict_get T k)"
  shows "parent_of P k = Inr (Some (p, pa)) \<longleftrightarrow> (\<exists>v w. dict_get T k = Some v \<and> agent_parent v = p
     \<and> p \<noteq> [] \<and> dict_get T p = Some w \<and> pa = v_contract w)"
  unfolding parent_of_def assms agent_parent_def by (auto split: option.split)

lemma parent_of_team:
  assumes "set (dict_keys (accepted out)) \<inter> set (dict_keys ex) = {}"
  shows "parent_of (plan_of ex out) k = Inr (Some (p, pa)) \<longleftrightarrow> (\<exists>v w. dict_get (ex @ accepted out) k = Some v \<and> agent_parent v = p
     \<and> p \<noteq> [] \<and> dict_get (ex @ accepted out) p = Some w \<and> pa = v_contract w)"
  by (rule parent_of_abs) (rule contract_of_team [OF assms])

lemma parent_rel_team:
  assumes "set (dict_keys (accepted out)) \<inter> set (dict_keys ex) = {}"
  shows "parent_rel (plan_of ex out) = team_parent (ex @ accepted out)"
  unfolding parent_rel_def parent_of_team [OF assms] team_parent_def by blast

lemma ancestors_loop_sound:
  "ancestors_loop f P k out = Inr r \<Longrightarrow> set r = set out \<union> {q. (k, q) \<in> (parent_rel P)\<^sup>+}"
proof (induction f P k out arbitrary: r rule: ancestors_loop.induct)
  case (2 fuel P k out)
  show ?case
  proof (cases "parent_of P k")
    case (Inr pr)
    show ?thesis
    proof (cases pr)
      case None
      then have "\<not> (k, q) \<in> (parent_rel P)\<^sup>+" for q
        using Inr by (auto simp: parent_rel_def dest!: tranclD)
      with None Inr "2.prems" show ?thesis by simp
    next
      case (Some pp)
      then obtain p pa where pp: "parent_of P k = Inr (Some (p, pa))" using Inr by (cases pp) simp
      then have "(k, x) \<in> parent_rel P \<longleftrightarrow> x = p" for x by (auto simp: parent_rel_def)
      then have "(k, q) \<in> (parent_rel P)\<^sup>+ \<longleftrightarrow> q = p \<or> (p, q) \<in> (parent_rel P)\<^sup>+" for q
        by (metis converse_tranclE r_into_trancl' trancl_into_trancl2)
      moreover have "set r = set (p # out) \<union> {q. (p, q) \<in> (parent_rel P)\<^sup>+}"
        using "2.IH" [OF pp] "2.prems" pp by simp
      ultimately show ?thesis by auto
    qed
  qed (use "2.prems" in simp)
qed simp

lemma ancestors_sound: "ancestors P k = Inr r \<Longrightarrow> set r = {q. (k, q) \<in> (parent_rel P)\<^sup>+}"
  unfolding ancestors_def by (drule ancestors_loop_sound) simp

lemma pair_error_None:
  assumes "pair_error P (k, a) (l, b) = None" "k \<in> set (dict_keys (pl_new P)) \<or> l \<in> set (dict_keys (pl_new P))"
    "a_mode a = ''write''" "a_mode b = ''write''" "scopes_overlap (a_claims a) (a_claims b)"
  shows "(k, l) \<in> (parent_rel P)\<^sup>+ \<or> (l, k) \<in> (parent_rel P)\<^sup>+"
  using assms by (auto simp: pair_error_def split: sum.splits if_splits dest!: ancestors_sound)

lemma pairs_check_all:
  "pairs_check P xs = Inr u \<Longrightarrow> x \<in> set xs \<Longrightarrow> y \<in> set xs \<Longrightarrow> x \<noteq> y \<Longrightarrow> pair_error P x y = None \<or> pair_error P y x = None"
  by (induction P xs rule: pairs_check.induct) (auto simp: and_then_Inr list_all_iff)

lemma depth_of_seen: "depth_of P seen k = Inr d \<Longrightarrow> set seen' \<subseteq> set seen \<Longrightarrow> depth_of P seen' k = Inr d"
proof (induction P seen k arbitrary: d seen' rule: depth_of.induct)
  case (1 P seen k)
  note d = "1.prems"(1) [unfolded depth_of.simps [of P seen k]]
  have k: "k \<notin> set seen" "k \<notin> set seen'" using d "1.prems"(2) by (auto split: if_splits)
  show ?case
  proof (cases "dict_get (pl_new P) k")
    case None
    with d k show ?thesis by (simp add: depth_of.simps [of P seen' k])
  next
    case (Some a)
    show ?thesis
    proof (cases "\<exists>p pa. parent_of P k = Inr (Some (p, pa))")
      case True
      then obtain p pa where p: "parent_of P k = Inr (Some (p, pa))" by blast
      with d k Some obtain d' where d': "depth_of P (k # seen) p = Inr d'" "d = 1 + d'" by (auto simp: and_then_Inr)
      have "depth_of P (k # seen') p = Inr d'"
        by (rule "1.IH" [OF k(1) Some p]) (use d'(1) "1.prems"(2) in auto)
      with k Some p d'(2) show ?thesis by (simp add: depth_of.simps [of P seen' k])
    next
      case False
      with d k Some show ?thesis by (auto simp: depth_of.simps [of P seen' k] split: sum.splits option.splits)
    qed
  qed
qed

lemma sub_claim_covers:
  assumes "sub_claim_error P (k, a) = None"
  shows "parent_of P k = Inr None \<or> (\<exists>p pa. parent_of P k = Inr (Some (p, pa)) \<and> covers (a_claims pa) (a_claims a))"
  using assms by (auto simp: sub_claim_error_def covers_def list_all_iff find_None_iff split: sum.splits option.splits)

lemma validated_zip:
  assumes "length depths = length ks" "length rows = length ks" "length names = length ks"
  shows "map v_name (map validated (zip ks (zip depths (zip rows names)))) = names"
    and "map v_depth (map validated (zip ks (zip depths (zip rows names)))) = map snd depths"
    and "map v_contract (map validated (zip ks (zip depths (zip rows names)))) = map snd ks"
  using assms by (auto simp: validated_def intro!: nth_equalityI split: prod.splits)

lemma wf_get_cases: "wf_dict d \<Longrightarrow> dict_get d k = Some v \<longleftrightarrow> (k, v) \<in> set d"
  by simp

text \<open>What the checks establish, stated over the team that results.\<close>

lemma validated_facts:
  assumes "validate_plan leaves raw ex md = Inr out"
  shows "set (dict_keys (accepted out)) \<inter> set (dict_keys ex) = {}" and "wf_dict (accepted out)"
    and "dict_get (accepted out) k = Some v \<Longrightarrow> depth_of (plan_of ex out) [] k = Inr (v_depth v) \<and> v_depth v \<le> 3"
    and "dict_get (accepted out) k = Some v \<Longrightarrow> sub_claim_error (plan_of ex out) (k, v_contract v) = None"
    and "pairs_check (plan_of ex out) (pool (plan_of ex out)) = Inr ()"
    and "\<exists>st. visit_all (length (known_keys (plan_of ex out)) + 1) (pool (plan_of ex out)) (dict_keys (accepted out)) [] = Inr st"
    and "distinct (map v_name out)" and "set (map v_name out) \<inter> set (map (\<lambda>(_, v). v_name v) ex) = {}"
proof -
  let ?P = "plan_of ex out"
  from validate_plan_Inr [OF assms] obtain briefs depths rows names where
    p: "?P = \<lparr>pl_new = briefs, pl_existing = ex\<rparr>" and kb: "keyed briefs" "set (dict_keys briefs) \<inter> set (dict_keys ex) = {}"
    and md: "1 \<le> md" "md \<le> hard_max_depth" and c: "plan_checks (nat md) ?P = Inr depths"
    and a: "assign_display_names rows (map (\<lambda>(_, v). v_name v) ex) = Inr names"
    and o: "out = map validated (zip briefs (zip depths (zip rows names)))"
    and l: "length depths = length briefs" "length rows = length briefs" "length names = length briefs" by metis
  have new: "pl_new ?P = briefs" by (simp add: p)
  have keys: "dict_keys briefs = dict_keys (accepted out)" using keys_accepted [of ex out] new by simp
  show D: "set (dict_keys (accepted out)) \<inter> set (dict_keys ex) = {}" using kb(2) keys by simp
  show W: "wf_dict (accepted out)" using kb(1) keys unfolding keyed_def by metis
  have ds: "list_all2 (\<lambda>k kd. depth_of ?P [] k = Inr (snd kd) \<and> fst kd = k) (dict_keys briefs) depths"
    and lim: "list_all (\<lambda>kd. depth_error (nat md) kd = None) depths"
    and sub: "list_all (\<lambda>ka. sub_claim_error ?P ka = None) briefs" and prs: "pairs_check ?P (pool ?P) = Inr ()"
    and vis: "\<exists>st. visit_all (length (known_keys ?P) + 1) (pool ?P) (dict_keys briefs) [] = Inr st"
    using c by (auto simp: plan_checks_def and_then_Inr each_Inr new elim: list_all2_mono)
  show "pairs_check ?P (pool ?P) = Inr ()" by (rule prs)
  show "\<exists>st. visit_all (length (known_keys ?P) + 1) (pool ?P) (dict_keys (accepted out)) [] = Inr st"
    using vis keys by simp
  have "map fst depths = dict_keys briefs" using ds by (induction rule: list_all2_induct) auto
  then have fst_acc: "map fst (accepted out) = map fst depths" using keys by metis
  have snd_acc: "map (v_depth \<circ> snd) (accepted out) = map snd depths"
    using validated_zip(2) [OF l] by (simp add: accepted_def o comp_def)
  show "depth_of ?P [] k = Inr (v_depth v) \<and> v_depth v \<le> 3" if "dict_get (accepted out) k = Some v" for k v
  proof -
    from that W obtain i where i: "i < length (accepted out)" "accepted out ! i = (k, v)"
      by (auto simp: in_set_conv_nth dest!: dict_get_mem)
    have li: "i < length depths" using i(1) fst_acc by (metis length_map)
    have "fst (depths ! i) = k" "snd (depths ! i) = v_depth v"
      using arg_cong [OF fst_acc, of "\<lambda>xs. xs ! i"] arg_cong [OF snd_acc, of "\<lambda>xs. xs ! i"] i li by simp_all
    moreover have "depth_of ?P [] (fst (depths ! i)) = Inr (snd (depths ! i))"
      using ds li unfolding list_all2_conv_all_nth by auto
    moreover have "snd (depths ! i) \<le> nat md"
      using lim li by (auto simp: list_all_length depth_error_def not_less [symmetric])
    moreover have "nat md \<le> 3" using md by (simp add: hard_max_depth_def)
    ultimately show ?thesis by simp
  qed
  show "sub_claim_error ?P (k, v_contract v) = None" if "dict_get (accepted out) k = Some v" for k v
  proof -
    have "dict_get briefs k = Some (v_contract v)" using get_new [of ex out k] that new by simp
    then show ?thesis using sub by (auto simp: list_all_iff dest!: dict_get_mem)
  qed
  have n: "map v_name out = names" using validated_zip(1) [OF l] o by simp
  from a obtain bs where nl: "name_loop (count_name (bs @ py_unique (map (\<lambda>(_, v). v_name v) ex))) (py_unique (map (\<lambda>(_, v). v_name v) ex))
      (zip rows bs) = Inr names" by (auto simp: assign_display_names_def Let_def split: sum.splits)
  from name_loop_distinct [OF nl] show "distinct (map v_name out)" "set (map v_name out) \<inter> set (map (\<lambda>(_, v). v_name v) ex) = {}"
    by (simp_all add: n)
qed

lemma visit_sound:
  assumes "\<And>k a. dict_get ps k = Some a \<Longrightarrow> \<exists>v. dict_get T k = Some v \<and> v_contract v = a"
  shows "visit f ps k st = Inr st' \<Longrightarrow> (\<And>x. dict_get st x = Some Done \<Longrightarrow> can_start T x)
      \<Longrightarrow> (\<forall>x. dict_get st' x = Some Done \<longrightarrow> can_start T x) \<and> dict_get st' k = Some Done
         \<and> (\<forall>x. dict_get st x = Some Done \<longrightarrow> dict_get st' x = Some Done)"
    and "visit_all f ps ks st = Inr st' \<Longrightarrow> (\<And>x. dict_get st x = Some Done \<Longrightarrow> can_start T x)
      \<Longrightarrow> (\<forall>x. dict_get st' x = Some Done \<longrightarrow> can_start T x) \<and> (\<forall>k\<in>set ks. dict_get st' k = Some Done)
         \<and> (\<forall>x. dict_get st x = Some Done \<longrightarrow> dict_get st' x = Some Done)"
  using assms
proof (induction f ps k st and f ps ks st arbitrary: st' and st' rule: visit_visit_all.induct)
  case (2 fuel ps k st)
  show ?case
  proof (cases "dict_get st k")
    case None
    with "2.prems"(1) obtain a st1 where a: "dict_get ps k = Some a"
      and st1: "visit_all fuel ps (a_depends a) (dict_set k Open st) = Inr st1" "st' = dict_set k Done st1"
      by (auto simp: and_then_Inr split: option.splits)
    have dn: "dict_get (dict_set k Open st) x = Some Done \<Longrightarrow> can_start T x" for x
      using "2.prems"(2) by (auto split: if_splits)
    note ih = "2.IH" [OF None a st1(1) dn "2.prems"(3)]
    obtain v where "dict_get T k = Some v" "v_contract v = a" using "2.prems"(3) [OF a] by blast
    with ih have "can_start T k" by (auto intro: can_start.start)
    with ih None show ?thesis by (auto simp: st1(2) split: if_splits)
  next
    case (Some m)
    with "2.prems" show ?thesis by (cases m) auto
  qed
next
  case (4 fuel ps k ks st)
  then obtain st1 where s: "visit fuel ps k st = Inr st1" "visit_all fuel ps ks st1 = Inr st'" by (auto simp: and_then_Inr)
  note i1 = "4.IH"(1) [OF s(1) "4.prems"(2,3)]
  then have "\<And>x. dict_get st1 x = Some Done \<Longrightarrow> can_start T x" by blast
  note i2 = "4.IH"(2) [OF s(1) s(2) this "4.prems"(3)]
  from i1 i2 show ?case by auto
qed auto

lemma can_start_mono:
  assumes "can_start S k" "\<And>k v. dict_get S k = Some v \<Longrightarrow> dict_get T k = Some v"
  shows "can_start T k"
  using assms(1) by (induction rule: can_start.induct) (auto intro: can_start.start assms(2))

section \<open>Accepting a plan keeps the law\<close>

lemma tree_law_accept:
  assumes "validate_plan leaves raw ex md = Inr out" "tree_law ex"
  shows "tree_law (ex @ accepted out)"
  unfolding tree_law_def
proof (intro allI impI)
  let ?P = "plan_of ex out" and ?T = "ex @ accepted out"
  note F = validated_facts [OF assms(1)]
  note get = get_team [OF F(1)] and par = parent_of_team [OF F(1)]
  fix k v
  assume v: "dict_get ?T k = Some v"
  show "v_depth v \<le> 3 \<and> (if agent_parent v = [] then v_depth v = 1
      else \<exists>w. dict_get ?T (agent_parent v) = Some w \<and> v_depth v = v_depth w + 1
             \<and> covers (a_claims (v_contract w)) (a_claims (v_contract v)))"
  proof (cases "dict_get (accepted out) k")
    case None
    then have old: "dict_get ex k = Some v" using v get by simp
    have "dict_get ?T p = Some w" if "dict_get ex p = Some w" for p w using that by (simp add: map_add_Some_iff)
    with old assms(2) show ?thesis unfolding tree_law_def by (metis (no_types, lifting))
  next
    case (Some v')
    then have new: "dict_get (accepted out) k = Some v" using v get by simp
    note d = F(3) [OF new] and s = sub_claim_covers [OF F(4) [OF new]]
    have nk: "dict_get (pl_new ?P) k = Some (v_contract v)" using get_new [of ex out k] new by simp
    from s show ?thesis
    proof (elim disjE exE conjE)
      assume none: "parent_of ?P k = Inr None"
      then have "agent_parent v = []"
        using nk by (auto simp: parent_of_def contract_of_def agent_parent_def split: option.splits if_splits)
      with none nk d show ?thesis by (simp add: depth_of.simps [of ?P "[]" k])
    next
      fix p pa
      assume pp: "parent_of ?P k = Inr (Some (p, pa))" and cov: "covers (a_claims pa) (a_claims (v_contract v))"
      from pp v par obtain w where w: "agent_parent v = p" "p \<noteq> []" "dict_get ?T p = Some w" "pa = v_contract w"
        by (metis option.inject)
      from d pp nk obtain e where e: "depth_of ?P [k] p = Inr e" "Suc e = v_depth v"
        by (auto simp: depth_of.simps [of ?P "[]" k] and_then_Inr)
      have e0: "depth_of ?P [] p = Inr e" by (rule depth_of_seen [OF e(1)]) simp
      have "e = v_depth w"
      proof (cases "dict_get (accepted out) p")
        case None
        then have "dict_get ex p = Some w" using w(3) get by simp
        moreover have "dict_get (pl_new ?P) p = None" using get_new [of ex out p] None by simp
        moreover have "pl_existing ?P = ex" by (simp add: plan_of_def)
        ultimately show ?thesis using e0 by (simp add: depth_of.simps [of ?P "[]" p])
      next
        case (Some w')
        then have "dict_get (accepted out) p = Some w" using w(3) get by simp
        from F(3) [OF this] e0 show ?thesis by simp
      qed
      with e(2) w cov d show ?thesis by auto
    qed
  qed
qed

lemma team_parent_mono: "(\<And>k v. dict_get S k = Some v \<Longrightarrow> dict_get T k = Some v) \<Longrightarrow> team_parent S \<subseteq> team_parent T"
  unfolding team_parent_def by fastforce

lemma writer_law_accept:
  assumes "validate_plan leaves raw ex md = Inr out" "writer_law ex"
  shows "writer_law (ex @ accepted out)"
  unfolding writer_law_def
proof (intro allI impI)
  let ?P = "plan_of ex out" and ?T = "ex @ accepted out"
  note F = validated_facts [OF assms(1)]
  note get = get_team [OF F(1)]
  fix k l v w
  assume v: "dict_get ?T k = Some v" and w: "dict_get ?T l = Some w" and ne: "k \<noteq> l" and both: "both_write v w"
  have mono: "(team_parent ex)\<^sup>+ \<subseteq> (team_parent ?T)\<^sup>+"
    by (intro trancl_mono_subset team_parent_mono) (simp add: map_add_Some_iff)
  show "(k, l) \<in> (team_parent ?T)\<^sup>+ \<or> (l, k) \<in> (team_parent ?T)\<^sup>+"
  proof (cases "dict_get (accepted out) k = None \<and> dict_get (accepted out) l = None")
    case True
    then have "dict_get ex k = Some v" "dict_get ex l = Some w" using v w get by simp_all
    with assms(2) ne both mono show ?thesis unfolding writer_law_def by blast
  next
    case False
    have pool_mem: "(x, v_contract u) \<in> set (pool ?P)" if "dict_get ?T x = Some u" for x u
    proof -
      have "(x, u) \<in> set ?T" by (rule dict_get_mem [OF that])
      then show ?thesis by (force simp: pool_def plan_of_def accepted_def)
    qed
    have keys: "set (dict_keys (pl_new ?P)) = set (dict_keys (accepted out))" using keys_accepted by metis
    have new: "k \<in> set (dict_keys (pl_new ?P)) \<or> l \<in> set (dict_keys (pl_new ?P))"
      using False unfolding keys by (metis dict_get_None_iff)
    have ne': "(k, v_contract v) \<noteq> (l, v_contract w)" using ne by simp
    have wr: "a_mode (v_contract v) = ''write''" "a_mode (v_contract w) = ''write''"
      "scopes_overlap (a_claims (v_contract v)) (a_claims (v_contract w))" using both by (simp_all add: both_write_def)
    have "(k, l) \<in> (parent_rel ?P)\<^sup>+ \<or> (l, k) \<in> (parent_rel ?P)\<^sup>+"
      using pairs_check_all [OF F(5) pool_mem [OF v] pool_mem [OF w] ne']
    proof
      assume "pair_error ?P (k, v_contract v) (l, v_contract w) = None"
      from pair_error_None [OF this new wr] show ?thesis .
    next
      assume "pair_error ?P (l, v_contract w) (k, v_contract v) = None"
      from pair_error_None [OF this _ wr(2,1)] new wr(3) show ?thesis by (auto simp: scopes_overlap_sym)
    qed
    then show ?thesis unfolding parent_rel_team [OF F(1)] .
  qed
qed

lemma can_start_accept:
  assumes "validate_plan leaves raw ex md = Inr out" "\<And>k v. dict_get ex k = Some v \<Longrightarrow> can_start ex k"
    and v: "dict_get (ex @ accepted out) k = Some v"
  shows "can_start (ex @ accepted out) k"
proof (cases "dict_get (accepted out) k")
  case None
  note F = validated_facts [OF assms(1)]
  from None v get_team [OF F(1)] have "dict_get ex k = Some v" by simp
  from can_start_mono [OF assms(2) [OF this]] show ?thesis by (simp add: map_add_Some_iff)
next
  case (Some u)
  let ?P = "plan_of ex out" and ?T = "ex @ accepted out"
  note F = validated_facts [OF assms(1)]
  from F(6) obtain st where st: "visit_all (length (known_keys ?P) + 1) (pool ?P) (dict_keys (accepted out)) [] = Inr st" by blast
  have pool_eq: "pool ?P = map (\<lambda>(k, v). (k, v_contract v)) ?T"
    by (simp add: pool_def plan_of_def accepted_def)
  have "\<exists>v. dict_get ?T k = Some v \<and> v_contract v = a" if "dict_get (pool ?P) k = Some a" for k a
    using that unfolding pool_eq map_of_map by auto
  from visit_sound(2) [OF this st] have st': "(\<forall>x. dict_get st x = Some Done \<longrightarrow> can_start ?T x)
      \<and> (\<forall>k\<in>set (dict_keys (accepted out)). dict_get st k = Some Done)" by simp
  have "k \<in> set (dict_keys (accepted out))" using Some by (metis dict_get_None_iff option.distinct(1))
  with st' show ?thesis by blast
qed

lemma team_law_accept:
  assumes "validate_plan leaves raw ex md = Inr out" "team_law ex"
  shows "team_law (ex @ accepted out)"
proof -
  note F = validated_facts [OF assms(1)]
  have "wf_dict (ex @ accepted out)" using assms(2) F(1,2) by (auto simp: team_law_def)
  moreover have "distinct (map (\<lambda>(_, v). v_name v) (ex @ accepted out))"
  proof -
    have "map (\<lambda>(_, v). v_name v) (accepted out) = map v_name out" by (simp add: accepted_def)
    with assms(2) F(7,8) show ?thesis by (simp only: team_law_def map_append distinct_append) (metis Int_commute)
  qed
  moreover have "tree_law (ex @ accepted out)" "writer_law (ex @ accepted out)"
    using assms(2) tree_law_accept [OF assms(1)] writer_law_accept [OF assms(1)] by (simp_all add: team_law_def)
  moreover have "can_start (ex @ accepted out) k" if "dict_get (ex @ accepted out) k = Some v" for k v
    by (rule can_start_accept [OF assms(1) _ that]) (use assms(2) in \<open>auto simp: team_law_def\<close>)
  ultimately show ?thesis unfolding team_law_def by blast
qed

text \<open>The life of a team: plans arrive one after the other, each accepted whole or refused whole.\<close>

type_synonym plan_request = "(string \<Rightarrow> bool) \<times> agent_contract list \<times> int"

definition submit_plan :: "plan_request \<Rightarrow> team_agents \<Rightarrow> team_agents" where
  "submit_plan req T = (case req of (leaves, raw, md) \<Rightarrow>
     (case validate_plan leaves raw T md of Inl _ \<Rightarrow> T | Inr out \<Rightarrow> T @ accepted out))"

definition team_run :: "plan_request list \<Rightarrow> team_agents" where
  "team_run reqs = fold submit_plan reqs []"

interpretation team: lawful_system submit_plan "\<lambda>_ _. True" team_law
  by unfold_locales (auto simp: submit_plan_def team_law_accept split: sum.split prod.split)

lemma team_run_law: "team_law (team_run reqs)"
proof -
  have "team_law []" by (simp add: team_law_def tree_law_def writer_law_def)
  moreover have "team.lawful_run xs s" for xs s by (induction xs arbitrary: s) simp_all
  ultimately show ?thesis unfolding team_run_def by (rule team.run_good)
qed

section \<open>Every loop ends\<close>

lemma parent_of_not_loops: "parent_of P k \<noteq> Inl PlanLoops"
  by (auto simp: parent_of_def split: option.splits)

lemma contract_of_known: "contract_of P p = Some a \<Longrightarrow> p \<in> set (known_keys P)"
  by (cases "dict_get (pl_new P) p"; cases "dict_get (pl_existing P) p")
    (use dict_get_None_iff [of "pl_new P" p] dict_get_None_iff [of "pl_existing P" p]
     in \<open>auto simp: contract_of_def known_keys_def simp del: map_of_eq_None_iff\<close>)

lemma depth_of_not_loops: "depth_of P seen k \<noteq> Inl PlanLoops"
proof (induction P seen k rule: depth_of.induct)
  case (1 P seen k)
  show ?case
  proof (cases "\<exists>p pa. parent_of P k = Inr (Some (p, pa))")
    case True
    then obtain p pa where "parent_of P k = Inr (Some (p, pa))" by blast
    with 1 show ?thesis by (subst depth_of.simps) (auto simp: and_then_Inl split: option.split)
  next
    case False
    then show ?thesis using parent_of_not_loops [of P k]
      by (subst depth_of.simps) (auto split: option.split sum.split)
  qed
qed

lemma ancestors_loop_ends:
  assumes "\<And>k p. (k, p) \<in> parent_rel P \<Longrightarrow> rank p < (rank k :: nat)"
  shows "distinct out \<Longrightarrow> set out \<subseteq> set (known_keys P) \<Longrightarrow> (\<forall>q\<in>set out. rank k \<le> rank q)
    \<Longrightarrow> length (known_keys P) < f + length out \<Longrightarrow> ancestors_loop f P k out \<noteq> Inl PlanLoops"
proof (induction f arbitrary: k out)
  case 0
  have "length out = card (set out)" using 0(1) by (simp add: distinct_card)
  also have "\<dots> \<le> length (known_keys P)" using card_mono [OF _ 0(2)] card_length [of "known_keys P"] by simp
  finally show ?case using 0(4) by simp
next
  case (Suc f)
  show ?case
  proof (cases "\<exists>p pa. parent_of P k = Inr (Some (p, pa))")
    case True
    then obtain p pa where p: "parent_of P k = Inr (Some (p, pa))" by blast
    then have lt: "rank p < rank k" by (intro assms) (auto simp: parent_rel_def)
    have "p \<in> set (known_keys P)" by (rule contract_of_known [OF parent_of_contract [OF p]])
    moreover have "p \<notin> set out" using Suc.prems(3) lt by force
    ultimately have "ancestors_loop f P p (p # out) \<noteq> Inl PlanLoops"
      using Suc.prems lt by (intro Suc.IH) (auto intro: less_imp_le order_trans)
    with p show ?thesis by simp
  next
    case False
    then show ?thesis using parent_of_not_loops by (auto split: sum.splits option.splits)
  qed
qed

definition opens :: "(string, visit_mark) dict \<Rightarrow> string set" where
  "opens st = {x. dict_get st x = Some Open}"

lemma visit_ends:
  assumes "finite K" and "\<And>k a. dict_get ps k = Some a \<Longrightarrow> k \<in> K"
  shows "opens st \<subseteq> K \<Longrightarrow> card K < f + card (opens st)
      \<Longrightarrow> visit f ps k st \<noteq> Inl PlanLoops \<and> (\<forall>st'. visit f ps k st = Inr st' \<longrightarrow> opens st' = opens st)"
    and "opens st \<subseteq> K \<Longrightarrow> card K < f + card (opens st)
      \<Longrightarrow> visit_all f ps ks st \<noteq> Inl PlanLoops \<and> (\<forall>st'. visit_all f ps ks st = Inr st' \<longrightarrow> opens st' = opens st)"
  using assms
proof (induction f ps k st and f ps ks st rule: visit_visit_all.induct)
  case (1 ps k st)
  have "card (opens st) \<le> card K" by (rule card_mono) (use 1 in simp_all)
  with 1 show ?case by simp
next
  case (2 fuel ps k st)
  show ?case
  proof (cases "dict_get st k")
    case None
    show ?thesis
    proof (cases "dict_get ps k")
      case (Some a)
      let ?st = "dict_set k Open st"
      have o: "opens ?st = insert k (opens st)" "k \<notin> opens st" using None by (auto simp: opens_def)
      have fin: "finite (opens st)" using "2.prems"(1,3) finite_subset by blast
      have "k \<in> K" using "2.prems"(4) [OF Some] .
      with "2.prems"(1,2) o fin have "opens ?st \<subseteq> K" "card K < fuel + card (opens ?st)" by auto
      note ih = "2.IH" [OF None Some this "2.prems"(3,4)]
      have d: "opens (dict_set k Done st') = opens st" if "opens st' = opens ?st" for st'
        using that o by (auto simp: opens_def)
      from ih d show ?thesis using None Some by (auto simp: and_then_Inl and_then_Inr)
    qed (use None in simp)
  next
    case (Some m)
    then show ?thesis by (cases m) auto
  qed
next
  case (4 fuel ps k ks st)
  have i1: "visit fuel ps k st \<noteq> Inl PlanLoops \<and> (\<forall>st'. visit fuel ps k st = Inr st' \<longrightarrow> opens st' = opens st)"
    by (rule "4.IH"(1)) (fact "4.prems")+
  show ?case
  proof (cases "visit fuel ps k st")
    case (Inr st1)
    with i1 have "opens st1 = opens st" by blast
    with "4.IH"(2) [OF Inr] "4.prems" have "visit_all fuel ps ks st1 \<noteq> Inl PlanLoops
        \<and> (\<forall>st'. visit_all fuel ps ks st1 = Inr st' \<longrightarrow> opens st' = opens st1)" by simp
    with Inr \<open>opens st1 = opens st\<close> show ?thesis by simp
  qed (use i1 in simp)
qed auto

text \<open>The depth of an agent ranks it above its parent, as soon as all depths were computed.\<close>

definition plan_rank :: "plan \<Rightarrow> string \<Rightarrow> nat" where
  "plan_rank P k = (case depth_of P [] k of Inr d \<Rightarrow> d | Inl _ \<Rightarrow> 0)"

lemma plan_rank_parent:
  assumes law: "tree_law ex" and P: "P = \<lparr>pl_new = briefs, pl_existing = ex\<rparr>"
    and dis: "set (dict_keys briefs) \<inter> set (dict_keys ex) = {}"
    and ok: "\<And>k a. dict_get briefs k = Some a \<Longrightarrow> \<exists>d. depth_of P [] k = Inr d" and pr: "(k, p) \<in> parent_rel P"
  shows "plan_rank P p < plan_rank P k"
proof -
  from pr obtain pa where pa: "parent_of P k = Inr (Some (p, pa))" by (auto simp: parent_rel_def)
  show ?thesis
  proof (cases "dict_get briefs k")
    case (Some a)
    then have new: "dict_get (pl_new P) k = Some a" by (simp add: P)
    from ok [OF Some] obtain d where d: "depth_of P [] k = Inr d" ..
    with new pa obtain e where e: "depth_of P [k] p = Inr e" "Suc e = d"
      by (auto simp: depth_of.simps [of P "[]" k] and_then_Inr)
    have "depth_of P [] p = Inr e" by (rule depth_of_seen [OF e(1)]) simp
    with d e(2) show ?thesis by (simp add: plan_rank_def)
  next
    case None
    then obtain v where v: "dict_get ex k = Some v" "agent_parent v = p" "p \<noteq> []"
      using pa by (auto simp: P parent_of_def contract_of_def agent_parent_def split: option.splits if_splits)
    with law obtain w where w: "dict_get ex p = Some w" "v_depth v = v_depth w + 1" unfolding tree_law_def by metis
    then have "dict_get briefs p = None" using dis by (metis dict_get_None_iff disjoint_iff option.distinct(1))
    with None v w show ?thesis
      by (simp add: plan_rank_def P depth_of.simps [of _ "[]" k] depth_of.simps [of _ "[]" p])
  qed
qed

lemma pair_error_ends:
  assumes "\<And>k p. (k, p) \<in> parent_rel P \<Longrightarrow> rank p < (rank k :: nat)"
  shows "pair_error P x y \<noteq> Some PlanLoops"
proof -
  have "ancestors P k \<noteq> Inl PlanLoops" for k
    unfolding ancestors_def by (rule ancestors_loop_ends [of P rank]) (use assms in simp_all)
  then show ?thesis by (auto simp: pair_error_def split: sum.splits if_splits)
qed

lemma pairs_check_ends:
  "(\<And>x y. pair_error P x y \<noteq> Some PlanLoops) \<Longrightarrow> pairs_check P xs \<noteq> Inl PlanLoops"
  by (induction P xs rule: pairs_check.induct) (auto simp: and_then_Inl dest!: check_all_Inl)

lemma plan_checks_ends:
  assumes "tree_law ex" and P: "P = \<lparr>pl_new = briefs, pl_existing = ex\<rparr>"
    and dis: "set (dict_keys briefs) \<inter> set (dict_keys ex) = {}"
  shows "plan_checks md P \<noteq> Inl PlanLoops"
proof -
  have d: "\<exists>d. depth_of P [] k = Inr d" if "each (\<lambda>k. and_then (depth_of P [] k) (\<lambda>d. Inr (k, d))) (dict_keys briefs) = Inr depths"
    "dict_get briefs k = Some a" for depths k a
  proof -
    have "k \<in> set (dict_keys briefs)" using that(2) by (force dest: dict_get_mem)
    from each_mem [OF that(1) this] show ?thesis by (auto simp: and_then_Inr)
  qed
  have vis: "visit_all (length (known_keys P) + 1) (pool P) ks [] \<noteq> Inl PlanLoops" for ks
  proof -
    have "k \<in> set (known_keys P)" if "dict_get (pool P) k = Some a" for k a
      using dict_get_mem [OF that] by (force simp: pool_def known_keys_def)
    moreover have "card (set (known_keys P)) < length (known_keys P) + 1" using card_length [of "known_keys P"] by simp
    ultimately show ?thesis using visit_ends(2) [of "set (known_keys P)" "pool P" "[]"] by (simp add: opens_def)
  qed
  have e1: "each (\<lambda>k. and_then (depth_of P [] k) (\<lambda>d. Inr (k, d))) ks \<noteq> Inl PlanLoops" for ks
    by (auto simp: and_then_Inl depth_of_not_loops dest!: each_Inl)
  have e2: "check_all (depth_error md) ds \<noteq> Inl PlanLoops" for ds
    by (auto simp: depth_error_def split: if_splits dest!: check_all_Inl)
  have e3: "check_all (sub_claim_error P) xs \<noteq> Inl PlanLoops" for xs
    by (auto simp: sub_claim_error_def parent_of_not_loops split: sum.splits option.splits dest!: check_all_Inl)
  have e5: "check_all (unknown_dep P) xs \<noteq> Inl PlanLoops" for xs
    by (auto simp: unknown_dep_def dest!: check_all_Inl)
  have e4: "pairs_check P xs \<noteq> Inl PlanLoops"
    if "each (\<lambda>k. and_then (depth_of P [] k) (\<lambda>d. Inr (k, d))) (dict_keys briefs) = Inr depths" for depths xs
    by (rule pairs_check_ends, rule pair_error_ends, rule plan_rank_parent [OF assms d [OF that]])
  have new: "pl_new P = briefs" by (simp add: P)
  show ?thesis unfolding plan_checks_def new
    by (intro and_then_not) (rule e1 e2 e3 e5 vis | erule e4 | simp)+
qed

lemma plan_checks_names: "plan_checks md P \<noteq> Inl (NameRefused e)"
proof -
  have par: "parent_of P k \<noteq> Inl (NameRefused e)" for k by (auto simp: parent_of_def split: option.splits)
  have dep: "depth_of P seen k \<noteq> Inl (NameRefused e)" for seen k
  proof (induction P seen k rule: depth_of.induct)
    case (1 P seen k)
    have "parent_of P k \<noteq> Inl (NameRefused e)" by (auto simp: parent_of_def split: option.splits)
    with 1 show ?case
      by (subst depth_of.simps) (auto simp: and_then_Inl split: option.split sum.split)
  qed
  have anc: "ancestors_loop f P k out \<noteq> Inl (NameRefused e)" for f k out
    by (induction f P k out rule: ancestors_loop.induct)
      (auto simp: parent_of_def split: sum.splits option.splits)
  have "ancestors P k \<noteq> Inl (NameRefused e)" for k unfolding ancestors_def by (rule anc)
  then have "pair_error P x y \<noteq> Some (NameRefused e)" for x y
    by (auto simp: pair_error_def split: sum.splits if_splits)
  then have prs: "pairs_check P xs \<noteq> Inl (NameRefused e)" for xs
    by (induction xs) (auto simp: and_then_Inl dest!: check_all_Inl)
  have vis: "visit f ps k st \<noteq> Inl (NameRefused e)" "visit_all f ps ks st \<noteq> Inl (NameRefused e)" for f ps k ks st
    by (induction f ps k st and f ps ks st rule: visit_visit_all.induct)
      (auto simp: and_then_Inl split: option.split visit_mark.split)
  have e1: "each (\<lambda>k. and_then (depth_of P [] k) (\<lambda>d. Inr (k, d))) ks \<noteq> Inl (NameRefused e)" for ks
    by (auto simp: and_then_Inl dep dest!: each_Inl)
  have e2: "check_all (depth_error md) ds \<noteq> Inl (NameRefused e)" for ds
    by (auto simp: depth_error_def split: if_splits dest!: check_all_Inl)
  have e3: "check_all (sub_claim_error P) xs \<noteq> Inl (NameRefused e)" for xs
    by (auto simp: sub_claim_error_def par split: sum.splits option.splits dest!: check_all_Inl)
  have e5: "check_all (unknown_dep P) xs \<noteq> Inl (NameRefused e)" for xs
    by (auto simp: unknown_dep_def dest!: check_all_Inl)
  show ?thesis unfolding plan_checks_def
    by (intro and_then_not) (rule e1 e2 e3 e5 vis prs | simp)+
qed

lemma assign_names_ends: "assign_display_names rows taken \<noteq> Inl NameLoopBound"
proof -
  have d: "display_name t i \<noteq> Inl NameLoopBound" for t i
    by (auto simp: display_name_def validate_title_def normalize_importance_def Let_def split: sum.splits if_splits)
  have "base_names rs \<noteq> Inl NameLoopBound" for rs
    by (induction rs rule: base_names.induct) (use d in \<open>auto split: sum.splits\<close>)
  moreover have "\<exists>ns. name_loop c used (zip rows bs) = Inr ns" if "base_names rows = Inr bs" for c used bs
    by (rule name_loop_total) (use base_names_display [OF that] in blast)
  ultimately show ?thesis by (auto simp: assign_display_names_def Let_def split: sum.splits) (metis sum.distinct(1))+
qed

section \<open>Paths\<close>

lemma py_split_append_sep: "c \<notin> set w \<Longrightarrow> py_split c (w @ c # s) = w # py_split c s"
  by (induction w) auto

lemma py_split_id: "c \<notin> set w \<Longrightarrow> py_split c w = [w]"
  by (induction w) auto

lemma py_split_subset: "w \<in> set (py_split c s) \<Longrightarrow> set w \<subseteq> set s"
proof (induction s arbitrary: w)
  case (Cons x xs)
  then show ?case by (cases "py_split c xs") (fastforce split: if_splits)+
qed simp

lemma py_join_chars: "(\<And>w. w \<in> set ws \<Longrightarrow> x \<notin> set w) \<Longrightarrow> x \<notin> set sep \<Longrightarrow> x \<notin> set (py_join sep ws)"
  by (induction sep ws rule: py_join.induct) auto

lemma py_split_join_on:
  "ws \<noteq> [] \<Longrightarrow> (\<And>w. w \<in> set ws \<Longrightarrow> c \<notin> set w) \<Longrightarrow> py_split c (py_join [c] ws) = ws"
  by (induction "[c]" ws rule: py_join.induct) (simp_all add: py_split_id py_split_append_sep)

lemma claim_inside_prefix: "claim_inside c p \<longleftrightarrow> prefix (py_split (CHR ''/'') p) (py_split (CHR ''/'') c)"
  unfolding claim_inside_def Let_def by (metis append_eq_conv_conj prefix_def prefix_length_le)

lemma claim_inside_refl: "claim_inside c c"
  by (simp add: claim_inside_prefix)

lemma claim_inside_trans: "claim_inside a b \<Longrightarrow> claim_inside b c \<Longrightarrow> claim_inside a c"
  unfolding claim_inside_prefix by (rule prefix_order.trans)

lemma covers_trans: "covers a b \<Longrightarrow> covers b c \<Longrightarrow> covers a c"
  unfolding covers_def list_all_iff list_ex_iff using claim_inside_trans by blast

section \<open>What the plan law promises\<close>

definition brief :: "string \<Rightarrow> string \<Rightarrow> string list \<Rightarrow> string list \<Rightarrow> agent_contract" where
  "brief key parent claims deps = \<lparr>a_key = key, a_objective = ''x'', a_limits = demo_limits, a_title = ''Docs '' @ key @ key, a_importance = ''low'',
     a_kind = ''process'', a_mode = ''write'', a_claims = claims, a_command = [''run''], a_cwd = [], a_model = [], a_prompt = [],
     a_parent = parent, a_depends = deps, a_steps = 0\<rparr>"

definition demo_plan :: "plan_request list" where
  "demo_plan = [(\<lambda>_. False, [brief ''a'' [] [''p''] [], brief ''b'' ''a'' [''p/x''] []], 2)]"

definition agent_view :: "validated_agent \<Rightarrow> nat \<times> string \<times> string \<times> string list" where
  "agent_view v = (v_depth v, agent_parent v, a_mode (v_contract v), a_claims (v_contract v))"

lemma demo_view:
  "map (\<lambda>(k, v). (k, agent_view v)) (team_run demo_plan)
     = [(''a'', 1, [], ''write'', [''p'']), (''b'', 2, ''a'', ''write'', [''p/x''])]"
  by code_simp

lemma demo_get: "map_option agent_view (dict_get (team_run demo_plan) k)
    = dict_get [(''a'', 1, [], ''write'', [''p'']), (''b'', 2, ''a'', ''write'', [''p/x''])] k"
  unfolding demo_view [symmetric] by (simp add: map_of_map)

lemma demo_team:
  "dict_get (team_run demo_plan) ''a'' \<noteq> None \<and> dict_get (team_run demo_plan) ''b'' \<noteq> None
   \<and> map_option v_depth (dict_get (team_run demo_plan) ''b'') = Some 2
   \<and> map_option agent_parent (dict_get (team_run demo_plan) ''b'') = Some ''a''
   \<and> both_write (the (dict_get (team_run demo_plan) ''a'')) (the (dict_get (team_run demo_plan) ''b''))"
proof -
  have "scopes_overlap [''p''] [''p/x'']" by code_simp
  with demo_get [of "''a''"] demo_get [of "''b''"] show ?thesis by (auto simp: agent_view_def both_write_def)
qed

text \<open>C30. One writer per file: in a team built by any sequence of submitted plans, two different agents
  that may both write overlapping paths are always ancestor and descendant.\<close>

theorem one_writer_per_file:
  assumes "dict_get (team_run reqs) k = Some v" "dict_get (team_run reqs) l = Some w" "k \<noteq> l" "both_write v w"
  shows "(k, l) \<in> (team_parent (team_run reqs))\<^sup>+ \<or> (l, k) \<in> (team_parent (team_run reqs))\<^sup>+"
  using team_run_law [of reqs] assms unfolding team_law_def writer_law_def by blast

theorem one_writer_per_file_witness:
  "(''a'', ''b'') \<in> (team_parent (team_run demo_plan))\<^sup>+ \<or> (''b'', ''a'') \<in> (team_parent (team_run demo_plan))\<^sup>+"
proof -
  obtain v w where v: "dict_get (team_run demo_plan) ''a'' = Some v" and w: "dict_get (team_run demo_plan) ''b'' = Some w"
    using demo_team by auto
  with demo_team have "both_write v w" by simp
  from one_writer_per_file [OF v w _ this] show ?thesis by simp
qed

text \<open>A sub-agent stays inside its parents: every path an agent claims lies inside a claim of each of its
  ancestors.\<close>

theorem claims_inside_ancestors:
  assumes "(k, q) \<in> (team_parent (team_run reqs))\<^sup>+"
    and "dict_get (team_run reqs) k = Some v" "dict_get (team_run reqs) q = Some w"
  shows "covers (a_claims (v_contract w)) (a_claims (v_contract v))"
  using assms
proof (induction arbitrary: v rule: converse_trancl_induct)
  case (base k)
  then show ?case using team_run_law [of reqs] unfolding team_law_def tree_law_def team_parent_def by fastforce
next
  case (step k m)
  then obtain u where u: "dict_get (team_run reqs) m = Some u" "covers (a_claims (v_contract u)) (a_claims (v_contract v))"
    using team_run_law [of reqs] unfolding team_law_def tree_law_def team_parent_def by fastforce
  from covers_trans [OF step.IH [OF u(1) step.prems(2)] u(2)] show ?case .
qed

theorem claims_inside_ancestors_witness:
  "\<exists>v w. dict_get (team_run demo_plan) ''b'' = Some v \<and> dict_get (team_run demo_plan) ''a'' = Some w
     \<and> covers (a_claims (v_contract w)) (a_claims (v_contract v))"
proof -
  obtain v w where v: "dict_get (team_run demo_plan) ''b'' = Some v" and w: "dict_get (team_run demo_plan) ''a'' = Some w"
    using demo_team by auto
  with demo_team have "(''b'', ''a'') \<in> team_parent (team_run demo_plan)" by (auto simp: team_parent_def)
  from claims_inside_ancestors [OF r_into_trancl [OF this] v w] v w show ?thesis by blast
qed

text \<open>Starts are bounded: an agent's depth is one more than the number of its ancestors, and never more
  than the hard ceiling of three.\<close>

theorem depth_counts_ancestors:
  assumes "dict_get (team_run reqs) k = Some v"
  shows "v_depth v \<le> 3 \<and> v_depth v = card {q. (k, q) \<in> (team_parent (team_run reqs))\<^sup>+} + 1"
proof -
  let ?R = "team_parent (team_run reqs)"
  have law: "tree_law (team_run reqs)" using team_run_law [of reqs] by (simp add: team_law_def)
  have "finite {q. (k, q) \<in> ?R\<^sup>+} \<and> v_depth v = card {q. (k, q) \<in> ?R\<^sup>+} + 1 \<and> (\<forall>q w. (k, q) \<in> ?R\<^sup>+ \<longrightarrow>
      dict_get (team_run reqs) q = Some w \<longrightarrow> v_depth w < v_depth v)"
    using assms
  proof (induction "v_depth v" arbitrary: k v rule: less_induct)
    case less
    show ?case
    proof (cases "agent_parent v = []")
      case True
      with less.prems have "\<not> (k, q) \<in> ?R\<^sup>+" for q by (auto simp: team_parent_def dest!: tranclD)
      moreover have "v_depth v = 1" using law less.prems True unfolding tree_law_def by metis
      ultimately show ?thesis by simp
    next
      case False
      then obtain w where w: "dict_get (team_run reqs) (agent_parent v) = Some w" "v_depth v = v_depth w + 1"
        using law less.prems unfolding tree_law_def by metis
      let ?p = "agent_parent v"
      have "(k, x) \<in> ?R \<longleftrightarrow> x = ?p" for x using less.prems False w(1) by (auto simp: team_parent_def)
      then have step: "(k, q) \<in> ?R\<^sup>+ \<longleftrightarrow> q = ?p \<or> (?p, q) \<in> ?R\<^sup>+" for q
        by (metis converse_tranclE r_into_trancl' trancl_into_trancl2)
      have ih: "finite {q. (?p, q) \<in> ?R\<^sup>+}" "v_depth w = card {q. (?p, q) \<in> ?R\<^sup>+} + 1"
        "\<And>q u. (?p, q) \<in> ?R\<^sup>+ \<Longrightarrow> dict_get (team_run reqs) q = Some u \<Longrightarrow> v_depth u < v_depth w"
        using less.hyps [OF _ w(1)] w(2) by auto
      have "(?p, ?p) \<notin> ?R\<^sup>+" using ih(3) [OF _ w(1)] by blast
      moreover have "{q. (k, q) \<in> ?R\<^sup>+} = insert ?p {q. (?p, q) \<in> ?R\<^sup>+}" using step by auto
      ultimately show ?thesis using ih(1,2) w step ih(3) by (auto simp: less_Suc_eq)
    qed
  qed
  moreover have "v_depth v \<le> 3" using law assms unfolding tree_law_def by blast
  ultimately show ?thesis by blast
qed

theorem depth_counts_ancestors_witness:
  "\<exists>v. dict_get (team_run demo_plan) ''b'' = Some v \<and> v_depth v = 2
     \<and> card {q. (''b'', q) \<in> (team_parent (team_run demo_plan))\<^sup>+} = 1"
proof -
  obtain v where v: "dict_get (team_run demo_plan) ''b'' = Some v" "v_depth v = 2" using demo_team by auto
  with depth_counts_ancestors [OF v(1)] show ?thesis by auto
qed

text \<open>What an agent waits for, within the team.\<close>

definition waits_for :: "team_agents \<Rightarrow> (string \<times> string) set" where
  "waits_for T = {(k, d). \<exists>v. dict_get T k = Some v \<and> d \<in> set (a_depends (v_contract v))}"

text \<open>Every agent can start: nobody in the team waits, directly or not, for itself or for an agent that
  is not in the team.\<close>

theorem everyone_can_start:
  assumes "dict_get (team_run reqs) k = Some v"
  shows "(k, k) \<notin> (waits_for (team_run reqs))\<^sup>+ \<and> (\<forall>d. (k, d) \<in> (waits_for (team_run reqs))\<^sup>+ \<longrightarrow> dict_get (team_run reqs) d \<noteq> None)"
proof -
  let ?W = "waits_for (team_run reqs)"
  have "can_start (team_run reqs) k" using team_run_law [of reqs] assms unfolding team_law_def by blast
  then show ?thesis
  proof (induction rule: can_start.induct)
    case (start k v)
    have W: "(k, d) \<in> ?W \<longleftrightarrow> d \<in> set (a_depends (v_contract v))" for d using start(1) by (simp add: waits_for_def)
    have step: "\<exists>e \<in> set (a_depends (v_contract v)). e = d \<or> (e, d) \<in> ?W\<^sup>+" if "(k, d) \<in> ?W\<^sup>+" for d
      using that by (rule converse_tranclE) (use W in auto)
    have "(k, k) \<notin> ?W\<^sup>+"
    proof
      assume c: "(k, k) \<in> ?W\<^sup>+"
      from step [OF c] obtain e where e: "e \<in> set (a_depends (v_contract v))" "e = k \<or> (e, k) \<in> ?W\<^sup>+" by blast
      then have "(e, k) \<in> ?W\<^sup>+" "(k, e) \<in> ?W\<^sup>+" using c W by auto
      then have "(e, e) \<in> ?W\<^sup>+" by (rule trancl_trans)
      with start(3) [OF e(1)] show False by blast
    qed
    moreover have "dict_get (team_run reqs) d \<noteq> None" if d: "(k, d) \<in> ?W\<^sup>+" for d
    proof -
      from step [OF d] obtain e where e: "e \<in> set (a_depends (v_contract v))" "e = d \<or> (e, d) \<in> ?W\<^sup>+" by blast
      have "dict_get (team_run reqs) e \<noteq> None" using start(2) [OF e(1)] by (auto elim: can_startE)
      with e(2) start(3) [OF e(1)] show ?thesis by blast
    qed
    ultimately show ?case by blast
  qed
qed

theorem everyone_can_start_witness:
  "(''b'', ''b'') \<notin> (waits_for (team_run demo_plan))\<^sup>+"
proof -
  obtain v where v: "dict_get (team_run demo_plan) ''b'' = Some v" using demo_team by auto
  from everyone_can_start [OF this] show ?thesis by blast
qed

text \<open>C35. Validation always ends: for a team built by plans, no loop over parents, dependencies or display
  names runs past its bound, whatever the next plan is.\<close>

theorem plan_validation_ends:
  "validate_plan leaves raw (team_run reqs) md \<notin> {Inl PlanLoops, Inl (NameRefused NameLoopBound)}"
proof -
  let ?T = "team_run reqs"
  have law: "tree_law ?T" using team_run_law [of reqs] by (simp add: team_law_def)
  have b: "collect_briefs ?T d raw \<noteq> Inl e" if "e \<in> {PlanLoops, NameRefused NameLoopBound}" for d e
    using that by (induction "?T" d raw rule: collect_briefs.induct) (auto simp: brief_error_def split: option.splits if_splits)
  have nc: "normalize_claim c \<noteq> Inl e" if "e \<in> {PlanLoops, NameRefused NameLoopBound}" for c e
    using that by (auto simp: normalize_claim_def Let_def)
  have vt: "name_result (validate_title t) \<noteq> Inl e" and ni: "name_result (normalize_importance i) \<noteq> Inl e"
    if "e \<in> {PlanLoops, NameRefused NameLoopBound}" for t i e
    using that by (auto simp: name_result_def validate_title_def normalize_importance_def Let_def)
  have cl: "check_all (claim_or_error leaves) cs \<noteq> Inl e" and en: "each normalize_claim cs \<noteq> Inl e"
    if "e \<in> {PlanLoops, NameRefused NameLoopBound}" for cs e
    using that nc [OF that] by (auto simp: claim_or_error_def split: if_splits dest!: check_all_Inl each_Inl)
  have nb: "normalize_brief leaves a \<noteq> Inl e" if "e \<in> {PlanLoops, NameRefused NameLoopBound}" for a e
    unfolding normalize_brief_def Let_def
    by (intro and_then_not if_not) (rule vt [OF that] ni [OF that] cl [OF that] en [OF that] nc [OF that] | simp)+
  have ri: "name_result (raise_importance i n) \<noteq> Inl e" if "e \<in> {PlanLoops, NameRefused NameLoopBound}" for i n e
    using that by (auto simp: name_result_def raise_importance_def importance_rank_def normalize_importance_def Let_def)
  have nr: "name_row_of P ka \<noteq> Inl e" if "e \<in> {PlanLoops, NameRefused NameLoopBound}" for P ka e
    unfolding name_row_of_def by (intro and_then_not) (rule ri [OF that] | simp)+
  have pc: "plan_checks n \<lparr>pl_new = briefs, pl_existing = ?T\<rparr> \<noteq> Inl e"
    if "e \<in> {PlanLoops, NameRefused NameLoopBound}" "collect_briefs ?T [] raw = Inr by_key"
      "each (\<lambda>(k, a). and_then (normalize_brief leaves a) (\<lambda>b. Inr (k, b))) by_key = Inr briefs" for n briefs by_key e
  proof -
    have k: "keyed by_key \<and> set (dict_keys by_key) \<inter> set (dict_keys ?T) = {}"
      by (rule collect_briefs_keyed [OF that(2)]) (simp_all add: keyed_def)
    with normalized_keyed [OF that(3)] have "set (dict_keys briefs) \<inter> set (dict_keys ?T) = {}" by auto
    from plan_checks_ends [OF law refl this] plan_checks_names that(1) show ?thesis by blast
  qed
  have nm: "name_result (assign_display_names rows taken) \<noteq> Inl e" if "e \<in> {PlanLoops, NameRefused NameLoopBound}" for rows taken e
    using that assign_names_ends [of rows taken] by (auto simp: name_result_def split: sum.splits)
  have "validate_plan leaves raw ?T md \<noteq> Inl e" if "e \<in> {PlanLoops, NameRefused NameLoopBound}" for e
  proof -
    have eb: "each (\<lambda>(k, a). and_then (normalize_brief leaves a) (\<lambda>b. Inr (k, b))) d \<noteq> Inl e" for d
      using nb [OF that] by (auto simp: and_then_Inl dest!: each_Inl)
    have er: "each (name_row_of P) d \<noteq> Inl e" for P d using nr [OF that] by (auto dest!: each_Inl)
    have "EmptyPlan \<noteq> e" "BadMaxDepth \<noteq> e" using that by auto
    then show ?thesis unfolding validate_plan_def Let_def
      by (intro if_not and_then_not) (rule eb er b [OF that] nm [OF that] | erule (1) pc [OF that] | simp)+
  qed
  then show ?thesis by auto
qed

text \<open>An accepted claim stays in the workspace: it is a relative path of at least one component, none of
  them empty, a dot or a double dot, and it holds no backslash.\<close>

theorem normalized_claim_safe:
  assumes "normalize_claim c = Inr n"
  shows "py_split (CHR ''/'') n \<noteq> [[]] \<and> (\<forall>p \<in> set (py_split (CHR ''/'') n). p \<notin> {[], ''.'', ''..''}) \<and> CHR 0x5C \<notin> set n"
proof -
  let ?clean = "map (\<lambda>c. if c = CHR 0x5C then CHR ''/'' else c) (py_strip c)"
  let ?parts = "filter (\<lambda>p. p \<noteq> [] \<and> p \<noteq> ''.'') (py_split (CHR ''/'') ?clean)"
  have n: "n = py_join ''/'' ?parts" "?parts \<noteq> []" "\<not> list_ex (\<lambda>p. p = ''..'') ?parts"
    using assms by (auto simp: normalize_claim_def Let_def split: if_splits)
  have "CHR ''/'' \<notin> set w" if "w \<in> set ?parts" for w using that py_split_no_sep by auto
  then have s: "py_split (CHR ''/'') n = ?parts" unfolding n(1) by (rule py_split_join_on [OF n(2)])
  have sub: "set (py_join [d] (py_split d t)) = set t" for d t by simp
  have "CHR 0x5C \<notin> set w" if "w \<in> set (py_split (CHR ''/'') ?clean)" for w
  proof -
    have "set w \<subseteq> set ?clean" using that by (rule py_split_subset)
    moreover have "CHR 0x5C \<notin> set ?clean" by (auto split: if_splits)
    ultimately show ?thesis by blast
  qed
  then have "CHR 0x5C \<notin> set n" unfolding n(1) by (intro py_join_chars) auto
  moreover have "\<forall>p \<in> set ?parts. p \<notin> {[], ''.'', ''..''}" using n(3) by (auto simp: list_ex_iff)
  moreover have "?parts \<noteq> [[]]" by (auto simp: filter_eq_Cons_iff)
  ultimately show ?thesis unfolding s by blast
qed

theorem normalized_claim_safe_witness:
  "normalize_claim ''./api//x/'' = Inr ''api/x'' \<and> CHR 0x5C \<notin> set ''api/x'' \<and> normalize_claim ''a/../b'' = Inl (ClaimEscapes ''a/../b'')"
proof -
  have "normalize_claim ''./api//x/'' = Inr ''api/x''" "normalize_claim ''a/../b'' = Inl (ClaimEscapes ''a/../b'')" by code_simp+
  with normalized_claim_safe [OF this(1)] show ?thesis by blast
qed

end
