(* ===== verification/Wallet_Limits.thy ===== *)
theory Wallet_Limits
  imports Vool_Prelude
begin

text \<open>
  The spend ceilings of a wallet, from \<open>src/core/wallet/limits.py\<close>: caps per wallet and asset, the ledger of
  holds (reserved, settled, released), the panic freeze, and the reservation that checks every ceiling before
  it holds an amount. The tables are dictionaries; an operation that raises inside its transaction leaves the
  tables as they were. The chain registry (\<open>src/core/wallet/chains.py\<close>) and the operator's declared conversion
  factors are parameters. A stored amount is an integer, a time or a factor a rational.
\<close>

section \<open>Tables\<close>

datatype hold_state = Reserved | Settled | Released

record hold =
  hold_wallet :: string
  hold_asset :: string
  hold_amount :: int
  hold_fee :: int
  hold_dest :: string
  hold_at :: time
  hold_status :: hold_state
  hold_chain :: string
  hold_settled_at :: time

record spend_limits =
  per_tx_minor :: int
  daily_minor :: int
  per_destination_daily_minor :: int

record wallet_db =
  ledger :: "(string, hold) dict"
  limits_table :: "(string \<times> string, spend_limits) dict"
  spend_frozen :: bool
  freeze_epoch :: int

record chain_rules =
  canonical_name :: "string \<Rightarrow> string"
  registered_token :: "string \<Rightarrow> string \<Rightarrow> bool"
  native_coin :: "string \<Rightarrow> string"

record spend_env =
  global_daily :: int
  conversions :: "(string, rat) dict"

datatype limit_kind = LimitFrozen | PerTransaction | PerDestinationDaily | Daily | GlobalUncomparable | GlobalDaily

datatype limit_verdict = Within | AlreadyHeld | Refused limit_kind

datatype hold_error = HoldConflict | LimitRefused limit_kind

definition day_seconds :: rat where "day_seconds = 86400"

definition default_limits :: "(string, spend_limits) dict" where
  "default_limits = (let mk = (\<lambda>t d e. \<lparr>per_tx_minor = t, daily_minor = d, per_destination_daily_minor = e\<rparr>) in
     [(''SOL'', mk 100000000 500000000 250000000),
      (''USDC'', mk 10000000 50000000 25000000),
      (''USDT'', mk 10000000 50000000 25000000),
      (''ETH'', mk 10000000000000000 50000000000000000 25000000000000000),
      (''BNB'', mk 20000000000000000 100000000000000000 50000000000000000)])"

definition fallback_limits :: spend_limits where
  "fallback_limits = \<lparr>per_tx_minor = 1000000, daily_minor = 5000000, per_destination_daily_minor = 2500000\<rparr>"

section \<open>Caps\<close>

definition loosens :: "spend_limits \<Rightarrow> spend_limits \<Rightarrow> bool" where
  "loosens current wanted \<longleftrightarrow> per_tx_minor wanted > per_tx_minor current \<or> daily_minor wanted > daily_minor current
     \<or> per_destination_daily_minor wanted > per_destination_daily_minor current"

definition load_limits :: "wallet_db \<Rightarrow> string \<Rightarrow> string \<Rightarrow> spend_limits" where
  "load_limits db wallet asset =
     (case dict_get (limits_table db) (wallet, py_upper asset) of
        Some l \<Rightarrow> l
      | None \<Rightarrow> (case dict_get default_limits (py_upper asset) of Some l \<Rightarrow> l | None \<Rightarrow> fallback_limits))"

definition set_limits :: "string \<Rightarrow> string \<Rightarrow> spend_limits \<Rightarrow> wallet_db \<Rightarrow> wallet_db" where
  "set_limits wallet asset l db = db\<lparr>limits_table := dict_set (wallet, py_upper asset) l (limits_table db)\<rparr>"

definition set_limits_unless_raised :: "string \<Rightarrow> string \<Rightarrow> spend_limits \<Rightarrow> bool \<Rightarrow> wallet_db \<Rightarrow> wallet_db \<times> spend_limits option" where
  "set_limits_unless_raised wallet asset wanted proven db =
     (if \<not> proven \<and> loosens (load_limits db wallet asset) wanted then (db, None)
      else (set_limits wallet asset wanted db, Some wanted))"

text \<open>The freeze; a change bumps the epoch that signed transfers compare.\<close>

definition set_frozen :: "bool \<Rightarrow> wallet_db \<Rightarrow> wallet_db \<times> bool" where
  "set_frozen frozen db =
     (let before = spend_frozen db in
      (db\<lparr>spend_frozen := frozen, freeze_epoch := (if before \<noteq> frozen then freeze_epoch db + 1 else freeze_epoch db)\<rparr>, before))"

section \<open>What counts against a window\<close>

definition is_held :: "hold \<Rightarrow> bool" where
  "is_held h \<longleftrightarrow> hold_status h = Reserved \<or> hold_status h = Settled"

definition counts :: "string \<Rightarrow> string \<Rightarrow> time \<Rightarrow> string option \<Rightarrow> string option \<Rightarrow> hold \<Rightarrow> bool" where
  "counts wallet asset since destination chain h \<longleftrightarrow> hold_wallet h = wallet \<and> hold_asset h = py_upper asset \<and> since \<le> hold_at h \<and> is_held h
     \<and> (case chain of None \<Rightarrow> True | Some c \<Rightarrow> hold_chain h = c)
     \<and> (case destination of None \<Rightarrow> True | Some d \<Rightarrow> hold_dest h = d)"

definition held_within :: "wallet_db \<Rightarrow> string \<Rightarrow> string \<Rightarrow> time \<Rightarrow> string option \<Rightarrow> string option \<Rightarrow> int" where
  "held_within db wallet asset since destination chain =
     dict_sum (\<lambda>h. if counts wallet asset since destination chain h then hold_amount h + hold_fee h else 0) (ledger db)"

text \<open>Python's \<open>round\<close>: to the nearest integer, ties to the even one.\<close>

definition py_round :: "rat \<Rightarrow> int" where
  "py_round q = (let f = floor q; r = q - of_int f in
     if r < 1 / 2 then f else if r > 1 / 2 then f + 1 else if even f then f else f + 1)"

fun global_sum :: "(string, rat) dict \<Rightarrow> hold list \<Rightarrow> int option" where
  "global_sum factors [] = Some 0"
| "global_sum factors (h # hs) =
     (case dict_get factors (py_upper (hold_asset h)) of None \<Rightarrow> None
      | Some f \<Rightarrow> map_option (\<lambda>t. py_round (of_int (hold_amount h + hold_fee h) * f) + t) (global_sum factors hs))"

definition global_held :: "wallet_db \<Rightarrow> string \<Rightarrow> time \<Rightarrow> (string, rat) dict \<Rightarrow> int option" where
  "global_held db wallet since factors =
     global_sum factors (filter (\<lambda>h. hold_wallet h = wallet \<and> since \<le> hold_at h \<and> is_held h) (map snd (ledger db)))"

section \<open>The verdict\<close>

definition chain_filter :: "string \<Rightarrow> string option" where
  "chain_filter chain = (if chain = [] then None else Some chain)"

definition verdict :: "spend_env \<Rightarrow> wallet_db \<Rightarrow> string \<Rightarrow> string \<Rightarrow> int \<Rightarrow> string \<Rightarrow> time \<Rightarrow> int \<Rightarrow> string \<Rightarrow> limit_verdict" where
  "verdict env db wallet asset amount destination moment fee chain =
     (if spend_frozen db then Refused LimitFrozen
      else let l = load_limits db wallet asset; total = amount + max 0 fee; since = moment - day_seconds; c = chain_filter chain in
      if total > per_tx_minor l then Refused PerTransaction
      else if held_within db wallet asset since (Some destination) c + total > per_destination_daily_minor l then Refused PerDestinationDaily
      else if held_within db wallet asset since None c + total > daily_minor l then Refused Daily
      else if global_daily env > 0 then
        (case (global_held db wallet since (conversions env), dict_get (conversions env) (py_upper asset)) of
           (Some held, Some f) \<Rightarrow> if held + py_round (of_int total * f) > global_daily env then Refused GlobalDaily else Within
         | _ \<Rightarrow> Refused GlobalUncomparable)
      else Within)"

definition token_transfer :: "chain_rules \<Rightarrow> string \<Rightarrow> string \<Rightarrow> bool" where
  "token_transfer R chain asset \<longleftrightarrow> chain \<noteq> [] \<and> registered_token R chain asset"

definition native_symbol :: "chain_rules \<Rightarrow> string \<Rightarrow> string" where
  "native_symbol R chain = py_upper (native_coin R chain)"

definition check_limits :: "chain_rules \<Rightarrow> spend_env \<Rightarrow> wallet_db \<Rightarrow> string \<Rightarrow> string \<Rightarrow> int \<Rightarrow> string \<Rightarrow> time \<Rightarrow> int \<Rightarrow> string \<Rightarrow> limit_verdict" where
  "check_limits R env db wallet asset amount destination moment fee chain =
     (let c = canonical_name R chain in
      if fee \<noteq> 0 \<and> token_transfer R c asset then
        (case verdict env db wallet (py_upper asset) amount destination moment 0 c of
           Within \<Rightarrow> verdict env db wallet (native_symbol R c) 0 destination moment fee c
         | v \<Rightarrow> v)
      else verdict env db wallet (py_upper asset) amount destination moment fee c)"

section \<open>Reserving\<close>

definition fee_hold_id :: "string \<Rightarrow> string" where
  "fee_hold_id pid = pid @ '':fee''"

definition has_hold :: "wallet_db \<Rightarrow> string \<Rightarrow> bool" where
  "has_hold db hid \<longleftrightarrow> dict_get (ledger db) hid \<noteq> None"

text \<open>The update of an existing row keeps its wallet, asset and destination, as the SQL does.\<close>

definition put_hold :: "string \<Rightarrow> string \<Rightarrow> string \<Rightarrow> int \<Rightarrow> int \<Rightarrow> string \<Rightarrow> time \<Rightarrow> string \<Rightarrow> wallet_db \<Rightarrow> wallet_db" where
  "put_hold hid wallet asset amount fee destination now chain db =
     (let row = (case dict_get (ledger db) hid of
          Some h \<Rightarrow> h\<lparr>hold_status := Reserved, hold_at := now, hold_amount := amount, hold_fee := fee, hold_chain := chain\<rparr>
        | None \<Rightarrow> \<lparr>hold_wallet = wallet, hold_asset = asset, hold_amount = amount, hold_fee = fee, hold_dest = destination,
                   hold_at = now, hold_status = Reserved, hold_chain = chain, hold_settled_at = 0\<rparr>)
      in db\<lparr>ledger := dict_set hid row (ledger db)\<rparr>)"

definition held_row :: "wallet_db \<Rightarrow> string \<Rightarrow> bool" where
  "held_row db hid \<longleftrightarrow> (case dict_get (ledger db) hid of None \<Rightarrow> False | Some h \<Rightarrow> is_held h)"

definition reserve :: "chain_rules \<Rightarrow> spend_env \<Rightarrow> string \<Rightarrow> string \<Rightarrow> int \<Rightarrow> string \<Rightarrow> string \<Rightarrow> time \<Rightarrow> int \<Rightarrow> string
    \<Rightarrow> wallet_db \<Rightarrow> wallet_db \<times> (hold_error + unit)" where
  "reserve R env wallet asset amount destination pid now fee_minor chain_name db =
     (let fee = max 0 fee_minor; chain = canonical_name R chain_name; split = token_transfer R chain asset in
      if held_row db pid \<or> (split \<and> held_row db (fee_hold_id pid)) then (db, Inl HoldConflict)
      else case verdict env db wallet (py_upper asset) amount destination now (if split then 0 else fee) chain of
        Refused k \<Rightarrow> (db, Inl (LimitRefused k))
      | _ \<Rightarrow>
          if split then
            (let native = native_symbol R chain in
             case verdict env db wallet native 0 destination now fee chain of
               Refused k \<Rightarrow> (db, Inl (LimitRefused k))
             | _ \<Rightarrow> (put_hold (fee_hold_id pid) wallet native 0 fee destination now chain
                        (put_hold pid wallet (py_upper asset) amount 0 destination now chain db), Inr ()))
          else (put_hold pid wallet (py_upper asset) amount fee destination now chain db, Inr ()))"

definition reserve_spend :: "chain_rules \<Rightarrow> spend_env \<Rightarrow> string \<Rightarrow> string \<Rightarrow> int \<Rightarrow> string \<Rightarrow> string \<Rightarrow> time \<Rightarrow> int \<Rightarrow> string
    \<Rightarrow> wallet_db \<Rightarrow> wallet_db \<times> limit_verdict" where
  "reserve_spend R env wallet asset amount destination pid now fee chain db =
     (case reserve R env wallet asset amount destination pid now fee chain db of
        (db', Inr _) \<Rightarrow> (db', Within)
      | (db', Inl HoldConflict) \<Rightarrow> (db', AlreadyHeld)
      | (db', Inl (LimitRefused k)) \<Rightarrow> (db', Refused k))"

section \<open>Settling, releasing, correcting\<close>

definition charge :: "int option \<Rightarrow> hold \<Rightarrow> int" where
  "charge charged h = (case charged of None \<Rightarrow> hold_fee h | Some n \<Rightarrow> max 0 n)"

definition set_row :: "string \<Rightarrow> hold \<Rightarrow> wallet_db \<Rightarrow> wallet_db" where
  "set_row hid h db = db\<lparr>ledger := dict_set hid h (ledger db)\<rparr>"

definition row_in :: "wallet_db \<Rightarrow> string \<Rightarrow> hold_state \<Rightarrow> hold option" where
  "row_in db hid s = (case dict_get (ledger db) hid of None \<Rightarrow> None | Some h \<Rightarrow> if hold_status h = s then Some h else None)"

text \<open>\<open>_settle\<close>: the principal row, then the fee companion of a token transfer.\<close>

definition settle :: "string \<Rightarrow> int option \<Rightarrow> bool \<Rightarrow> time \<Rightarrow> wallet_db \<Rightarrow> wallet_db \<times> (hold_error + unit)" where
  "settle pid charged amount_moved now db =
     (let fee_row = has_hold db (fee_hold_id pid) in
      case row_in db pid Reserved of
        None \<Rightarrow> (db, Inl HoldConflict)
      | Some h \<Rightarrow>
         (let db1 = set_row pid (h\<lparr>hold_status := Settled, hold_amount := (if amount_moved then hold_amount h else 0),
                        hold_fee := charge (if fee_row then None else charged) h, hold_settled_at := now\<rparr>) db in
          if fee_row then
            (case row_in db1 (fee_hold_id pid) Reserved of
               None \<Rightarrow> (db, Inl HoldConflict)
             | Some f \<Rightarrow> (set_row (fee_hold_id pid) (f\<lparr>hold_status := Settled, hold_fee := charge charged f, hold_settled_at := now\<rparr>) db1, Inr ()))
          else (db1, Inr ())))"

definition release_row :: "string \<Rightarrow> wallet_db \<Rightarrow> wallet_db" where
  "release_row hid db = (case row_in db hid Reserved of None \<Rightarrow> db | Some h \<Rightarrow> set_row hid (h\<lparr>hold_status := Released\<rparr>) db)"

definition release :: "string \<Rightarrow> wallet_db \<Rightarrow> wallet_db \<times> (hold_error + unit)" where
  "release pid db =
     (case row_in db pid Reserved of None \<Rightarrow> (db, Inl HoldConflict)
      | Some _ \<Rightarrow> (release_row (fee_hold_id pid) (release_row pid db), Inr ()))"

definition resettle :: "string \<Rightarrow> int option \<Rightarrow> bool \<Rightarrow> wallet_db \<Rightarrow> wallet_db \<times> (hold_error + unit)" where
  "resettle pid charged amount_moved db =
     (let fee_row = has_hold db (fee_hold_id pid) in
      case row_in db pid Settled of
        None \<Rightarrow> (db, Inl HoldConflict)
      | Some h \<Rightarrow>
         (let db1 = set_row pid (h\<lparr>hold_amount := (if amount_moved then hold_amount h else 0),
                        hold_fee := charge (if fee_row then None else charged) h\<rparr>) db in
          (case (fee_row, row_in db1 (fee_hold_id pid) Settled) of
             (True, Some f) \<Rightarrow> (set_row (fee_hold_id pid) (f\<lparr>hold_fee := charge charged f\<rparr>) db1, Inr ())
           | _ \<Rightarrow> (db1, Inr ()))))"

definition settle_row :: "time \<Rightarrow> string \<Rightarrow> wallet_db \<Rightarrow> wallet_db" where
  "settle_row moment hid db = (case row_in db hid Reserved of None \<Rightarrow> db
     | Some h \<Rightarrow> set_row hid (h\<lparr>hold_status := Settled, hold_at := moment, hold_settled_at := moment\<rparr>) db)"

definition settle_spend :: "string \<Rightarrow> time \<Rightarrow> wallet_db \<Rightarrow> wallet_db" where
  "settle_spend pid moment db = settle_row moment (fee_hold_id pid) (settle_row moment pid db)"

definition settle_failed_on_chain :: "string \<Rightarrow> int option \<Rightarrow> time \<Rightarrow> wallet_db \<Rightarrow> wallet_db" where
  "settle_failed_on_chain pid charged now db = fst (settle pid charged False now db)"

definition settle_landed_on_chain :: "string \<Rightarrow> int option \<Rightarrow> time \<Rightarrow> wallet_db \<Rightarrow> wallet_db" where
  "settle_landed_on_chain pid charged now db = fst (settle pid charged True now db)"

definition release_spend :: "string \<Rightarrow> wallet_db \<Rightarrow> wallet_db" where
  "release_spend pid db = fst (release pid db)"

definition reservation_state :: "string \<Rightarrow> wallet_db \<Rightarrow> hold_state option" where
  "reservation_state pid db = map_option hold_status (dict_get (ledger db) pid)"

definition spent_today :: "wallet_db \<Rightarrow> string \<Rightarrow> string \<Rightarrow> time \<Rightarrow> string \<Rightarrow> int" where
  "spent_today db wallet asset now chain =
     dict_sum (\<lambda>h. if counts wallet asset (now - day_seconds) None (chain_filter chain) h \<and> hold_status h = Settled
                   then hold_amount h + hold_fee h else 0) (ledger db)"

text \<open>\<open>record_spend\<close>: a row is inserted settled, or an existing reserved one settles.\<close>

definition record_spend :: "string \<Rightarrow> string \<Rightarrow> int \<Rightarrow> string \<Rightarrow> string \<Rightarrow> time \<Rightarrow> int \<Rightarrow> string \<Rightarrow> wallet_db \<Rightarrow> wallet_db" where
  "record_spend wallet asset amount destination pid moment fee chain db =
     (case dict_get (ledger db) pid of
        None \<Rightarrow> set_row pid \<lparr>hold_wallet = wallet, hold_asset = py_upper asset, hold_amount = amount, hold_fee = max 0 fee,
                  hold_dest = destination, hold_at = moment, hold_status = Settled, hold_chain = chain, hold_settled_at = 0\<rparr> db
      | Some h \<Rightarrow> if hold_status h = Reserved then set_row pid (h\<lparr>hold_status := Settled\<rparr>) db else db)"

text \<open>Every operation that changes the tables.\<close>

datatype spend_op =
    SetLimits string string spend_limits bool
  | Freeze bool
  | Reserve string string int string string time int string
  | SettleFailed string "int option" time
  | SettleLanded string "int option" time
  | Resettle string "int option" bool
  | Release string
  | SettleSpend string time
  | RecordSpend string string int string string time int string

fun spend_step :: "chain_rules \<Rightarrow> spend_env \<Rightarrow> spend_op \<Rightarrow> wallet_db \<Rightarrow> wallet_db" where
  "spend_step R E (SetLimits w a l p) db = fst (set_limits_unless_raised w a l p db)"
| "spend_step R E (Freeze b) db = fst (set_frozen b db)"
| "spend_step R E (Reserve w a n d pid now f c) db = fst (reserve_spend R E w a n d pid now f c db)"
| "spend_step R E (SettleFailed pid charged now) db = settle_failed_on_chain pid charged now db"
| "spend_step R E (SettleLanded pid charged now) db = settle_landed_on_chain pid charged now db"
| "spend_step R E (Resettle pid charged moved) db = fst (resettle pid charged moved db)"
| "spend_step R E (Release pid) db = release_spend pid db"
| "spend_step R E (SettleSpend pid now) db = settle_spend pid now db"
| "spend_step R E (RecordSpend w a n d pid now f c) db = record_spend w a n d pid now f c db"

definition spend_run :: "chain_rules \<Rightarrow> spend_env \<Rightarrow> spend_op list \<Rightarrow> wallet_db \<Rightarrow> wallet_db" where
  "spend_run R E ops db = fold (spend_step R E) ops db"

section \<open>The life of a hold\<close>

definition hold_next :: "hold_state \<Rightarrow> hold_state list" where
  "hold_next s = (case s of Reserved \<Rightarrow> [Settled, Released] | Released \<Rightarrow> [Reserved] | Settled \<Rightarrow> [])"

interpretation hold: transition_table hold_next "\<lambda>s. s = Settled"
  by unfold_locales (simp add: hold_next_def)

lemma fee_hold_id_ne [simp]: "fee_hold_id pid \<noteq> pid" "pid \<noteq> fee_hold_id pid"
  by (simp_all add: fee_hold_id_def)

lemma row_in_Some: "row_in db hid s = Some h \<longleftrightarrow> dict_get (ledger db) hid = Some h \<and> hold_status h = s"
  by (auto simp: row_in_def split: option.splits)

lemma ledger_set_row [simp]: "dict_get (ledger (set_row hid h db)) k = (if k = hid then Some h else dict_get (ledger db) k)"
  by (simp add: set_row_def)

lemma row_in_set_row: "k \<noteq> hid \<Longrightarrow> row_in (set_row hid h db) k s = row_in db k s"
  by (simp add: row_in_def)

text \<open>A row that exists never disappears and keeps its wallet, asset and destination; its state moves along the table.\<close>

definition row_moves :: "hold \<Rightarrow> hold \<Rightarrow> bool" where
  "row_moves h h' \<longleftrightarrow> hold_wallet h' = hold_wallet h \<and> hold_asset h' = hold_asset h \<and> hold_dest h' = hold_dest h
     \<and> (hold_status h' = hold_status h \<or> hold_status h' \<in> set (hold_next (hold_status h)))"

definition rows_move :: "wallet_db \<Rightarrow> wallet_db \<Rightarrow> bool" where
  "rows_move db db' \<longleftrightarrow> (\<forall>k h. dict_get (ledger db) k = Some h \<longrightarrow> (\<exists>h'. dict_get (ledger db') k = Some h' \<and> row_moves h h'))"

lemma row_moves_refl [simp]: "row_moves h h"
  by (simp add: row_moves_def)

lemma row_moves_settled: "row_moves a b \<Longrightarrow> hold_status a = Settled \<Longrightarrow> hold_status b = Settled"
  by (auto simp: row_moves_def hold.terminal_successors)

lemma rows_move_refl [simp]: "rows_move db db"
  by (auto simp: rows_move_def)

lemma rows_move_same: "ledger db' = ledger db \<Longrightarrow> rows_move db db'"
  by (auto simp: rows_move_def)

lemma rows_move_row: "(\<And>h. dict_get (ledger db) hid = Some h \<Longrightarrow> row_moves h h') \<Longrightarrow> rows_move db (set_row hid h' db)"
  by (auto simp: rows_move_def)

lemma rows_move_two:
  assumes "a \<noteq> b" "\<And>h. dict_get (ledger db) a = Some h \<Longrightarrow> row_moves h x" "\<And>h. dict_get (ledger db) b = Some h \<Longrightarrow> row_moves h y"
  shows "rows_move db (set_row b y (set_row a x db))"
  using assms by (auto simp: rows_move_def)

lemma put_hold_row: "put_hold hid w a n f d now c db =
   set_row hid (case dict_get (ledger db) hid of
      Some h \<Rightarrow> h\<lparr>hold_status := Reserved, hold_at := now, hold_amount := n, hold_fee := f, hold_chain := c\<rparr>
    | None \<Rightarrow> \<lparr>hold_wallet = w, hold_asset = a, hold_amount = n, hold_fee = f, hold_dest = d,
        hold_at = now, hold_status = Reserved, hold_chain = c, hold_settled_at = 0\<rparr>) db"
  by (simp add: put_hold_def set_row_def Let_def)

text \<open>A reservation either changes nothing or puts one row, or two for a token transfer.\<close>

lemma spend_reserve_cases:
  obtains (refused) e where "reserve R E w a n d pid now f cn db = (db, Inl e)"
  | (one) "\<not> token_transfer R (canonical_name R cn) a" "\<not> held_row db pid"
      "verdict E db w (py_upper a) n d now (max 0 f) (canonical_name R cn) = Within"
      "reserve R E w a n d pid now f cn db = (put_hold pid w (py_upper a) n (max 0 f) d now (canonical_name R cn) db, Inr ())"
  | (two) "token_transfer R (canonical_name R cn) a" "\<not> held_row db pid" "\<not> held_row db (fee_hold_id pid)"
      "verdict E db w (py_upper a) n d now 0 (canonical_name R cn) = Within"
      "verdict E db w (native_symbol R (canonical_name R cn)) 0 d now (max 0 f) (canonical_name R cn) = Within"
      "reserve R E w a n d pid now f cn db =
         (put_hold (fee_hold_id pid) w (native_symbol R (canonical_name R cn)) 0 (max 0 f) d now (canonical_name R cn)
            (put_hold pid w (py_upper a) n 0 d now (canonical_name R cn) db), Inr ())"
proof -
  have v: "verdict E db w x y z t u c \<noteq> AlreadyHeld" for x y z t u c
    by (auto simp: verdict_def Let_def split: option.splits)
  let ?c = "canonical_name R cn"
  show ?thesis
  proof (cases "\<exists>e. reserve R E w a n d pid now f cn db = (db, Inl e)")
    case False
    show ?thesis
    proof (cases "token_transfer R ?c a")
      case True
      with False show ?thesis using v
        by (intro two) (auto simp: reserve_def Let_def split: limit_verdict.splits if_splits)
    next
      case nt: False
      with False show ?thesis using v
        by (intro one) (auto simp: reserve_def Let_def split: limit_verdict.splits if_splits)
    qed
  qed (use refused in blast)
qed

lemma fst_reserve_spend: "fst (reserve_spend R E w a n d pid now f c db) = fst (reserve R E w a n d pid now f c db)"
  by (auto simp: reserve_spend_def split: prod.split sum.split hold_error.split)

lemma put_row_moves:
  assumes "\<not> held_row db hid" "dict_get (ledger db) hid = Some h"
  shows "row_moves h (h\<lparr>hold_status := Reserved, hold_at := now, hold_amount := n, hold_fee := f, hold_chain := c\<rparr>)"
  using assms by (cases "hold_status h") (auto simp: held_row_def is_held_def row_moves_def hold_next_def)

lemma rows_move_reserve: "rows_move db (fst (reserve R E w a n d pid now f c db))"
proof (cases rule: spend_reserve_cases [of R E w a n d pid now f c db])
  case one
  then show ?thesis by (auto simp: put_hold_row intro!: rows_move_row put_row_moves)
next
  case two
  then show ?thesis by (auto simp: put_hold_row intro!: rows_move_two put_row_moves)
qed simp

lemma row_in_moves:
  "row_in db hid Reserved = Some h \<Longrightarrow> dict_get (ledger db) hid = Some g \<Longrightarrow>
     row_moves g (h\<lparr>hold_status := Settled, hold_amount := n, hold_fee := f, hold_settled_at := t\<rparr>)
   \<and> row_moves g (h\<lparr>hold_status := Settled, hold_fee := f, hold_settled_at := t\<rparr>)
   \<and> row_moves g (h\<lparr>hold_status := Released\<rparr>)
   \<and> row_moves g (h\<lparr>hold_status := Settled, hold_at := t, hold_settled_at := t\<rparr>)
   \<and> row_moves g (h\<lparr>hold_status := Settled\<rparr>)"
  by (auto simp: row_in_Some row_moves_def hold_next_def)

lemma spend_settle_cases:
  obtains (nothing) "settle pid ch mv now db = (db, Inl HoldConflict)"
  | (plain) h where "row_in db pid Reserved = Some h" "\<not> has_hold db (fee_hold_id pid)"
      "settle pid ch mv now db = (set_row pid (h\<lparr>hold_status := Settled, hold_amount := (if mv then hold_amount h else 0),
          hold_fee := charge ch h, hold_settled_at := now\<rparr>) db, Inr ())"
  | (token) h f where "row_in db pid Reserved = Some h" "row_in db (fee_hold_id pid) Reserved = Some f"
      "settle pid ch mv now db = (set_row (fee_hold_id pid) (f\<lparr>hold_status := Settled, hold_fee := charge ch f, hold_settled_at := now\<rparr>)
         (set_row pid (h\<lparr>hold_status := Settled, hold_amount := (if mv then hold_amount h else 0),
          hold_fee := charge None h, hold_settled_at := now\<rparr>) db), Inr ())"
proof (cases "row_in db pid Reserved")
  case None
  show ?thesis by (rule nothing) (simp add: settle_def Let_def None)
next
  case h: (Some h)
  show ?thesis
  proof (cases "has_hold db (fee_hold_id pid)")
    case False
    show ?thesis by (rule plain [OF h False]) (simp add: settle_def Let_def h False)
  next
    case True
    show ?thesis
    proof (cases "row_in db (fee_hold_id pid) Reserved")
      case None
      show ?thesis by (rule nothing) (simp add: settle_def Let_def row_in_set_row h True None)
    next
      case (Some f)
      show ?thesis by (rule token [OF h Some]) (simp add: settle_def Let_def row_in_set_row h True Some)
    qed
  qed
qed

lemma rows_move_settle: "rows_move db (fst (settle pid ch mv now db))"
proof (cases rule: spend_settle_cases [of pid ch mv now db])
  case (plain h)
  then show ?thesis by (auto intro!: rows_move_row dest: row_in_moves)
next
  case (token h f)
  then show ?thesis by (auto intro!: rows_move_two dest: row_in_moves)
qed simp

lemma rows_move_resettle: "rows_move db (fst (resettle pid ch mv db))"
proof -
  have m: "row_moves g (h\<lparr>hold_amount := n, hold_fee := f\<rparr>) \<and> row_moves g (h\<lparr>hold_fee := f\<rparr>)"
    if "row_in db hid Settled = Some h" "dict_get (ledger db) hid = Some g" for hid h g n f
    using that by (auto simp: row_in_Some row_moves_def hold_next_def)
  show ?thesis
    by (auto simp: resettle_def Let_def row_in_set_row split: option.split bool.split intro!: rows_move_row rows_move_two dest: m)
qed

lemma release_row_row: "release_row hid db = (case row_in db hid Reserved of None \<Rightarrow> db | Some h \<Rightarrow> set_row hid (h\<lparr>hold_status := Released\<rparr>) db)"
  by (simp add: release_row_def)

lemma rows_move_release: "rows_move db (fst (release pid db))"
  by (auto simp: release_def release_row_def row_in_set_row split: option.split intro!: rows_move_row rows_move_two dest: row_in_moves)

lemma rows_move_settle_spend: "rows_move db (settle_spend pid now db)"
  by (auto simp: settle_spend_def settle_row_def row_in_set_row split: option.split intro!: rows_move_row rows_move_two dest: row_in_moves)

lemma rows_move_step: "rows_move db (spend_step R E x db)"
proof (cases x)
  case (RecordSpend w a n d pid now f c)
  then show ?thesis
    by (auto simp: record_spend_def row_moves_def hold_next_def split: option.split intro!: rows_move_row)
qed (auto simp: set_limits_unless_raised_def set_limits_def set_frozen_def Let_def fst_reserve_spend rows_move_reserve
    settle_failed_on_chain_def settle_landed_on_chain_def release_spend_def rows_move_settle rows_move_resettle rows_move_release
    rows_move_settle_spend intro: rows_move_same)

lemma rows_move_run:
  assumes "dict_get (ledger db) k = Some h" "hold_status h = Settled"
  shows "\<exists>h'. dict_get (ledger (spend_run R E ops db)) k = Some h' \<and> hold_status h' = Settled
           \<and> hold_wallet h' = hold_wallet h \<and> hold_asset h' = hold_asset h \<and> hold_dest h' = hold_dest h"
  using assms
proof (induction ops arbitrary: db h)
  case (Cons x ops)
  from rows_move_step [of db R E x] Cons.prems(1) obtain h1
    where h1: "dict_get (ledger (spend_step R E x db)) k = Some h1" "row_moves h h1" by (auto simp: rows_move_def)
  from Cons.IH [OF h1(1) row_moves_settled [OF h1(2) Cons.prems(2)]] h1(2) show ?case
    by (auto simp: spend_run_def row_moves_def)
qed (simp add: spend_run_def)

section \<open>The windows never pass their caps\<close>

lemma upper_char_fixed: "c \<in> set (upper_char d) \<Longrightarrow> upper_char c = [c]"
proof -
  assume c: "c \<in> set (upper_char d)"
  define n where "n = (of_char d :: nat)"
  show ?thesis
  proof (cases "(97 \<le> n \<and> n \<le> 122) \<or> (224 \<le> n \<and> n \<le> 254 \<and> n \<noteq> 247)")
    case True
    then have e: "c = char_of (n - 32)" using c by (simp add: upper_char_def Let_def n_def)
    have "n < 256" by (simp add: n_def)
    then have m: "of_char c = n - 32" by (simp add: e)
    have "(65 \<le> n - 32 \<and> n - 32 \<le> 90) \<or> (192 \<le> n - 32 \<and> n - 32 \<le> 222)" using True by arith
    then have "\<not> (97 \<le> n - 32 \<and> n - 32 \<le> 122)" "\<not> (224 \<le> n - 32)" "n - 32 \<noteq> 223" by arith+
    with m have "\<not> ((97 \<le> (of_char c :: nat) \<and> (of_char c :: nat) \<le> 122) \<or> (224 \<le> (of_char c :: nat) \<and> (of_char c :: nat) \<le> 254 \<and> (of_char c :: nat) \<noteq> 247))"
      "(of_char c :: nat) \<noteq> 223" by (simp_all only: simp_thms)
    then show ?thesis unfolding upper_char_def Let_def by (simp only: if_False)
  next
    case False
    show ?thesis
    proof (cases "n = 223")
      case True
      then have "c = CHR ''S''" using c by (simp add: upper_char_def Let_def n_def)
      moreover have "upper_char (CHR ''S'') = ''S''" by code_simp
      ultimately show ?thesis by simp
    next
      case n: False
      with False have "upper_char d = [d]" unfolding upper_char_def Let_def n_def by (simp only: if_False simp_thms)
      with c show ?thesis by simp
    qed
  qed
qed

lemma py_upper_idem [simp]: "py_upper (py_upper s) = py_upper s"
proof -
  have single: "concat (map (\<lambda>c. [c]) xs) = xs" for xs :: string by (induction xs) auto
  have "map upper_char (py_upper s) = map (\<lambda>c. [c]) (py_upper s)"
    by (rule map_cong) (auto simp: py_upper_def dest: upper_char_fixed)
  then show ?thesis unfolding py_upper_def [of "py_upper s"] by (simp only: single)
qed

lemma load_limits_upper [simp]: "load_limits db w (py_upper a) = load_limits db w a"
  by (cases "dict_get (limits_table db) (w, py_upper a)"; simp add: load_limits_def)

lemma held_within_upper [simp]: "held_within db w (py_upper a) s d c = held_within db w a s d c"
  by (simp add: held_within_def counts_def)

definition part :: "string \<Rightarrow> string \<Rightarrow> time \<Rightarrow> string option \<Rightarrow> string option \<Rightarrow> hold \<Rightarrow> int" where
  "part w a s d c h = (if counts w a s d c h then hold_amount h + hold_fee h else 0)"

definition old_part :: "wallet_db \<Rightarrow> string \<Rightarrow> string \<Rightarrow> string \<Rightarrow> time \<Rightarrow> string option \<Rightarrow> string option \<Rightarrow> int" where
  "old_part db hid w a s d c = (case dict_get (ledger db) hid of None \<Rightarrow> 0 | Some h \<Rightarrow> part w a s d c h)"

lemma held_within_part: "held_within db w a s d c = dict_sum (part w a s d c) (ledger db)"
  unfolding held_within_def part_def ..

lemma held_set_row:
  assumes "wf_dict (ledger db)"
  shows "held_within (set_row hid h db) w a s d c = held_within db w a s d c - old_part db hid w a s d c + part w a s d c h"
  using assms by (simp add: held_within_part set_row_def dict_sum_set old_part_def)

lemma limits_set_row [simp]: "load_limits (set_row hid h db) w a = load_limits db w a"
  by (simp add: load_limits_def set_row_def)

definition sane_hold :: "hold \<Rightarrow> bool" where
  "sane_hold h \<longleftrightarrow> 0 \<le> hold_amount h \<and> 0 \<le> hold_fee h"

definition sane_db :: "wallet_db \<Rightarrow> bool" where
  "sane_db db \<longleftrightarrow> wf_dict (ledger db) \<and> (\<forall>k h. dict_get (ledger db) k = Some h \<longrightarrow> sane_hold h)"

lemma sane_set_row: "sane_db db \<Longrightarrow> sane_hold h \<Longrightarrow> sane_db (set_row hid h db)"
  by (simp add: sane_db_def set_row_def)

lemma part_nonneg: "sane_hold h \<Longrightarrow> 0 \<le> part w a s d c h"
  by (simp add: part_def sane_hold_def)

lemma part_shift: "sane_hold h \<Longrightarrow> s \<le> s' \<Longrightarrow> part w a s' d c h \<le> part w a s d c h"
  by (auto simp: part_def counts_def sane_hold_def)

lemma held_shift:
  assumes "sane_db db" "s \<le> s'"
  shows "held_within db w a s' d c \<le> held_within db w a s d c"
proof -
  have "sane_hold h" if "(k, h) \<in> set (ledger db)" for k h using that assms(1) by (auto simp: sane_db_def)
  then have "0 \<le> dict_sum (\<lambda>h. part w a s d c h - part w a s' d c h) (ledger db)"
    by (intro dict_sum_nonneg) (use part_shift assms(2) in fastforce)
  then show ?thesis by (simp add: held_within_part dict_sum_diff)
qed

definition cap_of :: "spend_limits \<Rightarrow> string option \<Rightarrow> int" where
  "cap_of l d = (case d of None \<Rightarrow> daily_minor l | Some _ \<Rightarrow> per_destination_daily_minor l)"

text \<open>The state with the time of its last reservation; every window ending there or later is within its cap.\<close>

definition within_caps :: "wallet_db \<times> time \<Rightarrow> bool" where
  "within_caps st \<longleftrightarrow> sane_db (fst st) \<and> (\<forall>w a d c. c \<noteq> [] \<longrightarrow>
     held_within (fst st) w a (snd st - day_seconds) d (Some c) \<le> cap_of (load_limits (fst st) w a) d)"

lemma within_caps_row:
  assumes "within_caps (db, t)" "dict_get (ledger db) hid = Some g" "sane_hold h"
    and "\<And>w a s d c. part w a s d c h \<le> part w a s d c g"
  shows "within_caps (set_row hid h db, t)"
proof -
  have w: "wf_dict (ledger db)" "sane_db db" using assms(1) by (auto simp: within_caps_def sane_db_def)
  have "held_within (set_row hid h db) x a s d c \<le> held_within db x a s d c" for x a s d c
    using assms(4) [of x a s d c] by (simp add: held_set_row [OF w(1)] old_part_def assms(2))
  then have "held_within (set_row hid h db) x a (t - day_seconds) d (Some c) \<le> cap_of (load_limits (set_row hid h db) x a) d"
    if "c \<noteq> []" for x a d c
    using assms(1) that order_trans [of "held_within (set_row hid h db) x a (t - day_seconds) d (Some c)"]
    unfolding within_caps_def by (simp only: limits_set_row fst_conv snd_conv) blast
  then show ?thesis using sane_set_row [OF w(2) assms(3)] by (simp add: within_caps_def)
qed

lemma within_caps_put:
  assumes "within_caps (db, t)" "t \<le> now" "0 \<le> n" "0 \<le> f" "\<not> held_row db hid"
    and same: "\<And>h. dict_get (ledger db) hid = Some h \<Longrightarrow> hold_wallet h = w \<and> hold_asset h = py_upper a \<and> hold_dest h = d"
    and room: "\<And>dd. c \<noteq> [] \<Longrightarrow> dd \<in> {None, Some d} \<Longrightarrow>
        held_within db w a (now - day_seconds) dd (Some c) + (n + f) \<le> cap_of (load_limits db w a) dd"
  shows "within_caps (put_hold hid w (py_upper a) n f d now c db, now)"
proof -
  have w: "wf_dict (ledger db)" "sane_db db" using assms(1) by (auto simp: within_caps_def sane_db_def)
  define g where "g = (case dict_get (ledger db) hid of
      Some h \<Rightarrow> h\<lparr>hold_status := Reserved, hold_at := now, hold_amount := n, hold_fee := f, hold_chain := c\<rparr>
    | None \<Rightarrow> \<lparr>hold_wallet = w, hold_asset = py_upper a, hold_amount = n, hold_fee = f, hold_dest = d,
        hold_at = now, hold_status = Reserved, hold_chain = c, hold_settled_at = 0\<rparr>)"
  have h: "hold_wallet g = w" "hold_asset g = py_upper a" "hold_dest g = d" "hold_chain g = c" "hold_amount g = n" "hold_fee g = f"
    using same by (cases "dict_get (ledger db) hid"; simp add: g_def)+
  have old: "old_part db hid x b s dd cc = 0" for x b s dd cc
    using assms(5) by (auto simp: old_part_def part_def counts_def held_row_def split: option.splits)
  have "held_within (set_row hid g db) x b (now - day_seconds) dd (Some cc) \<le> cap_of (load_limits db x b) dd" if cc: "cc \<noteq> []" for x b dd cc
  proof (cases "counts x b (now - day_seconds) dd (Some cc) g")
    case True
    then have e: "x = w" "py_upper b = py_upper a" "cc = c" "dd \<in> {None, Some d}"
      using h by (auto simp: counts_def split: option.splits)
    have p: "part x b (now - day_seconds) dd (Some cc) g = n + f" using True h by (simp add: part_def)
    have "held_within db x b s dd (Some cc) = held_within db w a s dd (Some c)" for s
      using e held_within_upper [of db w a s dd "Some c"] held_within_upper [of db w b s dd "Some c"] by simp
    moreover have "load_limits db x b = load_limits db w a" using e load_limits_upper [of db w a] load_limits_upper [of db w b] by simp
    moreover have "held_within (set_row hid g db) x b (now - day_seconds) dd (Some cc) = held_within db x b (now - day_seconds) dd (Some cc) + (n + f)"
      by (simp only: held_set_row [OF w(1)] old p diff_0_right)
    ultimately show ?thesis using room [of dd] e cc by simp
  next
    case False
    then have "held_within (set_row hid g db) x b (now - day_seconds) dd (Some cc) = held_within db x b (now - day_seconds) dd (Some cc)"
      by (simp add: held_set_row [OF w(1)] old part_def)
    also have "\<dots> \<le> held_within db x b (t - day_seconds) dd (Some cc)" by (rule held_shift [OF w(2)]) (use assms(2) in simp)
    also have "\<dots> \<le> cap_of (load_limits db x b) dd" using assms(1) cc by (simp add: within_caps_def)
    finally show ?thesis .
  qed
  moreover have "sane_db (set_row hid g db)" by (rule sane_set_row [OF w(2)]) (use h assms(3,4) in \<open>simp add: sane_hold_def\<close>)
  ultimately show ?thesis by (simp add: within_caps_def put_hold_row g_def)
qed

lemma verdict_room:
  assumes "verdict E db w a n d now f c = Within" "c \<noteq> []" "dd \<in> {None, Some d}"
  shows "held_within db w a (now - day_seconds) dd (Some c) + (n + max 0 f) \<le> cap_of (load_limits db w a) dd"
  using assms by (auto simp: verdict_def Let_def chain_filter_def cap_of_def split: if_splits)

section \<open>Lawful use\<close>

text \<open>A reservation moves the clock forward, holds a non-negative amount, reuses a released row only for the same
  wallet, asset and destination, and the registry never makes a token its chain's native coin; a settlement charges
  no more than was held for fees. Changing the caps and the two helpers that write settled rows directly are not covered.\<close>

definition same_row :: "wallet_db \<Rightarrow> string \<Rightarrow> string \<Rightarrow> string \<Rightarrow> string \<Rightarrow> bool" where
  "same_row db hid w a d \<longleftrightarrow> (case dict_get (ledger db) hid of None \<Rightarrow> True
     | Some h \<Rightarrow> hold_wallet h = w \<and> hold_asset h = a \<and> hold_dest h = d)"

definition fee_within :: "wallet_db \<Rightarrow> string \<Rightarrow> int option \<Rightarrow> bool" where
  "fee_within db pid charged \<longleftrightarrow> (case charged of None \<Rightarrow> True | Some n \<Rightarrow>
     (case dict_get (ledger db) (if has_hold db (fee_hold_id pid) then fee_hold_id pid else pid) of
        None \<Rightarrow> True | Some h \<Rightarrow> n \<le> hold_fee h))"

fun lawful_spend :: "chain_rules \<Rightarrow> spend_op \<Rightarrow> wallet_db \<times> time \<Rightarrow> bool" where
  "lawful_spend R (Reserve w a n d pid now f cn) (db, lst) \<longleftrightarrow> lst \<le> now \<and> 0 \<le> n \<and> same_row db pid w (py_upper a) d
     \<and> (token_transfer R (canonical_name R cn) a \<longrightarrow> same_row db (fee_hold_id pid) w (native_symbol R (canonical_name R cn)) d
          \<and> native_symbol R (canonical_name R cn) \<noteq> py_upper a)"
| "lawful_spend R (Freeze b) st \<longleftrightarrow> True"
| "lawful_spend R (SettleFailed pid charged now) (db, lst) \<longleftrightarrow> fee_within db pid charged"
| "lawful_spend R (SettleLanded pid charged now) (db, lst) \<longleftrightarrow> fee_within db pid charged"
| "lawful_spend R (Resettle pid charged moved) (db, lst) \<longleftrightarrow> fee_within db pid charged"
| "lawful_spend R (Release pid) st \<longleftrightarrow> True"
| "lawful_spend R _ st \<longleftrightarrow> False"

fun timed_step :: "chain_rules \<Rightarrow> spend_env \<Rightarrow> spend_op \<Rightarrow> wallet_db \<times> time \<Rightarrow> wallet_db \<times> time" where
  "timed_step R E x (db, lst) = (spend_step R E x db, case x of Reserve w a n d pid now f cn \<Rightarrow> now | _ \<Rightarrow> lst)"

lemma within_caps_reserve:
  assumes st: "within_caps (db, lst)" and law: "lawful_spend R (Reserve w a n d pid now f cn) (db, lst)"
  shows "within_caps (fst (reserve R E w a n d pid now f cn db), now)"
proof -
  let ?c = "canonical_name R cn"
  have t: "lst \<le> now" "0 \<le> n" "same_row db pid w (py_upper a) d" using law by simp_all
  have shift: "within_caps (db, now)"
  proof -
    have "held_within db x b (now - day_seconds) dd (Some c) \<le> held_within db x b (lst - day_seconds) dd (Some c)" for x b dd c
      by (rule held_shift) (use st t in \<open>auto simp: within_caps_def\<close>)
    then show ?thesis using st unfolding within_caps_def fst_conv snd_conv by (meson order_trans)
  qed
  have same: "\<And>h. dict_get (ledger db) pid = Some h \<Longrightarrow> hold_wallet h = w \<and> hold_asset h = py_upper a \<and> hold_dest h = d"
    using t(3) by (simp add: same_row_def)
  show ?thesis
  proof (cases rule: spend_reserve_cases [of R E w a n d pid now f cn db])
    case (refused e)
    with shift show ?thesis by simp
  next
    case one
    have "within_caps (put_hold pid w (py_upper a) n (max 0 f) d now ?c db, now)"
      by (rule within_caps_put [OF st t(1,2) _ one(2) same]) (use verdict_room [OF one(3)] in \<open>simp_all add: max.assoc\<close>)
    with one(4) show ?thesis by simp
  next
    case two
    let ?db1 = "put_hold pid w (py_upper a) n 0 d now ?c db"
    have r1: "within_caps (?db1, now)"
      by (rule within_caps_put [OF st t(1,2) _ two(2) same]) (use verdict_room [OF two(4)] in simp_all)
    have nat: "native_symbol R ?c \<noteq> py_upper a" "same_row db (fee_hold_id pid) w (native_symbol R ?c) d"
      using law two(1) by simp_all
    have up: "py_upper (native_symbol R ?c) = native_symbol R ?c" by (simp add: native_symbol_def)
    have other: "held_within ?db1 w (native_symbol R ?c) s dd cc = held_within db w (native_symbol R ?c) s dd cc" for s dd cc
    proof -
      have "part w (native_symbol R ?c) s dd cc h = 0" if "hold_asset h = py_upper a" for h
        using that nat(1) up by (simp add: part_def counts_def)
      then show ?thesis using st same
        by (simp add: put_hold_row held_set_row within_caps_def sane_db_def old_part_def split: option.split)
    qed
    have lim: "load_limits ?db1 x y = load_limits db x y" for x y by (simp add: put_hold_row)
    have same2: "\<And>h. dict_get (ledger ?db1) (fee_hold_id pid) = Some h \<Longrightarrow>
        hold_wallet h = w \<and> hold_asset h = py_upper (native_symbol R ?c) \<and> hold_dest h = d"
      using nat(2) by (simp add: same_row_def put_hold_row up)
    have nh: "\<not> held_row ?db1 (fee_hold_id pid)" using two(3) by (simp add: held_row_def put_hold_row)
    have "within_caps (put_hold (fee_hold_id pid) w (py_upper (native_symbol R ?c)) 0 (max 0 f) d now ?c ?db1, now)"
      by (rule within_caps_put [OF r1 order_refl _ _ nh same2]) (use verdict_room [OF two(5)] in \<open>simp_all add: other lim\<close>)
    with two(6) show ?thesis by (simp add: up)
  qed
qed

lemma charge_le: "sane_hold h \<Longrightarrow> (\<And>n. charged = Some n \<Longrightarrow> n \<le> hold_fee h) \<Longrightarrow> 0 \<le> charge charged h \<and> charge charged h \<le> hold_fee h"
  by (cases charged) (auto simp: charge_def sane_hold_def)

text \<open>A row that keeps its place and shrinks keeps every window within its cap.\<close>

definition shrinks :: "hold \<Rightarrow> hold \<Rightarrow> bool" where
  "shrinks g h \<longleftrightarrow> hold_wallet h = hold_wallet g \<and> hold_asset h = hold_asset g \<and> hold_dest h = hold_dest g \<and> hold_at h = hold_at g
     \<and> hold_chain h = hold_chain g \<and> 0 \<le> hold_amount h \<and> hold_amount h \<le> hold_amount g \<and> 0 \<le> hold_fee h \<and> hold_fee h \<le> hold_fee g
     \<and> (is_held h \<longrightarrow> is_held g)"

lemma within_caps_shrink:
  assumes "within_caps (db, t)" "dict_get (ledger db) hid = Some g" "shrinks g h"
  shows "within_caps (set_row hid h db, t)"
proof (rule within_caps_row [OF assms(1,2)])
  show "sane_hold h" using assms(3) by (simp add: shrinks_def sane_hold_def)
  show "part w a s d c h \<le> part w a s d c g" for w a s d c
    using assms(3) by (auto simp: shrinks_def part_def counts_def split: option.splits)
qed

lemma row_sane: "within_caps (db, t) \<Longrightarrow> dict_get (ledger db) k = Some h \<Longrightarrow> sane_hold h"
  by (simp add: within_caps_def sane_db_def)

lemma within_caps_settle:
  assumes st: "within_caps (db, t)" and fee: "fee_within db pid charged"
  shows "within_caps (fst (settle pid charged moved now db), t)"
proof (cases rule: spend_settle_cases [of pid charged moved now db])
  case (plain h)
  then have h: "dict_get (ledger db) pid = Some h" "hold_status h = Reserved" by (simp_all add: row_in_Some)
  have "0 \<le> charge charged h \<and> charge charged h \<le> hold_fee h"
    by (rule charge_le [OF row_sane [OF st h(1)]]) (use fee plain(2) h(1) in \<open>simp add: fee_within_def\<close>)
  with row_sane [OF st h(1)] show ?thesis unfolding plain(3) fst_conv
    by (intro within_caps_shrink [OF st h(1)]) (auto simp: shrinks_def sane_hold_def is_held_def h(2))
next
  case (token h f)
  then have h: "dict_get (ledger db) pid = Some h" "hold_status h = Reserved"
    and f: "dict_get (ledger db) (fee_hold_id pid) = Some f" "hold_status f = Reserved" by (simp_all add: row_in_Some)
  let ?h = "h\<lparr>hold_status := Settled, hold_amount := (if moved then hold_amount h else 0), hold_fee := charge None h, hold_settled_at := now\<rparr>"
  have 1: "within_caps (set_row pid ?h db, t)"
    using row_sane [OF st h(1)] by (intro within_caps_shrink [OF st h(1)]) (auto simp: shrinks_def sane_hold_def is_held_def h(2) charge_def)
  have "0 \<le> charge charged f \<and> charge charged f \<le> hold_fee f"
    by (rule charge_le [OF row_sane [OF st f(1)]]) (use fee f(1) in \<open>simp add: fee_within_def has_hold_def\<close>)
  moreover have "dict_get (ledger (set_row pid ?h db)) (fee_hold_id pid) = Some f" using f(1) by simp
  ultimately show ?thesis using row_sane [OF st f(1)] unfolding token(3) fst_conv
    by (intro within_caps_shrink [OF 1]) (auto simp: shrinks_def sane_hold_def is_held_def f(2))
qed (use st in simp)

lemma within_caps_resettle:
  assumes st: "within_caps (db, t)" and fee: "fee_within db pid charged"
  shows "within_caps (fst (resettle pid charged moved db), t)"
proof (cases "row_in db pid Settled")
  case (Some h)
  then have h: "dict_get (ledger db) pid = Some h" "hold_status h = Settled" by (simp_all add: row_in_Some)
  define g where "g = h\<lparr>hold_amount := (if moved then hold_amount h else 0),
      hold_fee := charge (if has_hold db (fee_hold_id pid) then None else charged) h\<rparr>"
  have "0 \<le> charge (if has_hold db (fee_hold_id pid) then None else charged) h
      \<and> charge (if has_hold db (fee_hold_id pid) then None else charged) h \<le> hold_fee h"
    by (rule charge_le [OF row_sane [OF st h(1)]]) (use fee h(1) in \<open>auto simp: fee_within_def split: if_splits\<close>)
  then have "0 \<le> hold_fee g \<and> hold_fee g \<le> hold_fee h" by (simp add: g_def)
  then have 1: "within_caps (set_row pid g db, t)"
    using row_sane [OF st h(1)] by (intro within_caps_shrink [OF st h(1)]) (auto simp: shrinks_def sane_hold_def is_held_def h(2) g_def)
  show ?thesis
  proof (cases "row_in db (fee_hold_id pid) Settled")
    case None
    with Some have "fst (resettle pid charged moved db) = set_row pid g db"
      by (simp add: resettle_def Let_def row_in_set_row g_def split: bool.split)
    with 1 show ?thesis by simp
  next
    case f: (Some f)
    then have f': "dict_get (ledger db) (fee_hold_id pid) = Some f" "hold_status f = Settled" by (simp_all add: row_in_Some)
    have "0 \<le> charge charged f \<and> charge charged f \<le> hold_fee f"
      by (rule charge_le [OF row_sane [OF st f'(1)]]) (use fee f'(1) in \<open>simp add: fee_within_def has_hold_def\<close>)
    moreover have "dict_get (ledger (set_row pid g db)) (fee_hold_id pid) = Some f" using f'(1) by simp
    ultimately have "within_caps (set_row (fee_hold_id pid) (f\<lparr>hold_fee := charge charged f\<rparr>) (set_row pid g db), t)"
      using row_sane [OF st f'(1)] by (intro within_caps_shrink [OF 1]) (auto simp: shrinks_def sane_hold_def is_held_def f'(2))
    then show ?thesis using Some f f'(1) by (simp add: resettle_def Let_def row_in_set_row has_hold_def g_def)
  qed
qed (use st in \<open>simp add: resettle_def Let_def\<close>)

lemma within_caps_release_row: "within_caps (db, t) \<Longrightarrow> within_caps (release_row hid db, t)"
  by (auto simp: release_row_def row_in_Some split: option.split intro!: within_caps_shrink)
    (auto simp: shrinks_def is_held_def dest: row_sane simp: sane_hold_def)

lemma within_caps_frozen: "within_caps (db, t) \<Longrightarrow> within_caps (fst (set_frozen b db), t)"
  by (simp add: within_caps_def set_frozen_def held_within_def load_limits_def sane_db_def Let_def)

lemma timed_step_good:
  assumes "within_caps st" "lawful_spend R x st"
  shows "within_caps (timed_step R E x st) \<and> (\<forall>w a. load_limits (fst (timed_step R E x st)) w a = load_limits (fst st) w a)"
proof -
  obtain db lst where st: "st = (db, lst)" by (cases st)
  have lim: "load_limits (fst (reserve R E w a n d pid now f cn db)) x y = load_limits db x y" for w a n d pid now f cn x y
    by (cases rule: spend_reserve_cases [of R E w a n d pid now f cn db]) (simp_all add: put_hold_row)
  have lim2: "load_limits (fst (settle pid ch mv now db)) x y = load_limits db x y" for pid ch mv now x y
    by (cases rule: spend_settle_cases [of pid ch mv now db]) simp_all
  have lim3: "load_limits (fst (resettle pid ch mv db)) x y = load_limits db x y" for pid ch mv x y
    by (simp add: resettle_def Let_def split: option.split bool.split)
  have lim4: "load_limits (release_row hid d) x y = load_limits d x y" for hid d x y
    by (simp add: release_row_def split: option.split)
  have frz: "load_limits (fst (set_frozen b db)) w a = load_limits db w a" for b w a
    by (simp add: set_frozen_def load_limits_def Let_def)
  from assms show ?thesis unfolding st
    by (cases x) (simp_all add: fst_reserve_spend within_caps_reserve lim settle_failed_on_chain_def settle_landed_on_chain_def
        within_caps_settle lim2 within_caps_resettle lim3 release_spend_def release_def within_caps_release_row lim4
        within_caps_frozen frz split: option.split)
qed

text \<open>A timed run of one wallet database under fixed caps.\<close>

interpretation windows: lawful_system "timed_step R E" "lawful_spend R" within_caps for R E
  by unfold_locales (simp add: timed_step_good)

interpretation caps: bounded_meter "timed_step R E" "lawful_spend R" within_caps
    "\<lambda>st. if c = [] then 0 else held_within (fst st) w a (snd st - day_seconds) d (Some c)"
    "\<lambda>st. if c = [] then 0 else cap_of (load_limits (fst st) w a) d" for R E w a d c
  by unfold_locales (simp_all add: timed_step_good within_caps_def)

definition lawful_day :: "chain_rules \<Rightarrow> spend_env \<Rightarrow> spend_op list \<Rightarrow> wallet_db \<times> time \<Rightarrow> bool" where
  "lawful_day R E ops st = lawful_system.lawful_run (timed_step R E) (lawful_spend R) ops st"

definition fresh_db :: "((string \<times> string), spend_limits) dict \<Rightarrow> wallet_db" where
  "fresh_db lims = \<lparr>ledger = [], limits_table = lims, spend_frozen = False, freeze_epoch = 0\<rparr>"

definition caps_ok :: "((string \<times> string), spend_limits) dict \<Rightarrow> bool" where
  "caps_ok lims \<longleftrightarrow> list_all (\<lambda>(k, l). 0 \<le> daily_minor l \<and> 0 \<le> per_destination_daily_minor l) lims"

lemma fresh_within:
  assumes "caps_ok lims"
  shows "within_caps (fresh_db lims, t)"
proof -
  have "list_all (\<lambda>(k, l). 0 \<le> daily_minor l \<and> 0 \<le> per_destination_daily_minor l) default_limits"
    by (simp add: default_limits_def Let_def)
  then have "0 \<le> daily_minor (load_limits (fresh_db lims) w a) \<and> 0 \<le> per_destination_daily_minor (load_limits (fresh_db lims) w a)" for w a
    using assms by (auto simp: load_limits_def fresh_db_def caps_ok_def list_all_iff fallback_limits_def split: option.split dest!: dict_get_mem)
  then show ?thesis
    by (auto simp: within_caps_def sane_db_def held_within_def cap_of_def fresh_db_def [of lims, THEN arg_cong [where f = ledger], simplified]
        split: option.split)
qed


definition plain_chain :: chain_rules where
  "plain_chain = \<lparr>canonical_name = (\<lambda>n. if n = ''dev'' then ''c1'' else n), registered_token = (\<lambda>_ a. a = ''T''), native_coin = (\<lambda>_. ''N'')\<rparr>"

definition no_global :: spend_env where
  "no_global = \<lparr>global_daily = 0, conversions = []\<rparr>"

definition small_caps :: "((string \<times> string), spend_limits) dict" where
  "small_caps = (let l = \<lparr>per_tx_minor = 6, daily_minor = 10, per_destination_daily_minor = 8\<rparr> in [((''w'', ''T''), l), ((''w'', ''N''), l)])"

definition busy_day :: "spend_op list" where
  "busy_day = [Reserve ''w'' ''T'' 5 ''d'' ''p1'' 1 1 ''dev'', Reserve ''w'' ''T'' 5 ''d'' ''p2'' 2 1 ''c1'',
     Reserve ''w'' ''T'' 5 ''e'' ''p3'' 3 1 ''c1'', SettleLanded ''p1'' (Some 0) 4]"


text \<open>A settled spend is final: whatever operations follow, its row stays settled, for the same wallet,
  asset and destination.\<close>

theorem settled_spend_is_final:
  assumes "dict_get (ledger db) pid = Some h" "hold_status h = Settled"
  shows "\<exists>h'. dict_get (ledger (spend_run R E ops db)) pid = Some h' \<and> hold_status h' = Settled
           \<and> hold_wallet h' = hold_wallet h \<and> hold_asset h' = hold_asset h \<and> hold_dest h' = hold_dest h"
  by (rule rows_move_run [OF assms])

theorem settled_spend_is_final_witness:
  "\<exists>h'. dict_get (ledger (spend_run plain_chain no_global (busy_day @ [Release ''p1'']) (fresh_db small_caps))) ''p1'' = Some h'
     \<and> hold_status h' = Settled"
proof -
  let ?db = "spend_run plain_chain no_global busy_day (fresh_db small_caps)"
  have "map_option hold_status (dict_get (ledger ?db) ''p1'') = Some Settled" by code_simp
  then obtain h where "dict_get (ledger ?db) ''p1'' = Some h" "hold_status h = Settled" by auto
  from settled_spend_is_final [OF this, of plain_chain no_global "[Release ''p1'']"] show ?thesis
    by (auto simp: spend_run_def)
qed

text \<open>The freeze stops every reservation: while it is on, a reservation is refused (or reports that the
  hold already exists) and leaves the tables as they were, and the advisory check refuses.\<close>

theorem frozen_holds_nothing:
  assumes "spend_frozen db"
  shows "fst (reserve_spend R E w a n d pid now f cn db) = db
       \<and> snd (reserve_spend R E w a n d pid now f cn db) \<in> {AlreadyHeld, Refused LimitFrozen}
       \<and> check_limits R E db w a n d now f cn = Refused LimitFrozen"
proof -
  have v: "verdict E db w x y z t u c = Refused LimitFrozen" for x y z t u c using assms by (simp add: verdict_def)
  then show ?thesis by (auto simp: reserve_spend_def reserve_def check_limits_def Let_def)
qed

theorem frozen_holds_nothing_witness:
  "snd (reserve_spend plain_chain no_global ''w'' ''T'' 1 ''d'' ''p'' 1 0 ''c1'' (fst (set_frozen True (fresh_db small_caps)))) = Refused LimitFrozen
   \<and> fst (reserve_spend plain_chain no_global ''w'' ''T'' 1 ''d'' ''p'' 1 0 ''c1'' (fst (set_frozen True (fresh_db small_caps))))
       = fst (set_frozen True (fresh_db small_caps))"
proof -
  have "spend_frozen (fst (set_frozen True (fresh_db small_caps)))" by code_simp
  moreover have "snd (reserve_spend plain_chain no_global ''w'' ''T'' 1 ''d'' ''p'' 1 0 ''c1'' (fst (set_frozen True (fresh_db small_caps)))) = Refused LimitFrozen"
    by code_simp
  ultimately show ?thesis using frozen_holds_nothing by blast
qed

text \<open>Without the owner's proof no cap is ever raised: any sequence of unproven writes leaves every cap of
  every wallet and asset at or below what it was.\<close>

theorem unproven_writes_never_loosen:
  "\<not> loosens (load_limits db w a) (load_limits (fold (\<lambda>(x, y, l) db. fst (set_limits_unless_raised x y l False db)) writes db) w a)"
proof (induction writes arbitrary: db)
  case Nil
  then show ?case by (simp add: loosens_def)
next
  case (Cons wr writes)
  obtain x y l where wr: "wr = (x, y, l)" by (cases wr)
  let ?db1 = "fst (set_limits_unless_raised x y l False db)"
  have "\<not> loosens (load_limits db w a) (load_limits ?db1 w a)"
    by (auto simp: set_limits_unless_raised_def set_limits_def load_limits_def loosens_def split: option.split)
  moreover have "\<not> loosens p q \<Longrightarrow> \<not> loosens q r \<Longrightarrow> \<not> loosens p r" for p q r by (auto simp: loosens_def)
  ultimately show ?case using Cons.IH [of ?db1] by (simp add: wr)
qed

section \<open>Findings\<close>

text \<open>A recorded spend keeps the chain name it was given, while a reservation uses the canonical one: the two do
  not share a window, so together they pass the daily cap.\<close>

theorem recorded_spend_splits_budget:
  "(let db = record_spend ''w'' ''T'' 6 ''e'' ''r1'' 1 0 ''dev'' (fresh_db small_caps);
        (db', v) = reserve_spend plain_chain no_global ''w'' ''T'' 6 ''d'' ''p1'' 2 0 ''dev'' db
    in v = Within \<and> held_within db' ''w'' ''T'' (2 - day_seconds) None None = 12
       \<and> daily_minor (load_limits db' ''w'' ''T'') = 10)"
  by code_simp

text \<open>A spend recorded after its reservation was released is not counted at all.\<close>

theorem recorded_after_release_uncounted:
  "(let db = release_spend ''p1'' (fst (reserve_spend plain_chain no_global ''w'' ''T'' 5 ''d'' ''p1'' 1 0 ''c1'' (fresh_db small_caps)));
        db' = record_spend ''w'' ''T'' 5 ''d'' ''p1'' 2 0 ''c1'' db
    in reservation_state ''p1'' db' = Some Released \<and> held_within db' ''w'' ''T'' (2 - day_seconds) None None = 0)"
  by code_simp

end
