(* ===== verification/Fee_Ledger.thy ===== *)
theory Fee_Ledger
  imports Vool_Prelude
begin

text \<open>
  The service-fee ledger of the money law, from \<open>src/core/service_fee_ledger.py\<close>: exact sub-atomic fee
  accounting (an obligation is an integer numerator over \<open>SCALE\<close>), reversals bounded by the payment they
  refund, and collections that hold, retire or give back whole units. The two SQL tables are a list of entries
  (the row id is the position, from 1) and a dictionary of collections; an operation that raises leaves both as
  they were, because its caller's transaction rolls back. The random collection id is an argument.
\<close>

section \<open>Tables\<close>

datatype entry_kind = Entry_Accrual | Entry_Reversal

record fee_facts =
  fa_liability :: string
  fa_operation :: string
  fa_payer :: string
  fa_network :: string
  fa_asset :: string
  fa_treasury :: string
  fa_policy :: string
  fa_basis :: int
  fa_rate :: int
  fa_evidence :: string
  fa_evidence_kind :: string
  fa_source :: string

record fee_entry = fee_facts +
  en_identity :: string
  en_kind :: entry_kind
  en_numerator :: int
  en_at :: time

datatype coll_state = Coll_Offered | Coll_Claimed | Coll_Submitted | Coll_Confirmed | Coll_Failed | Coll_Released

record fee_collection =
  co_identity :: string
  co_payer :: string
  co_network :: string
  co_asset :: string
  co_treasury :: string
  co_policy :: string
  co_amount :: int
  co_through :: int
  co_owed_at_offer :: int
  co_state :: coll_state
  co_version :: int
  co_proposal :: string
  co_wallet :: string
  co_quote :: string
  co_payment :: string
  co_fee_max :: int
  co_fee_asset :: string
  co_signature :: string
  co_offered :: time
  co_claimed :: "time option"
  co_resolved :: "time option"
  co_expires :: time
  co_close_reason :: string

record fee_db =
  fee_entries :: "fee_entry list"
  fee_collections :: "(string, fee_collection) dict"

datatype fee_error =
    Fee_invalid_amount | Fee_identity_incomplete | Fee_accrual_conflict
  | Fee_nothing_to_reverse | Fee_reversal_conflict | Fee_reversal_exceeds_accrual
  | Fee_collection_open | Fee_not_collectible | Fee_collection_conflict | Fee_not_offered
  | Fee_already_bound | Fee_unbound | Fee_version_changed | Fee_collection_expired | Fee_amount_changed
  | Fee_binding_changed | Fee_ceiling_exceeded | Fee_accrual_changed | Fee_not_claimed
  | Fee_not_in_custody | Fee_in_custody | Fee_integrity_error

definition coll_open :: "coll_state \<Rightarrow> bool" where
  "coll_open s \<longleftrightarrow> s = Coll_Offered \<or> s = Coll_Claimed \<or> s = Coll_Submitted"

definition in_custody :: "coll_state \<Rightarrow> bool" where
  "in_custody s \<longleftrightarrow> s = Coll_Claimed \<or> s = Coll_Submitted"

section \<open>Exact arithmetic\<close>

definition fee_scale :: int where "fee_scale = 10000"

definition fee_numerator :: "int \<Rightarrow> int \<Rightarrow> fee_error + int" where
  "fee_numerator basis rate = (if basis < 0 \<or> rate < 0 then Inl Fee_invalid_amount else Inr (basis * rate))"

definition fee_ceiling_atomic :: "int \<Rightarrow> int \<Rightarrow> fee_error + int" where
  "fee_ceiling_atomic basis rate = and_then (fee_numerator basis rate) (\<lambda>n. Inr (- ((- n) div fee_scale)))"

definition whole_atomic :: "int \<Rightarrow> int" where
  "whole_atomic n = (if n \<ge> 0 then n div fee_scale else 0)"

definition carry_of :: "int \<Rightarrow> int" where
  "carry_of n = (if n \<ge> 0 then n mod fee_scale else 0)"

definition numerator_decimal :: "int \<Rightarrow> nat \<Rightarrow> string" where
  "numerator_decimal n decimals =
     (let places = decimals + 4; sign = (if n < 0 then ''-'' else []);
          digits = rjust0 (places + 1) (show_nat (nat \<bar>n\<bar>));
          whole = take (length digits - places) digits; fraction = rstrip0 (drop (length digits - places) digits)
      in if fraction \<noteq> [] then sign @ whole @ ''.'' @ fraction else sign @ whole)"

definition numerator_atomic_text :: "int \<Rightarrow> string" where
  "numerator_atomic_text n = numerator_decimal n 0"

section \<open>Identities\<close>

definition identity_separator :: string where "identity_separator = '' // ''"

definition clean_part :: "string \<Rightarrow> bool" where
  "clean_part p \<longleftrightarrow> p \<noteq> [] \<and> list_all (\<lambda>c. \<not> py_isspace c) p"

definition identity_key :: "string \<Rightarrow> string \<Rightarrow> string \<Rightarrow> string \<Rightarrow> string \<Rightarrow> fee_error + string" where
  "identity_key payer network asset treasury policy =
     (if list_all clean_part [payer, network, asset, treasury, policy]
      then Inr (py_join identity_separator [payer, network, asset, treasury, policy])
      else Inl Fee_identity_incomplete)"

text \<open>\<open>s.split(sep)\<close> for a separator of several characters.\<close>

function split_str :: "string \<Rightarrow> string \<Rightarrow> string list" where
  "split_str sep s =
     (if sep = [] \<or> s = [] then [s]
      else if prefix sep s then [] # split_str sep (drop (length sep) s)
      else (case split_str sep (tl s) of [] \<Rightarrow> [s] | w # ws \<Rightarrow> (hd s # w) # ws))"
  by pat_completeness auto
termination by (relation "measure (length \<circ> snd)") (auto simp: neq_Nil_conv)

declare split_str.simps [simp del]

definition identity_parts :: "string \<Rightarrow> fee_error + string list" where
  "identity_parts key = (let parts = split_str identity_separator key in
     if length parts \<noteq> 5 \<or> list_ex (\<lambda>p. p = []) parts then Inl Fee_identity_incomplete else Inr parts)"

section \<open>Reads\<close>

record fee_position =
  pos_accrued :: int
  pos_retired :: int
  pos_net :: int
  pos_owed :: int
  pos_carry :: int
  pos_overcollected :: int
  pos_held :: int
  pos_collectible :: int
  pos_last_entry :: int

definition accrued_of :: "fee_entry list \<Rightarrow> string \<Rightarrow> int" where
  "accrued_of es key = sum_list (map (\<lambda>e. if en_identity e = key then en_numerator e else 0) es)"

fun last_entry_of :: "int \<Rightarrow> fee_entry list \<Rightarrow> string \<Rightarrow> int" where
  "last_entry_of i [] key = 0"
| "last_entry_of i (e # es) key = (if en_identity e = key then max i (last_entry_of (i + 1) es key) else last_entry_of (i + 1) es key)"

definition retired_of :: "(string, fee_collection) dict \<Rightarrow> string \<Rightarrow> int" where
  "retired_of cs key = dict_sum (\<lambda>c. if co_identity c = key \<and> co_state c = Coll_Confirmed then co_amount c * fee_scale else 0) cs"

definition held_of :: "(string, fee_collection) dict \<Rightarrow> string \<Rightarrow> int" where
  "held_of cs key = dict_sum (\<lambda>c. if co_identity c = key \<and> coll_open (co_state c) then co_amount c else 0) cs"

definition owed :: "fee_db \<Rightarrow> string \<Rightarrow> fee_position" where
  "owed db key =
     (let accrued = accrued_of (fee_entries db) key; retired = retired_of (fee_collections db) key;
          held = held_of (fee_collections db) key; net = accrued - retired; representable = whole_atomic net
      in \<lparr>pos_accrued = accrued, pos_retired = retired, pos_net = net, pos_owed = representable, pos_carry = carry_of net,
          pos_overcollected = max (- net) 0, pos_held = held, pos_collectible = max (representable - held) 0,
          pos_last_entry = last_entry_of 1 (fee_entries db) key\<rparr>)"

definition entries_for_liability :: "fee_db \<Rightarrow> string \<Rightarrow> fee_entry list" where
  "entries_for_liability db lid = filter (\<lambda>e. fa_liability e = lid) (fee_entries db)"

definition accrual_for_liability :: "fee_db \<Rightarrow> string \<Rightarrow> fee_entry option" where
  "accrual_for_liability db lid = find (\<lambda>e. fa_liability e = lid \<and> en_kind e = Entry_Accrual) (fee_entries db)"

definition open_collection :: "fee_db \<Rightarrow> string \<Rightarrow> (string \<times> fee_collection) option" where
  "open_collection db key = find (\<lambda>(i, c). co_identity c = key \<and> coll_open (co_state c)) (fee_collections db)"

definition collection_for_proposal :: "fee_db \<Rightarrow> string \<Rightarrow> (string \<times> fee_collection) option" where
  "collection_for_proposal db pid = (if pid = [] then None else find (\<lambda>(i, c). co_proposal c = pid) (fee_collections db))"

section \<open>Accrual and reversal\<close>

record accrual =
  ac_identity :: string
  ac_numerator :: int
  ac_idempotent :: bool
  ac_newly_representable :: int
  ac_owed_after :: fee_position

text \<open>The stored entry of a payment.\<close>

definition mk_entry :: "fee_facts \<Rightarrow> string \<Rightarrow> entry_kind \<Rightarrow> int \<Rightarrow> time \<Rightarrow> fee_entry" where
  "mk_entry f key kind n now = fee_facts.extend f (fee_entry.fields key kind n now)"

definition accrue :: "fee_facts \<Rightarrow> time \<Rightarrow> fee_db \<Rightarrow> fee_db \<times> (fee_error + accrual)" where
  "accrue f now db =
     (case identity_key (fa_payer f) (fa_network f) (fa_asset f) (fa_treasury f) (fa_policy f) of
        Inl e \<Rightarrow> (db, Inl e)
      | Inr key \<Rightarrow>
        (case accrual_for_liability db (fa_liability f) of
           Some e \<Rightarrow>
             if en_identity e \<noteq> key \<or> fa_basis e \<noteq> fa_basis f then (db, Inl Fee_accrual_conflict)
             else (db, Inr \<lparr>ac_identity = en_identity e, ac_numerator = en_numerator e, ac_idempotent = True,
                            ac_newly_representable = 0, ac_owed_after = owed db key\<rparr>)
         | None \<Rightarrow>
             if fa_basis f \<le> 0 then (db, Inl Fee_invalid_amount)
             else (case fee_numerator (fa_basis f) (fa_rate f) of
                 Inl e \<Rightarrow> (db, Inl e)
               | Inr n \<Rightarrow>
                   (let db' = db\<lparr>fee_entries := fee_entries db @ [mk_entry f key Entry_Accrual n now]\<rparr>;
                        prior = owed db key; later = owed db' key
                    in (db', Inr \<lparr>ac_identity = key, ac_numerator = n, ac_idempotent = False,
                                  ac_newly_representable = max (pos_owed later - pos_owed prior) 0, ac_owed_after = later\<rparr>)))))"

definition is_reversal :: "string \<Rightarrow> fee_entry \<Rightarrow> bool" where
  "is_reversal lid e \<longleftrightarrow> fa_liability e = lid \<and> en_kind e = Entry_Reversal"

definition reversed_basis :: "fee_db \<Rightarrow> string \<Rightarrow> int" where
  "reversed_basis db lid = sum_list (map (\<lambda>e. if is_reversal lid e then fa_basis e else 0) (fee_entries db))"

definition reverse :: "string \<Rightarrow> int \<Rightarrow> string \<Rightarrow> string \<Rightarrow> string \<Rightarrow> time \<Rightarrow> fee_db \<Rightarrow> fee_db \<times> (fee_error + int)" where
  "reverse lid refunded evidence_id evidence_kind source now db =
     (case accrual_for_liability db lid of
        None \<Rightarrow> (db, Inl Fee_nothing_to_reverse)
      | Some a \<Rightarrow>
          if refunded \<le> 0 then (db, Inl Fee_invalid_amount)
          else (case find (\<lambda>e. is_reversal lid e \<and> fa_evidence e = evidence_id) (fee_entries db) of
              Some p \<Rightarrow> if fa_basis p \<noteq> refunded then (db, Inl Fee_reversal_conflict) else (db, Inr (en_numerator p))
            | None \<Rightarrow>
                if reversed_basis db lid + refunded > fa_basis a then (db, Inl Fee_reversal_exceeds_accrual)
                else (case fee_numerator refunded (fa_rate a) of
                    Inl e \<Rightarrow> (db, Inl e)
                  | Inr n \<Rightarrow>
                      (let e = a\<lparr>fa_basis := refunded, fa_evidence := evidence_id, fa_evidence_kind := evidence_kind,
                                 fa_source := source, en_kind := Entry_Reversal, en_numerator := - n, en_at := now\<rparr>
                       in (db\<lparr>fee_entries := fee_entries db @ [e]\<rparr>, Inr (- n))))))"

section \<open>Collections\<close>

definition offer_collection :: "string \<Rightarrow> string \<Rightarrow> int \<Rightarrow> time \<Rightarrow> int \<Rightarrow> string \<Rightarrow> time \<Rightarrow> fee_db \<Rightarrow> fee_db \<times> (fee_error + unit)" where
  "offer_collection cid key amount expires fee_max fee_asset now db =
     (if amount \<le> 0 then (db, Inl Fee_invalid_amount)
      else if open_collection db key \<noteq> None then (db, Inl Fee_collection_open)
      else if amount > pos_collectible (owed db key) then (db, Inl Fee_not_collectible)
      else (case identity_parts key of
          Inr [payer, network, asset, treasury, policy] \<Rightarrow>
            if dict_get (fee_collections db) cid \<noteq> None then (db, Inl Fee_integrity_error) else
            (db\<lparr>fee_collections := dict_set cid
                \<lparr>co_identity = key, co_payer = payer, co_network = network, co_asset = asset, co_treasury = treasury, co_policy = policy,
                 co_amount = amount, co_through = pos_last_entry (owed db key), co_owed_at_offer = pos_net (owed db key),
                 co_state = Coll_Offered, co_version = 1, co_proposal = [], co_wallet = [], co_quote = [], co_payment = [],
                 co_fee_max = max 0 fee_max, co_fee_asset = fee_asset, co_signature = [], co_offered = now, co_claimed = None,
                 co_resolved = None, co_expires = expires, co_close_reason = []\<rparr> (fee_collections db)\<rparr>, Inr ())
        | _ \<Rightarrow> (db, Inl Fee_identity_incomplete)))"

text \<open>The compare-and-set: the row read in the same transaction is still current, so it moves and its version rises.\<close>

definition coll_cas :: "string \<Rightarrow> fee_collection \<Rightarrow> fee_db \<Rightarrow> fee_db" where
  "coll_cas cid c db = db\<lparr>fee_collections := dict_set cid (c\<lparr>co_version := co_version c + 1\<rparr>) (fee_collections db)\<rparr>"

definition bind_collection :: "string \<Rightarrow> string \<Rightarrow> string \<Rightarrow> string \<Rightarrow> fee_db \<Rightarrow> fee_db \<times> (fee_error + unit)" where
  "bind_collection cid proposal wallet payment db =
     (case dict_get (fee_collections db) cid of
        None \<Rightarrow> (db, Inl Fee_not_offered)
      | Some c \<Rightarrow>
          if co_state c \<noteq> Coll_Offered then (db, Inl Fee_not_offered)
          else if co_proposal c \<noteq> [] then (db, Inl Fee_already_bound)
          else if collection_for_proposal db proposal \<noteq> None then (db, Inl Fee_integrity_error)
          else (coll_cas cid (c\<lparr>co_proposal := proposal, co_wallet := wallet, co_payment := payment\<rparr>) db, Inr ()))"

definition claim_collection :: "string \<Rightarrow> string \<Rightarrow> int \<Rightarrow> string \<Rightarrow> string \<Rightarrow> string \<Rightarrow> int \<Rightarrow> time \<Rightarrow> int option
    \<Rightarrow> fee_db \<Rightarrow> fee_db \<times> (fee_error + unit)" where
  "claim_collection proposal quote_id amount treasury network asset fee_max now expected db =
     (case collection_for_proposal db proposal of
        None \<Rightarrow> (db, Inl Fee_unbound)
      | Some (cid, c) \<Rightarrow>
          if co_state c \<noteq> Coll_Offered then (db, Inl Fee_not_offered)
          else if (case expected of None \<Rightarrow> False | Some v \<Rightarrow> co_version c \<noteq> v) then (db, Inl Fee_version_changed)
          else if co_expires c \<noteq> 0 \<and> co_expires c \<le> now then (db, Inl Fee_collection_expired)
          else if amount \<le> 0 then (db, Inl Fee_invalid_amount)
          else if co_amount c \<noteq> amount then (db, Inl Fee_amount_changed)
          else if co_treasury c \<noteq> treasury \<or> co_network c \<noteq> network \<or> co_asset c \<noteq> asset then (db, Inl Fee_binding_changed)
          else if co_fee_max c \<noteq> 0 \<and> fee_max > co_fee_max c then (db, Inl Fee_ceiling_exceeded)
          else (let pos = owed db (co_identity c); others = pos_held pos - co_amount c in
            if pos_owed pos - max others 0 < co_amount c then (db, Inl Fee_accrual_changed)
            else (coll_cas cid (c\<lparr>co_state := Coll_Claimed, co_quote := quote_id, co_claimed := Some now, co_fee_max := max 0 fee_max\<rparr>) db, Inr ())))"

definition mark_submitted :: "string \<Rightarrow> fee_db \<Rightarrow> fee_db \<times> (fee_error + unit)" where
  "mark_submitted proposal db =
     (case collection_for_proposal db proposal of
        None \<Rightarrow> (db, Inr ())
      | Some (cid, c) \<Rightarrow>
          if co_state c = Coll_Submitted then (db, Inr ())
          else if co_state c \<noteq> Coll_Claimed then (db, Inl Fee_not_claimed)
          else (coll_cas cid (c\<lparr>co_state := Coll_Submitted\<rparr>) db, Inr ()))"

definition confirm_collection :: "string \<Rightarrow> string \<Rightarrow> time \<Rightarrow> fee_db \<Rightarrow> fee_db \<times> (fee_error + unit)" where
  "confirm_collection proposal signature now db =
     (case collection_for_proposal db proposal of
        None \<Rightarrow> (db, Inr ())
      | Some (cid, c) \<Rightarrow>
          if co_state c = Coll_Confirmed then
            (if co_signature c \<noteq> signature then (db, Inl Fee_collection_conflict) else (db, Inr ()))
          else if \<not> in_custody (co_state c) then (db, Inl Fee_not_in_custody)
          else (coll_cas cid (c\<lparr>co_state := Coll_Confirmed, co_signature := signature, co_resolved := Some now,
                                co_close_reason := ''confirmed_on_chain''\<rparr>) db, Inr ()))"

definition fail_collection :: "string \<Rightarrow> string \<Rightarrow> time \<Rightarrow> fee_db \<Rightarrow> fee_db \<times> (fee_error + unit)" where
  "fail_collection proposal reason now db =
     (case collection_for_proposal db proposal of
        None \<Rightarrow> (db, Inr ())
      | Some (cid, c) \<Rightarrow>
          if co_state c = Coll_Failed then (db, Inr ())
          else if \<not> in_custody (co_state c) then (db, Inl Fee_not_in_custody)
          else (coll_cas cid (c\<lparr>co_state := Coll_Failed, co_resolved := Some now,
                                co_close_reason := take 120 (if reason = [] then ''failed_on_chain'' else reason)\<rparr>) db, Inr ()))"

definition release_collection :: "string \<Rightarrow> string \<Rightarrow> string \<Rightarrow> time \<Rightarrow> coll_state option \<Rightarrow> int option
    \<Rightarrow> fee_db \<Rightarrow> fee_db \<times> (fee_error + unit)" where
  "release_collection proposal collection_id reason now expected_state expected_version db =
     (case (if proposal \<noteq> [] then collection_for_proposal db proposal
            else map_option (Pair collection_id) (dict_get (fee_collections db) collection_id)) of
        None \<Rightarrow> (db, Inr ())
      | Some (cid, c) \<Rightarrow>
          if co_state c = Coll_Released then (db, Inr ())
          else if (case expected_state of None \<Rightarrow> False | Some s \<Rightarrow> co_state c \<noteq> s) then (db, Inl Fee_collection_conflict)
          else if (case expected_version of None \<Rightarrow> False | Some v \<Rightarrow> co_version c \<noteq> v) then (db, Inl Fee_collection_conflict)
          else if co_state c \<noteq> Coll_Offered \<and> co_state c \<noteq> Coll_Claimed then (db, Inl Fee_in_custody)
          else (coll_cas cid (c\<lparr>co_state := Coll_Released, co_resolved := Some now,
                                co_close_reason := take 120 (if reason = [] then ''released'' else reason)\<rparr>) db, Inr ()))"

definition expire_offer :: "string \<Rightarrow> time \<Rightarrow> fee_db \<Rightarrow> fee_db \<times> bool" where
  "expire_offer cid now db =
     (case dict_get (fee_collections db) cid of
        None \<Rightarrow> (db, False)
      | Some c \<Rightarrow>
          if co_state c = Coll_Offered \<and> co_expires c > 0 \<and> co_expires c \<le> now
          then (coll_cas cid (c\<lparr>co_state := Coll_Released, co_resolved := Some now, co_close_reason := ''offer_expired''\<rparr>) db, True)
          else (db, False))"

text \<open>Every operation that changes the ledger.\<close>

datatype fee_op =
    Accrue fee_facts time
  | Reverse string int string string string time
  | Offer string string int time int string time
  | Bind string string string string
  | Claim string string int string string string int time "int option"
  | Submit string
  | Confirm string string time
  | Fail string string time
  | Release string string string time "coll_state option" "int option"
  | Expire string time

fun fee_step :: "fee_op \<Rightarrow> fee_db \<Rightarrow> fee_db" where
  "fee_step (Accrue f now) db = fst (accrue f now db)"
| "fee_step (Reverse l r ev k s now) db = fst (reverse l r ev k s now db)"
| "fee_step (Offer cid key a ex fm fas now) db = fst (offer_collection cid key a ex fm fas now db)"
| "fee_step (Bind cid p w pay) db = fst (bind_collection cid p w pay db)"
| "fee_step (Claim p q a t n asset fm now ex) db = fst (claim_collection p q a t n asset fm now ex db)"
| "fee_step (Submit p) db = fst (mark_submitted p db)"
| "fee_step (Confirm p s now) db = fst (confirm_collection p s now db)"
| "fee_step (Fail p r now) db = fst (fail_collection p r now db)"
| "fee_step (Release p c r now es ev) db = fst (release_collection p c r now es ev db)"
| "fee_step (Expire cid now) db = fst (expire_offer cid now db)"

definition fee_run :: "fee_op list \<Rightarrow> fee_db \<Rightarrow> fee_db" where
  "fee_run ops db = fold fee_step ops db"

definition fresh_ledger :: fee_db where
  "fresh_ledger = \<lparr>fee_entries = [], fee_collections = []\<rparr>"

section \<open>What a ledger keeps\<close>

definition gross_of :: "fee_entry list \<Rightarrow> string \<Rightarrow> int" where
  "gross_of es key = sum_list (map (\<lambda>e. if en_identity e = key \<and> en_kind e = Entry_Accrual then en_numerator e else 0) es)"

definition net_of_liability :: "fee_entry list \<Rightarrow> string \<Rightarrow> int" where
  "net_of_liability es lid = sum_list (map (\<lambda>e. if fa_liability e = lid then en_numerator e else 0) es)"

definition backing :: "string \<Rightarrow> fee_collection \<Rightarrow> int" where
  "backing key c = (if co_identity c = key \<and> (coll_open (co_state c) \<or> co_state c = Coll_Confirmed) then co_amount c * fee_scale else 0)"

definition one_open :: "fee_db \<Rightarrow> bool" where
  "one_open db \<longleftrightarrow> (\<forall>i j c d. dict_get (fee_collections db) i = Some c \<longrightarrow> dict_get (fee_collections db) j = Some d
     \<longrightarrow> coll_open (co_state c) \<longrightarrow> coll_open (co_state d) \<longrightarrow> co_identity c = co_identity d \<longrightarrow> i = j)"

definition liability_sound :: "fee_entry list \<Rightarrow> string \<Rightarrow> bool" where
  "liability_sound es lid \<longleftrightarrow>
     (case find (\<lambda>e. fa_liability e = lid \<and> en_kind e = Entry_Accrual) es of
        None \<Rightarrow> (\<forall>e\<in>set es. fa_liability e \<noteq> lid)
      | Some a \<Rightarrow> 0 \<le> fa_rate a \<and> sum_list (map (\<lambda>e. if is_reversal lid e then fa_basis e else 0) es) \<le> fa_basis a
          \<and> net_of_liability es lid = (fa_basis a - sum_list (map (\<lambda>e. if is_reversal lid e then fa_basis e else 0) es)) * fa_rate a)"

definition fee_sound :: "fee_db \<Rightarrow> bool" where
  "fee_sound db \<longleftrightarrow> wf_dict (fee_collections db)
     \<and> (\<forall>e\<in>set (fee_entries db). en_kind e = Entry_Reversal \<longrightarrow> en_numerator e \<le> 0)
     \<and> (\<forall>e\<in>set (fee_entries db). en_kind e = Entry_Accrual \<longrightarrow> 0 \<le> en_numerator e)
     \<and> (\<forall>i c. dict_get (fee_collections db) i = Some c \<longrightarrow> 0 < co_amount c)
     \<and> (\<forall>key. dict_sum (backing key) (fee_collections db) \<le> gross_of (fee_entries db) key)
     \<and> one_open db \<and> (\<forall>lid. liability_sound (fee_entries db) lid)"

lemma owed_simps [simp]:
  "pos_accrued (owed db key) = accrued_of (fee_entries db) key"
  "pos_retired (owed db key) = retired_of (fee_collections db) key"
  "pos_held (owed db key) = held_of (fee_collections db) key"
  "pos_net (owed db key) = accrued_of (fee_entries db) key - retired_of (fee_collections db) key"
  "pos_owed (owed db key) = whole_atomic (accrued_of (fee_entries db) key - retired_of (fee_collections db) key)"
  "pos_carry (owed db key) = carry_of (accrued_of (fee_entries db) key - retired_of (fee_collections db) key)"
  "pos_collectible (owed db key) = max (whole_atomic (accrued_of (fee_entries db) key - retired_of (fee_collections db) key)
     - held_of (fee_collections db) key) 0"
  by (simp_all add: owed_def Let_def)

lemma mk_entry_simps [simp]:
  "fa_liability (mk_entry f key k n t) = fa_liability f" "fa_basis (mk_entry f key k n t) = fa_basis f"
  "fa_rate (mk_entry f key k n t) = fa_rate f" "fa_evidence (mk_entry f key k n t) = fa_evidence f"
  "en_identity (mk_entry f key k n t) = key" "en_kind (mk_entry f key k n t) = k" "en_numerator (mk_entry f key k n t) = n"
  by (simp_all add: mk_entry_def fee_facts.extend_def fee_entry.fields_def fee_facts.defs fee_entry.defs)

lemma backing_split: "retired_of cs key + fee_scale * held_of cs key = dict_sum (backing key) cs"
  by (induction cs) (auto simp: retired_of_def held_of_def backing_def coll_open_def algebra_simps)

lemma accrued_le_gross:
  "\<forall>e\<in>set es. en_kind e = Entry_Reversal \<longrightarrow> en_numerator e \<le> 0 \<Longrightarrow> accrued_of es key \<le> gross_of es key"
proof (induction es)
  case (Cons e es)
  then show ?case by (cases "en_kind e") (auto simp: accrued_of_def gross_of_def)
qed (simp add: accrued_of_def gross_of_def)

lemma gross_append [simp]: "gross_of (es @ [e]) key = gross_of es key + (if en_identity e = key \<and> en_kind e = Entry_Accrual then en_numerator e else 0)"
  by (simp add: gross_of_def)

lemma accrued_append [simp]: "accrued_of (es @ [e]) key = accrued_of es key + (if en_identity e = key then en_numerator e else 0)"
  by (simp add: accrued_of_def)

section \<open>The life of a collection\<close>

definition coll_next :: "coll_state \<Rightarrow> coll_state list" where
  "coll_next s = (case s of
      Coll_Offered \<Rightarrow> [Coll_Offered, Coll_Claimed, Coll_Released]
    | Coll_Claimed \<Rightarrow> [Coll_Submitted, Coll_Confirmed, Coll_Failed, Coll_Released]
    | Coll_Submitted \<Rightarrow> [Coll_Confirmed, Coll_Failed]
    | _ \<Rightarrow> [])"

interpretation coll: transition_table coll_next "\<lambda>s. s = Coll_Confirmed \<or> s = Coll_Failed \<or> s = Coll_Released"
  by unfold_locales (auto simp: coll_next_def)

text \<open>An operation on a collection leaves the ledger, or moves one collection along one edge, amount and identity kept.\<close>

definition coll_moves :: "fee_db \<Rightarrow> fee_db \<Rightarrow> bool" where
  "coll_moves db db' \<longleftrightarrow> db' = db \<or> (\<exists>cid c c'. dict_get (fee_collections db) cid = Some c \<and> db' = coll_cas cid c' db
     \<and> co_identity c' = co_identity c \<and> co_amount c' = co_amount c \<and> co_state c' \<in> set (coll_next (co_state c)))"

lemma coll_moves_refl [simp]: "coll_moves db db"
  by (simp add: coll_moves_def)

lemma coll_moves_cas:
  "dict_get (fee_collections db) cid = Some c \<Longrightarrow> co_identity c' = co_identity c \<Longrightarrow> co_amount c' = co_amount c
    \<Longrightarrow> co_state c' \<in> set (coll_next (co_state c)) \<Longrightarrow> coll_moves db (coll_cas cid c' db)"
  by (auto simp: coll_moves_def)

declare map_of_eq_Some_iff [simp del] Some_eq_map_of_iff [simp del]

lemma find_dict: "wf_dict d \<Longrightarrow> find P d = Some (k, v) \<Longrightarrow> dict_get d k = Some v"
  by (rule dict_mem_get) (auto simp: find_Some_iff set_conv_nth)

lemma collection_for_proposal_get:
  "wf_dict (fee_collections db) \<Longrightarrow> collection_for_proposal db p = Some (cid, c) \<Longrightarrow> dict_get (fee_collections db) cid = Some c"
  by (cases "p = []") (simp_all add: collection_for_proposal_def find_dict)

lemma bind_moves: "coll_moves db (fst (bind_collection cid p w pay db))"
  by (auto simp: bind_collection_def coll_next_def split: option.split intro!: coll_moves_cas)

lemma by_proposal_moves:
  assumes "wf_dict (fee_collections db)"
    and "\<And>cid c. dict_get (fee_collections db) cid = Some c \<Longrightarrow> coll_moves db (fst (f (cid, c)))"
  shows "coll_moves db (fst (case collection_for_proposal db p of None \<Rightarrow> (db, e) | Some x \<Rightarrow> f x))"
  using assms(2) collection_for_proposal_get [OF assms(1)] by (auto split: option.split)

lemma claim_moves:
  "wf_dict (fee_collections db) \<Longrightarrow> coll_moves db (fst (claim_collection p q a t n asset fm now ex db))"
  unfolding claim_collection_def by (rule by_proposal_moves) (auto simp: Let_def coll_next_def intro!: coll_moves_cas)

lemma submit_moves: "wf_dict (fee_collections db) \<Longrightarrow> coll_moves db (fst (mark_submitted p db))"
  unfolding mark_submitted_def by (rule by_proposal_moves) (auto simp: coll_next_def intro!: coll_moves_cas)

lemma confirm_moves: "wf_dict (fee_collections db) \<Longrightarrow> coll_moves db (fst (confirm_collection p s now db))"
  unfolding confirm_collection_def
  by (rule by_proposal_moves) (auto simp: coll_next_def in_custody_def intro!: coll_moves_cas)

lemma fail_moves: "wf_dict (fee_collections db) \<Longrightarrow> coll_moves db (fst (fail_collection p r now db))"
  unfolding fail_collection_def
  by (rule by_proposal_moves) (auto simp: coll_next_def in_custody_def intro!: coll_moves_cas)

lemma expire_moves: "coll_moves db (fst (expire_offer cid now db))"
  by (auto simp: expire_offer_def coll_next_def split: option.split intro!: coll_moves_cas)

lemma release_moves:
  assumes "wf_dict (fee_collections db)"
  shows "coll_moves db (fst (release_collection p cid r now es ev db))"
proof (cases "if p \<noteq> [] then collection_for_proposal db p else map_option (Pair cid) (dict_get (fee_collections db) cid)")
  case None
  then show ?thesis by (simp add: release_collection_def)
next
  case (Some x)
  obtain i c where x: "x = (i, c)" by (cases x)
  have "dict_get (fee_collections db) i = Some c"
    using Some collection_for_proposal_get [OF assms] by (cases "p = []") (auto simp: x)
  then show ?thesis unfolding release_collection_def Some x
    by (auto simp: coll_next_def intro!: coll_moves_cas)
qed

lemmas coll_ops_move = bind_moves claim_moves submit_moves confirm_moves fail_moves expire_moves release_moves

lemma coll_moves_entries: "coll_moves db db' \<Longrightarrow> fee_entries db' = fee_entries db"
  by (auto simp: coll_moves_def coll_cas_def)

lemma backing_next: "co_identity c' = co_identity c \<Longrightarrow> co_amount c' = co_amount c \<Longrightarrow> 0 < co_amount c
    \<Longrightarrow> co_state c' \<in> set (coll_next (co_state c)) \<Longrightarrow> backing key (c'\<lparr>co_version := v\<rparr>) \<le> backing key c"
  by (cases "co_state c") (auto simp: backing_def coll_open_def coll_next_def fee_scale_def)

lemma open_next: "co_state c' \<in> set (coll_next (co_state c)) \<Longrightarrow> coll_open (co_state c') \<Longrightarrow> coll_open (co_state c)"
  by (cases "co_state c") (auto simp: coll_open_def coll_next_def)

lemma fee_sound_moves:
  assumes "fee_sound db" "coll_moves db db'"
  shows "fee_sound db'"
  using assms(2) unfolding coll_moves_def
proof (elim disjE exE conjE)
  fix cid c c'
  assume c: "dict_get (fee_collections db) cid = Some c" and db': "db' = coll_cas cid c' db"
    and same: "co_identity c' = co_identity c" "co_amount c' = co_amount c" and next': "co_state c' \<in> set (coll_next (co_state c))"
  have wf: "wf_dict (fee_collections db)" and pos: "0 < co_amount c" and one: "one_open db"
    using assms(1) c by (auto simp: fee_sound_def)
  have "dict_sum (backing key) (fee_collections db') \<le> dict_sum (backing key) (fee_collections db)" for key
    using backing_next [OF same pos next', of key "co_version c' + 1"] by (simp add: db' coll_cas_def dict_sum_set [OF wf] c)
  moreover have "one_open db'"
    using one c same(1) open_next [OF next'] by (auto simp: one_open_def db' coll_cas_def)
  moreover have "\<forall>i d. dict_get (fee_collections db') i = Some d \<longrightarrow> 0 < co_amount d"
    using assms(1) pos same(2) by (auto simp: fee_sound_def db' coll_cas_def)
  moreover have "wf_dict (fee_collections db')" "fee_entries db' = fee_entries db"
    using wf by (simp_all add: db' coll_cas_def)
  ultimately show ?thesis using assms(1) order_trans by (fastforce simp: fee_sound_def)
qed (use assms(1) in simp)

section \<open>Accruals and reversals keep the ledger sound\<close>

lemma find_append: "find P (xs @ [x]) = (case find P xs of Some y \<Rightarrow> Some y | None \<Rightarrow> if P x then Some x else None)"
  by (induction xs) auto

lemma net_append [simp]: "net_of_liability (es @ [e]) lid = net_of_liability es lid + (if fa_liability e = lid then en_numerator e else 0)"
  by (simp add: net_of_liability_def)

lemma liability_sound_other:
  "fa_liability e \<noteq> lid \<Longrightarrow> liability_sound es lid \<Longrightarrow> liability_sound (es @ [e]) lid"
  by (auto simp: liability_sound_def find_append is_reversal_def split: option.splits)

lemma no_entries_sums:
  "\<forall>e\<in>set es. fa_liability e \<noteq> lid \<Longrightarrow> net_of_liability es lid = 0 \<and> sum_list (map (\<lambda>e. if is_reversal lid e then fa_basis e else 0) es) = 0"
  by (induction es) (auto simp: net_of_liability_def is_reversal_def)

lemma fee_soundD:
  assumes "fee_sound db"
  shows "wf_dict (fee_collections db)" "e \<in> set (fee_entries db) \<Longrightarrow> en_kind e = Entry_Reversal \<Longrightarrow> en_numerator e \<le> 0"
    "e \<in> set (fee_entries db) \<Longrightarrow> en_kind e = Entry_Accrual \<Longrightarrow> 0 \<le> en_numerator e"
    "dict_get (fee_collections db) i = Some c \<Longrightarrow> 0 < co_amount c"
    "dict_sum (backing key) (fee_collections db) \<le> gross_of (fee_entries db) key"
    "one_open db" "liability_sound (fee_entries db) lid"
  using assms unfolding fee_sound_def by blast+

lemma fee_soundI:
  assumes "wf_dict (fee_collections db)"
    and "\<And>e. e \<in> set (fee_entries db) \<Longrightarrow> en_kind e = Entry_Reversal \<Longrightarrow> en_numerator e \<le> 0"
    and "\<And>e. e \<in> set (fee_entries db) \<Longrightarrow> en_kind e = Entry_Accrual \<Longrightarrow> 0 \<le> en_numerator e"
    and "\<And>i c. dict_get (fee_collections db) i = Some c \<Longrightarrow> 0 < co_amount c"
    and "\<And>key. dict_sum (backing key) (fee_collections db) \<le> gross_of (fee_entries db) key"
    and "one_open db" "\<And>lid. liability_sound (fee_entries db) lid"
  shows "fee_sound db"
  using assms unfolding fee_sound_def by blast

lemma fee_sound_append:
  assumes sound: "fee_sound db"
    and rev: "en_kind e = Entry_Reversal \<Longrightarrow> en_numerator e \<le> 0" and acc: "en_kind e = Entry_Accrual \<Longrightarrow> 0 \<le> en_numerator e"
    and lid: "liability_sound (fee_entries db @ [e]) (fa_liability e)"
  shows "fee_sound (db\<lparr>fee_entries := fee_entries db @ [e]\<rparr>)" (is "fee_sound ?db")
proof (rule fee_soundI)
  fix key
  have "gross_of (fee_entries db) key \<le> gross_of (fee_entries db @ [e]) key" using acc by simp
  with fee_soundD(5) [OF sound, of key] show "dict_sum (backing key) (fee_collections ?db) \<le> gross_of (fee_entries ?db) key" by simp
next
  fix l
  show "liability_sound (fee_entries ?db) l"
    using lid liability_sound_other [of e l, OF _ fee_soundD(7) [OF sound]] by (cases "l = fa_liability e") auto
next
  show "one_open ?db" using fee_soundD(6) [OF sound] by (simp add: one_open_def)
qed (use fee_soundD(1-4) [OF sound] rev acc in \<open>auto simp del: map_of_eq_Some_iff\<close>)

lemma fee_sound_accrue:
  assumes "fee_sound db"
  shows "fee_sound (fst (accrue f now db))"
proof -
  have "fee_sound (db\<lparr>fee_entries := fee_entries db @ [mk_entry f key Entry_Accrual (fa_basis f * fa_rate f) now]\<rparr>)"
    if none: "accrual_for_liability db (fa_liability f) = None" and b: "0 < fa_basis f" and r: "0 \<le> fa_rate f" for key
  proof (rule fee_sound_append [OF assms])
    have "liability_sound (fee_entries db) (fa_liability f)" using assms by (simp add: fee_sound_def)
    then have "\<forall>e\<in>set (fee_entries db). fa_liability e \<noteq> fa_liability f"
      using none by (simp add: liability_sound_def accrual_for_liability_def)
    then show "liability_sound (fee_entries db @ [mk_entry f key Entry_Accrual (fa_basis f * fa_rate f) now])
        (fa_liability (mk_entry f key Entry_Accrual (fa_basis f * fa_rate f) now))"
      using none b r no_entries_sums [of "fee_entries db" "fa_liability f"]
      by (simp add: liability_sound_def find_append accrual_for_liability_def is_reversal_def)
  qed (use b r in simp_all)
  then show ?thesis using assms
    by (auto simp: accrue_def fee_numerator_def Let_def split: sum.split option.split)
qed

lemma fee_sound_reverse:
  assumes "fee_sound db"
  shows "fee_sound (fst (reverse lid refunded ev k s now db))"
proof -
  have "fee_sound (db\<lparr>fee_entries := fee_entries db @ [e]\<rparr>)"
    if a: "accrual_for_liability db lid = Some a" and r: "0 < refunded" "reversed_basis db lid + refunded \<le> fa_basis a"
      and e: "e = a\<lparr>fa_basis := refunded, fa_evidence := ev, fa_evidence_kind := k,
                    fa_source := s, en_kind := Entry_Reversal, en_numerator := - (refunded * fa_rate a), en_at := now\<rparr>" for a e
  proof (rule fee_sound_append [OF assms])
    have al: "fa_liability a = lid" using a by (auto simp: accrual_for_liability_def find_Some_iff)
    have ls: "liability_sound (fee_entries db) lid" using assms by (simp add: fee_sound_def)
    then have rate: "0 \<le> fa_rate a" using a by (simp add: liability_sound_def accrual_for_liability_def)
    from ls show "liability_sound (fee_entries db @ [e]) (fa_liability e)" using a r
      by (simp add: liability_sound_def find_append accrual_for_liability_def al e is_reversal_def reversed_basis_def algebra_simps)
    show "en_numerator e \<le> 0" using rate r by (simp add: e)
  qed (simp add: e)
  then show ?thesis using assms
    by (auto simp: reverse_def fee_numerator_def Let_def split: sum.split option.split)
qed

lemma open_collection_None:
  "open_collection db key = None \<Longrightarrow> dict_get (fee_collections db) i = Some c \<Longrightarrow> co_identity c = key \<Longrightarrow> \<not> coll_open (co_state c)"
  by (force simp: open_collection_def find_None_iff dest: dict_get_mem)

lemma held_of_none: "open_collection db key = None \<Longrightarrow> held_of (fee_collections db) key = 0"
  unfolding held_of_def by (rule dict_sum_zero) (force simp: open_collection_def find_None_iff)

lemma whole_atomic_le: "0 < a \<Longrightarrow> a \<le> max (whole_atomic n) 0 \<Longrightarrow> a * fee_scale \<le> n"
  by (auto simp: whole_atomic_def fee_scale_def split: if_splits)

lemma fee_sound_offer:
  assumes sound: "fee_sound db"
  shows "fee_sound (fst (offer_collection cid key amount ex fm fas now db))"
proof (cases "0 < amount \<and> open_collection db key = None \<and> amount \<le> pos_collectible (owed db key) \<and> dict_get (fee_collections db) cid = None")
  case True
  then have free: "open_collection db key = None" and new: "dict_get (fee_collections db) cid = None" and pos: "0 < amount" by auto
  have held: "held_of (fee_collections db) key = 0" by (rule held_of_none [OF free])
  have "amount * fee_scale \<le> accrued_of (fee_entries db) key - retired_of (fee_collections db) key"
    using True held by (intro whole_atomic_le) simp_all
  also have "\<dots> \<le> gross_of (fee_entries db) key - retired_of (fee_collections db) key"
    using sound accrued_le_gross by (auto simp: fee_sound_def)
  finally have room: "dict_sum (backing key) (fee_collections db) + amount * fee_scale \<le> gross_of (fee_entries db) key"
    using backing_split [of "fee_collections db" key] held by simp
  have "fee_sound (db\<lparr>fee_collections := dict_set cid c (fee_collections db)\<rparr>)"
    if c: "co_identity c = key" "co_amount c = amount" "co_state c = Coll_Offered" for c
  proof -
    have wf: "wf_dict (fee_collections db)" using sound by (simp add: fee_sound_def)
    have "dict_sum (backing k) (dict_set cid c (fee_collections db)) \<le> gross_of (fee_entries db) k" for k
      using sound room by (cases "k = key") (auto simp: dict_sum_set [OF wf] new backing_def c coll_open_def fee_sound_def)
    moreover have "one_open (db\<lparr>fee_collections := dict_set cid c (fee_collections db)\<rparr>)"
      using sound open_collection_None [OF free] c(1) by (auto simp: one_open_def fee_sound_def)
    ultimately show ?thesis using sound pos c(2) wf by (auto simp: fee_sound_def)
  qed
  then show ?thesis using sound by (auto simp: offer_collection_def Let_def split: sum.split list.split)
next
  case False
  then show ?thesis using sound by (auto simp: offer_collection_def Let_def split: sum.split list.split)
qed

lemma fee_sound_wf: "fee_sound db \<Longrightarrow> wf_dict (fee_collections db)"
  by (simp add: fee_sound_def)

interpretation fees: lawful_system fee_step "\<lambda>_ _. True" fee_sound
proof
  fix db x
  assume s: "fee_sound db"
  show "fee_sound (fee_step x db)"
    using s coll_ops_move [THEN [2] fee_sound_moves] fee_sound_wf [OF s]
    by (cases x) (simp_all add: fee_sound_accrue fee_sound_reverse fee_sound_offer)
qed

lemma fresh_sound: "fee_sound fresh_ledger"
  by (simp add: fee_sound_def fresh_ledger_def one_open_def liability_sound_def gross_of_def)

lemma fee_run_sound: "fee_sound (fee_run ops fresh_ledger)"
proof -
  have "fees.lawful_run ops db" for db by (induction ops arbitrary: db) simp_all
  then show ?thesis unfolding fee_run_def by (rule fees.run_good [OF fresh_sound])
qed

section \<open>Identity keys\<close>

lemma split_str_part:
  assumes "list_all (\<lambda>c. c \<noteq> x) w"
  shows "split_str (x # xs) (w @ x # xs @ rest) = w # split_str (x # xs) rest"
  using assms
proof (induction w)
  case Nil
  show ?case by (simp add: split_str.simps [of "x # xs" "x # xs @ rest"])
next
  case (Cons a w)
  then have "\<not> prefix (x # xs) (a # w @ x # xs @ rest)" by auto
  with Cons show ?case by (simp add: split_str.simps [of "x # xs" "a # w @ x # xs @ rest"])
qed

lemma split_str_last: "list_all (\<lambda>c. c \<noteq> x) w \<Longrightarrow> split_str (x # xs) w = [w]"
proof (induction w)
  case Nil
  show ?case by (simp add: split_str.simps [of "x # xs" "[]"])
next
  case (Cons a w)
  then have "\<not> prefix (x # xs) (a # w)" by auto
  with Cons show ?case by (simp add: split_str.simps [of "x # xs" "a # w"])
qed

lemma clean_no_space: "clean_part p \<Longrightarrow> list_all (\<lambda>c. c \<noteq> CHR '' '') p"
proof -
  have "py_isspace (CHR '' '')" by code_simp
  then show "clean_part p \<Longrightarrow> list_all (\<lambda>c. c \<noteq> CHR '' '') p" by (auto simp: clean_part_def list_all_iff)
qed

text \<open>Taking an identity key apart gives back the five parts it was made of.\<close>

lemma identity_parts_key:
  assumes "identity_key payer network asset treasury policy = Inr key"
  shows "identity_parts key = Inr [payer, network, asset, treasury, policy]"
proof -
  have c: "list_all clean_part [payer, network, asset, treasury, policy]" and key: "key = py_join identity_separator [payer, network, asset, treasury, policy]"
    using assms by (auto simp: identity_key_def split: if_splits)
  have "split_str identity_separator key = [payer, network, asset, treasury, policy]"
    using c clean_no_space split_str_part [of "CHR '' ''" _ "''// ''"] split_str_last [of "CHR '' ''" _ "''// ''"]
    by (simp add: key identity_separator_def)
  with c show ?thesis by (simp add: identity_parts_def clean_part_def)
qed

section \<open>Properties\<close>

text \<open>C24. Whatever is accrued, reversed, offered, claimed, confirmed, failed, released or expired, and in whatever
  order: for every identity the whole units already collected together with those held by open collections never
  pass the fees accrued; at most one collection is open per identity; and no payment's reversals exceed its accrual.\<close>

theorem collections_backed:
  "pos_retired (owed (fee_run ops fresh_ledger) key) + fee_scale * pos_held (owed (fee_run ops fresh_ledger) key)
     \<le> gross_of (fee_entries (fee_run ops fresh_ledger)) key
   \<and> one_open (fee_run ops fresh_ledger) \<and> 0 \<le> net_of_liability (fee_entries (fee_run ops fresh_ledger)) lid"
proof (intro conjI)
  note S = fee_run_sound [of ops]
  show "pos_retired (owed (fee_run ops fresh_ledger) key) + fee_scale * pos_held (owed (fee_run ops fresh_ledger) key)
     \<le> gross_of (fee_entries (fee_run ops fresh_ledger)) key"
    using fee_soundD(5) [OF S] by (simp add: backing_split)
  show "one_open (fee_run ops fresh_ledger)" by (rule fee_soundD(6) [OF S])
  show "0 \<le> net_of_liability (fee_entries (fee_run ops fresh_ledger)) lid"
    using fee_soundD(7) [OF S, of lid] no_entries_sums [of "fee_entries (fee_run ops fresh_ledger)" lid]
    by (auto simp: liability_sound_def split: option.splits)
qed

text \<open>The whole units a list of payments makes collectible, one accrual after another.\<close>

fun accrue_all :: "time \<Rightarrow> fee_facts list \<Rightarrow> fee_db \<Rightarrow> fee_db \<times> int" where
  "accrue_all now [] db = (db, 0)"
| "accrue_all now (f # fs) db =
     (case accrue f now db of
        (db', Inl e) \<Rightarrow> accrue_all now fs db'
      | (db', Inr a) \<Rightarrow> (case accrue_all now fs db' of (db'', units) \<Rightarrow> (db'', ac_newly_representable a + units)))"

lemma accrue_all_exact:
  assumes "identity_key payer network asset treasury policy = Inr key"
    and "\<forall>f\<in>set fs. fa_payer f = payer \<and> fa_network f = network \<and> fa_asset f = asset \<and> fa_treasury f = treasury
           \<and> fa_policy f = policy \<and> 0 < fa_basis f \<and> 0 \<le> fa_rate f"
    and "distinct (map fa_liability fs)" "\<forall>f\<in>set fs. accrual_for_liability db (fa_liability f) = None"
    and "fee_collections db = []" "0 \<le> accrued_of (fee_entries db) key" "accrue_all now fs db = (db', units)"
  shows "accrued_of (fee_entries db') key = accrued_of (fee_entries db) key + sum_list (map (\<lambda>f. fa_basis f * fa_rate f) fs)
    \<and> fee_collections db' = [] \<and> units = accrued_of (fee_entries db') key div fee_scale - accrued_of (fee_entries db) key div fee_scale"
  using assms(2-7)
proof (induction fs arbitrary: db units)
  case (Cons f fs)
  define A where "A = accrued_of (fee_entries db) key"
  define due where "due = fa_basis f * fa_rate f"
  define db1 where "db1 = db\<lparr>fee_entries := fee_entries db @ [mk_entry f key Entry_Accrual due now]\<rparr>"
  have A: "0 \<le> A" "0 \<le> due" and one: "accrued_of (fee_entries db1) key = A + due" "fee_collections db1 = []"
    using Cons.prems by (simp_all add: A_def due_def db1_def)
  have mono: "A div fee_scale \<le> (A + due) div fee_scale" using A by (intro zdiv_mono1) (simp_all add: fee_scale_def)
  have step: "\<exists>a. accrue f now db = (db1, Inr a) \<and> ac_newly_representable a = (A + due) div fee_scale - A div fee_scale"
    using Cons.prems A mono
    by (simp add: accrue_def assms(1) fee_numerator_def Let_def db1_def due_def A_def retired_of_def whole_atomic_def)
  then obtain a where a: "accrue f now db = (db1, Inr a)" "ac_newly_representable a = (A + due) div fee_scale - A div fee_scale" by blast
  obtain u where u: "accrue_all now fs db1 = (db', u)" "units = ac_newly_representable a + u"
    using Cons.prems(6) by (auto simp: a(1) split: prod.splits)
  have "\<forall>g\<in>set fs. accrual_for_liability db1 (fa_liability g) = None"
    using Cons.prems(2, 3) by (auto simp: accrual_for_liability_def db1_def find_append)
  from Cons.IH [OF _ _ this one(2) _ u(1)] Cons.prems(1, 2) A one(1)
  have "accrued_of (fee_entries db') key = A + due + sum_list (map (\<lambda>f. fa_basis f * fa_rate f) fs)
    \<and> fee_collections db' = [] \<and> u = accrued_of (fee_entries db') key div fee_scale - (A + due) div fee_scale" by simp
  then show ?case using a(2) u(2) by (simp add: A_def due_def)
qed auto

text \<open>C32. No fraction of a fee is ever lost or charged twice: accruing any list of payments of one identity, one by
  one, makes collectible exactly the whole units of the exact total fee, and the ledger carries exactly the rest.\<close>

theorem fees_accumulate_exactly:
  assumes "identity_key payer network asset treasury policy = Inr key"
    and "\<forall>f\<in>set fs. fa_payer f = payer \<and> fa_network f = network \<and> fa_asset f = asset \<and> fa_treasury f = treasury
           \<and> fa_policy f = policy \<and> 0 < fa_basis f \<and> 0 \<le> fa_rate f"
    and "distinct (map fa_liability fs)"
  shows "snd (accrue_all now fs fresh_ledger) = sum_list (map (\<lambda>f. fa_basis f * fa_rate f) fs) div fee_scale
       \<and> pos_owed (owed (fst (accrue_all now fs fresh_ledger)) key) = snd (accrue_all now fs fresh_ledger)
       \<and> pos_carry (owed (fst (accrue_all now fs fresh_ledger)) key) = sum_list (map (\<lambda>f. fa_basis f * fa_rate f) fs) mod fee_scale"
proof -
  obtain db units where r: "accrue_all now fs fresh_ledger = (db, units)" by (cases "accrue_all now fs fresh_ledger")
  define due where "due = sum_list (map (\<lambda>f. fa_basis f * fa_rate f) fs)"
  have "0 \<le> due" unfolding due_def using assms(2) by (intro sum_list_nonneg) auto
  moreover have "accrued_of (fee_entries db) key = accrued_of (fee_entries fresh_ledger) key + due
    \<and> fee_collections db = [] \<and> units = accrued_of (fee_entries db) key div fee_scale - accrued_of (fee_entries fresh_ledger) key div fee_scale"
    unfolding due_def by (rule accrue_all_exact [OF assms(1-3) _ _ _ r]) (simp_all add: fresh_ledger_def accrual_for_liability_def accrued_of_def)
  moreover have "accrued_of (fee_entries fresh_ledger) key = 0" by (simp add: fresh_ledger_def accrued_of_def)
  ultimately show ?thesis unfolding due_def [symmetric]
    by (simp add: r retired_of_def whole_atomic_def carry_of_def)
qed

definition demo_payment :: "string \<Rightarrow> int \<Rightarrow> fee_facts" where
  "demo_payment lid basis = \<lparr>fa_liability = lid, fa_operation = lid, fa_payer = ''p'', fa_network = ''n'', fa_asset = ''a'',
     fa_treasury = ''t'', fa_policy = ''v1'', fa_basis = basis, fa_rate = 10, fa_evidence = ''e'', fa_evidence_kind = ''k'', fa_source = ''s''\<rparr>"

theorem fees_accumulate_exactly_witness:
  "snd (accrue_all 0 [demo_payment ''l1'' 900, demo_payment ''l2'' 700, demo_payment ''l3'' 512] fresh_ledger) = 2
   \<and> pos_carry (owed (fst (accrue_all 0 [demo_payment ''l1'' 900, demo_payment ''l2'' 700, demo_payment ''l3'' 512] fresh_ledger))
       ''p // n // a // t // v1'') = 1120"
  using fees_accumulate_exactly [of "''p''" "''n''" "''a''" "''t''" "''v1''" "''p // n // a // t // v1''"
      "[demo_payment ''l1'' 900, demo_payment ''l2'' 700, demo_payment ''l3'' 512]" 0]
  by (simp add: demo_payment_def identity_key_def clean_part_def identity_separator_def py_isspace_def fee_scale_def)

text \<open>A submitted collection is never released: only the chain's answer ends it, and a confirmed one never moves.\<close>

lemma custody_kept:
  assumes "coll_moves db db'" "dict_get (fee_collections db) cid = Some c"
  shows "\<exists>c'. dict_get (fee_collections db') cid = Some c' \<and> co_amount c' = co_amount c
    \<and> (co_state c = Coll_Submitted \<longrightarrow> co_state c' \<in> {Coll_Submitted, Coll_Confirmed, Coll_Failed})
    \<and> (co_state c = Coll_Confirmed \<longrightarrow> c' = c)"
  using assms by (auto simp: coll_moves_def coll_cas_def coll_next_def)

end
