(* ===== verification/Money_Law.thy ===== *)
theory Money_Law
  imports Vool_Prelude Fee_Ledger "HOL-Library.Char_ord" "HOL-Library.List_Lexorder" "HOL-Library.Product_Lexorder"
begin

text \<open>
  The monetary law, first part, from \<open>src/core/effect_budget_money.py\<close>: exact amounts, asset identities, the
  validation of requests and grants, the tables, and the checks a reservation passes (rules, grant, liquidity).
  The life of a liability is in \<open>Money_Liability\<close>.

  A name that the code compares with a closed vocabulary (a flow, an operation kind, a state) is a datatype, with
  \<open>None\<close> for a name outside it where the code validates it. The lines of a liability are a field of it, because the
  code writes and deletes them together; a stored digest is the digested value itself, so two digests are equal
  exactly when the values are. Rows are well typed: the refusals of malformed rows (\<open>_CorruptRowError\<close>), the audit
  journal and the text of a refusal are left out.
\<close>

section \<open>Vocabulary\<close>

datatype money_flow = Wallet_outflow | Network_fee | Inference_expense | Credit_debit | Credit_credit | Service_fee

datatype op_kind = Inference_prepaid | Inference_x402 | Provider_topup | Wallet_payment

datatype grant_kind = Task_envelope | Single_payment | Auto_topup | Provider_budget

datatype li_state = Li_Reserved | Li_Dispatching | Li_Pending | Li_Unknown | Li_Settled | Li_Unsent | Li_Released

datatype line_state = Line_Held | Line_Exact | Line_Bounded

datatype money_scope = Sc_Request | Sc_Turn | Sc_Task | Sc_Agent | Sc_Session | Sc_Project | Sc_Provider | Sc_Account | Sc_Global

datatype money_code =
    Budget_exceeded | Authority_required | Authority_invalid | Authority_exhausted | Authority_expired | Authority_revoked
  | Authority_rate_limited | Liquidity_unverified | Liquidity_insufficient | Conversion_unavailable | Money_frozen
  | Reservation_expired | State_error | Claim_conflict | Settlement_conflict | Evidence_insufficient
  | Idempotency_conflict | Identity_conflict | Invalid_request | Operator_required | Store_unavailable

definition wallet_debit :: "money_flow \<Rightarrow> bool" where
  "wallet_debit f \<longleftrightarrow> f = Wallet_outflow \<or> f = Network_fee \<or> f = Service_fee"

definition held_state :: "li_state \<Rightarrow> bool" where
  "held_state s \<longleftrightarrow> s = Li_Reserved \<or> s = Li_Dispatching \<or> s = Li_Pending \<or> s = Li_Unknown"

definition closed_state :: "li_state \<Rightarrow> bool" where
  "closed_state s \<longleftrightarrow> s = Li_Unsent \<or> s = Li_Released"

record op_schema =
  sc_required :: "money_flow list"
  sc_optional :: "money_flow list"
  sc_bound :: money_flow
  sc_equal :: "(money_flow \<times> money_flow) list"
  sc_wallet :: bool
  sc_inference :: bool

definition operation_schema :: "op_kind \<Rightarrow> op_schema" where
  "operation_schema k = (case k of
     Inference_prepaid \<Rightarrow> \<lparr>sc_required = [Inference_expense, Credit_debit], sc_optional = [], sc_bound = Inference_expense,
       sc_equal = [(Inference_expense, Credit_debit)], sc_wallet = False, sc_inference = True\<rparr>
   | Inference_x402 \<Rightarrow> \<lparr>sc_required = [Wallet_outflow, Inference_expense], sc_optional = [Network_fee, Service_fee],
       sc_bound = Wallet_outflow, sc_equal = [(Wallet_outflow, Inference_expense)], sc_wallet = True, sc_inference = True\<rparr>
   | Provider_topup \<Rightarrow> \<lparr>sc_required = [Wallet_outflow, Credit_credit], sc_optional = [Network_fee], sc_bound = Wallet_outflow,
       sc_equal = [(Wallet_outflow, Credit_credit)], sc_wallet = True, sc_inference = False\<rparr>
   | Wallet_payment \<Rightarrow> \<lparr>sc_required = [Wallet_outflow], sc_optional = [Network_fee], sc_bound = Wallet_outflow,
       sc_equal = [], sc_wallet = True, sc_inference = False\<rparr>)"

definition grant_operations :: "grant_kind \<Rightarrow> op_kind list" where
  "grant_operations k = (case k of
     Provider_budget \<Rightarrow> [Inference_prepaid]
   | Task_envelope \<Rightarrow> [Inference_prepaid, Inference_x402, Wallet_payment]
   | Single_payment \<Rightarrow> [Inference_prepaid, Inference_x402, Provider_topup, Wallet_payment]
   | Auto_topup \<Rightarrow> [Provider_topup])"

definition max_grant_lifetime :: time where "max_grant_lifetime = 30 * 24 * 3600"
definition liquidity_ttl :: time where "liquidity_ttl = 300"
definition credit_ttl :: time where "credit_ttl = 900"
definition money_retention :: time where "money_retention = 400 * 24 * 3600"

section \<open>Text classes\<close>

definition is_lower :: "char \<Rightarrow> bool" where "is_lower c \<longleftrightarrow> (let n = of_char c :: nat in 97 \<le> n \<and> n \<le> 122)"
definition is_upper :: "char \<Rightarrow> bool" where "is_upper c \<longleftrightarrow> (let n = of_char c :: nat in 65 \<le> n \<and> n \<le> 90)"
definition is_alnum :: "char \<Rightarrow> bool" where "is_alnum c \<longleftrightarrow> is_lower c \<or> is_upper c \<or> is_digit c"

definition text_of :: "nat \<Rightarrow> nat \<Rightarrow> string \<Rightarrow> string \<Rightarrow> bool" where
  "text_of lo hi extra s \<longleftrightarrow> lo \<le> length s \<and> length s \<le> hi \<and> list_all (\<lambda>c. is_alnum c \<or> c \<in> set extra) s"

definition network_text :: "string \<Rightarrow> bool" where
  "network_text s \<longleftrightarrow> (case py_split (CHR '':'') s of
     [a, b] \<Rightarrow> 2 \<le> length a \<and> length a \<le> 32 \<and> (is_lower (hd a) \<or> is_digit (hd a))
        \<and> list_all (\<lambda>c. is_lower c \<or> is_digit c \<or> c = CHR ''-'') a \<and> text_of 1 64 ''._-'' b
   | _ \<Rightarrow> False)"

definition asset_text :: "string \<Rightarrow> bool" where "asset_text = text_of 1 128 ''._:-''"
definition account_text :: "string \<Rightarrow> bool" where "account_text = text_of 1 200 ''._:-@/#+''"
definition operation_id_text :: "string \<Rightarrow> bool" where "operation_id_text = text_of 1 200 ''._:-/#@+=''"

definition ident_text :: "string \<Rightarrow> bool" where
  "ident_text s \<longleftrightarrow> length s \<le> 200 \<and> list_all (\<lambda>c. \<not> py_isspace c \<and> 31 < (of_char c :: nat) \<and> of_char c \<noteq> (127 :: nat)) s"

definition correlation_key :: "string \<Rightarrow> bool" where
  "correlation_key s \<longleftrightarrow> 1 \<le> length s \<and> length s \<le> 40 \<and> list_all (\<lambda>c. is_lower c \<or> is_digit c \<or> c = CHR ''_'') s
     \<and> \<not> list_ex (\<lambda>w. contains_text w s) [''token'', ''secret'', ''key'', ''authorization'', ''password'', ''pin'', ''url'', ''cookie'']"

definition public_value :: "string \<Rightarrow> bool" where
  "public_value s \<longleftrightarrow> length s \<le> 256 \<and> \<not> contains_text ''://'' s"

section \<open>Exact amounts\<close>

definition require_atomic :: "bool \<Rightarrow> int \<Rightarrow> money_code + int" where
  "require_atomic allow_zero v =
     (if v < 0 \<or> v = 0 \<and> \<not> allow_zero then Inl Invalid_request
      else if v \<ge> 10 ^ 78 then Inl Invalid_request else Inr v)"

definition parse_decimal_amount :: "string \<Rightarrow> int \<Rightarrow> money_code + int" where
  "parse_decimal_amount txt decimals =
     (if decimals < 0 \<or> decimals > 36 then Inl Invalid_request
      else (let raw = py_strip txt;
                (whole, fraction) = (case py_split (CHR ''.'') raw of [w] \<Rightarrow> (w, Some []) | [w, f] \<Rightarrow> (w, if f = [] then None else Some f) | _ \<Rightarrow> ([], None))
            in case fraction of
                 None \<Rightarrow> Inl Invalid_request
               | Some f \<Rightarrow>
                   if whole = [] \<or> \<not> list_all is_digit whole \<or> \<not> list_all is_digit f then Inl Invalid_request
                   else if length f > nat decimals \<and> list_ex (\<lambda>c. c \<noteq> CHR ''0'') (drop (nat decimals) f) then Inl Invalid_request
                   else (let f' = take (nat decimals) f; padded = f' @ replicate (nat decimals - length f') (CHR ''0'')
                         in require_atomic True (int (read_nat whole) * 10 ^ nat decimals + int (read_nat padded)))))"

definition format_atomic :: "int \<Rightarrow> nat \<Rightarrow> string" where
  "format_atomic v places =
     (let sign = (if v < 0 then ''-'' else []); digits = rjust0 (places + 1) (show_nat (nat \<bar>v\<bar>));
          whole = (if places = 0 then digits else take (length digits - places) digits);
          fraction = rstrip0 (if places = 0 then [] else drop (length digits - places) digits)
      in if fraction \<noteq> [] then sign @ whole @ ''.'' @ fraction else sign @ whole)"

definition ceil_div :: "int \<Rightarrow> int \<Rightarrow> int" where
  "ceil_div n d = - ((- n) div d)"

section \<open>Typed request shapes\<close>

record asset =
  as_network :: string
  as_asset :: string
  as_decimals :: int

definition make_asset :: "string \<Rightarrow> string \<Rightarrow> int \<Rightarrow> money_code + asset" where
  "make_asset network name decimals =
     (let n = py_strip network; a = py_strip name in
      if \<not> network_text n \<or> \<not> asset_text a \<or> decimals < 0 \<or> decimals > 36 then Inl Invalid_request
      else Inr \<lparr>as_network = n, as_asset = a, as_decimals = decimals\<rparr>)"

definition asset_key :: "asset \<Rightarrow> string" where
  "asset_key a = as_network a @ ''|'' @ as_asset a @ ''|'' @ show_nat (nat (as_decimals a))"

definition asset_from_key :: "string \<Rightarrow> money_code + asset" where
  "asset_from_key key = (case py_split (CHR ''|'') key of
     [n, a, d] \<Rightarrow> if d = [] \<or> \<not> list_all is_digit d then Inl Invalid_request else make_asset n a (int (read_nat d))
   | _ \<Rightarrow> Inl Invalid_request)"

definition clean_ident :: "string \<Rightarrow> money_code + string" where
  "clean_ident v = (let t = py_strip v in if ident_text t then Inr t else Inl Invalid_request)"

definition clean_account :: "bool \<Rightarrow> string \<Rightarrow> money_code + string" where
  "clean_account required v =
     (let t = py_strip v in
      if t = [] then (if required then Inl Invalid_request else Inr [])
      else if contains_text ''://'' t \<or> \<not> account_text t then Inl Invalid_request else Inr t)"

record money_identity =
  mi_request :: string
  mi_turn :: string
  mi_task :: string
  mi_agent :: string
  mi_session :: string
  mi_project :: string
  mi_provider :: string

definition make_identity :: "string \<Rightarrow> string \<Rightarrow> string \<Rightarrow> string \<Rightarrow> string \<Rightarrow> string \<Rightarrow> string \<Rightarrow> money_code + money_identity" where
  "make_identity request turn task agent session project provider =
     and_then (each clean_ident [request, turn, task, agent, session, project, provider]) (\<lambda>xs. case xs of
       [r, t, k, a, s, p, v] \<Rightarrow> Inr \<lparr>mi_request = r, mi_turn = t, mi_task = k, mi_agent = a, mi_session = s, mi_project = p, mi_provider = v\<rparr>
     | _ \<Rightarrow> Inl Invalid_request)"

record money_line =
  ml_flow :: money_flow
  ml_asset :: asset
  ml_max :: int
  ml_account :: string

definition make_line :: "money_flow \<Rightarrow> asset \<Rightarrow> int \<Rightarrow> string \<Rightarrow> money_code + money_line" where
  "make_line flow a mx account =
     and_then (require_atomic False mx) (\<lambda>m. and_then (clean_account True account) (\<lambda>acc.
       Inr \<lparr>ml_flow = flow, ml_asset = a, ml_max = m, ml_account = acc\<rparr>))"

record liability_request =
  rq_operation :: string
  rq_kind :: "op_kind option"
  rq_grant :: string
  rq_lines :: "money_line list"
  rq_identity :: money_identity
  rq_provider_account :: string
  rq_model :: string
  rq_route :: string
  rq_network :: string
  rq_payer :: string
  rq_expires :: time
  rq_correlation :: "(string, string) dict"
  rq_effect :: string
  rq_owner :: string

text \<open>The economic terms: what an operation id stands for.\<close>

record terms =
  tm_kind :: op_kind
  tm_grant :: string
  tm_lines :: "money_line list"
  tm_identity :: money_identity
  tm_provider_account :: string
  tm_model :: string
  tm_route :: string
  tm_network :: string
  tm_payer :: string

record facts =
  fc_operation :: string
  fc_terms :: terms
  fc_lines :: "(money_flow, money_line) dict"
  fc_expires :: time
  fc_correlation :: "(string, string) dict"
  fc_effect :: string
  fc_owner :: string

text \<open>The alphabetical order of the flow names.\<close>

definition flow_rank :: "money_flow \<Rightarrow> nat" where
  "flow_rank f = (case f of Inference_expense \<Rightarrow> 0 | Network_fee \<Rightarrow> 1 | Credit_credit \<Rightarrow> 2 | Credit_debit \<Rightarrow> 3 | Service_fee \<Rightarrow> 4 | Wallet_outflow \<Rightarrow> 5)"

section \<open>A request\<close>

definition by_flow :: "money_line list \<Rightarrow> (money_flow, money_line) dict" where
  "by_flow ls = map (\<lambda>l. (ml_flow l, l)) ls"

definition line_get :: "money_flow \<Rightarrow> (money_flow, money_line) dict \<Rightarrow> money_line option" where
  "line_get f d = dict_get d f"

definition same_asset_and_max :: "(money_flow, money_line) dict \<Rightarrow> money_flow \<times> money_flow \<Rightarrow> bool" where
  "same_asset_and_max d p = (case (line_get (fst p) d, line_get (snd p) d) of
     (Some a, Some b) \<Rightarrow> asset_key (ml_asset a) = asset_key (ml_asset b) \<and> ml_max a = ml_max b | _ \<Rightarrow> False)"

definition lines_fit :: "op_schema \<Rightarrow> (money_flow, money_line) dict \<Rightarrow> bool" where
  "lines_fit sc d \<longleftrightarrow> d \<noteq> [] \<and> distinct (dict_keys d) \<and> list_all (\<lambda>f. line_get f d \<noteq> None) (sc_required sc)
     \<and> list_all (\<lambda>f. f \<in> set (sc_required sc) \<or> f \<in> set (sc_optional sc)) (dict_keys d)
     \<and> list_all (same_asset_and_max d) (sc_equal sc)"

definition accounts_fit :: "op_schema \<Rightarrow> string \<Rightarrow> string \<Rightarrow> string \<Rightarrow> (money_flow, money_line) dict \<Rightarrow> bool" where
  "accounts_fit sc network payer provider d \<longleftrightarrow>
     (sc_wallet sc \<longrightarrow> network \<noteq> [] \<and> list_all (\<lambda>(f, l). wallet_debit f \<longrightarrow> ml_account l = payer) d)
     \<and> list_all (\<lambda>(f, l). f \<in> {Inference_expense, Credit_debit, Credit_credit} \<longrightarrow> ml_account l = provider) d"

definition clean_correlation :: "(string, string) dict \<Rightarrow> money_code + (string, string) dict" where
  "clean_correlation d = (if length d > 16 \<or> \<not> list_all (\<lambda>(k, v). correlation_key k \<and> public_value v) d then Inl Invalid_request else Inr d)"

definition validate_request :: "liability_request \<Rightarrow> time \<Rightarrow> money_code + facts" where
  "validate_request rq now =
     (let operation = py_strip (rq_operation rq); grant = py_strip (rq_grant rq) in
      if \<not> operation_id_text operation then Inl Invalid_request
      else case rq_kind rq of None \<Rightarrow> Inl Invalid_request
      | Some kind \<Rightarrow>
          (let sc = operation_schema kind; d = by_flow (rq_lines rq) in
           if grant = [] then Inl Authority_required
           else if \<not> lines_fit sc d then Inl Invalid_request
           else and_then (clean_account (kind \<noteq> Wallet_payment) (rq_provider_account rq)) (\<lambda>provider.
                and_then (clean_account (sc_wallet sc) (rq_payer rq)) (\<lambda>payer.
                and_then (clean_ident (rq_network rq)) (\<lambda>network.
                if \<not> accounts_fit sc network payer provider d then Inl Invalid_request
                else and_then (clean_ident (rq_model rq)) (\<lambda>model.
                and_then (clean_ident (rq_route rq)) (\<lambda>route.
                if sc_inference sc \<and> (model = [] \<or> route = []) then Inl Invalid_request
                else if mi_provider (rq_identity rq) = [] then Inl Invalid_request
                else if rq_expires rq \<noteq> 0 \<and> rq_expires rq \<le> now then Inl Reservation_expired
                else and_then (clean_correlation (rq_correlation rq)) (\<lambda>correlation.
                and_then (clean_ident (rq_effect rq)) (\<lambda>effect.
                and_then (clean_ident (rq_owner rq)) (\<lambda>owner.
                  Inr \<lparr>fc_operation = operation,
                       fc_terms = \<lparr>tm_kind = kind, tm_grant = grant, tm_lines = sort_key (flow_rank \<circ> ml_flow) (rq_lines rq),
                          tm_identity = rq_identity rq, tm_provider_account = provider, tm_model = model, tm_route = route,
                          tm_network = network, tm_payer = payer\<rparr>,
                       fc_lines = d, fc_expires = rq_expires rq, fc_correlation = correlation, fc_effect = effect, fc_owner = owner\<rparr>))))))))))"

section \<open>Tables\<close>

record line_row =
  ln_flow :: money_flow
  ln_asset :: string
  ln_account :: string
  ln_max :: int
  ln_actual :: "int option"
  ln_state :: line_state
  ln_verified :: bool
  ln_evidence :: string
  ln_resolved :: "time option"

record liability =
  li_operation :: string
  li_terms :: terms
  li_status :: li_state
  li_version :: int
  li_attempt :: int
  li_grant_version :: int
  li_effect :: string
  li_owner :: string
  li_instance :: string
  li_claim_token :: string
  li_claim_instance :: string
  li_executor :: string
  li_correlation :: "(string, string) dict"
  li_dispatch_evidence :: string
  li_created :: time
  li_updated :: time
  li_claimed :: "time option"
  li_dispatched :: "time option"
  li_settled :: "time option"
  li_expires :: time
  li_unknown_reason :: string
  li_close_reason :: string
  li_over_cap :: bool
  li_lines :: "line_row list"

record grant_spec =
  gs_kind :: grant_kind
  gs_ops :: "op_kind list"
  gs_provider :: string
  gs_provider_account :: string
  gs_models :: "string list"
  gs_routes :: "string list"
  gs_network :: string
  gs_asset :: string
  gs_payer :: string
  gs_max_total :: int
  gs_per_operation :: int
  gs_fee_asset :: string
  gs_max_fee_total :: int
  gs_per_operation_fee :: int
  gs_max_operations :: int
  gs_min_interval :: time
  gs_max_concurrent :: int
  gs_task :: string
  gs_session :: string
  gs_agent :: string
  gs_not_before :: time
  gs_expires :: time
  gs_credit_required :: bool
  gs_approval :: string
  gs_note :: string
  gs_renewal :: int
  gs_anchor :: time
  gs_carried :: "string list"

record money_grant =
  gr_version :: int
  gr_revoked :: bool
  gr_spec :: grant_spec
  gr_granted_by :: string
  gr_revoked_at :: "time option"
  gr_reason :: string
  gr_consent :: string

record money_rule =
  ru_flow :: money_flow
  ru_asset :: string
  ru_scope :: money_scope
  ru_scope_value :: string
  ru_window :: time
  ru_limit :: int
  ru_cross :: bool

record conversion_bound =
  cb_numerator :: int
  cb_denominator :: int
  cb_expires :: time

record observation =
  ob_balance :: int
  ob_at :: time
  ob_source :: string
  ob_verified :: bool

datatype evidence_kind =
    Chain_confirmation | Usage_receipt | Billing_statement | Refusal_record | Usage_priced | Operator_attestation
  | Balance_delta | Other_evidence

datatype evidence_source = From_provider | From_mechanism | From_user | Other_source

record evidence_payload =
  pl_kind :: evidence_kind
  pl_id :: string
  pl_source :: evidence_source
  pl_actuals :: "(money_flow, int) dict"
  pl_credits :: "(string \<times> string \<times> int \<times> bool) list"
  pl_public :: "(string, string) dict"

datatype funding_mode = Funding_manual | Funding_ask | Funding_auto

record funding_policy =
  fp_mode :: funding_mode
  fp_threshold :: int
  fp_topup :: int
  fp_grant :: string

record money_db =
  rules :: "(string, money_rule) dict"
  bounds :: "(string \<times> string, conversion_bound) dict"
  grants :: "(string, money_grant) dict"
  liabilities :: "(string, liability) dict"
  evidences :: "(string \<times> string, evidence_payload) dict"
  observations :: "(string \<times> string, observation) dict"
  funding :: "(string \<times> string \<times> string, funding_policy) dict"
  fees :: fee_db
  reconciled :: bool

text \<open>What an operation reads from outside the tables: the clock, the wallet freeze, whether an effect scope is
  active, which operator tokens were durably granted, the calling instance and which instances are proven dead.\<close>

record money_env =
  env_now :: time
  env_frozen :: bool
  env_in_scope :: bool
  env_granted :: "string \<Rightarrow> bool"
  env_instance :: string
  env_dead :: "string \<Rightarrow> bool"

definition require_operator :: "money_env \<Rightarrow> string option \<Rightarrow> money_code + string" where
  "require_operator env token =
     (if env_in_scope env then Inl Operator_required
      else case token of None \<Rightarrow> Inl Operator_required
      | Some t \<Rightarrow> if t \<noteq> [] \<and> env_granted env t then Inr t else Inl Operator_required)"

section \<open>Grants\<close>

record grant_request =
  gq_kind :: "grant_kind option"
  gq_ops :: "op_kind option list"
  gq_provider :: string
  gq_asset :: asset
  gq_max_total :: int
  gq_per_operation :: int
  gq_expires :: time
  gq_provider_account :: string
  gq_models :: "string list"
  gq_routes :: "string list"
  gq_network :: string
  gq_payer :: string
  gq_fee_asset :: "asset option"
  gq_max_fee_total :: int
  gq_per_operation_fee :: int
  gq_renewal :: int
  gq_max_operations :: int
  gq_min_interval :: time
  gq_max_concurrent :: int
  gq_task :: string
  gq_session :: string
  gq_agent :: string
  gq_not_before :: time
  gq_credit_liquidity :: "bool option"
  gq_approval :: string
  gq_note :: string

definition clean_names :: "string list \<Rightarrow> money_code + string list" where
  "clean_names ms = and_then (each clean_ident (filter (\<lambda>m. py_strip m \<noteq> []) ms)) (\<lambda>xs. Inr (py_unique xs))"

text \<open>The operations a grant may name, in order and once each.\<close>

definition grant_ops :: "grant_kind \<Rightarrow> op_kind option list \<Rightarrow> money_code + op_kind list" where
  "grant_ops kind ops =
     (let os = py_unique ops in
      if os = [] \<or> list_ex (\<lambda>x. case x of None \<Rightarrow> True | Some k \<Rightarrow> k \<notin> set (grant_operations kind)) os
         \<or> (kind = Single_payment \<and> length os \<noteq> 1)
      then Inl Invalid_request else Inr (List.map_filter id os))"

definition grant_times_fit :: "grant_kind \<Rightarrow> grant_request \<Rightarrow> time \<Rightarrow> bool" where
  "grant_times_fit kind q now \<longleftrightarrow> (gq_expires q > now \<or> (kind = Provider_budget \<and> gq_expires q = 0))
     \<and> gq_expires q \<le> now + max_grant_lifetime
     \<and> \<not> (gq_not_before q \<noteq> 0 \<and> gq_expires q \<noteq> 0 \<and> gq_not_before q \<ge> gq_expires q) \<and> gq_min_interval q \<ge> 0"

definition fee_maxima :: "grant_request \<Rightarrow> money_code + string \<times> int \<times> int" where
  "fee_maxima q = (case gq_fee_asset q of
     Some a \<Rightarrow> and_then (require_atomic True (gq_max_fee_total q)) (\<lambda>t. and_then (require_atomic True (gq_per_operation_fee q)) (\<lambda>p.
        if p > t then Inl Invalid_request else Inr (asset_key a, t, p)))
   | None \<Rightarrow> if gq_max_fee_total q \<noteq> 0 \<or> gq_per_operation_fee q \<noteq> 0 then Inl Invalid_request else Inr ([], 0, 0))"

definition names_fit :: "grant_kind \<Rightarrow> bool \<Rightarrow> int \<Rightarrow> string list \<Rightarrow> string list \<Rightarrow> bool" where
  "names_fit kind inference renewal models routes \<longleftrightarrow> renewal \<in> {0, 86400} \<and> (renewal \<noteq> 0 \<longrightarrow> kind = Provider_budget)
     \<and> (kind = Provider_budget \<longrightarrow> models = [] \<and> routes = [])
     \<and> (inference \<and> kind \<noteq> Provider_budget \<longrightarrow> models \<noteq> [] \<and> routes \<noteq> [])"

definition validate_grant_spec :: "grant_request \<Rightarrow> time \<Rightarrow> money_code + grant_spec" where
  "validate_grant_spec q now =
     (case gq_kind q of None \<Rightarrow> Inl Invalid_request
      | Some kind \<Rightarrow>
        and_then (grant_ops kind (gq_ops q)) (\<lambda>ops.
        and_then (clean_ident (gq_provider q)) (\<lambda>provider.
        if provider = [] then Inl Invalid_request else
        and_then (require_atomic False (gq_max_total q)) (\<lambda>total.
        and_then (require_atomic False (gq_per_operation q)) (\<lambda>per_operation.
        if per_operation > total \<or> \<not> grant_times_fit kind q now \<or> gq_max_operations q < 0 \<or> gq_max_concurrent q < 0
           \<or> (kind = Auto_topup \<and> gq_min_interval q \<le> 0) then Inl Invalid_request else
        (let inference = list_ex (\<lambda>k. sc_inference (operation_schema k)) ops; wallet = list_ex (\<lambda>k. sc_wallet (operation_schema k)) ops;
             credit = list_ex (\<lambda>k. k \<in> {Inference_prepaid, Provider_topup}) ops in
        and_then (clean_names (gq_models q)) (\<lambda>models.
        and_then (clean_names (gq_routes q)) (\<lambda>routes.
        if \<not> names_fit kind inference (gq_renewal q) models routes then Inl Invalid_request else
        and_then (clean_ident (gq_network q)) (\<lambda>network.
        and_then (clean_account wallet (gq_payer q)) (\<lambda>payer.
        if wallet \<and> network = [] then Inl Invalid_request else
        and_then (clean_account credit (gq_provider_account q)) (\<lambda>provider_account.
        and_then (fee_maxima q) (\<lambda>(fee_asset, fee_total, fee_per).
        and_then (each clean_ident [gq_task q, gq_session q, gq_agent q]) (\<lambda>ids.
        (case ids of [task, session, agent] \<Rightarrow>
          (case gq_credit_liquidity q of None \<Rightarrow> Inl Invalid_request
           | Some required \<Rightarrow>
             if (kind = Task_envelope \<and> task = [] \<and> session = []) \<or> length (gq_approval q) > 128 \<or> contains_text ''://'' (gq_approval q)
             then Inl Invalid_request
             else Inr \<lparr>gs_kind = kind, gs_ops = ops, gs_provider = provider, gs_provider_account = provider_account, gs_models = models,
               gs_routes = routes, gs_network = network, gs_asset = asset_key (gq_asset q), gs_payer = payer, gs_max_total = total,
               gs_per_operation = per_operation, gs_fee_asset = fee_asset, gs_max_fee_total = fee_total, gs_per_operation_fee = fee_per,
               gs_max_operations = (if kind = Single_payment then 1 else gq_max_operations q), gs_min_interval = gq_min_interval q,
               gs_max_concurrent = (if kind \<in> {Single_payment, Auto_topup} then 1 else gq_max_concurrent q),
               gs_task = task, gs_session = session, gs_agent = agent, gs_not_before = gq_not_before q, gs_expires = gq_expires q,
               gs_credit_required = required, gs_approval = gq_approval q, gs_note = take 200 (gq_note q),
               gs_renewal = (if kind = Provider_budget then gq_renewal q else 0), gs_anchor = (if kind = Provider_budget then now else 0),
               gs_carried = []\<rparr>)
         | _ \<Rightarrow> Inl Invalid_request))))))))))))))"

definition same_budget :: "grant_spec \<Rightarrow> grant_spec \<Rightarrow> bool" where
  "same_budget a b \<longleftrightarrow> gs_provider a = gs_provider b \<and> gs_provider_account a = gs_provider_account b"

text \<open>The held liabilities a new provider budget carries: those under a grant of the same provider and account.\<close>

definition carried_liabilities :: "money_db \<Rightarrow> grant_spec \<Rightarrow> string list" where
  "carried_liabilities db spec =
     map fst (filter (\<lambda>(i, l). held_state (li_status l)
        \<and> (case dict_get (grants db) (tm_grant (li_terms l)) of None \<Rightarrow> False | Some g \<Rightarrow> same_budget (gr_spec g) spec)) (liabilities db))"

definition replace_budgets :: "grant_spec \<Rightarrow> time \<Rightarrow> (string, money_grant) dict \<Rightarrow> (string, money_grant) dict" where
  "replace_budgets spec now gs =
     map (\<lambda>(i, g). (i, if \<not> gr_revoked g \<and> same_budget (gr_spec g) spec \<and> Inference_prepaid \<in> set (gs_ops (gr_spec g))
                        then g\<lparr>gr_revoked := True, gr_revoked_at := Some now\<rparr> else g)) gs"

text \<open>The new id is a prefix and random text; the primary key refuses one that exists.\<close>

definition grant_money_authority :: "money_env \<Rightarrow> string option \<Rightarrow> string \<Rightarrow> grant_request \<Rightarrow> string
    \<Rightarrow> money_db \<Rightarrow> money_db \<times> (money_code + string \<times> money_grant)" where
  "grant_money_authority env token fresh q consent_id db =
     (case validate_grant_spec q (env_now env) of
        Inl e \<Rightarrow> (db, Inl e)
      | Inr spec \<Rightarrow>
        (case require_operator env token of
           Inl e \<Rightarrow> (db, Inl e)
         | Inr tok \<Rightarrow>
           (let consent = py_strip consent_id in
            case (if consent = [] then None else find (\<lambda>(i, g). gr_consent g = consent) (grants db)) of
              Some known \<Rightarrow> (db, Inr known)
            | None \<Rightarrow>
              (let gid = ''mga:'' @ fresh; budget = (gs_kind spec = Provider_budget);
                   spec' = (if budget then spec\<lparr>gs_carried := carried_liabilities db spec\<rparr> else spec);
                   gs = (if budget then replace_budgets spec (env_now env) (grants db) else grants db);
                   g = \<lparr>gr_version = 1, gr_revoked = False, gr_spec = spec', gr_granted_by = tok, gr_revoked_at = None, gr_reason = [], gr_consent = consent\<rparr>
               in if dict_get (grants db) gid \<noteq> None then (db, Inl Store_unavailable)
                  else (db\<lparr>grants := dict_set gid g gs\<rparr>, Inr (gid, g))))))"

definition revoke_money_authority :: "money_env \<Rightarrow> string option \<Rightarrow> string \<Rightarrow> string \<Rightarrow> money_db \<Rightarrow> money_db \<times> (money_code + money_grant)" where
  "revoke_money_authority env token gid reason db =
     (case require_operator env token of
        Inl e \<Rightarrow> (db, Inl e)
      | Inr tok \<Rightarrow>
        (case dict_get (grants db) gid of
           None \<Rightarrow> (db, Inl Authority_invalid)
         | Some g \<Rightarrow>
             if gr_revoked g then (db, Inr g)
             else (let g' = g\<lparr>gr_version := gr_version g + 1, gr_revoked := True, gr_revoked_at := Some (env_now env), gr_reason := take 200 reason\<rparr>
                   in (db\<lparr>grants := dict_set gid g' (grants db)\<rparr>, Inr g'))))"

definition money_grants :: "bool \<Rightarrow> time \<Rightarrow> money_db \<Rightarrow> (string \<times> money_grant) list" where
  "money_grants active_only now db =
     filter (\<lambda>(i, g). active_only \<longrightarrow> \<not> gr_revoked g \<and> (gs_expires (gr_spec g) = 0 \<or> gs_expires (gr_spec g) > now)) (grants db)"

section \<open>Rules and conversion bounds\<close>

record rule_adjustment =
  ad_flow :: money_flow
  ad_asset :: asset
  ad_scope :: money_scope
  ad_limit :: "int option"
  ad_scope_value :: string
  ad_window :: time
  ad_cross :: bool

definition flow_name :: "money_flow \<Rightarrow> string" where
  "flow_name f = (case f of Wallet_outflow \<Rightarrow> ''wallet_outflow'' | Network_fee \<Rightarrow> ''network_fee'' | Inference_expense \<Rightarrow> ''inference_expense''
     | Credit_debit \<Rightarrow> ''provider_credit_debit'' | Credit_credit \<Rightarrow> ''provider_credit_credit'' | Service_fee \<Rightarrow> ''service_fee'')"

definition scope_name :: "money_scope \<Rightarrow> string" where
  "scope_name s = (case s of Sc_Request \<Rightarrow> ''request'' | Sc_Turn \<Rightarrow> ''turn'' | Sc_Task \<Rightarrow> ''task'' | Sc_Agent \<Rightarrow> ''agent'' | Sc_Session \<Rightarrow> ''session''
     | Sc_Project \<Rightarrow> ''project'' | Sc_Provider \<Rightarrow> ''provider'' | Sc_Account \<Rightarrow> ''account'' | Sc_Global \<Rightarrow> ''global'')"

definition scope_rank :: "money_scope \<Rightarrow> nat" where
  "scope_rank s = (case s of Sc_Request \<Rightarrow> 0 | Sc_Turn \<Rightarrow> 1 | Sc_Task \<Rightarrow> 2 | Sc_Agent \<Rightarrow> 3 | Sc_Session \<Rightarrow> 4 | Sc_Project \<Rightarrow> 5
     | Sc_Provider \<Rightarrow> 6 | Sc_Account \<Rightarrow> 7 | Sc_Global \<Rightarrow> 8)"

definition rule_key :: "money_flow \<Rightarrow> string \<Rightarrow> money_scope \<Rightarrow> string \<Rightarrow> time \<Rightarrow> bool \<Rightarrow> string" where
  "rule_key flow ass scope scope_value window cross =
     flow_name flow @ ''|'' @ ass @ ''|'' @ scope_name scope @ ''|'' @ scope_value @ ''|w'' @ show_nat (nat \<lfloor>window\<rfloor>)
       @ (if cross then ''|x1'' else ''|x0'')"

definition adjustment_valid :: "rule_adjustment \<Rightarrow> bool" where
  "adjustment_valid a \<longleftrightarrow> (case ad_limit a of None \<Rightarrow> True | Some v \<Rightarrow> 0 \<le> v \<and> v < 10 ^ 78) \<and> 0 \<le> ad_window a
     \<and> ident_text (py_strip (ad_scope_value a))"

text \<open>The upsert keeps an existing row's window: the conflict clause writes the limit only.\<close>

definition apply_adjustment :: "rule_adjustment \<Rightarrow> (string, money_rule) dict \<Rightarrow> (string, money_rule) dict" where
  "apply_adjustment a rs =
     (let sv = py_strip (ad_scope_value a); key = rule_key (ad_flow a) (asset_key (ad_asset a)) (ad_scope a) sv (ad_window a) (ad_cross a) in
      case ad_limit a of
        None \<Rightarrow> dict_pop key rs
      | Some v \<Rightarrow> dict_set key
          (case dict_get rs key of
             Some r \<Rightarrow> r\<lparr>ru_limit := v\<rparr>
           | None \<Rightarrow> \<lparr>ru_flow = ad_flow a, ru_asset = asset_key (ad_asset a), ru_scope = ad_scope a, ru_scope_value = sv,
                      ru_window = ad_window a, ru_limit = v, ru_cross = ad_cross a\<rparr>) rs)"

definition apply_operator_money_adjustment :: "money_env \<Rightarrow> string option \<Rightarrow> rule_adjustment list \<Rightarrow> money_db \<Rightarrow> money_db \<times> (money_code + unit)" where
  "apply_operator_money_adjustment env token adjustments db =
     (if \<not> list_all adjustment_valid adjustments then (db, Inl Invalid_request)
      else case require_operator env token of
        Inl e \<Rightarrow> (db, Inl e)
      | Inr _ \<Rightarrow> (db\<lparr>rules := fold apply_adjustment adjustments (rules db)\<rparr>, Inr ()))"

definition set_conversion_bound :: "money_env \<Rightarrow> string option \<Rightarrow> asset \<Rightarrow> asset \<Rightarrow> int \<Rightarrow> int \<Rightarrow> time \<Rightarrow> money_db \<Rightarrow> money_db \<times> (money_code + unit)" where
  "set_conversion_bound env token from_asset to_asset numerator denominator expires db =
     (if asset_key from_asset = asset_key to_asset then (db, Inl Invalid_request)
      else case and_then (require_atomic False numerator) (\<lambda>_. require_atomic False denominator) of
        Inl e \<Rightarrow> (db, Inl e)
      | Inr _ \<Rightarrow>
          if expires \<le> env_now env \<or> expires > env_now env + max_grant_lifetime then (db, Inl Invalid_request)
          else (case require_operator env token of
              Inl e \<Rightarrow> (db, Inl e)
            | Inr _ \<Rightarrow> (db\<lparr>bounds := dict_set (asset_key from_asset, asset_key to_asset)
                \<lparr>cb_numerator = numerator, cb_denominator = denominator, cb_expires = expires\<rparr> (bounds db)\<rparr>, Inr ())))"

definition conversion_bound_view :: "money_db \<Rightarrow> time \<Rightarrow> asset \<Rightarrow> asset \<Rightarrow> conversion_bound option" where
  "conversion_bound_view db now from_asset to_asset =
     (case dict_get (bounds db) (asset_key from_asset, asset_key to_asset) of None \<Rightarrow> None
      | Some b \<Rightarrow> if cb_expires b \<le> now then None else Some b)"

definition convert_up :: "money_db \<Rightarrow> int \<Rightarrow> string \<Rightarrow> string \<Rightarrow> time \<Rightarrow> int option" where
  "convert_up db amount from_key to_key now =
     (if from_key = to_key then Some amount
      else case dict_get (bounds db) (from_key, to_key) of None \<Rightarrow> None
      | Some b \<Rightarrow> if cb_expires b \<le> now then None else Some (ceil_div (amount * cb_numerator b) (cb_denominator b)))"

definition convert_up_bound :: "money_db \<Rightarrow> time \<Rightarrow> int \<Rightarrow> asset \<Rightarrow> asset \<Rightarrow> money_code + int option" where
  "convert_up_bound db now amount from_asset to_asset =
     and_then (require_atomic True amount) (\<lambda>v. Inr (convert_up db v (asset_key from_asset) (asset_key to_asset) now))"

section \<open>What the lines hold\<close>

definition line_amount :: "line_row \<Rightarrow> int" where
  "line_amount r = (case (ln_state r, ln_actual r) of (Line_Exact, Some a) \<Rightarrow> a | _ \<Rightarrow> ln_max r)"

text \<open>The join of lines and liabilities.\<close>

definition joined :: "money_db \<Rightarrow> (string \<times> liability \<times> line_row) list" where
  "joined db = concat (map (\<lambda>(i, l). map (\<lambda>r. (i, l, r)) (li_lines l)) (liabilities db))"

definition identity_scope :: "money_identity \<Rightarrow> money_scope \<Rightarrow> string" where
  "identity_scope i s = (case s of Sc_Request \<Rightarrow> mi_request i | Sc_Turn \<Rightarrow> mi_turn i | Sc_Task \<Rightarrow> mi_task i | Sc_Agent \<Rightarrow> mi_agent i
     | Sc_Session \<Rightarrow> mi_session i | Sc_Project \<Rightarrow> mi_project i | Sc_Provider \<Rightarrow> mi_provider i | _ \<Rightarrow> [])"

definition scope_value :: "money_scope \<Rightarrow> money_identity \<Rightarrow> money_line \<Rightarrow> string option" where
  "scope_value s i l = (case s of
     Sc_Global \<Rightarrow> Some ''global''
   | Sc_Account \<Rightarrow> if ml_account l = [] then None else Some (ml_account l)
   | _ \<Rightarrow> if identity_scope i s = [] then None else Some (identity_scope i s))"

definition in_scope :: "money_scope \<Rightarrow> string \<Rightarrow> liability \<Rightarrow> line_row \<Rightarrow> bool" where
  "in_scope s v l r = (case s of Sc_Global \<Rightarrow> True | Sc_Account \<Rightarrow> ln_account r = v | _ \<Rightarrow> identity_scope (tm_identity (li_terms l)) s = v)"

definition settled_at :: "liability \<Rightarrow> time" where
  "settled_at l = (case li_settled l of None \<Rightarrow> 0 | Some t \<Rightarrow> t)"

definition rule_counts :: "money_rule \<Rightarrow> string \<Rightarrow> time \<Rightarrow> liability \<Rightarrow> line_row \<Rightarrow> bool" where
  "rule_counts ru v now l r \<longleftrightarrow> ln_flow r = ru_flow ru \<and> \<not> closed_state (li_status l) \<and> in_scope (ru_scope ru) v l r
     \<and> (ru_cross ru \<or> ln_asset r = ru_asset ru)
     \<and> \<not> (ru_window ru > 0 \<and> li_status l = Li_Settled \<and> settled_at l < now - ru_window ru)"

definition rule_usage :: "money_db \<Rightarrow> money_rule \<Rightarrow> string \<Rightarrow> time \<Rightarrow> money_code + int" where
  "rule_usage db ru v now =
     and_then (each (\<lambda>(i, l, r). case convert_up db (line_amount r) (ln_asset r) (ru_asset ru) now of
                       None \<Rightarrow> Inl Conversion_unavailable | Some a \<Rightarrow> Inr a)
                    (filter (\<lambda>(i, l, r). rule_counts ru v now l r) (joined db)))
       (\<lambda>amounts. Inr (sum_list amounts))"

text \<open>What a rule needs of a line, or \<open>None\<close> when it does not apply to it.\<close>

definition rule_need :: "money_db \<Rightarrow> money_rule \<Rightarrow> money_line \<Rightarrow> time \<Rightarrow> money_code + int option" where
  "rule_need db ru l now =
     (if asset_key (ml_asset l) = ru_asset ru then Inr (Some (ml_max l))
      else if ru_cross ru then
        (case convert_up db (ml_max l) (asset_key (ml_asset l)) (ru_asset ru) now of None \<Rightarrow> Inl Conversion_unavailable | Some a \<Rightarrow> Inr (Some a))
      else Inr None)"

definition check_rule :: "money_db \<Rightarrow> facts \<Rightarrow> time \<Rightarrow> money_rule \<Rightarrow> money_code option" where
  "check_rule db fc now ru =
     (case line_get (ru_flow ru) (fc_lines fc) of None \<Rightarrow> None
      | Some l \<Rightarrow>
        (case rule_need db ru l now of
           Inl e \<Rightarrow> Some e
         | Inr None \<Rightarrow> None
         | Inr (Some need) \<Rightarrow>
           (case scope_value (ru_scope ru) (tm_identity (fc_terms fc)) l of None \<Rightarrow> None
            | Some v \<Rightarrow>
                if ru_scope_value ru \<noteq> [] \<and> ru_scope_value ru \<noteq> v then None
                else (case rule_usage db ru v now of
                   Inl e \<Rightarrow> Some e
                 | Inr used \<Rightarrow> if used + need > ru_limit ru then Some Budget_exceeded else None))))"

definition check_rules :: "money_db \<Rightarrow> facts \<Rightarrow> time \<Rightarrow> money_code + unit" where
  "check_rules db fc now = check_all (check_rule db fc now) (map snd (sort_key (\<lambda>(k, ru). (scope_rank (ru_scope ru), k)) (rules db)))"

section \<open>What a grant has authorized\<close>

record grant_usage =
  us_principal :: int
  us_fees :: int
  us_operations :: int
  us_concurrent :: int
  us_last_created :: time

definition period_start :: "grant_spec \<Rightarrow> time \<Rightarrow> time" where
  "period_start sp now = (if gs_renewal sp = 0 then 0
     else gs_anchor sp + of_int (max 0 \<lfloor>(now - gs_anchor sp) / of_int (gs_renewal sp)\<rfloor>) * of_int (gs_renewal sp))"

text \<open>Completed costs of an earlier period age out; unresolved ones carry over.\<close>

definition aged_out :: "grant_spec \<Rightarrow> time \<Rightarrow> liability \<Rightarrow> bool" where
  "aged_out sp now l \<longleftrightarrow> gs_renewal sp \<noteq> 0 \<and> li_status l = Li_Settled
     \<and> (if settled_at l \<noteq> 0 then settled_at l else li_created l) < period_start sp now"

definition grant_counts :: "string \<Rightarrow> grant_spec \<Rightarrow> time \<Rightarrow> string \<Rightarrow> string \<Rightarrow> liability \<Rightarrow> bool" where
  "grant_counts gid sp now exclude i l \<longleftrightarrow> (tm_grant (li_terms l) = gid \<or> i \<in> set (gs_carried sp)) \<and> i \<noteq> exclude \<and> \<not> aged_out sp now l"

definition principal_flow :: "liability \<Rightarrow> money_flow \<Rightarrow> bool" where
  "principal_flow l f \<longleftrightarrow> f = sc_bound (operation_schema (tm_kind (li_terms l))) \<or> f = Service_fee"

definition principal_of :: "liability \<Rightarrow> int" where
  "principal_of l = (if closed_state (li_status l) then 0
     else sum_list (map (\<lambda>r. if principal_flow l (ln_flow r) then line_amount r else 0) (li_lines l)))"

definition fees_of :: "liability \<Rightarrow> int" where
  "fees_of l = (if closed_state (li_status l) then 0
     else sum_list (map (\<lambda>r. if \<not> principal_flow l (ln_flow r) \<and> ln_flow r = Network_fee then line_amount r else 0) (li_lines l)))"

definition usage_of :: "money_db \<Rightarrow> string \<Rightarrow> grant_spec \<Rightarrow> time \<Rightarrow> string \<Rightarrow> grant_usage" where
  "usage_of db gid sp now exclude =
     (let ls = map snd (filter (\<lambda>(i, l). grant_counts gid sp now exclude i l) (liabilities db)) in
      \<lparr>us_principal = sum_list (map principal_of ls), us_fees = sum_list (map fees_of ls),
       us_operations = int (length (filter (\<lambda>l. \<not> closed_state (li_status l)) ls)),
       us_concurrent = int (length (filter (\<lambda>l. held_state (li_status l)) ls)),
       us_last_created = fold max (map li_created (filter (\<lambda>l. li_status l \<noteq> Li_Released) ls)) 0\<rparr>)"

text \<open>The amount a request needs of its grant: the bound line and the service fee's ceiling.\<close>

definition max_of :: "money_flow \<Rightarrow> (money_flow, money_line) dict \<Rightarrow> int" where
  "max_of f d = (case line_get f d of None \<Rightarrow> 0 | Some l \<Rightarrow> ml_max l)"

definition principal_need :: "facts \<Rightarrow> int" where
  "principal_need fc = max_of (sc_bound (operation_schema (tm_kind (fc_terms fc)))) (fc_lines fc) + max_of Service_fee (fc_lines fc)"

definition line_asset :: "money_flow \<Rightarrow> (money_flow, money_line) dict \<Rightarrow> string option" where
  "line_asset f d = map_option (\<lambda>l. asset_key (ml_asset l)) (line_get f d)"

text \<open>The bindings of a grant: kind, provider, models, routes, payer, assets and identity.\<close>

definition grant_binds :: "grant_spec \<Rightarrow> facts \<Rightarrow> bool" where
  "grant_binds sp fc \<longleftrightarrow>
     (let t = fc_terms fc; sc = operation_schema (tm_kind t); i = tm_identity t in
      tm_kind t \<in> set (gs_ops sp) \<and> mi_provider i = gs_provider sp
      \<and> (gs_provider_account sp \<noteq> [] \<longrightarrow> tm_provider_account t = gs_provider_account sp)
      \<and> (sc_inference sc \<and> gs_kind sp \<noteq> Provider_budget \<longrightarrow> tm_model t \<in> set (gs_models sp) \<and> tm_route t \<in> set (gs_routes sp))
      \<and> (sc_wallet sc \<longrightarrow> tm_network t = gs_network sp \<and> tm_payer t = gs_payer sp)
      \<and> line_asset (sc_bound sc) (fc_lines fc) = Some (gs_asset sp)
      \<and> (gs_task sp \<noteq> [] \<longrightarrow> mi_task i = gs_task sp) \<and> (gs_session sp \<noteq> [] \<longrightarrow> mi_session i = gs_session sp)
      \<and> (gs_agent sp \<noteq> [] \<longrightarrow> mi_agent i = gs_agent sp)
      \<and> (line_asset Service_fee (fc_lines fc) = None \<or> line_asset Service_fee (fc_lines fc) = line_asset (sc_bound sc) (fc_lines fc)))"

definition check_grant :: "money_db \<Rightarrow> string \<Rightarrow> money_grant \<Rightarrow> facts \<Rightarrow> time \<Rightarrow> string \<Rightarrow> money_code + unit" where
  "check_grant db gid g fc now exclude =
     (let sp = gr_spec g; need = principal_need fc; fee = line_get Network_fee (fc_lines fc); us = usage_of db gid sp now exclude in
      if gr_revoked g then Inl Authority_revoked
      else if now < gs_not_before sp then Inl Authority_invalid
      else if gs_expires sp \<noteq> 0 \<and> now \<ge> gs_expires sp then Inl Authority_expired
      else if \<not> grant_binds sp fc then Inl Authority_invalid
      else if need > gs_per_operation sp then Inl Authority_exhausted
      else if fee \<noteq> None \<and> (gs_fee_asset sp = [] \<or> line_asset Network_fee (fc_lines fc) \<noteq> Some (gs_fee_asset sp)) then Inl Authority_invalid
      else if fee \<noteq> None \<and> max_of Network_fee (fc_lines fc) > gs_per_operation_fee sp then Inl Authority_exhausted
      else if us_principal us + need > gs_max_total sp then Inl Authority_exhausted
      else if fee \<noteq> None \<and> us_fees us + max_of Network_fee (fc_lines fc) > gs_max_fee_total sp then Inl Authority_exhausted
      else if gs_max_operations sp \<noteq> 0 \<and> us_operations us + 1 > gs_max_operations sp then Inl Authority_exhausted
      else if gs_max_concurrent sp \<noteq> 0 \<and> us_concurrent us + 1 > gs_max_concurrent sp then Inl Authority_rate_limited
      else if gs_min_interval sp \<noteq> 0 \<and> us_last_created us \<noteq> 0 \<and> now - us_last_created us < gs_min_interval sp then Inl Authority_rate_limited
      else Inr ())"

record headroom =
  hr_revoked :: bool
  hr_principal_left :: int
  hr_fees_left :: "int option"
  hr_operations_left :: "int option"
  hr_open :: int

definition grant_headroom :: "money_db \<Rightarrow> time \<Rightarrow> string \<Rightarrow> headroom option" where
  "grant_headroom db now gid =
     (case dict_get (grants db) gid of None \<Rightarrow> None
      | Some g \<Rightarrow> (let sp = gr_spec g; us = usage_of db gid sp now [] in
          Some \<lparr>hr_revoked = gr_revoked g, hr_principal_left = max 0 (gs_max_total sp - us_principal us),
            hr_fees_left = (if gs_fee_asset sp = [] then None else Some (max 0 (gs_max_fee_total sp - us_fees us))),
            hr_operations_left = (if gs_max_operations sp = 0 then None else Some (max 0 (gs_max_operations sp - us_operations us))),
            hr_open = us_concurrent us\<rparr>))"

section \<open>Liquidity\<close>

definition committed_debits :: "money_db \<Rightarrow> string \<Rightarrow> string \<Rightarrow> (money_flow \<Rightarrow> bool) \<Rightarrow> time \<Rightarrow> int" where
  "committed_debits db account asset flows since =
     sum_list (map (\<lambda>(i, l, r). if ln_account r = account \<and> ln_asset r = asset \<and> flows (ln_flow r) \<and> \<not> closed_state (li_status l)
         \<and> \<not> (li_status l = Li_Settled \<and> settled_at l \<le> since) then line_amount r else 0) (joined db))"

definition verified_credits_since :: "money_db \<Rightarrow> string \<Rightarrow> string \<Rightarrow> time \<Rightarrow> int" where
  "verified_credits_since db account asset since =
     sum_list (map (\<lambda>(i, l, r). if ln_account r = account \<and> ln_asset r = asset \<and> ln_flow r = Credit_credit \<and> li_status l = Li_Settled
         \<and> ln_verified r \<and> ln_state r = Line_Exact \<and> (case ln_resolved r of None \<Rightarrow> 0 | Some t \<Rightarrow> t) > since then line_amount r else 0) (joined db))"

datatype balance_kind = Wallet_balance | Credit_balance

text \<open>The debits a request needs, summed per balance, account and asset, in the order of its lines.\<close>

definition add_need :: "balance_kind \<times> string \<times> string \<Rightarrow> int \<Rightarrow> (balance_kind \<times> string \<times> string, int) dict \<Rightarrow> (balance_kind \<times> string \<times> string, int) dict" where
  "add_need k n d = dict_set k ((case dict_get d k of None \<Rightarrow> 0 | Some m \<Rightarrow> m) + n) d"

definition balance_needed :: "grant_spec \<Rightarrow> money_flow \<Rightarrow> balance_kind option" where
  "balance_needed sp f = (if wallet_debit f then Some Wallet_balance
     else if f = Credit_debit \<and> gs_credit_required sp then Some Credit_balance else None)"

definition liquidity_needs :: "grant_spec \<Rightarrow> facts \<Rightarrow> (balance_kind \<times> string \<times> string, int) dict" where
  "liquidity_needs sp fc = fold (\<lambda>(f, l) d. case balance_needed sp f of None \<Rightarrow> d
       | Some k \<Rightarrow> add_need (k, ml_account l, asset_key (ml_asset l)) (ml_max l) d) (fc_lines fc) []"

definition available_balance :: "money_db \<Rightarrow> balance_kind \<Rightarrow> string \<Rightarrow> string \<Rightarrow> observation \<Rightarrow> int" where
  "available_balance db k account asset ob = (case k of
     Wallet_balance \<Rightarrow> ob_balance ob - committed_debits db account asset wallet_debit (ob_at ob)
   | Credit_balance \<Rightarrow> ob_balance ob - committed_debits db account asset (\<lambda>f. f = Credit_debit) (ob_at ob) + verified_credits_since db account asset (ob_at ob))"

definition liquidity_refusal :: "money_db \<Rightarrow> time \<Rightarrow> (balance_kind \<times> string \<times> string) \<times> int \<Rightarrow> money_code option" where
  "liquidity_refusal db now n = (case n of ((k, account, asset), need) \<Rightarrow>
     (case dict_get (observations db) (account, asset) of None \<Rightarrow> Some Liquidity_unverified
      | Some ob \<Rightarrow>
          if now - ob_at ob > (case k of Wallet_balance \<Rightarrow> liquidity_ttl | Credit_balance \<Rightarrow> credit_ttl) \<or> (k = Credit_balance \<and> \<not> ob_verified ob)
          then Some Liquidity_unverified
          else if available_balance db k account asset ob < need then Some Liquidity_insufficient else None))"

definition check_liquidity :: "money_db \<Rightarrow> grant_spec \<Rightarrow> facts \<Rightarrow> time \<Rightarrow> money_code + unit" where
  "check_liquidity db sp fc now = check_all (liquidity_refusal db now) (liquidity_needs sp fc)"

definition record_liquidity_observation :: "money_env \<Rightarrow> string \<Rightarrow> asset \<Rightarrow> int \<Rightarrow> string \<Rightarrow> bool \<Rightarrow> time option \<Rightarrow> money_db \<Rightarrow> money_db \<times> (money_code + unit)" where
  "record_liquidity_observation env account a balance source verified observed_epoch db =
     (case and_then (clean_account True account) (\<lambda>acc. and_then (require_atomic True balance) (\<lambda>b. Inr (acc, b))) of
        Inl e \<Rightarrow> (db, Inl e)
      | Inr (acc, b) \<Rightarrow>
         (let src = py_strip source; observed = (case observed_epoch of None \<Rightarrow> env_now env | Some t \<Rightarrow> t) in
          if src = [] \<or> length src > 120 \<or> contains_text ''://'' src \<or> observed > env_now env + 5 then (db, Inl Invalid_request)
          else (case dict_get (observations db) (acc, asset_key a) of
              Some old \<Rightarrow> if observed < ob_at old then (db, Inr ())
                 else (db\<lparr>observations := dict_set (acc, asset_key a) \<lparr>ob_balance = b, ob_at = observed, ob_source = src, ob_verified = verified\<rparr> (observations db)\<rparr>, Inr ())
            | None \<Rightarrow> (db\<lparr>observations := dict_set (acc, asset_key a) \<lparr>ob_balance = b, ob_at = observed, ob_source = src, ob_verified = verified\<rparr> (observations db)\<rparr>, Inr ()))))"

section \<open>Funding policy\<close>

definition set_funding_policy :: "money_env \<Rightarrow> string option \<Rightarrow> string \<Rightarrow> string \<Rightarrow> asset \<Rightarrow> funding_mode option \<Rightarrow> int \<Rightarrow> int \<Rightarrow> string
    \<Rightarrow> money_db \<Rightarrow> money_db \<times> (money_code + unit)" where
  "set_funding_policy env token provider account a mode threshold topup auto_grant db =
     (case mode of None \<Rightarrow> (db, Inl Invalid_request)
      | Some m \<Rightarrow>
        (case and_then (clean_ident provider) (\<lambda>p. and_then (clean_account True account) (\<lambda>acc.
                 and_then (require_atomic True threshold) (\<lambda>t. and_then (require_atomic True topup) (\<lambda>u. Inr (p, acc, t, u))))) of
           Inl e \<Rightarrow> (db, Inl e)
         | Inr (p, acc, t, u) \<Rightarrow>
             if (m \<noteq> Funding_manual \<and> (t \<le> 0 \<or> u \<le> 0)) \<or> (m = Funding_auto \<and> auto_grant = []) then (db, Inl Invalid_request)
             else (case require_operator env token of
                Inl e \<Rightarrow> (db, Inl e)
              | Inr _ \<Rightarrow>
                  if m = Funding_auto \<and> (case dict_get (grants db) auto_grant of None \<Rightarrow> True | Some g \<Rightarrow> gs_kind (gr_spec g) \<noteq> Auto_topup)
                  then (db, Inl Authority_invalid)
                  else (db\<lparr>funding := dict_set (p, acc, asset_key a) \<lparr>fp_mode = m, fp_threshold = t, fp_topup = u, fp_grant = auto_grant\<rparr> (funding db)\<rparr>, Inr ()))))"

datatype funding_action = Manual_only | No_action | Ask_owner | Auto_blocked | Auto_eligible

record funding_decision =
  fd_mode :: funding_mode
  fd_action :: funding_action
  fd_available :: "int option"
  fd_topup :: int

definition auto_topup_action :: "money_db \<Rightarrow> time \<Rightarrow> string \<Rightarrow> int \<Rightarrow> funding_action" where
  "auto_topup_action db now gid topup =
     (case dict_get (grants db) gid of None \<Rightarrow> Auto_blocked
      | Some g \<Rightarrow> (let sp = gr_spec g; us = usage_of db gid sp now [] in
          if gr_revoked g \<or> now \<ge> gs_expires sp then Auto_blocked
          else if us_principal us + topup > gs_max_total sp then Auto_blocked
          else if us_concurrent us \<ge> 1 \<or> (gs_min_interval sp \<noteq> 0 \<and> us_last_created us \<noteq> 0 \<and> now - us_last_created us < gs_min_interval sp)
          then Auto_blocked else Auto_eligible))"

definition evaluate_funding_policy :: "money_db \<Rightarrow> time \<Rightarrow> string \<Rightarrow> string \<Rightarrow> asset \<Rightarrow> funding_decision" where
  "evaluate_funding_policy db now provider account a =
     (let manual = \<lparr>fd_mode = Funding_manual, fd_action = Manual_only, fd_available = None, fd_topup = 0\<rparr> in
      case dict_get (funding db) (provider, account, asset_key a) of None \<Rightarrow> manual
      | Some fp \<Rightarrow>
          if fp_mode fp = Funding_manual then manual
          else (case dict_get (observations db) (account, asset_key a) of
              None \<Rightarrow> \<lparr>fd_mode = fp_mode fp, fd_action = No_action, fd_available = None, fd_topup = fp_topup fp\<rparr>
            | Some ob \<Rightarrow>
                if \<not> ob_verified ob \<or> now - ob_at ob > credit_ttl
                then \<lparr>fd_mode = fp_mode fp, fd_action = No_action, fd_available = None, fd_topup = fp_topup fp\<rparr>
                else (let available = available_balance db Credit_balance account (asset_key a) ob in
                  \<lparr>fd_mode = fp_mode fp,
                   fd_action = (if available \<ge> fp_threshold fp then No_action
                     else if fp_mode fp = Funding_ask then Ask_owner
                     else auto_topup_action db now (fp_grant fp) (fp_topup fp)),
                   fd_available = Some (max available 0), fd_topup = fp_topup fp\<rparr>)))"

end
