(* ===== verification/Money_Liability.thy ===== *)
theory Money_Liability
  imports Money_Law
begin

text \<open>
  The monetary law, second part, from \<open>src/core/effect_budget_money.py\<close>: the life of a liability -- reserve, claim,
  dispatch, settle, release, retry, reconcile -- and the one step relation of every operation on the money tables. What
  it promises is proved in \<open>Money_Safety\<close>, \<open>Money_Life\<close> and \<open>Money_Ceilings\<close>. Every operation is one transaction: an operation that
  refuses leaves the tables as they were, except where the code commits first. Random identifiers are arguments.
\<close>

section \<open>Moving a liability\<close>

definition li_move :: "time \<Rightarrow> string \<Rightarrow> li_state \<Rightarrow> liability \<Rightarrow> money_db \<Rightarrow> money_db" where
  "li_move now lid s l db =
     db\<lparr>liabilities := dict_set lid (l\<lparr>li_status := s, li_updated := now, li_version := li_version l + 1\<rparr>) (liabilities db)\<rparr>"

record receipt =
  rc_id :: string
  rc_state :: li_state
  rc_attempt :: int
  rc_idempotent :: bool

definition receipt_of :: "string \<Rightarrow> liability \<Rightarrow> bool \<Rightarrow> receipt" where
  "receipt_of lid l idem = \<lparr>rc_id = lid, rc_state = li_status l, rc_attempt = li_attempt l, rc_idempotent = idem\<rparr>"

section \<open>Reserving\<close>

definition reserve_checks :: "money_db \<Rightarrow> facts \<Rightarrow> time \<Rightarrow> string \<Rightarrow> money_code + money_grant" where
  "reserve_checks db fc now exclude =
     (case dict_get (grants db) (tm_grant (fc_terms fc)) of None \<Rightarrow> Inl Authority_invalid
      | Some g \<Rightarrow> and_then (check_grant db (tm_grant (fc_terms fc)) g fc now exclude) (\<lambda>_.
                 and_then (check_rules db fc now) (\<lambda>_. and_then (check_liquidity db (gr_spec g) fc now) (\<lambda>_. Inr g))))"

definition held_row :: "money_line \<Rightarrow> line_row" where
  "held_row l = \<lparr>ln_flow = ml_flow l, ln_asset = asset_key (ml_asset l), ln_account = ml_account l, ln_max = ml_max l, ln_actual = None,
     ln_state = Line_Held, ln_verified = False, ln_evidence = [], ln_resolved = None\<rparr>"

definition new_liability :: "money_env \<Rightarrow> facts \<Rightarrow> money_grant \<Rightarrow> liability" where
  "new_liability env fc g =
     \<lparr>li_operation = fc_operation fc, li_terms = fc_terms fc, li_status = Li_Reserved, li_version = 1, li_attempt = 0,
      li_grant_version = gr_version g, li_effect = fc_effect fc, li_owner = fc_owner fc, li_instance = env_instance env,
      li_claim_token = [], li_claim_instance = [], li_executor = [], li_correlation = fc_correlation fc, li_dispatch_evidence = [],
      li_created = env_now env, li_updated = env_now env, li_claimed = None, li_dispatched = None, li_settled = None,
      li_expires = fc_expires fc, li_unknown_reason = [], li_close_reason = [], li_over_cap = False,
      li_lines = map held_row (tm_lines (fc_terms fc))\<rparr>"

definition stale :: "time \<Rightarrow> liability \<Rightarrow> bool" where
  "stale now l \<longleftrightarrow> li_status l \<in> {Li_Settled, Li_Unsent, Li_Released} \<and> li_updated l < now - money_retention"

definition prune_money :: "time \<Rightarrow> money_db \<Rightarrow> money_db" where
  "prune_money now db =
     (let gone = (\<lambda>i. case dict_get (liabilities db) i of None \<Rightarrow> False | Some l \<Rightarrow> stale now l) in
      db\<lparr>liabilities := filter (\<lambda>(i, l). \<not> stale now l) (liabilities db),
         evidences := filter (\<lambda>((i, e), p). \<not> gone i) (evidences db)\<rparr>)"

text \<open>The request an earlier reservation was made from, read back from its row.\<close>

definition request_lines :: "liability \<Rightarrow> money_code + money_line list" where
  "request_lines l =
     each (\<lambda>r. and_then (asset_from_key (ln_asset r)) (\<lambda>a. make_line (ln_flow r) a (ln_max r) (ln_account r)))
       (filter (\<lambda>r. ln_flow r \<noteq> Credit_credit \<or> tm_kind (li_terms l) = Provider_topup) (li_lines l))"

definition request_from_row :: "liability \<Rightarrow> money_code + liability_request" where
  "request_from_row l = and_then (request_lines l) (\<lambda>ls. let t = li_terms l in
     Inr \<lparr>rq_operation = li_operation l, rq_kind = Some (tm_kind t), rq_grant = tm_grant t, rq_lines = ls, rq_identity = tm_identity t,
          rq_provider_account = tm_provider_account t, rq_model = tm_model t, rq_route = tm_route t, rq_network = tm_network t,
          rq_payer = tm_payer t, rq_expires = li_expires l, rq_correlation = li_correlation l, rq_effect = li_effect l, rq_owner = li_owner l\<rparr>)"

definition rereserve :: "money_env \<Rightarrow> string \<Rightarrow> liability \<Rightarrow> liability_request \<Rightarrow> bool \<Rightarrow> string \<Rightarrow> money_db \<Rightarrow> money_db \<times> (money_code + receipt)" where
  "rereserve env lid l rq frozen owner db =
     (if rq_expires rq \<noteq> 0 \<and> rq_expires rq \<le> env_now env then (db, Inl Reservation_expired)
      else case validate_request rq (env_now env) of
        Inl e \<Rightarrow> (db, Inl e)
      | Inr fc \<Rightarrow>
          if sc_wallet (operation_schema (tm_kind (fc_terms fc))) \<and> frozen then (db, Inl Money_frozen)
          else (case reserve_checks db fc (env_now env) lid of
              Inl e \<Rightarrow> (db, Inl e)
            | Inr g \<Rightarrow>
               (let l' = l\<lparr>li_instance := env_instance env, li_claim_token := [], li_claim_instance := [], li_close_reason := [],
                           li_owner := owner, li_grant_version := gr_version g\<rparr>
                in (li_move (env_now env) lid Li_Reserved l' db, Inr (receipt_of lid (l'\<lparr>li_status := Li_Reserved\<rparr>) False)))))"

definition operation_row :: "money_db \<Rightarrow> string \<Rightarrow> (string \<times> liability) option" where
  "operation_row db op = find (\<lambda>(i, l). li_operation l = op) (liabilities db)"

definition reserve_txn :: "money_env \<Rightarrow> liability_request \<Rightarrow> facts \<Rightarrow> string \<Rightarrow> money_db \<Rightarrow> money_db \<times> (money_code + receipt)" where
  "reserve_txn env rq fc fresh db =
     (case operation_row db (fc_operation fc) of
        Some (i, l) \<Rightarrow>
          if li_terms l \<noteq> fc_terms fc then (db, Inl Idempotency_conflict)
          else if closed_state (li_status l) then rereserve env i l rq False (fc_owner fc) db
          else (db, Inr (receipt_of i l True))
      | None \<Rightarrow>
        (case reserve_checks db fc (env_now env) [] of
           Inl e \<Rightarrow> (db, Inl e)
         | Inr g \<Rightarrow> (let l = new_liability env fc g; lid = ''mli:'' @ fresh in
             if dict_get (liabilities db) lid \<noteq> None then (db, Inl Store_unavailable)
             else (prune_money (env_now env) (db\<lparr>liabilities := dict_set lid l (liabilities db)\<rparr>), Inr (receipt_of lid l False)))))"

definition bind_liability_effect :: "string \<Rightarrow> string \<Rightarrow> money_db \<Rightarrow> money_db \<times> (money_code + unit)" where
  "bind_liability_effect lid effect db =
     (if lid = [] \<or> effect = [] then (db, Inr ())
      else case clean_ident effect of Inl e \<Rightarrow> (db, Inl e)
      | Inr ef \<Rightarrow> (case dict_get (liabilities db) lid of None \<Rightarrow> (db, Inr ())
          | Some l \<Rightarrow> if li_status l = Li_Reserved then (db\<lparr>liabilities := dict_set lid (l\<lparr>li_effect := ef\<rparr>) (liabilities db)\<rparr>, Inr ())
                     else (db, Inr ())))"

section \<open>The dispatch claim\<close>

definition code_name :: "money_code \<Rightarrow> string" where
  "code_name c = (case c of Authority_revoked \<Rightarrow> ''MONEY_AUTHORITY_REVOKED'' | Authority_expired \<Rightarrow> ''MONEY_AUTHORITY_EXPIRED''
     | Reservation_expired \<Rightarrow> ''MONEY_RESERVATION_EXPIRED'' | Money_frozen \<Rightarrow> ''MONEY_FROZEN'' | _ \<Rightarrow> [])"

definition wallet_kind :: "op_kind \<Rightarrow> bool" where
  "wallet_kind k \<longleftrightarrow> sc_wallet (operation_schema k)"

definition claim_refusal :: "money_env \<Rightarrow> money_grant \<Rightarrow> liability \<Rightarrow> money_code option" where
  "claim_refusal env g l =
     (if gr_revoked g then Some Authority_revoked
      else if gs_expires (gr_spec g) \<noteq> 0 \<and> env_now env \<ge> gs_expires (gr_spec g) then Some Authority_expired
      else if li_expires l \<noteq> 0 \<and> li_expires l \<le> env_now env then Some Reservation_expired
      else if env_frozen env \<and> wallet_kind (tm_kind (li_terms l)) then Some Money_frozen else None)"

record dispatch_claim =
  dc_liability :: string
  dc_token :: string
  dc_attempt :: int
  dc_executor :: string

definition claim_dispatch :: "money_env \<Rightarrow> string \<Rightarrow> string \<Rightarrow> string \<Rightarrow> money_db \<Rightarrow> money_db \<times> (money_code + dispatch_claim)" where
  "claim_dispatch env lid executor token db =
     (case clean_ident executor of Inl e \<Rightarrow> (db, Inl e)
      | Inr ex0 \<Rightarrow>
        (case dict_get (liabilities db) lid of None \<Rightarrow> (db, Inl State_error)
         | Some l \<Rightarrow>
             if li_status l \<in> {Li_Dispatching, Li_Pending, Li_Unknown, Li_Settled} then (db, Inl Claim_conflict)
             else if closed_state (li_status l) then (db, Inl State_error)
             else (case dict_get (grants db) (tm_grant (li_terms l)) of None \<Rightarrow> (db, Inl Authority_invalid)
               | Some g \<Rightarrow>
                 (case claim_refusal env g l of
                    Some code \<Rightarrow> (li_move (env_now env) lid Li_Released (l\<lparr>li_close_reason := ''claim refused: '' @ code_name code\<rparr>) db, Inl code)
                  | None \<Rightarrow>
                     (let ex = (if ex0 = [] then ''unnamed-executor'' else ex0); l' = l\<lparr>li_claim_token := token, li_claim_instance := env_instance env,
                            li_executor := ex, li_claimed := Some (env_now env), li_attempt := li_attempt l + 1\<rparr>
                      in (li_move (env_now env) lid Li_Dispatching l' db,
                          Inr \<lparr>dc_liability = lid, dc_token = token, dc_attempt = li_attempt l + 1, dc_executor = ex\<rparr>))))))"

definition claim_held :: "liability \<Rightarrow> string \<Rightarrow> bool" where
  "claim_held l token \<longleftrightarrow> token \<noteq> [] \<and> li_claim_token l = token"

section \<open>Dispatched, unknown, unsent, released\<close>

definition record_dispatched :: "money_env \<Rightarrow> string \<Rightarrow> string \<Rightarrow> string \<Rightarrow> money_db \<Rightarrow> money_db \<times> (money_code + li_state)" where
  "record_dispatched env lid token evidence db =
     (case dict_get (liabilities db) lid of None \<Rightarrow> (db, Inl State_error)
      | Some l \<Rightarrow>
          if \<not> claim_held l token then (db, Inl Claim_conflict)
          else if li_status l = Li_Pending then (db, Inr Li_Pending)
          else if li_status l \<noteq> Li_Dispatching \<and> li_status l \<noteq> Li_Unknown then (db, Inl State_error)
          else (case clean_ident evidence of Inl e \<Rightarrow> (db, Inl e)
            | Inr ev \<Rightarrow> (li_move (env_now env) lid Li_Pending (l\<lparr>li_dispatched := Some (env_now env), li_dispatch_evidence := ev\<rparr>) db, Inr Li_Pending)))"

definition record_unknown :: "money_env \<Rightarrow> string \<Rightarrow> string \<Rightarrow> string \<Rightarrow> money_db \<Rightarrow> money_db \<times> (money_code + li_state)" where
  "record_unknown env lid token reason db =
     (case dict_get (liabilities db) lid of None \<Rightarrow> (db, Inl State_error)
      | Some l \<Rightarrow>
          if li_status l \<in> {Li_Unknown, Li_Settled} \<or> closed_state (li_status l) then (db, Inr (li_status l))
          else if li_status l = Li_Reserved then (db, Inl State_error)
          else if \<not> claim_held l token then (db, Inl Claim_conflict)
          else (li_move (env_now env) lid Li_Unknown (l\<lparr>li_unknown_reason := take 200 (if reason = [] then ''outcome_unknown'' else reason)\<rparr>) db, Inr Li_Unknown))"

datatype unsent_proof =
    Local_refusal | Connection_not_established | Validated_rejection | Signing_request_expired
  | Provider_not_received | Chain_not_landed | Unsent_attestation | Other_proof

definition proof_name :: "unsent_proof \<Rightarrow> string" where
  "proof_name p = (case p of Local_refusal \<Rightarrow> ''local_refusal_before_send'' | Connection_not_established \<Rightarrow> ''connection_not_established''
     | Validated_rejection \<Rightarrow> ''validated_rejection_before_execution'' | Signing_request_expired \<Rightarrow> ''signing_request_expired_unconsumed''
     | Provider_not_received \<Rightarrow> ''provider_confirmed_not_received'' | Chain_not_landed \<Rightarrow> ''chain_expired_not_landed''
     | Unsent_attestation \<Rightarrow> ''operator_attestation'' | Other_proof \<Rightarrow> [])"

definition claimant_proof :: "unsent_proof \<Rightarrow> bool" where
  "claimant_proof p \<longleftrightarrow> p \<in> {Local_refusal, Connection_not_established, Validated_rejection, Signing_request_expired}"

definition external_proof :: "unsent_proof \<Rightarrow> bool" where
  "external_proof p \<longleftrightarrow> p \<in> {Provider_not_received, Chain_not_landed, Signing_request_expired}"

definition record_unsent :: "money_env \<Rightarrow> string \<Rightarrow> string \<Rightarrow> unsent_proof \<Rightarrow> string \<Rightarrow> evidence_source \<Rightarrow> string option
    \<Rightarrow> money_db \<Rightarrow> money_db \<times> (money_code + li_state)" where
  "record_unsent env lid token proof evidence source operator db =
     (if proof = Other_proof \<or> source = Other_source then (db, Inl Evidence_insufficient)
      else case clean_ident evidence of Inl e \<Rightarrow> (db, Inl e)
      | Inr _ \<Rightarrow>
        (case dict_get (liabilities db) lid of None \<Rightarrow> (db, Inl State_error)
         | Some l \<Rightarrow>
             if li_status l = Li_Unsent then (db, Inr Li_Unsent)
             else if li_status l \<in> {Li_Reserved, Li_Released, Li_Settled} then (db, Inl State_error)
             else (case (if proof = Unsent_attestation then (case require_operator env operator of Inl e \<Rightarrow> Some e | Inr _ \<Rightarrow> None)
                         else if li_status l = Li_Dispatching \<and> claimant_proof proof then (if claim_held l token then None else Some Claim_conflict)
                         else if \<not> external_proof proof \<or> source = From_user then Some Evidence_insufficient else None) of
                 Some e \<Rightarrow> (db, Inl e)
               | None \<Rightarrow> (li_move (env_now env) lid Li_Unsent (l\<lparr>li_close_reason := ''unsent: '' @ proof_name proof\<rparr>) db, Inr Li_Unsent))))"

definition release_unclaimed :: "money_env \<Rightarrow> string \<Rightarrow> string \<Rightarrow> money_db \<Rightarrow> money_db \<times> bool" where
  "release_unclaimed env lid reason db =
     (case dict_get (liabilities db) lid of None \<Rightarrow> (db, False)
      | Some l \<Rightarrow> if li_status l \<noteq> Li_Reserved then (db, False)
                 else (li_move (env_now env) lid Li_Released (l\<lparr>li_close_reason := take 200 reason\<rparr>) db, True))"

definition owned_unclaimed :: "money_db \<Rightarrow> string \<Rightarrow> string list" where
  "owned_unclaimed db owner = map fst (filter (\<lambda>(i, l). li_owner l = owner \<and> li_status l = Li_Reserved) (liabilities db))"

definition release_unclaimed_for_owner :: "money_env \<Rightarrow> string \<Rightarrow> string \<Rightarrow> money_db \<Rightarrow> money_db \<times> nat" where
  "release_unclaimed_for_owner env owner reason db =
     (if owner = [] then (db, 0)
      else (fold (\<lambda>i d. fst (release_unclaimed env i reason d)) (owned_unclaimed db owner) db, length (owned_unclaimed db owner)))"

definition retry_unsent :: "money_env \<Rightarrow> string \<Rightarrow> money_db \<Rightarrow> money_db \<times> (money_code + receipt)" where
  "retry_unsent env lid db =
     (case dict_get (liabilities db) lid of None \<Rightarrow> (db, Inl State_error)
      | Some l \<Rightarrow>
          if li_status l \<noteq> Li_Unsent then (db, Inl State_error)
          else (case request_from_row l of Inl e \<Rightarrow> (db, Inl e)
            | Inr rq \<Rightarrow> rereserve env lid l rq (env_frozen env \<and> wallet_kind (tm_kind (li_terms l))) (li_owner l) db))"

text \<open>An identity is filled from the scope that owns the request, and never re-attributed.\<close>

definition merge_part :: "string \<times> string \<Rightarrow> money_code + string" where
  "merge_part p = (if fst p \<noteq> [] \<and> snd p \<noteq> [] \<and> fst p \<noteq> snd p then Inl Identity_conflict else Inr (if fst p \<noteq> [] then fst p else snd p))"

definition bind_owned_identity :: "liability_request \<Rightarrow> money_identity \<Rightarrow> string \<Rightarrow> string \<Rightarrow> money_code + liability_request" where
  "bind_owned_identity rq owned owner effect =
     (let i = rq_identity rq in
      and_then (each merge_part [(mi_request owned, mi_request i), (mi_turn owned, mi_turn i), (mi_task owned, mi_task i), (mi_agent owned, mi_agent i),
                                 (mi_session owned, mi_session i), (mi_project owned, mi_project i), (mi_provider owned, mi_provider i)])
        (\<lambda>xs. case xs of [a, b, c, d, e, f, g] \<Rightarrow> and_then (make_identity a b c d e f g) (\<lambda>m.
             Inr (rq\<lparr>rq_identity := m, rq_owner := (if owner \<noteq> [] then owner else rq_owner rq), rq_effect := (if effect \<noteq> [] then effect else rq_effect rq)\<rparr>))
           | _ \<Rightarrow> Inl Invalid_request))"

section \<open>Settlement evidence\<close>

record credit_line =
  cr_asset :: asset
  cr_account :: string
  cr_amount :: int
  cr_verified :: bool

record settlement_evidence =
  ev_kind :: evidence_kind
  ev_id :: string
  ev_source :: evidence_source
  ev_actuals :: "(money_flow, int) dict"
  ev_credits :: "credit_line list"
  ev_public :: "(string, string) dict"
  ev_operator :: "string option"

definition evidence_flows :: "evidence_kind \<Rightarrow> money_flow list" where
  "evidence_flows k = (case k of
     Chain_confirmation \<Rightarrow> [Wallet_outflow, Network_fee]
   | Usage_receipt \<Rightarrow> [Inference_expense, Credit_debit, Credit_credit]
   | Billing_statement \<Rightarrow> [Inference_expense, Credit_debit, Credit_credit]
   | Refusal_record \<Rightarrow> [Inference_expense, Credit_debit]
   | Usage_priced \<Rightarrow> [Inference_expense]
   | Operator_attestation \<Rightarrow> [Wallet_outflow, Network_fee, Inference_expense, Credit_debit, Credit_credit, Service_fee]
   | _ \<Rightarrow> [])"

definition contradicts :: "evidence_kind \<Rightarrow> bool" where
  "contradicts k \<longleftrightarrow> k \<in> {Chain_confirmation, Usage_receipt, Billing_statement, Operator_attestation}"

definition payload_of :: "settlement_evidence \<Rightarrow> money_code + evidence_payload" where
  "payload_of ev =
     and_then (each (\<lambda>(f, v). and_then (require_atomic True v) (\<lambda>a. Inr (f, a))) (ev_actuals ev)) (\<lambda>actuals.
       if \<not> list_all (\<lambda>(k, v). correlation_key k \<and> public_value v) (ev_public ev) then Inl Invalid_request
       else Inr \<lparr>pl_kind = ev_kind ev, pl_id = ev_id ev, pl_source = ev_source ev, pl_actuals = sort_key (flow_rank \<circ> fst) actuals,
              pl_credits = sort_key (\<lambda>(acc, a, n, v). (acc, a)) (map (\<lambda>c. (cr_account c, asset_key (cr_asset c), cr_amount c, cr_verified c)) (ev_credits ev)),
              pl_public = sort_key fst (ev_public ev)\<rparr>)"

definition evidence_admissible :: "settlement_evidence \<Rightarrow> money_code + evidence_payload" where
  "evidence_admissible ev =
     (if ev_kind ev = Balance_delta \<or> ev_kind ev = Other_evidence \<or> ev_source ev = Other_source then Inl Evidence_insufficient
      else if \<not> operation_id_text (ev_id ev) then Inl Invalid_request else payload_of ev)"

definition line_of :: "liability \<Rightarrow> money_flow \<Rightarrow> line_row option" where
  "line_of l f = find (\<lambda>r. ln_flow r = f) (li_lines l)"

text \<open>A provider's admission refusal proves a zero charge of a prepaid operation, and nothing else.\<close>

definition public_text :: "string \<Rightarrow> evidence_payload \<Rightarrow> string" where
  "public_text k pl = py_strip (case dict_get (pl_public pl) k of None \<Rightarrow> [] | Some v \<Rightarrow> v)"

definition refusal_status_ok :: "string \<Rightarrow> bool" where
  "refusal_status_ok s \<longleftrightarrow> s \<noteq> [] \<and> list_all is_digit s \<and> 100 \<le> read_nat s \<and> read_nat s < 500"

definition refusal_record_check :: "liability \<Rightarrow> evidence_payload \<Rightarrow> money_code option" where
  "refusal_record_check l pl =
     (if pl_kind pl \<noteq> Refusal_record then None
      else if pl_source pl \<noteq> From_provider then Some Evidence_insufficient
      else if li_status l = Li_Settled then Some Settlement_conflict
      else if public_text ''refusal_code'' pl = [] \<or> \<not> refusal_status_ok (public_text ''refusal_status'' pl) then Some Evidence_insufficient
      else if tm_kind (li_terms l) \<noteq> Inference_prepaid then Some Evidence_insufficient
      else if list_ex (\<lambda>(f, v). v \<noteq> 0) (pl_actuals pl) then Some Evidence_insufficient
      else if list_ex (\<lambda>f. line_of l f \<noteq> None \<and> dict_get (pl_actuals pl) f = None) [Inference_expense, Credit_debit] then Some Evidence_insufficient
      else None)"

definition exact_actual :: "line_row \<Rightarrow> int option" where
  "exact_actual r = (if ln_state r = Line_Exact then ln_actual r else None)"

definition actual_check :: "liability \<Rightarrow> evidence_kind \<Rightarrow> money_flow \<times> int \<Rightarrow> money_code option" where
  "actual_check l k p =
     (if fst p \<notin> set (evidence_flows k) then Some Evidence_insufficient
      else case line_of l (fst p) of None \<Rightarrow> Some Settlement_conflict
      | Some r \<Rightarrow> (case exact_actual r of None \<Rightarrow> None | Some a \<Rightarrow> if a \<noteq> snd p then Some Settlement_conflict else None))"

definition known_amount :: "liability \<Rightarrow> evidence_payload \<Rightarrow> money_flow \<Rightarrow> int option" where
  "known_amount l pl f = (case dict_get (pl_actuals pl) f of Some a \<Rightarrow> Some a
     | None \<Rightarrow> (case line_of l f of None \<Rightarrow> None | Some r \<Rightarrow> exact_actual r))"

definition credit_check :: "liability \<Rightarrow> evidence_payload \<Rightarrow> money_code option" where
  "credit_check l pl =
     (case pl_credits pl of [] \<Rightarrow> None
      | (account, ass, n, v) # others \<Rightarrow>
          if Credit_credit \<notin> set (evidence_flows (pl_kind pl)) then Some Evidence_insufficient
          else if tm_kind (li_terms l) \<notin> {Inference_x402, Provider_topup} \<or> others \<noteq> [] \<or> account \<noteq> tm_provider_account (li_terms l)
             \<or> (case line_of l Wallet_outflow of None \<Rightarrow> True | Some r \<Rightarrow> ass \<noteq> ln_asset r) then Some Settlement_conflict
          else (case (known_amount l pl Wallet_outflow, known_amount l pl Inference_expense) of
              (Some paid, Some consumed) \<Rightarrow>
                 if (tm_kind (li_terms l) = Inference_x402 \<and> n > paid - consumed) \<or> n > paid then Some Settlement_conflict else None
            | (Some paid, None) \<Rightarrow> if n > paid then Some Settlement_conflict else None
            | _ \<Rightarrow> None))"

section \<open>Applying the evidence\<close>

definition set_exact :: "time \<Rightarrow> string \<Rightarrow> money_flow \<Rightarrow> int \<Rightarrow> bool \<Rightarrow> line_row list \<Rightarrow> line_row list" where
  "set_exact now evid f v verified rs =
     map (\<lambda>r. if ln_flow r = f then r\<lparr>ln_actual := Some v, ln_state := Line_Exact, ln_verified := (ln_verified r \<or> verified),
                 ln_evidence := evid, ln_resolved := Some now\<rparr> else r) rs"

text \<open>Each proven amount settles its line once; an amount above the maximum is flagged.\<close>

definition apply_actual :: "time \<Rightarrow> string \<Rightarrow> liability \<Rightarrow> money_flow \<times> int \<Rightarrow> line_row list \<times> bool \<Rightarrow> line_row list \<times> bool" where
  "apply_actual now evid l p st =
     (case line_of l (fst p) of None \<Rightarrow> st
      | Some r \<Rightarrow> if ln_state r = Line_Exact then st
                 else (set_exact now evid (fst p) (snd p) False (fst st), snd st \<or> snd p > ln_max r))"

definition apply_actuals :: "time \<Rightarrow> liability \<Rightarrow> evidence_payload \<Rightarrow> line_row list \<times> bool" where
  "apply_actuals now l pl = fold (apply_actual now (pl_id pl) l) (pl_actuals pl) (li_lines l, False)"

definition apply_credit :: "time \<Rightarrow> liability \<Rightarrow> evidence_payload \<Rightarrow> line_row list \<times> bool \<Rightarrow> money_code + (line_row list \<times> bool)" where
  "apply_credit now l pl st =
     (case pl_credits pl of [] \<Rightarrow> Inr st
      | (account, ass, n, v) # others \<Rightarrow>
         (let verified = v \<and> pl_kind pl \<in> {Usage_receipt, Billing_statement, Operator_attestation} in
          case line_of l Credit_credit of
            None \<Rightarrow> Inr (fst st @ [\<lparr>ln_flow = Credit_credit, ln_asset = ass, ln_account = account, ln_max = n, ln_actual = Some n, ln_state = Line_Exact,
                                   ln_verified = verified, ln_evidence = pl_id pl, ln_resolved = Some now\<rparr>], snd st)
          | Some r \<Rightarrow>
              if (case exact_actual r of None \<Rightarrow> False | Some a \<Rightarrow> a \<noteq> n) then Inl Settlement_conflict
              else Inr (set_exact now (pl_id pl) Credit_credit n verified (fst st), snd st \<or> n > ln_max r)))"

text \<open>The exact service fee on an accepted payment, once per liability.\<close>

definition correlation_text :: "string \<Rightarrow> liability \<Rightarrow> string" where
  "correlation_text k l = (case dict_get (li_correlation l) k of None \<Rightarrow> [] | Some v \<Rightarrow> v)"

definition fee_basis :: "liability \<Rightarrow> evidence_payload \<Rightarrow> int" where
  "fee_basis l pl = (case dict_get (pl_actuals pl) Wallet_outflow of Some a \<Rightarrow> a
     | None \<Rightarrow> (case line_of l Wallet_outflow of None \<Rightarrow> 0 | Some r \<Rightarrow> (case exact_actual r of Some a \<Rightarrow> a | None \<Rightarrow> ln_max r)))"

definition kind_name :: "evidence_kind \<Rightarrow> string" where
  "kind_name k = (case k of Chain_confirmation \<Rightarrow> ''chain_confirmation'' | Usage_receipt \<Rightarrow> ''provider_usage_receipt''
     | Billing_statement \<Rightarrow> ''provider_billing_statement'' | Refusal_record \<Rightarrow> ''provider_refusal_record'' | Usage_priced \<Rightarrow> ''usage_priced''
     | Operator_attestation \<Rightarrow> ''operator_attestation'' | Balance_delta \<Rightarrow> ''balance_delta'' | Other_evidence \<Rightarrow> [])"

definition source_name :: "evidence_source \<Rightarrow> string" where
  "source_name s = (case s of From_provider \<Rightarrow> ''provider'' | From_mechanism \<Rightarrow> ''mechanical'' | From_user \<Rightarrow> ''user'' | Other_source \<Rightarrow> [])"

definition accrue_service_fee :: "time \<Rightarrow> string \<Rightarrow> liability \<Rightarrow> evidence_payload \<Rightarrow> line_row \<Rightarrow> line_row list \<Rightarrow> fee_db
    \<Rightarrow> money_code + (line_row list \<times> fee_db)" where
  "accrue_service_fee now lid l pl fee rs fdb =
     (let policy = correlation_text ''fee_policy'' l; rate = correlation_text ''fee_rate_bps'' l; treasury = correlation_text ''fee_treasury'' l in
      if tm_kind (li_terms l) \<noteq> Inference_x402 then Inl State_error
      else if policy = [] \<or> treasury = [] \<or> rate = [] \<or> \<not> list_all is_digit rate then Inl State_error
      else if accrual_for_liability fdb lid \<noteq> None then Inr (rs, fdb)
      else (case accrue \<lparr>fa_liability = lid, fa_operation = li_operation l, fa_payer = tm_payer (li_terms l), fa_network = tm_network (li_terms l),
                   fa_asset = ln_asset fee, fa_treasury = treasury, fa_policy = policy, fa_basis = fee_basis l pl, fa_rate = int (read_nat rate),
                   fa_evidence = pl_id pl, fa_evidence_kind = kind_name (pl_kind pl), fa_source = source_name (pl_source pl)\<rparr> now fdb of
          (_, Inl e) \<Rightarrow> Inl Settlement_conflict
        | (fdb', Inr a) \<Rightarrow>
            Inr (if ln_state fee = Line_Exact then rs
                 else set_exact now (pl_id pl) Service_fee (min (ac_newly_representable a) (ln_max fee)) False rs, fdb')))"

definition fee_step_of :: "time \<Rightarrow> string \<Rightarrow> liability \<Rightarrow> evidence_payload \<Rightarrow> line_row list \<Rightarrow> fee_db \<Rightarrow> money_code + (line_row list \<times> fee_db)" where
  "fee_step_of now lid l pl rs fdb = (case line_of l Service_fee of
     Some fee \<Rightarrow> if contradicts (pl_kind pl) then accrue_service_fee now lid l pl fee rs fdb else Inr (rs, fdb)
   | None \<Rightarrow> Inr (rs, fdb))"

definition bound_held :: "line_row list \<Rightarrow> line_row list" where
  "bound_held rs = map (\<lambda>r. if ln_state r = Line_Held then r\<lparr>ln_state := Line_Bounded\<rparr> else r) rs"

record settle_result =
  se_state :: li_state
  se_idempotent :: bool
  se_over_cap :: bool
  se_contradiction :: bool

text \<open>Whether the liability may be settled by this evidence at all.\<close>

definition settle_guard :: "money_env \<Rightarrow> liability \<Rightarrow> settlement_evidence \<Rightarrow> evidence_payload \<Rightarrow> string \<Rightarrow> money_code option" where
  "settle_guard env l ev pl token =
     (if pl_kind pl = Operator_attestation \<and> (case require_operator env (ev_operator ev) of Inl _ \<Rightarrow> True | Inr _ \<Rightarrow> False) then Some Operator_required
      else if li_status l = Li_Reserved then Some State_error
      else if token \<noteq> [] \<and> li_status l \<in> {Li_Dispatching, Li_Pending} \<and> \<not> claim_held l token then Some Claim_conflict
      else if closed_state (li_status l) \<and> \<not> contradicts (pl_kind pl) then Some Settlement_conflict
      else if dict_get (pl_actuals pl) Service_fee \<noteq> None then Some Evidence_insufficient
      else (case refusal_record_check l pl of Some e \<Rightarrow> Some e
        | None \<Rightarrow> (case check_all (actual_check l (pl_kind pl)) (pl_actuals pl) of Inl e \<Rightarrow> Some e | Inr _ \<Rightarrow> credit_check l pl)))"

definition settle_write :: "money_env \<Rightarrow> string \<Rightarrow> liability \<Rightarrow> evidence_payload \<Rightarrow> line_row list \<Rightarrow> bool \<Rightarrow> fee_db \<Rightarrow> money_db \<Rightarrow> money_db" where
  "settle_write env lid l pl rs over fdb db =
     (let db1 = db\<lparr>fees := fdb, evidences := dict_set (lid, pl_id pl) pl (evidences db)\<rparr> in
      if held_state (li_status l) \<or> closed_state (li_status l)
      then li_move (env_now env) lid Li_Settled (l\<lparr>li_lines := bound_held rs, li_settled := Some (env_now env), li_over_cap := (over \<or> li_over_cap l)\<rparr>) db1
      else db1\<lparr>liabilities := dict_set lid (l\<lparr>li_lines := rs, li_over_cap := (over \<or> li_over_cap l),
                 li_updated := (if over then env_now env else li_updated l)\<rparr>) (liabilities db1)\<rparr>)"

definition settle_liability :: "money_env \<Rightarrow> string \<Rightarrow> settlement_evidence \<Rightarrow> string \<Rightarrow> money_db \<Rightarrow> money_db \<times> (money_code + settle_result)" where
  "settle_liability env lid ev token db =
     (case evidence_admissible ev of Inl e \<Rightarrow> (db, Inl e)
      | Inr pl \<Rightarrow>
        (case dict_get (liabilities db) lid of None \<Rightarrow> (db, Inl State_error)
         | Some l \<Rightarrow>
           (case dict_get (evidences db) (lid, pl_id pl) of
              Some prior \<Rightarrow> if prior = pl then (db, Inr \<lparr>se_state = li_status l, se_idempotent = True, se_over_cap = False, se_contradiction = False\<rparr>)
                           else (db, Inl Settlement_conflict)
            | None \<Rightarrow>
              (case settle_guard env l ev pl token of Some e \<Rightarrow> (db, Inl e)
               | None \<Rightarrow>
                 (case apply_credit (env_now env) l pl (apply_actuals (env_now env) l pl) of Inl e \<Rightarrow> (db, Inl e)
                  | Inr (rs, over) \<Rightarrow>
                    (case fee_step_of (env_now env) lid l pl rs (fees db) of Inl e \<Rightarrow> (db, Inl e)
                     | Inr (rs', fdb) \<Rightarrow>
                         (settle_write env lid l pl rs' over fdb db,
                          Inr \<lparr>se_state = Li_Settled, se_idempotent = False, se_over_cap = over, se_contradiction = closed_state (li_status l)\<rparr>)))))))"

section \<open>Reversal, reconciliation and the reservation\<close>

definition reverse_service_fee :: "money_env \<Rightarrow> string \<Rightarrow> settlement_evidence \<Rightarrow> int \<Rightarrow> money_db \<Rightarrow> money_db \<times> (money_code + int)" where
  "reverse_service_fee env lid ev refunded db =
     (if ev_kind ev \<notin> {Usage_receipt, Billing_statement, Operator_attestation} \<or> ev_source ev \<notin> {From_provider, From_user} then (db, Inl Evidence_insufficient)
      else if \<not> operation_id_text (ev_id ev) then (db, Inl Invalid_request)
      else case require_atomic False refunded of Inl e \<Rightarrow> (db, Inl e)
      | Inr amount \<Rightarrow>
        (if dict_get (liabilities db) lid = None then (db, Inl State_error)
         else if ev_kind ev = Operator_attestation \<and> (case require_operator env (ev_operator ev) of Inl _ \<Rightarrow> True | Inr _ \<Rightarrow> False) then (db, Inl Operator_required)
         else (case reverse lid amount (ev_id ev) (kind_name (ev_kind ev)) (source_name (ev_source ev)) (env_now env) (fees db) of
             (_, Inl e) \<Rightarrow> (db, Inl Settlement_conflict)
           | (fdb, Inr n) \<Rightarrow> (db\<lparr>fees := fdb\<rparr>, Inr n))))"

text \<open>A dead instance's reservations are released; what it may have sent becomes unknown.\<close>

definition reconcile_one :: "money_env \<Rightarrow> string \<Rightarrow> money_db \<Rightarrow> money_db" where
  "reconcile_one env lid db =
     (case dict_get (liabilities db) lid of None \<Rightarrow> db
      | Some l \<Rightarrow>
          if li_status l = Li_Reserved then
            (let expired = (li_expires l \<noteq> 0 \<and> li_expires l \<le> env_now env) in
             if expired then li_move (env_now env) lid Li_Released (l\<lparr>li_close_reason := ''reconciled: quote window expired before dispatch''\<rparr>) db
             else if env_dead env (li_instance l) then
               li_move (env_now env) lid Li_Released (l\<lparr>li_close_reason := ''reconciled: reserving instance died before any dispatch claim''\<rparr>) db
             else db)
          else if li_status l \<in> {Li_Dispatching, Li_Pending} then
            (if env_dead env (li_claim_instance l) then
               li_move (env_now env) lid Li_Unknown (l\<lparr>li_unknown_reason := ''reconciled: dispatch claimant died; the payment may have gone out''\<rparr>) db
             else db)
          else db)"

text \<open>The provider's recovery (\<open>src/core/usepod/money_law.py\<close>): an unknown prepaid hold whose recorded reason is a
  documented admission refusal settles at its proven zero.\<close>

definition refusal_code_of :: "string \<Rightarrow> string" where
  "refusal_code_of reason = (let r = py_strip reason in
     if r = ''usepod:failed_after_send:token_rejected'' then ''token_rejected''
     else if r = ''usepod:failed_after_send:payment_or_balance_required'' then ''payment_or_balance_required'' else [])"

definition refusal_status_of :: "string \<Rightarrow> string" where
  "refusal_status_of code = (if code = ''token_rejected'' then ''401'' else if code = ''payment_or_balance_required'' then ''402'' else [])"

definition recovery_evidence :: "liability \<Rightarrow> string \<Rightarrow> settlement_evidence" where
  "recovery_evidence l code =
     \<lparr>ev_kind = Refusal_record, ev_id = li_operation l, ev_source = From_provider, ev_actuals = [(Inference_expense, 0), (Credit_debit, 0)],
      ev_credits = [], ev_public = [(''refusal_code'', code), (''refusal_status'', refusal_status_of code), (''transport_mode'', ''prepaid_token''),
        (''recovered_from'', ''recorded_unknown_reason'')], ev_operator = None\<rparr>"

definition recoverable :: "liability \<Rightarrow> bool" where
  "recoverable l \<longleftrightarrow> li_status l = Li_Unknown \<and> tm_kind (li_terms l) = Inference_prepaid
     \<and> mi_provider (tm_identity (li_terms l)) \<in> {[], ''usepod''} \<and> refusal_code_of (li_unknown_reason l) \<noteq> []"

definition recover_one :: "money_env \<Rightarrow> string \<Rightarrow> money_db \<Rightarrow> money_db" where
  "recover_one env lid db = (case dict_get (liabilities db) lid of None \<Rightarrow> db
     | Some l \<Rightarrow> if recoverable l then fst (settle_liability env lid (recovery_evidence l (refusal_code_of (li_unknown_reason l))) [] db) else db)"

definition unknown_rows :: "money_db \<Rightarrow> string list" where
  "unknown_rows db = take 500 (map fst (sort_key (\<lambda>(i, l). li_created l) (filter (\<lambda>(i, l). li_status l = Li_Unknown) (liabilities db))))"

definition recover_admission_refusal_holds :: "money_env \<Rightarrow> money_db \<Rightarrow> money_db" where
  "recover_admission_refusal_holds env db = fold (recover_one env) (unknown_rows db) db"

definition reconcile_money_liabilities :: "money_env \<Rightarrow> bool \<Rightarrow> money_db \<Rightarrow> money_db" where
  "reconcile_money_liabilities env force db =
     (if \<not> force \<and> reconciled db then db
      else recover_admission_refusal_holds env
             (fold (reconcile_one env) (dict_keys (liabilities db)) (db\<lparr>reconciled := True\<rparr>)))"

text \<open>\<open>reserve_liability\<close>: validation and the freeze first, a reconciliation of its own, then the reservation's transaction.\<close>

definition reserve_liability :: "money_env \<Rightarrow> liability_request \<Rightarrow> string \<Rightarrow> money_db \<Rightarrow> money_db \<times> (money_code + receipt)" where
  "reserve_liability env rq fresh db =
     (case validate_request rq (env_now env) of Inl e \<Rightarrow> (db, Inl e)
      | Inr fc \<Rightarrow>
          if sc_wallet (operation_schema (tm_kind (fc_terms fc))) \<and> env_frozen env then (db, Inl Money_frozen)
          else reserve_txn env rq fc fresh (reconcile_money_liabilities env False db))"

text \<open>Every operation that changes the money tables.\<close>

datatype money_op =
    Reserve_op liability_request string
  | Bind_effect_op string string
  | Claim_op string string string
  | Dispatched_op string string string
  | Unknown_op string string string
  | Unsent_op string string unsent_proof string evidence_source "string option"
  | Release_op string string
  | Release_owner_op string string
  | Retry_op string
  | Settle_op string settlement_evidence string
  | Reverse_op string settlement_evidence int
  | Reconcile_op bool
  | Grant_op "string option" string grant_request string
  | Revoke_op "string option" string string
  | Rules_op "string option" "rule_adjustment list"
  | Conversion_op "string option" asset asset int int time
  | Observe_op string asset int string bool "time option"
  | Funding_op "string option" string string asset "funding_mode option" int int string

fun money_step :: "money_env \<times> money_op \<Rightarrow> money_db \<Rightarrow> money_db" where
  "money_step (env, Reserve_op rq lid) db = fst (reserve_liability env rq lid db)"
| "money_step (env, Bind_effect_op lid ef) db = fst (bind_liability_effect lid ef db)"
| "money_step (env, Claim_op lid ex tok) db = fst (claim_dispatch env lid ex tok db)"
| "money_step (env, Dispatched_op lid tok ev) db = fst (record_dispatched env lid tok ev db)"
| "money_step (env, Unknown_op lid tok r) db = fst (record_unknown env lid tok r db)"
| "money_step (env, Unsent_op lid tok p ev s o') db = fst (record_unsent env lid tok p ev s o' db)"
| "money_step (env, Release_op lid r) db = fst (release_unclaimed env lid r db)"
| "money_step (env, Release_owner_op ow r) db = fst (release_unclaimed_for_owner env ow r db)"
| "money_step (env, Retry_op lid) db = fst (retry_unsent env lid db)"
| "money_step (env, Settle_op lid ev tok) db = fst (settle_liability env lid ev tok db)"
| "money_step (env, Reverse_op lid ev n) db = fst (reverse_service_fee env lid ev n db)"
| "money_step (env, Reconcile_op f) db = reconcile_money_liabilities env f db"
| "money_step (env, Grant_op tok gid q c) db = fst (grant_money_authority env tok gid q c db)"
| "money_step (env, Revoke_op tok gid r) db = fst (revoke_money_authority env tok gid r db)"
| "money_step (env, Rules_op tok as) db = fst (apply_operator_money_adjustment env tok as db)"
| "money_step (env, Conversion_op tok a b n d e) db = fst (set_conversion_bound env tok a b n d e db)"
| "money_step (env, Observe_op acc a b s v t) db = fst (record_liquidity_observation env acc a b s v t db)"
| "money_step (env, Funding_op tok p acc a m t u g) db = fst (set_funding_policy env tok p acc a m t u g db)"

end
