(* ===== verification/Money_Safety.thy ===== *)
theory Money_Safety
  imports Money_Liability
begin

text \<open>
  What the life of a liability promises, over every operation of \<open>Money_Liability\<close>: money that an executor has
  claimed leaves the held set only by proof, one dispatch claim wins and later ones carry a higher attempt, and
  evidence is applied once. Each operation is first reduced to a move along one edge of the liability's states.
\<close>

declare map_of_eq_Some_iff [simp del] Some_eq_map_of_iff [simp del]

section \<open>What an operation leaves unchanged\<close>

lemma li_move_get [simp]: "dict_get (liabilities (li_move now i s l db)) k
    = (if k = i then Some (l\<lparr>li_status := s, li_updated := now, li_version := li_version l + 1\<rparr>) else dict_get (liabilities db) k)"
  by (simp add: li_move_def)

lemma li_move_frame [simp]: "evidences (li_move now i s l db) = evidences db" "grants (li_move now i s l db) = grants db"
  "fees (li_move now i s l db) = fees db" "rules (li_move now i s l db) = rules db"
  by (simp_all add: li_move_def)

lemma li_move_wf: "wf_dict (liabilities db) \<Longrightarrow> wf_dict (liabilities (li_move now i s l db))"
  by (simp add: li_move_def)

text \<open>The operations that write neither liabilities nor evidence.\<close>

lemma frame_grant [frame_simps]:
  "liabilities (fst (grant_money_authority env tok gid q c db)) = liabilities db"
  "evidences (fst (grant_money_authority env tok gid q c db)) = evidences db"
  by (simp_all add: grant_money_authority_def Let_def split: sum.split option.split)

lemma frame_revoke [frame_simps]:
  "liabilities (fst (revoke_money_authority env tok gid r db)) = liabilities db"
  "evidences (fst (revoke_money_authority env tok gid r db)) = evidences db"
  by (simp_all add: revoke_money_authority_def Let_def split: sum.split option.split)

lemma frame_rules [frame_simps]:
  "liabilities (fst (apply_operator_money_adjustment env tok as db)) = liabilities db"
  "evidences (fst (apply_operator_money_adjustment env tok as db)) = evidences db"
  "grants (fst (apply_operator_money_adjustment env tok as db)) = grants db"
  by (simp_all add: apply_operator_money_adjustment_def split: sum.split)

lemma frame_conversion [frame_simps]:
  "liabilities (fst (set_conversion_bound env tok a b n d e db)) = liabilities db"
  "evidences (fst (set_conversion_bound env tok a b n d e db)) = evidences db"
  "grants (fst (set_conversion_bound env tok a b n d e db)) = grants db"
  by (simp_all add: set_conversion_bound_def split: sum.split)

lemma frame_observe [frame_simps]:
  "liabilities (fst (record_liquidity_observation env acc a b s v t db)) = liabilities db"
  "evidences (fst (record_liquidity_observation env acc a b s v t db)) = evidences db"
  "grants (fst (record_liquidity_observation env acc a b s v t db)) = grants db"
  by (simp_all add: record_liquidity_observation_def Let_def split: sum.split prod.split option.split)

lemma frame_funding [frame_simps]:
  "liabilities (fst (set_funding_policy env tok p acc a m t u g db)) = liabilities db"
  "evidences (fst (set_funding_policy env tok p acc a m t u g db)) = evidences db"
  "grants (fst (set_funding_policy env tok p acc a m t u g db)) = grants db"
  by (simp_all add: set_funding_policy_def split: sum.split prod.split option.split)

lemma frame_reverse [frame_simps]:
  "liabilities (fst (reverse_service_fee env lid ev n db)) = liabilities db"
  "evidences (fst (reverse_service_fee env lid ev n db)) = evidences db"
  "grants (fst (reverse_service_fee env lid ev n db)) = grants db"
  by (simp_all add: reverse_service_fee_def split: sum.split prod.split)

section \<open>Case analysis of the operations\<close>

lemma money_settle_cases:
  obtains (same) "fst (settle_liability env lid ev token db) = db"
  | (wrote) l pl rs0 rs over fdb where "dict_get (liabilities db) lid = Some l" "evidence_admissible ev = Inr pl"
      "dict_get (evidences db) (lid, pl_id pl) = None" "settle_guard env l ev pl token = None"
      "apply_credit (env_now env) l pl (apply_actuals (env_now env) l pl) = Inr (rs0, over)"
      "fee_step_of (env_now env) lid l pl rs0 (fees db) = Inr (rs, fdb)"
      "settle_liability env lid ev token db = (settle_write env lid l pl rs over fdb db,
         Inr \<lparr>se_state = Li_Settled, se_idempotent = False, se_over_cap = over, se_contradiction = closed_state (li_status l)\<rparr>)"
proof -
  have "fst (settle_liability env lid ev token db) = db \<or>
     (\<exists>l pl rs0 rs over fdb. dict_get (liabilities db) lid = Some l \<and> evidence_admissible ev = Inr pl
      \<and> dict_get (evidences db) (lid, pl_id pl) = None \<and> settle_guard env l ev pl token = None
      \<and> apply_credit (env_now env) l pl (apply_actuals (env_now env) l pl) = Inr (rs0, over)
      \<and> fee_step_of (env_now env) lid l pl rs0 (fees db) = Inr (rs, fdb)
      \<and> settle_liability env lid ev token db = (settle_write env lid l pl rs over fdb db,
         Inr \<lparr>se_state = Li_Settled, se_idempotent = False, se_over_cap = over, se_contradiction = closed_state (li_status l)\<rparr>))"
    unfolding settle_liability_def by (simp split: sum.split option.split prod.split)
  then show thesis using that by blast
qed

text \<open>One operation on one liability: nothing, or a move along one edge that keeps its terms and its lines.\<close>

definition moves_one :: "string \<Rightarrow> time \<Rightarrow> (li_state \<times> li_state) list \<Rightarrow> money_db \<Rightarrow> money_db \<Rightarrow> bool" where
  "moves_one lid now edges db db' \<longleftrightarrow> db' = db \<or> (\<exists>l l' s. dict_get (liabilities db) lid = Some l \<and> (li_status l, s) \<in> set edges
     \<and> db' = li_move now lid s l' db \<and> li_terms l' = li_terms l \<and> li_lines l' = li_lines l \<and> li_operation l' = li_operation l
     \<and> li_attempt l \<le> li_attempt l')"

lemma moves_oneI:
  "dict_get (liabilities db) lid = Some l \<Longrightarrow> (li_status l, s) \<in> set edges \<Longrightarrow> li_terms l' = li_terms l \<Longrightarrow> li_lines l' = li_lines l
    \<Longrightarrow> li_operation l' = li_operation l \<Longrightarrow> li_attempt l \<le> li_attempt l' \<Longrightarrow> moves_one lid now edges db (li_move now lid s l' db)"
  by (auto simp: moves_one_def)

lemma moves_one_refl [simp]: "moves_one lid now edges db db"
  by (simp add: moves_one_def)

lemma claim_moves_one:
  "moves_one lid (env_now env) [(Li_Reserved, Li_Released), (Li_Reserved, Li_Dispatching)] db (fst (claim_dispatch env lid ex tok db))"
proof (cases "dict_get (liabilities db) lid")
  case (Some l)
  then show ?thesis
    by (cases "li_status l") (auto simp: claim_dispatch_def closed_state_def Let_def split: sum.split option.split intro!: moves_oneI)
qed (simp add: claim_dispatch_def split: sum.split)

lemma dispatched_moves_one:
  "moves_one lid (env_now env) [(Li_Dispatching, Li_Pending), (Li_Unknown, Li_Pending)] db (fst (record_dispatched env lid tok ev db))"
  by (auto simp: record_dispatched_def split: sum.split option.split intro!: moves_oneI)

lemma unknown_moves_one:
  "moves_one lid (env_now env) [(Li_Dispatching, Li_Unknown), (Li_Pending, Li_Unknown)] db (fst (record_unknown env lid tok r db))"
proof (cases "dict_get (liabilities db) lid")
  case (Some l)
  then show ?thesis
    by (cases "li_status l") (auto simp: record_unknown_def closed_state_def intro!: moves_oneI)
qed (simp add: record_unknown_def)

lemma unsent_moves_one:
  "moves_one lid (env_now env) [(Li_Dispatching, Li_Unsent), (Li_Pending, Li_Unsent), (Li_Unknown, Li_Unsent)] db
     (fst (record_unsent env lid tok p ev s o' db))"
proof (cases "dict_get (liabilities db) lid")
  case (Some l)
  then show ?thesis
    by (cases "li_status l") (auto simp: record_unsent_def split: sum.split option.split intro!: moves_oneI)
qed (simp add: record_unsent_def split: sum.split)

lemma release_moves_one: "moves_one lid (env_now env) [(Li_Reserved, Li_Released)] db (fst (release_unclaimed env lid r db))"
  by (auto simp: release_unclaimed_def split: option.split intro!: moves_oneI)

lemma reconcile_moves_one:
  "moves_one lid (env_now env) [(Li_Reserved, Li_Released), (Li_Dispatching, Li_Unknown), (Li_Pending, Li_Unknown)] db (reconcile_one env lid db)"
proof (cases "dict_get (liabilities db) lid")
  case (Some l)
  then show ?thesis
    by (cases "li_status l") (auto simp: reconcile_one_def Let_def intro!: moves_oneI)
qed (simp add: reconcile_one_def)

lemma rereserve_moves_one:
  assumes "dict_get (liabilities db) lid = Some l" "closed_state (li_status l)"
  shows "moves_one lid (env_now env) [(Li_Unsent, Li_Reserved), (Li_Released, Li_Reserved)] db (fst (rereserve env lid l rq fr ow db))"
  using assms by (auto simp: rereserve_def Let_def closed_state_def split: sum.split intro!: moves_oneI)

section \<open>Lookups after an operation\<close>

lemma dict_get_filter_val:
  "wf_dict d \<Longrightarrow> dict_get (filter (\<lambda>(k, v). P v) d) k = (case dict_get d k of None \<Rightarrow> None | Some v \<Rightarrow> if P v then Some v else None)"
  by (induction d) (auto split: option.splits simp: dict_get_None_iff)

lemma dict_get_filter_key: "dict_get (filter (\<lambda>((i, e), p). P i) d) (i, e) = (if P i then dict_get d (i, e) else None)"
  by (induction d) (auto split: if_splits)

lemma wf_dict_filter: "wf_dict d \<Longrightarrow> wf_dict (filter P d)"
  by (induction d) auto

lemma prune_get:
  "wf_dict (liabilities db) \<Longrightarrow> dict_get (liabilities (prune_money now db)) lid
     = (case dict_get (liabilities db) lid of None \<Rightarrow> None | Some l \<Rightarrow> if stale now l then None else Some l)"
  by (simp add: prune_money_def Let_def dict_get_filter_val [where P = "\<lambda>l. \<not> stale now l"] split: option.split)

lemma prune_evidence:
  "dict_get (liabilities db) lid = Some l \<Longrightarrow> \<not> stale now l \<Longrightarrow> dict_get (evidences (prune_money now db)) (lid, e) = dict_get (evidences db) (lid, e)"
  by (simp add: prune_money_def Let_def dict_get_filter_key [where P = "\<lambda>i. \<not> (case dict_get (liabilities db) i of None \<Rightarrow> False | Some l \<Rightarrow> stale now l)"])

lemma settle_write_get:
  "dict_get (liabilities (settle_write env lid l pl rs over fdb db)) k =
     (if k = lid then Some (if held_state (li_status l) \<or> closed_state (li_status l)
          then l\<lparr>li_lines := bound_held rs, li_settled := Some (env_now env), li_over_cap := (over \<or> li_over_cap l),
                 li_status := Li_Settled, li_updated := env_now env, li_version := li_version l + 1\<rparr>
          else l\<lparr>li_lines := rs, li_over_cap := (over \<or> li_over_cap l), li_updated := (if over then env_now env else li_updated l)\<rparr>)
      else dict_get (liabilities db) k)"
  by (auto simp: settle_write_def Let_def)

lemma settle_write_frame [simp]:
  "evidences (settle_write env lid l pl rs over fdb db) = dict_set (lid, pl_id pl) pl (evidences db)"
  "grants (settle_write env lid l pl rs over fdb db) = grants db" "fees (settle_write env lid l pl rs over fdb db) = fdb"
  by (simp_all add: settle_write_def Let_def)

section \<open>Distinct keys\<close>

lemma wf_moves_one: "moves_one lid now edges db db' \<Longrightarrow> wf_dict (liabilities db) \<Longrightarrow> wf_dict (liabilities db')"
  by (auto simp: moves_one_def li_move_wf)

lemma wf_settle: "wf_dict (liabilities db) \<Longrightarrow> wf_dict (liabilities (fst (settle_liability env lid ev tok db)))"
  by (cases rule: money_settle_cases [of env lid ev tok db]) (simp_all add: settle_write_def Let_def li_move_def)

lemma wf_fold: "(\<And>i d. wf_dict (liabilities d) \<Longrightarrow> wf_dict (liabilities (f i d))) \<Longrightarrow> wf_dict (liabilities db) \<Longrightarrow> wf_dict (liabilities (fold f xs db))"
  by (induction xs arbitrary: db) simp_all

lemma wf_reconcile:
  assumes "wf_dict (liabilities db)"
  shows "wf_dict (liabilities (reconcile_money_liabilities env f db))"
proof -
  have 1: "wf_dict (liabilities d) \<Longrightarrow> wf_dict (liabilities (reconcile_one env i d))" for i d
    by (rule wf_moves_one [OF reconcile_moves_one])
  have 2: "wf_dict (liabilities d) \<Longrightarrow> wf_dict (liabilities (recover_one env i d))" for i d
    by (auto simp: recover_one_def wf_settle split: option.split)
  show ?thesis using assms unfolding reconcile_money_liabilities_def recover_admission_refusal_holds_def
    by (auto intro!: wf_fold [OF 2] wf_fold [OF 1])
qed

lemma operation_row_get:
  "wf_dict (liabilities db) \<Longrightarrow> operation_row db op = Some (i, l) \<Longrightarrow> dict_get (liabilities db) i = Some l \<and> li_operation l = op"
  by (auto simp: operation_row_def find_Some_iff intro: find_dict dest!: nth_mem)

lemma reserve_txn_cases:
  assumes "wf_dict (liabilities db)"
  obtains (moved) i where "moves_one i (env_now env) [(Li_Unsent, Li_Reserved), (Li_Released, Li_Reserved)] db (fst (reserve_txn env rq fc fresh db))"
  | (new) g where "operation_row db (fc_operation fc) = None" "reserve_checks db fc (env_now env) [] = Inr g" "dict_get (liabilities db) (''mli:'' @ fresh) = None"
      "fst (reserve_txn env rq fc fresh db) = prune_money (env_now env) (db\<lparr>liabilities := dict_set (''mli:'' @ fresh) (new_liability env fc g) (liabilities db)\<rparr>)"
proof (cases "operation_row db (fc_operation fc)")
  case None
  show thesis
  proof (cases "reserve_checks db fc (env_now env) []")
    case (Inl e)
    then show thesis using moved [of "[]"] None by (simp add: reserve_txn_def)
  next
    case (Inr g)
    then show thesis using moved [of "[]"] new [of g] None by (cases "dict_get (liabilities db) (''mli:'' @ fresh)") (simp_all add: reserve_txn_def Let_def)
  qed
next
  case (Some x)
  obtain i l where x: "x = (i, l)" by (cases x)
  show thesis
  proof (rule moved [of i])
    from Some x operation_row_get [OF assms] have "dict_get (liabilities db) i = Some l" by blast
    then show "moves_one i (env_now env) [(Li_Unsent, Li_Reserved), (Li_Released, Li_Reserved)] db (fst (reserve_txn env rq fc fresh db))"
      using Some x rereserve_moves_one by (simp add: reserve_txn_def)
  qed
qed

lemma release_owner_fold:
  "fst (release_unclaimed_for_owner env ow r db) = db \<or>
   fst (release_unclaimed_for_owner env ow r db) = fold (\<lambda>i d. fst (release_unclaimed env i r d)) (owned_unclaimed db ow) db"
  by (simp add: release_unclaimed_for_owner_def)

lemma retry_moves_one: "moves_one lid (env_now env) [(Li_Unsent, Li_Reserved), (Li_Released, Li_Reserved)] db (fst (retry_unsent env lid db))"
  by (auto simp: retry_unsent_def closed_state_def split: option.split sum.split intro!: rereserve_moves_one)

lemma wf_prune: "wf_dict (liabilities db) \<Longrightarrow> wf_dict (liabilities (prune_money now db))"
  by (simp add: prune_money_def Let_def wf_dict_filter)

lemma wf_reserve: "wf_dict (liabilities db) \<Longrightarrow> wf_dict (liabilities (fst (reserve_liability env rq fresh db)))"
proof -
  assume wf: "wf_dict (liabilities db)"
  let ?d = "reconcile_money_liabilities env False db"
  have d: "wf_dict (liabilities ?d)" by (rule wf_reconcile [OF wf])
  have "wf_dict (liabilities (fst (reserve_txn env rq fc fresh ?d)))" for fc
  proof (rule reserve_txn_cases [OF d, of env rq fc fresh])
    fix i
    assume "moves_one i (env_now env) [(Li_Unsent, Li_Reserved), (Li_Released, Li_Reserved)] ?d (fst (reserve_txn env rq fc fresh ?d))"
    then show ?thesis using d by (rule wf_moves_one)
  next
    fix g
    assume "fst (reserve_txn env rq fc fresh ?d) = prune_money (env_now env)
        (?d\<lparr>liabilities := dict_set (''mli:'' @ fresh) (new_liability env fc g) (liabilities ?d)\<rparr>)"
    then show ?thesis using d wf_prune by simp
  qed
  with wf show ?thesis by (simp add: reserve_liability_def split: sum.split)
qed

lemma wf_money_step:
  assumes "wf_dict (liabilities db)"
  shows "wf_dict (liabilities (money_step ex db))"
proof -
  have own: "wf_dict (liabilities (fst (release_unclaimed_for_owner env ow r db)))" for env ow r
    using release_owner_fold [of env ow r db] assms wf_moves_one [OF release_moves_one]
    by (auto intro!: wf_fold [where f = "\<lambda>i d. fst (release_unclaimed env i r d)"])
  obtain env x where ex: "ex = (env, x)" by (cases ex)
  show ?thesis unfolding ex
    using assms own wf_moves_one [OF claim_moves_one] wf_moves_one [OF dispatched_moves_one] wf_moves_one [OF unknown_moves_one]
      wf_moves_one [OF unsent_moves_one] wf_moves_one [OF release_moves_one] wf_moves_one [OF retry_moves_one]
    by (cases x) (simp_all add: frame_simps wf_reserve wf_settle wf_reconcile bind_liability_effect_def split: sum.split option.split)
qed

section \<open>A concrete day of money\<close>

definition demo_env :: "time \<Rightarrow> money_env" where
  "demo_env t = \<lparr>env_now = t, env_frozen = False, env_in_scope = False, env_granted = (\<lambda>x. x = ''op''), env_instance = ''i1'', env_dead = (\<lambda>_. False)\<rparr>"

definition demo_asset :: asset where "demo_asset = \<lparr>as_network = ''sol:main'', as_asset = ''usdc'', as_decimals = 6\<rparr>"

definition demo_identity :: money_identity where
  "demo_identity = \<lparr>mi_request = [], mi_turn = [], mi_task = ''t1'', mi_agent = [], mi_session = [], mi_project = [], mi_provider = ''p''\<rparr>"

definition demo_budget :: grant_request where
  "demo_budget = \<lparr>gq_kind = Some Provider_budget, gq_ops = [Some Inference_prepaid], gq_provider = ''p'', gq_asset = demo_asset, gq_max_total = 100,
     gq_per_operation = 60, gq_expires = 0, gq_provider_account = ''acc'', gq_models = [], gq_routes = [], gq_network = [], gq_payer = [],
     gq_fee_asset = None, gq_max_fee_total = 0, gq_per_operation_fee = 0, gq_renewal = 0, gq_max_operations = 0, gq_min_interval = 0,
     gq_max_concurrent = 2, gq_task = [], gq_session = [], gq_agent = [], gq_not_before = 0, gq_credit_liquidity = Some False,
     gq_approval = [], gq_note = []\<rparr>"

definition demo_request :: "string \<Rightarrow> int \<Rightarrow> liability_request" where
  "demo_request op n = \<lparr>rq_operation = op, rq_kind = Some Inference_prepaid, rq_grant = ''mga:g'',
     rq_lines = [\<lparr>ml_flow = Inference_expense, ml_asset = demo_asset, ml_max = n, ml_account = ''acc''\<rparr>,
                 \<lparr>ml_flow = Credit_debit, ml_asset = demo_asset, ml_max = n, ml_account = ''acc''\<rparr>],
     rq_identity = demo_identity, rq_provider_account = ''acc'', rq_model = ''m'', rq_route = ''r'', rq_network = [], rq_payer = [],
     rq_expires = 0, rq_correlation = [], rq_effect = [], rq_owner = []\<rparr>"

definition demo_usage :: "string \<Rightarrow> int \<Rightarrow> settlement_evidence" where
  "demo_usage i n = \<lparr>ev_kind = Usage_receipt, ev_id = i, ev_source = From_provider, ev_actuals = [(Inference_expense, n), (Credit_debit, n)],
     ev_credits = [], ev_public = [], ev_operator = None\<rparr>"

definition demo_funded :: "(money_env \<times> money_op) list" where
  "demo_funded = [(demo_env 1000, Grant_op (Some ''op'') ''g'' demo_budget []), (demo_env 1001, Reserve_op (demo_request ''o1'' 60) ''a'')]"

definition demo_claimed :: "(money_env \<times> money_op) list" where
  "demo_claimed = demo_funded @ [(demo_env 1002, Claim_op ''mli:a'' ''x'' ''tok'')]"

definition demo_unsent :: "(money_env \<times> money_op) list" where
  "demo_unsent = [(demo_env 1003, Unsent_op ''mli:a'' ''tok'' Connection_not_established ''refused'' From_mechanism None), (demo_env 1004, Retry_op ''mli:a'')]"

definition demo_day :: "(money_env \<times> money_op) list" where
  "demo_day = demo_claimed @ [(demo_env 1003, Dispatched_op ''mli:a'' ''tok'' ''sent''),
     (demo_env 1004, Settle_op ''mli:a'' (demo_usage ''e1'' 45) ''tok''), (demo_env 1005, Reserve_op (demo_request ''o2'' 60) ''b'')]"

definition fresh_money :: money_db where
  "fresh_money = \<lparr>rules = [], bounds = [], grants = [], liabilities = [], evidences = [], observations = [], funding = [],
     fees = fresh_ledger, reconciled = False\<rparr>"

section \<open>Claimed money leaves only by proof\<close>

definition claimed_state :: "li_state \<Rightarrow> bool" where
  "claimed_state s \<longleftrightarrow> s = Li_Dispatching \<or> s = Li_Pending \<or> s = Li_Unknown"

definition still_claimed :: "liability \<Rightarrow> liability \<Rightarrow> bool" where
  "still_claimed l l' \<longleftrightarrow> li_terms l' = li_terms l \<and> li_lines l' = li_lines l \<and> claimed_state (li_status l')"

definition newly_proven :: "time \<Rightarrow> string \<Rightarrow> money_db \<Rightarrow> money_db \<Rightarrow> liability \<Rightarrow> liability \<Rightarrow> bool" where
  "newly_proven now lid db db' l l' \<longleftrightarrow> li_terms l' = li_terms l \<and> li_status l' = Li_Settled \<and> li_updated l' = now
     \<and> (\<exists>e. dict_get (evidences db') (lid, e) \<noteq> None \<and> dict_get (evidences db) (lid, e) = None)"

definition accounted :: "time \<Rightarrow> string \<Rightarrow> liability \<Rightarrow> money_db \<Rightarrow> money_db \<Rightarrow> bool" where
  "accounted now lid l db db' \<longleftrightarrow> (\<forall>k. dict_get (evidences db) k \<noteq> None \<longrightarrow> dict_get (evidences db') k \<noteq> None)
     \<and> (\<exists>l'. dict_get (liabilities db') lid = Some l' \<and> (still_claimed l l' \<or> newly_proven now lid db db' l l'))"

lemma accounted_refl: "dict_get (liabilities db) lid = Some l \<Longrightarrow> claimed_state (li_status l) \<Longrightarrow> accounted now lid l db db"
  by (auto simp: accounted_def still_claimed_def)

lemma accounted_moves_one:
  assumes a: "accounted now lid l db0 d" and m: "moves_one i t edges d d'"
    and e: "\<And>s s'. (s, s') \<in> set edges \<Longrightarrow> claimed_state s \<Longrightarrow> claimed_state s'" "\<And>s'. (Li_Settled, s') \<notin> set edges"
  shows "accounted now lid l db0 d'"
  using m unfolding moves_one_def
proof (elim disjE exE conjE)
  fix r r' s
  assume r: "dict_get (liabilities d) i = Some r" "(li_status r, s) \<in> set edges" "d' = li_move t i s r' d"
    "li_terms r' = li_terms r" "li_lines r' = li_lines r"
  show ?thesis
  proof (cases "i = lid")
    case True
    with a r e show ?thesis by (fastforce simp: accounted_def still_claimed_def newly_proven_def)
  next
    case False
    with a r show ?thesis by (auto simp: accounted_def newly_proven_def)
  qed
qed (use a in simp)

lemma accounted_settle:
  assumes a: "accounted (env_now env) lid l db0 d" and i: "i = lid \<Longrightarrow> \<forall>r. dict_get (liabilities d) lid = Some r \<longrightarrow> claimed_state (li_status r)"
  shows "accounted (env_now env) lid l db0 (fst (settle_liability env i ev tok d))"
proof (cases rule: money_settle_cases [of env i ev tok d])
  case same
  with a show ?thesis by simp
next
  case (wrote r pl rs0 rs over fdb)
  show ?thesis
  proof (cases "i = lid")
    case True
    then have c: "claimed_state (li_status r)" using i wrote(1) by blast
    obtain r' where r': "dict_get (liabilities d) lid = Some r'" "li_terms r' = li_terms l"
      using a by (auto simp: accounted_def still_claimed_def newly_proven_def)
    then have t: "li_terms r = li_terms l" using wrote(1) True by simp
    have "\<forall>k. dict_get (evidences db0) k \<noteq> None \<longrightarrow> dict_get (evidences d) k \<noteq> None"
      using a unfolding accounted_def by blast
    from spec [OF this, of "(lid, pl_id pl)"] have "dict_get (evidences db0) (lid, pl_id pl) = None"
      using wrote(3) True by simp
    with a c t show ?thesis unfolding wrote(7) fst_conv
      by (auto simp: accounted_def settle_write_get newly_proven_def True claimed_state_def held_state_def)
  next
    case False
    with a show ?thesis unfolding wrote(7) fst_conv
      by (fastforce simp: accounted_def settle_write_get newly_proven_def)
  qed
qed

lemma accounted_fold:
  assumes "\<And>i d. accounted now lid l db0 d \<Longrightarrow> accounted now lid l db0 (f i d)" "accounted now lid l db0 db"
  shows "accounted now lid l db0 (fold f xs db)"
  using assms(2) by (induction xs arbitrary: db) (simp_all add: assms(1))

lemma accounted_recover_one:
  assumes "accounted (env_now env) lid l db0 d"
  shows "accounted (env_now env) lid l db0 (recover_one env i d)"
  using assms by (auto simp: recover_one_def recoverable_def claimed_state_def split: option.split intro!: accounted_settle)

lemma accounted_reconcile:
  assumes "dict_get (liabilities db) lid = Some l" "claimed_state (li_status l)"
  shows "accounted (env_now env) lid l db (reconcile_money_liabilities env f db)"
proof -
  have 1: "accounted (env_now env) lid l db d \<Longrightarrow> accounted (env_now env) lid l db (reconcile_one env i d)" for i d
    by (erule accounted_moves_one [OF _ reconcile_moves_one]) (auto simp: claimed_state_def)
  have "accounted (env_now env) lid l db (db\<lparr>reconciled := True\<rparr>)"
    using assms by (auto simp: accounted_def still_claimed_def)
  then show ?thesis using accounted_refl [OF assms] unfolding reconcile_money_liabilities_def recover_admission_refusal_holds_def
    by (auto intro!: accounted_fold [OF accounted_recover_one] accounted_fold [OF 1])
qed


lemma accounted_trans_moves:
  "accounted now lid l db0 d \<Longrightarrow> moves_one i t [(Li_Unsent, Li_Reserved), (Li_Released, Li_Reserved)] d d' \<Longrightarrow> accounted now lid l db0 d'"
  by (erule accounted_moves_one) (auto simp: claimed_state_def)

definition held_or_proven :: "time \<Rightarrow> string \<Rightarrow> liability \<Rightarrow> money_db \<Rightarrow> money_db \<Rightarrow> bool" where
  "held_or_proven now lid l db db' \<longleftrightarrow> (\<exists>l'. dict_get (liabilities db') lid = Some l' \<and> (still_claimed l l' \<or> newly_proven now lid db db' l l'))"

lemma accounted_held: "accounted now lid l db db' \<Longrightarrow> held_or_proven now lid l db db'"
  by (simp add: accounted_def held_or_proven_def)

lemma held_or_proven_prune:
  assumes "held_or_proven now lid l db d" "wf_dict (liabilities d)"
  shows "held_or_proven now lid l db (prune_money now d)"
proof -
  obtain l' where l': "dict_get (liabilities d) lid = Some l'" "still_claimed l l' \<or> newly_proven now lid db d l l'"
    using assms(1) by (auto simp: held_or_proven_def)
  then have ns: "\<not> stale now l'"
    by (auto simp: stale_def still_claimed_def newly_proven_def claimed_state_def money_retention_def)
  show ?thesis using l' ns by (auto simp: held_or_proven_def prune_get [OF assms(2)] newly_proven_def prune_evidence [OF l'(1) ns])
qed

lemma held_reserve:
  assumes wf: "wf_dict (liabilities db)" and l: "dict_get (liabilities db) lid = Some l" "claimed_state (li_status l)"
  shows "held_or_proven (env_now env) lid l db (fst (reserve_liability env rq fresh db))"
proof -
  let ?d = "reconcile_money_liabilities env False db"
  have d: "wf_dict (liabilities ?d)" by (rule wf_reconcile [OF wf])
  have a: "accounted (env_now env) lid l db ?d" by (rule accounted_reconcile [OF l])
  have "held_or_proven (env_now env) lid l db (fst (reserve_txn env rq fc fresh ?d))" for fc
  proof (rule reserve_txn_cases [OF d, of env rq fc fresh])
    fix i
    assume "moves_one i (env_now env) [(Li_Unsent, Li_Reserved), (Li_Released, Li_Reserved)] ?d (fst (reserve_txn env rq fc fresh ?d))"
    then show ?thesis by (intro accounted_held accounted_trans_moves [OF a])
  next
    fix g
    assume new: "dict_get (liabilities ?d) (''mli:'' @ fresh) = None"
      and r: "fst (reserve_txn env rq fc fresh ?d) = prune_money (env_now env)
        (?d\<lparr>liabilities := dict_set (''mli:'' @ fresh) (new_liability env fc g) (liabilities ?d)\<rparr>)"
    have "held_or_proven (env_now env) lid l db (?d\<lparr>liabilities := dict_set (''mli:'' @ fresh) (new_liability env fc g) (liabilities ?d)\<rparr>)"
      using accounted_held [OF a] new by (auto simp: held_or_proven_def newly_proven_def)
    then show ?thesis unfolding r by (rule held_or_proven_prune) (use d in simp)
  qed
  with accounted_held [OF accounted_refl [OF l]] show ?thesis by (simp add: reserve_liability_def split: sum.split)
qed

text \<open>The proof an unsent record needs: the operator's attestation, the claimant's own before dispatch, or an outside one.\<close>

definition unsent_proven :: "money_env \<Rightarrow> liability \<Rightarrow> string \<Rightarrow> unsent_proof \<Rightarrow> evidence_source \<Rightarrow> string option \<Rightarrow> bool" where
  "unsent_proven env l token p s operator \<longleftrightarrow>
     (p = Unsent_attestation \<and> (\<exists>t. operator = Some t \<and> env_granted env t \<and> \<not> env_in_scope env))
   \<or> (li_status l = Li_Dispatching \<and> claimant_proof p \<and> claim_held l token)
   \<or> (external_proof p \<and> s \<noteq> From_user)"

lemma unsent_needs_proof:
  assumes "dict_get (liabilities db) lid = Some l" "claimed_state (li_status l)"
  shows "fst (record_unsent env lid tok p ev s o' db) = db \<or> unsent_proven env l tok p s o'"
  using assms
  by (auto simp: record_unsent_def unsent_proven_def require_operator_def claimed_state_def split: sum.split option.splits if_splits)

lemma accounted_owner:
  assumes "dict_get (liabilities db) lid = Some l" "claimed_state (li_status l)"
  shows "accounted (env_now env) lid l db (fst (release_unclaimed_for_owner env ow r db))"
proof -
  note refl = accounted_refl [OF assms]
  have "accounted (env_now env) lid l db (fold (\<lambda>i d. fst (release_unclaimed env i r d)) xs db)" for xs
    by (rule accounted_fold [OF _ refl], erule accounted_moves_one [OF _ release_moves_one]) (auto simp: claimed_state_def)
  then show ?thesis using release_owner_fold [of env ow r db] refl by (cases rule: disjE) auto
qed

lemma held_unsent:
  assumes "dict_get (liabilities db) lid = Some l" "claimed_state (li_status l)"
  shows "held_or_proven (env_now env) lid l db (fst (record_unsent env i tok p ev s operator db)) \<or> i = lid \<and> unsent_proven env l tok p s operator"
proof (cases "i = lid")
  case True
  from unsent_needs_proof [OF assms, of env tok p ev s operator] accounted_held [OF accounted_refl [OF assms], of "env_now env"]
  show ?thesis by (elim disjE) (simp_all add: True)
next
  case False
  then show ?thesis using unsent_moves_one [of i env db tok p ev s operator] assms
    by (auto simp: moves_one_def held_or_proven_def still_claimed_def)
qed

text \<open>C5. Unknown is not free: once a liability is claimed -- dispatching, pending or unknown -- no operation by
  anyone on anything makes it disappear or frees what it holds, except a settlement whose evidence was not known
  before, or an unsent record on this very liability backed by a proof that nothing left. Otherwise it stays claimed,
  under the same terms and with every line still held at the same amount.\<close>

theorem claimed_money_leaves_by_proof:
  assumes "wf_dict (liabilities db)" "dict_get (liabilities db) lid = Some l" "claimed_state (li_status l)"
  shows "held_or_proven (env_now env) lid l db (money_step (env, x) db)
       \<or> (\<exists>tok p ev s operator. x = Unsent_op lid tok p ev s operator \<and> unsent_proven env l tok p s operator)"
proof -
  note refl = accounted_refl [OF assms(2, 3)]
  have held_cong: "held_or_proven (env_now env) lid l db d'" if "liabilities d' = liabilities db" "evidences d' = evidences db" for d'
    using accounted_held [OF refl, of "env_now env"] that by (simp add: held_or_proven_def newly_proven_def)
  have keep: "held_or_proven (env_now env) lid l db d'"
    if "moves_one i (env_now env) edges db d'" "\<And>s s'. (s, s') \<in> set edges \<Longrightarrow> claimed_state s \<Longrightarrow> claimed_state s'"
       "\<And>s'. (Li_Settled, s') \<notin> set edges" for i edges d'
    using accounted_moves_one [OF refl that] by (rule accounted_held)
  have moved: "held_or_proven (env_now env) lid l db (fst (claim_dispatch env i e t db))"
    "held_or_proven (env_now env) lid l db (fst (record_dispatched env i t e db))"
    "held_or_proven (env_now env) lid l db (fst (record_unknown env i t e db))"
    "held_or_proven (env_now env) lid l db (fst (release_unclaimed env i e db))"
    "held_or_proven (env_now env) lid l db (fst (retry_unsent env i db))" for i e t
    by (rule keep [OF claim_moves_one] keep [OF dispatched_moves_one] keep [OF unknown_moves_one] keep [OF release_moves_one]
      keep [OF retry_moves_one]; auto simp: claimed_state_def)+
  show ?thesis
  proof (cases x)
    case (Unsent_op i tok p ev s operator)
    then show ?thesis using held_unsent [OF assms(2, 3), of env i tok p ev s operator] by auto
  next
    case (Settle_op i ev tok)
    then show ?thesis using accounted_held [OF accounted_settle [OF refl]] assms(2, 3) by simp
  next
    case (Bind_effect_op i ef)
    then show ?thesis using assms(2, 3)
      by (auto simp: bind_liability_effect_def held_or_proven_def still_claimed_def claimed_state_def split: sum.split option.split)
  qed (use held_reserve [OF assms] accounted_held [OF accounted_reconcile [OF assms(2, 3)]] accounted_held [OF accounted_owner [OF assms(2, 3)]]
        moved held_cong [OF frame_grant] held_cong [OF frame_revoke] held_cong [OF frame_rules(1, 2)] held_cong [OF frame_conversion(1, 2)]
        held_cong [OF frame_observe(1, 2)] held_cong [OF frame_funding(1, 2)] held_cong [OF frame_reverse(1, 2)]
      in simp_all)
qed

theorem claimed_money_leaves_by_proof_witness:
  "case dict_get (liabilities (fold money_step demo_claimed fresh_money)) ''mli:a'' of None \<Rightarrow> False
   | Some l \<Rightarrow> li_status l = Li_Dispatching \<and> held_or_proven (env_now (demo_env 1010)) ''mli:a'' l (fold money_step demo_claimed fresh_money)
        (money_step (demo_env 1010, Release_op ''mli:a'' ''stop'') (fold money_step demo_claimed fresh_money))"
proof -
  let ?db = "fold money_step demo_claimed fresh_money"
  have wf: "wf_dict (liabilities ?db)" by code_simp
  have "case dict_get (liabilities ?db) ''mli:a'' of None \<Rightarrow> False | Some l \<Rightarrow> li_status l = Li_Dispatching" by code_simp
  then obtain l where l: "dict_get (liabilities ?db) ''mli:a'' = Some l" "li_status l = Li_Dispatching" by (auto split: option.splits)
  then have "claimed_state (li_status l)" by (simp add: claimed_state_def)
  from claimed_money_leaves_by_proof [OF wf l(1) this, of "demo_env 1010" "Release_op ''mli:a'' ''stop''"]
  show ?thesis unfolding l(1) option.case using l(2) by blast
qed

section \<open>One claim wins\<close>

text \<open>The attempt of a liability never falls while it exists, and its row is not born again under the same id.\<close>

definition attempt_of :: "string \<Rightarrow> money_db \<Rightarrow> int" where
  "attempt_of lid db = (case dict_get (liabilities db) lid of None \<Rightarrow> -1 | Some l \<Rightarrow> li_attempt l)"

definition attempt_at_least :: "int \<Rightarrow> string \<Rightarrow> money_db \<Rightarrow> bool" where
  "attempt_at_least n lid db \<longleftrightarrow> (case dict_get (liabilities db) lid of None \<Rightarrow> True | Some l \<Rightarrow> n \<le> li_attempt l)"

lemma attempt_moves_one: "moves_one i t edges d d' \<Longrightarrow> attempt_at_least n lid d \<Longrightarrow> attempt_at_least n lid d'"
  by (auto simp: moves_one_def attempt_at_least_def)

lemma attempt_settle: "attempt_at_least n lid d \<Longrightarrow> attempt_at_least n lid (fst (settle_liability env i ev tok d))"
  by (cases rule: money_settle_cases [of env i ev tok d]) (auto simp: attempt_at_least_def settle_write_get split: option.splits)

lemma attempt_fold:
  "(\<And>i d. attempt_at_least n lid d \<Longrightarrow> attempt_at_least n lid (f i d)) \<Longrightarrow> attempt_at_least n lid db \<Longrightarrow> attempt_at_least n lid (fold f xs db)"
  by (induction xs arbitrary: db) simp_all

lemma attempt_reconcile: "attempt_at_least n lid db \<Longrightarrow> attempt_at_least n lid (reconcile_money_liabilities env f db)"
proof -
  assume a: "attempt_at_least n lid db"
  have 1: "attempt_at_least n lid d \<Longrightarrow> attempt_at_least n lid (reconcile_one env i d)" for i d
    by (rule attempt_moves_one [OF reconcile_moves_one])
  have 2: "attempt_at_least n lid d \<Longrightarrow> attempt_at_least n lid (recover_one env i d)" for i d
    by (auto simp: recover_one_def attempt_settle split: option.split)
  have "attempt_at_least n lid (db\<lparr>reconciled := True\<rparr>)" using a by (simp add: attempt_at_least_def)
  with a show ?thesis unfolding reconcile_money_liabilities_def recover_admission_refusal_holds_def
    by (auto intro!: attempt_fold [OF 2] attempt_fold [OF 1])
qed

definition spares :: "string \<Rightarrow> money_op \<Rightarrow> bool" where
  "spares lid x \<longleftrightarrow> (\<forall>rq fresh. x = Reserve_op rq fresh \<longrightarrow> lid \<noteq> ''mli:'' @ fresh)"

lemma attempt_reserve:
  assumes wf: "wf_dict (liabilities db)" and a: "attempt_at_least n lid db" and f: "lid \<noteq> ''mli:'' @ fresh"
  shows "attempt_at_least n lid (fst (reserve_liability env rq fresh db))"
proof -
  let ?d = "reconcile_money_liabilities env False db"
  have d: "wf_dict (liabilities ?d)" by (rule wf_reconcile [OF wf])
  have ad: "attempt_at_least n lid ?d" by (rule attempt_reconcile [OF a])
  have "attempt_at_least n lid (fst (reserve_txn env rq fc fresh ?d))" for fc
  proof (rule reserve_txn_cases [OF d, of env rq fc fresh])
    fix i
    assume "moves_one i (env_now env) [(Li_Unsent, Li_Reserved), (Li_Released, Li_Reserved)] ?d (fst (reserve_txn env rq fc fresh ?d))"
    then show ?thesis using ad by (rule attempt_moves_one)
  next
    fix g
    assume r: "fst (reserve_txn env rq fc fresh ?d) = prune_money (env_now env)
        (?d\<lparr>liabilities := dict_set (''mli:'' @ fresh) (new_liability env fc g) (liabilities ?d)\<rparr>)"
    show ?thesis using ad f d unfolding r attempt_at_least_def by (subst prune_get) (auto split: option.splits)
  qed
  with a show ?thesis by (simp add: reserve_liability_def split: sum.split)
qed

lemma attempt_cong: "liabilities d' = liabilities d \<Longrightarrow> attempt_at_least n lid d \<Longrightarrow> attempt_at_least n lid d'"
  by (simp add: attempt_at_least_def)

lemma attempt_bind: "attempt_at_least n lid db \<Longrightarrow> attempt_at_least n lid (fst (bind_liability_effect i ef db))"
  by (auto simp: bind_liability_effect_def attempt_at_least_def split: sum.split option.splits)

lemma attempt_owner: "attempt_at_least n lid db \<Longrightarrow> attempt_at_least n lid (fst (release_unclaimed_for_owner env ow r db))"
  using release_owner_fold [of env ow r db]
    attempt_fold [where f = "\<lambda>i d. fst (release_unclaimed env i r d)", OF attempt_moves_one [OF release_moves_one]]
  by (elim disjE) simp_all

lemma attempt_step:
  assumes wf: "wf_dict (liabilities db)" and a: "attempt_at_least n lid db" and f: "spares lid x"
  shows "attempt_at_least n lid (money_step (env, x) db)"
  using a f
  by (cases x) (auto simp: spares_def intro: attempt_settle attempt_reconcile attempt_bind attempt_owner attempt_reserve [OF wf]
      attempt_moves_one [OF claim_moves_one] attempt_moves_one [OF dispatched_moves_one] attempt_moves_one [OF unknown_moves_one]
      attempt_moves_one [OF unsent_moves_one] attempt_moves_one [OF release_moves_one] attempt_moves_one [OF retry_moves_one]
      attempt_cong [OF frame_grant(1)] attempt_cong [OF frame_revoke(1)] attempt_cong [OF frame_rules(1)] attempt_cong [OF frame_conversion(1)]
      attempt_cong [OF frame_observe(1)] attempt_cong [OF frame_funding(1)] attempt_cong [OF frame_reverse(1)])

interpretation dispatch: lawful_system money_step "\<lambda>ex db. spares lid (snd ex)" "\<lambda>db. wf_dict (liabilities db) \<and> attempt_at_least n lid db" for lid n
  by unfold_locales (use wf_money_step attempt_step in \<open>auto simp: split_beta\<close>)

lemma spared_run:
  assumes "wf_dict (liabilities db)" "attempt_at_least n lid db" "\<forall>ex\<in>set run. spares lid (snd ex)"
  shows "attempt_at_least n lid (fold money_step run db)"
proof -
  have "lawful_system.lawful_run money_step (\<lambda>ex db. spares lid (snd ex)) run d" for d
    using assms(3) by (induction run arbitrary: d) simp_all
  from dispatch.run_good [OF _ this] assms(1, 2) show ?thesis by blast
qed

lemma claim_success:
  assumes "claim_dispatch env lid ex tok db = (db', Inr c)"
  shows "\<exists>l. dict_get (liabilities db) lid = Some l \<and> li_status l = Li_Reserved \<and> dc_attempt c = li_attempt l + 1"
    and "\<exists>l'. dict_get (liabilities db') lid = Some l' \<and> li_status l' = Li_Dispatching \<and> li_attempt l' = dc_attempt c \<and> li_claim_token l' = tok"
proof -
  from assms obtain l where l: "dict_get (liabilities db) lid = Some l"
    by (auto simp: claim_dispatch_def split: sum.splits option.splits)
  with assms have "li_status l = Li_Reserved"
    by (cases "li_status l") (auto simp: claim_dispatch_def closed_state_def split: sum.splits option.splits)
  with assms l show "\<exists>l. dict_get (liabilities db) lid = Some l \<and> li_status l = Li_Reserved \<and> dc_attempt c = li_attempt l + 1"
    "\<exists>l'. dict_get (liabilities db') lid = Some l' \<and> li_status l' = Li_Dispatching \<and> li_attempt l' = dc_attempt c \<and> li_claim_token l' = tok"
    by (auto simp: claim_dispatch_def closed_state_def Let_def split: sum.splits option.splits)
qed

text \<open>C6. One claim wins: after a successful dispatch claim, whatever operations follow, a later successful claim on
  the same liability carries a strictly higher attempt; and while the first claim stands no other claim succeeds.\<close>

theorem claims_are_fenced:
  assumes "wf_dict (liabilities db)" and "claim_dispatch env lid ex tok db = (db1, Inr c)"
    and "\<forall>y\<in>set run. spares lid (snd y)" and "claim_dispatch env' lid ex' tok' (fold money_step run db1) = (db2, Inr c')"
  shows "dc_attempt c < dc_attempt c' \<and> (\<exists>e. snd (claim_dispatch env' lid ex' tok' db1) = Inl e)"
proof -
  obtain l' where l': "dict_get (liabilities db1) lid = Some l'" "li_status l' = Li_Dispatching" "li_attempt l' = dc_attempt c"
    using claim_success(2) [OF assms(2)] by auto
  obtain r where r: "dict_get (liabilities (fold money_step run db1)) lid = Some r" "dc_attempt c' = li_attempt r + 1"
    using claim_success(1) [OF assms(4)] by auto
  have wf1: "wf_dict (liabilities db1)" using wf_moves_one [OF claim_moves_one [of lid env db ex tok]] assms(1, 2) by simp
  have "attempt_at_least (dc_attempt c) lid (fold money_step run db1)"
    by (rule spared_run [OF wf1 _ assms(3)]) (simp add: attempt_at_least_def l')
  moreover have "\<exists>e. snd (claim_dispatch env' lid ex' tok' db1) = Inl e"
    using l' by (auto simp: claim_dispatch_def split: sum.split)
  ultimately show ?thesis using r by (simp add: attempt_at_least_def)
qed

theorem claims_are_fenced_witness:
  "case claim_dispatch (demo_env 1002) ''mli:a'' ''x'' ''tok'' (fold money_step demo_funded fresh_money) of (db1, r) \<Rightarrow>
     (case r of Inl e \<Rightarrow> False | Inr c \<Rightarrow>
       (case claim_dispatch (demo_env 1005) ''mli:a'' ''y'' ''tok2'' (fold money_step demo_unsent db1) of (db2, r') \<Rightarrow>
         (case r' of Inl e \<Rightarrow> False | Inr c' \<Rightarrow> dc_attempt c < dc_attempt c')))"
proof -
  let ?db = "fold money_step demo_funded fresh_money"
  obtain db1 r where 1: "claim_dispatch (demo_env 1002) ''mli:a'' ''x'' ''tok'' ?db = (db1, r)"
    by (cases "claim_dispatch (demo_env 1002) ''mli:a'' ''x'' ''tok'' ?db")
  obtain db2 r' where 2: "claim_dispatch (demo_env 1005) ''mli:a'' ''y'' ''tok2'' (fold money_step demo_unsent db1) = (db2, r')"
    by (cases "claim_dispatch (demo_env 1005) ''mli:a'' ''y'' ''tok2'' (fold money_step demo_unsent db1)")
  have ok: "case claim_dispatch (demo_env 1002) ''mli:a'' ''x'' ''tok'' ?db of (d1, q) \<Rightarrow> (case q of Inl e \<Rightarrow> False | Inr c \<Rightarrow>
       (case snd (claim_dispatch (demo_env 1005) ''mli:a'' ''y'' ''tok2'' (fold money_step demo_unsent d1)) of Inl e \<Rightarrow> False | Inr c' \<Rightarrow> True))"
    by code_simp
  then obtain c c' where c: "r = Inr c" "r' = Inr c'" by (auto simp: 1 2 split: sum.splits)
  have wf: "wf_dict (liabilities ?db)" by code_simp
  have sp: "\<forall>y\<in>set demo_unsent. spares ''mli:a'' (snd y)" by (simp add: demo_unsent_def spares_def)
  from claims_are_fenced [OF wf 1 [unfolded c] sp 2 [unfolded c]] show ?thesis by (simp add: 1 2 c)
qed

section \<open>Evidence is applied once\<close>

definition exact_in :: "money_flow \<Rightarrow> int \<Rightarrow> line_row list \<Rightarrow> bool" where
  "exact_in f a rs \<longleftrightarrow> (case find (\<lambda>r. ln_flow r = f) rs of None \<Rightarrow> False | Some r \<Rightarrow> ln_state r = Line_Exact \<and> ln_actual r = Some a)"

lemma exact_in_line: "exact_in f a (li_lines l) \<longleftrightarrow> (\<exists>r. line_of l f = Some r \<and> exact_actual r = Some a)"
  by (auto simp: exact_in_def line_of_def exact_actual_def split: option.splits)

lemma find_set_exact:
  "find (\<lambda>r. ln_flow r = f) (set_exact now ev g v b rs) = map_option (\<lambda>r. if g = f then r\<lparr>ln_actual := Some v, ln_state := Line_Exact,
     ln_verified := (ln_verified r \<or> b), ln_evidence := ev, ln_resolved := Some now\<rparr> else r) (find (\<lambda>r. ln_flow r = f) rs)"
  by (induction rs) (auto simp: set_exact_def)

lemma exact_in_set: "exact_in f a rs \<Longrightarrow> g \<noteq> f \<or> v = a \<Longrightarrow> exact_in f a (set_exact now ev g v b rs)"
  by (auto simp: exact_in_def find_set_exact split: option.splits)

lemma exact_in_append: "exact_in f a rs \<Longrightarrow> exact_in f a (rs @ [r])"
  by (auto simp: exact_in_def find_append split: option.splits)

lemma exact_in_bound_held: "exact_in f a rs \<Longrightarrow> exact_in f a (bound_held rs)"
proof -
  have "find (\<lambda>r. ln_flow r = f) (bound_held rs) = map_option (\<lambda>r. if ln_state r = Line_Held then r\<lparr>ln_state := Line_Bounded\<rparr> else r)
      (find (\<lambda>r. ln_flow r = f) rs)" for rs
    by (induction rs) (auto simp: bound_held_def)
  then show "exact_in f a rs \<Longrightarrow> exact_in f a (bound_held rs)" by (auto simp: exact_in_def split: option.splits)
qed

lemma exact_in_actuals: "exact_in f a (li_lines l) \<Longrightarrow> exact_in f a (fst (apply_actuals now l pl))"
proof -
  assume l: "exact_in f a (li_lines l)"
  have "exact_in f a (fst st) \<Longrightarrow> exact_in f a (fst (fold (apply_actual now ev l) ps st))" for ev ps st
  proof (induction ps arbitrary: st)
    case (Cons p ps)
    have "exact_in f a (fst (apply_actual now ev l p st))"
    proof (cases "fst p = f")
      case True
      with l Cons.prems show ?thesis by (auto simp: apply_actual_def exact_in_line exact_actual_def split: if_splits)
    next
      case False
      then show ?thesis using Cons.prems exact_in_set by (auto simp: apply_actual_def split: option.split)
    qed
    then show ?case using Cons.IH by simp
  qed simp
  with l show ?thesis by (simp add: apply_actuals_def)
qed

lemma exact_in_credit:
  "exact_in f a (li_lines l) \<Longrightarrow> exact_in f a (fst st) \<Longrightarrow> apply_credit now l pl st = Inr st' \<Longrightarrow> exact_in f a (fst st')"
  by (cases "f = Credit_credit")
    (auto simp: apply_credit_def Let_def exact_in_line split: list.splits prod.splits option.splits if_splits intro!: exact_in_append exact_in_set)

lemma exact_in_fee:
  "exact_in f a (li_lines l) \<Longrightarrow> exact_in f a rs \<Longrightarrow> fee_step_of now lid l pl rs fdb = Inr (rs', fdb') \<Longrightarrow> exact_in f a rs'"
  by (cases "f = Service_fee")
    (auto simp: fee_step_of_def accrue_service_fee_def Let_def exact_in_line exact_actual_def split: prod.splits option.splits sum.splits if_splits intro!: exact_in_set)

definition exact_at :: "string \<Rightarrow> money_flow \<Rightarrow> int \<Rightarrow> money_db \<Rightarrow> bool" where
  "exact_at lid f a db \<longleftrightarrow> (case dict_get (liabilities db) lid of None \<Rightarrow> True | Some l \<Rightarrow> exact_in f a (li_lines l))"

lemma exact_at_cong: "liabilities d' = liabilities d \<Longrightarrow> exact_at lid f a d \<Longrightarrow> exact_at lid f a d'"
  by (simp add: exact_at_def)

lemma exact_at_moves_one: "moves_one i t edges d d' \<Longrightarrow> exact_at lid f a d \<Longrightarrow> exact_at lid f a d'"
  by (auto simp: moves_one_def exact_at_def)

lemma exact_at_settle: "exact_at lid f a d \<Longrightarrow> exact_at lid f a (fst (settle_liability env i ev tok d))"
proof (cases rule: money_settle_cases [of env i ev tok d])
  case (wrote l pl rs0 rs over fdb)
  assume a: "exact_at lid f a d"
  show ?thesis
  proof (cases "i = lid")
    case True
    then have l: "exact_in f a (li_lines l)" using a wrote(1) by (simp add: exact_at_def)
    have "exact_in f a (fst (rs0, over))" by (rule exact_in_credit [OF l exact_in_actuals [OF l] wrote(5)])
    then have "exact_in f a rs" using exact_in_fee [OF l _ wrote(6)] by simp
    then show ?thesis unfolding wrote(7) fst_conv by (simp add: exact_at_def settle_write_get True exact_in_bound_held)
  qed (use a in \<open>simp add: exact_at_def wrote(7) settle_write_get\<close>)
qed simp

lemma exact_at_fold:
  "(\<And>i d. exact_at lid f a d \<Longrightarrow> exact_at lid f a (g i d)) \<Longrightarrow> exact_at lid f a db \<Longrightarrow> exact_at lid f a (fold g xs db)"
  by (induction xs arbitrary: db) simp_all

lemma exact_at_reconcile: "exact_at lid f a db \<Longrightarrow> exact_at lid f a (reconcile_money_liabilities env b db)"
proof -
  assume a: "exact_at lid f a db"
  have 1: "exact_at lid f a d \<Longrightarrow> exact_at lid f a (reconcile_one env i d)" for i d
    by (rule exact_at_moves_one [OF reconcile_moves_one])
  have 2: "exact_at lid f a d \<Longrightarrow> exact_at lid f a (recover_one env i d)" for i d
    by (auto simp: recover_one_def exact_at_settle split: option.split)
  have "exact_at lid f a (db\<lparr>reconciled := True\<rparr>)" using a by (rule exact_at_cong [rotated]) simp
  with a show ?thesis unfolding reconcile_money_liabilities_def recover_admission_refusal_holds_def
    by (auto intro!: exact_at_fold [OF 2] exact_at_fold [OF 1])
qed

lemma exists_reconcile:
  assumes "dict_get (liabilities db) lid \<noteq> None"
  shows "dict_get (liabilities (reconcile_money_liabilities env b db)) lid \<noteq> None"
proof -
  have fold: "(\<And>i d. dict_get (liabilities d) lid \<noteq> None \<Longrightarrow> dict_get (liabilities (g i d)) lid \<noteq> None)
      \<Longrightarrow> dict_get (liabilities d) lid \<noteq> None \<Longrightarrow> dict_get (liabilities (fold g xs d)) lid \<noteq> None" for g xs d
    by (induction xs arbitrary: d) simp_all
  have mo: "moves_one i t edges d d' \<Longrightarrow> dict_get (liabilities d) lid \<noteq> None \<Longrightarrow> dict_get (liabilities d') lid \<noteq> None" for i t edges d d'
    by (auto simp: moves_one_def)
  have st: "dict_get (liabilities d) lid \<noteq> None \<Longrightarrow> dict_get (liabilities (fst (settle_liability env i ev tok d))) lid \<noteq> None" for i ev tok d
    by (cases rule: money_settle_cases [of env i ev tok d]) (simp_all add: settle_write_get)
  have 1: "dict_get (liabilities d) lid \<noteq> None \<Longrightarrow> dict_get (liabilities (reconcile_one env i d)) lid \<noteq> None" for i d
    by (rule mo [OF reconcile_moves_one])
  have 2: "dict_get (liabilities d) lid \<noteq> None \<Longrightarrow> dict_get (liabilities (recover_one env i d)) lid \<noteq> None" for i d
    unfolding recover_one_def using st by (cases "dict_get (liabilities d) i") simp_all
  have 0: "dict_get (liabilities (db\<lparr>reconciled := True\<rparr>)) lid \<noteq> None" using assms by simp
  have "dict_get (liabilities (fold (recover_one env) ys (fold (reconcile_one env) xs (db\<lparr>reconciled := True\<rparr>)))) lid \<noteq> None" for xs ys
    by (rule fold [OF 2 fold [OF 1 0]])
  with assms show ?thesis unfolding reconcile_money_liabilities_def recover_admission_refusal_holds_def by (cases b) simp_all
qed

lemma exact_at_reserve:
  assumes wf: "wf_dict (liabilities db)" and ex: "dict_get (liabilities db) lid \<noteq> None" and a: "exact_at lid f v db"
  shows "exact_at lid f v (fst (reserve_liability env rq fresh db))"
proof -
  let ?d = "reconcile_money_liabilities env False db"
  have d: "wf_dict (liabilities ?d)" "dict_get (liabilities ?d) lid \<noteq> None" "exact_at lid f v ?d"
    using wf_reconcile [OF wf] exists_reconcile [OF ex] exact_at_reconcile [OF a] by blast+
  have "exact_at lid f v (fst (reserve_txn env rq fc fresh ?d))" for fc
  proof (rule reserve_txn_cases [OF d(1), of env rq fc fresh])
    fix i
    assume "moves_one i (env_now env) [(Li_Unsent, Li_Reserved), (Li_Released, Li_Reserved)] ?d (fst (reserve_txn env rq fc fresh ?d))"
    then show ?thesis using d(3) by (rule exact_at_moves_one)
  next
    fix g
    assume new: "dict_get (liabilities ?d) (''mli:'' @ fresh) = None"
      and r: "fst (reserve_txn env rq fc fresh ?d) = prune_money (env_now env)
        (?d\<lparr>liabilities := dict_set (''mli:'' @ fresh) (new_liability env fc g) (liabilities ?d)\<rparr>)"
    have "lid \<noteq> ''mli:'' @ fresh" using new d(2) by auto
    then show ?thesis using d(1, 3) unfolding r exact_at_def by (subst prune_get) (auto split: option.splits)
  qed
  with a show ?thesis by (simp add: reserve_liability_def split: sum.split)
qed

text \<open>C7. Evidence is applied once: a line settled at a proven amount keeps that amount whatever operation comes
  next; and replaying evidence that a liability already carries changes nothing and is answered as a replay.\<close>

theorem evidence_applies_once:
  assumes "wf_dict (liabilities db)" "dict_get (liabilities db) lid = Some l" "line_of l f = Some r" "exact_actual r = Some a"
  shows "(case dict_get (liabilities (money_step (env, x) db)) lid of None \<Rightarrow> True
       | Some l' \<Rightarrow> map_option exact_actual (line_of l' f) = Some (Some a))
   \<and> (evidence_admissible ev = Inr pl \<and> dict_get (evidences db) (lid, pl_id pl) = Some pl \<longrightarrow>
       settle_liability env lid ev tok db
         = (db, Inr \<lparr>se_state = li_status l, se_idempotent = True, se_over_cap = False, se_contradiction = False\<rparr>))"
proof
  have e: "exact_at lid f a db" using assms(2-4) by (auto simp: exact_at_def exact_in_line)
  have own: "exact_at lid f a (fst (release_unclaimed_for_owner env ow r db))" for ow r
    using release_owner_fold [of env ow r db] e
      exact_at_fold [where g = "\<lambda>i d. fst (release_unclaimed env i r d)", OF exact_at_moves_one [OF release_moves_one]]
    by (elim disjE) simp_all
  have bind: "exact_at lid f a (fst (bind_liability_effect i ef db))" for i ef
    using e by (auto simp: bind_liability_effect_def exact_at_def split: sum.split option.splits)
  have "exact_at lid f a (money_step (env, x) db)"
    using e assms(2) by (cases x) (auto intro: own bind exact_at_settle exact_at_reconcile exact_at_reserve [OF assms(1)]
      exact_at_moves_one [OF claim_moves_one] exact_at_moves_one [OF dispatched_moves_one] exact_at_moves_one [OF unknown_moves_one]
      exact_at_moves_one [OF unsent_moves_one] exact_at_moves_one [OF release_moves_one] exact_at_moves_one [OF retry_moves_one]
      exact_at_cong [OF frame_grant(1)] exact_at_cong [OF frame_revoke(1)] exact_at_cong [OF frame_rules(1)] exact_at_cong [OF frame_conversion(1)]
      exact_at_cong [OF frame_observe(1)] exact_at_cong [OF frame_funding(1)] exact_at_cong [OF frame_reverse(1)])
  then show "case dict_get (liabilities (money_step (env, x) db)) lid of None \<Rightarrow> True
       | Some l' \<Rightarrow> map_option exact_actual (line_of l' f) = Some (Some a)"
    by (auto simp: exact_at_def exact_in_line split: option.splits)
qed (use assms(2) in \<open>simp add: settle_liability_def\<close>)

theorem evidence_applies_once_witness:
  "case dict_get (liabilities (fold money_step demo_day fresh_money)) ''mli:a'' of None \<Rightarrow> False
   | Some l \<Rightarrow> settle_liability (demo_env 1010) ''mli:a'' (demo_usage ''e1'' 45) [] (fold money_step demo_day fresh_money)
        = (fold money_step demo_day fresh_money, Inr \<lparr>se_state = li_status l, se_idempotent = True, se_over_cap = False, se_contradiction = False\<rparr>)
      \<and> (case dict_get (liabilities (money_step (demo_env 1010, Settle_op ''mli:a'' (demo_usage ''e2'' 30) []) (fold money_step demo_day fresh_money))) ''mli:a'' of
           None \<Rightarrow> True | Some l' \<Rightarrow> map_option exact_actual (line_of l' Inference_expense) = Some (Some 45))"
proof -
  let ?db = "fold money_step demo_day fresh_money"
  have wf: "wf_dict (liabilities ?db)" by code_simp
  have "case dict_get (liabilities ?db) ''mli:a'' of None \<Rightarrow> False | Some l \<Rightarrow>
      (case line_of l Inference_expense of None \<Rightarrow> False | Some r \<Rightarrow> exact_actual r = Some 45)" by code_simp
  then obtain l r where l: "dict_get (liabilities ?db) ''mli:a'' = Some l" "line_of l Inference_expense = Some r" "exact_actual r = Some 45"
    by (auto split: option.splits)
  have "case evidence_admissible (demo_usage ''e1'' 45) of Inl e \<Rightarrow> False | Inr pl \<Rightarrow> dict_get (evidences ?db) (''mli:a'', pl_id pl) = Some pl"
    by code_simp
  then obtain pl where pl: "evidence_admissible (demo_usage ''e1'' 45) = Inr pl" "dict_get (evidences ?db) (''mli:a'', pl_id pl) = Some pl"
    by (auto split: sum.splits)
  note once = evidence_applies_once [OF wf l, where env = "demo_env 1010" and x = "Settle_op ''mli:a'' (demo_usage ''e2'' 30) []"
      and ev = "demo_usage ''e1'' 45" and tok = "[]" and pl = pl]
  show ?thesis unfolding l(1) option.case using once pl by blast
qed

end
