(* ===== verification/Money_Life.thy ===== *)
theory Money_Life
  imports Money_Safety
begin

text \<open>
  The life of a liability as a state machine: the table of its states and their successors, a \<open>transition_table\<close>,
  and the refinement that every operation of \<open>Money_Liability\<close> moves every liability along its edges.
\<close>

declare map_of_eq_Some_iff [simp del] Some_eq_map_of_iff [simp del]

section \<open>The life of a liability\<close>

text \<open>The life the module documents: reserved, dispatching, then pending or unknown; released when never claimed, unsent
  on proof, settled by evidence; a closed one may be reserved again, and late evidence may settle it after all.\<close>

definition life_next :: "li_state \<Rightarrow> li_state list" where
  "life_next s = (case s of
      Li_Reserved \<Rightarrow> [Li_Dispatching, Li_Released]
    | Li_Dispatching \<Rightarrow> [Li_Pending, Li_Unknown, Li_Unsent, Li_Settled]
    | Li_Pending \<Rightarrow> [Li_Unknown, Li_Unsent, Li_Settled]
    | Li_Unknown \<Rightarrow> [Li_Pending, Li_Unsent, Li_Settled]
    | Li_Unsent \<Rightarrow> [Li_Reserved, Li_Settled]
    | Li_Released \<Rightarrow> [Li_Reserved, Li_Settled]
    | Li_Settled \<Rightarrow> [])"

interpretation life: transition_table life_next "\<lambda>s. s = Li_Settled"
  by unfold_locales (simp add: life_next_def)

definition lived :: "liability \<Rightarrow> liability \<Rightarrow> bool" where
  "lived l l' \<longleftrightarrow> (\<exists>ys. life.walk (li_status l) ys \<and> last (li_status l # ys) = li_status l')
     \<and> li_terms l' = li_terms l \<and> li_operation l' = li_operation l \<and> li_attempt l \<le> li_attempt l'"

lemma lived_same:
  "li_status l' = li_status l \<Longrightarrow> li_terms l' = li_terms l \<Longrightarrow> li_operation l' = li_operation l \<Longrightarrow> li_attempt l \<le> li_attempt l' \<Longrightarrow> lived l l'"
  unfolding lived_def by (intro conjI exI [of _ "[]"]) simp_all

lemma lived_refl [simp]: "lived l l"
  by (rule lived_same) simp_all

lemma lived_trans: "lived l m \<Longrightarrow> lived m r \<Longrightarrow> lived l r"
proof -
  assume "lived l m" "lived m r"
  then obtain ys zs where "life.walk (li_status l) ys" "last (li_status l # ys) = li_status m" "life.walk (li_status m) zs" "last (li_status m # zs) = li_status r"
    and "li_terms r = li_terms l \<and> li_operation r = li_operation l \<and> li_attempt l \<le> li_attempt r"
    by (auto simp: lived_def)
  moreover from this have "life.walk (li_status l) (ys @ zs)" "last (li_status l # ys @ zs) = li_status r"
    by (simp_all add: life.walk_append) (cases zs, auto)
  ultimately show ?thesis unfolding lived_def by blast
qed

lemma lived_edge:
  "s' \<in> set (life_next (li_status l)) \<Longrightarrow> li_status l' = s' \<Longrightarrow> li_terms l' = li_terms l \<Longrightarrow> li_operation l' = li_operation l
    \<Longrightarrow> li_attempt l \<le> li_attempt l' \<Longrightarrow> lived l l'"
  unfolding lived_def by (intro conjI exI [of _ "[s']"]) simp_all

definition lived_at :: "string \<Rightarrow> liability \<Rightarrow> money_db \<Rightarrow> bool" where
  "lived_at lid l db \<longleftrightarrow> (\<exists>l'. dict_get (liabilities db) lid = Some l' \<and> lived l l')"

lemma lived_moves_one:
  assumes "lived_at lid l d" "moves_one i t edges d d'" "\<And>a b. (a, b) \<in> set edges \<Longrightarrow> b \<in> set (life_next a)"
  shows "lived_at lid l d'"
  using assms(2) unfolding moves_one_def
proof (elim disjE exE conjE)
  fix r r' s
  assume r: "dict_get (liabilities d) i = Some r" "(li_status r, s) \<in> set edges" "d' = li_move t i s r' d" "li_terms r' = li_terms r"
    "li_operation r' = li_operation r" "li_attempt r \<le> li_attempt r'"
  have "lived r (r'\<lparr>li_status := s, li_updated := t, li_version := li_version r' + 1\<rparr>)"
    by (rule lived_edge [OF assms(3) [OF r(2)]]) (use r in simp_all)
  then show ?thesis using assms(1) r lived_trans by (auto simp: lived_at_def)
qed (use assms(1) in simp)

lemma lived_settle: "lived_at lid l d \<Longrightarrow> lived_at lid l (fst (settle_liability env i ev tok d))"
proof (cases rule: money_settle_cases [of env i ev tok d])
  case (wrote r pl rs0 rs over fdb)
  assume a: "lived_at lid l d"
  have u: "li_status r \<noteq> Li_Reserved" using wrote(4) by (auto simp: settle_guard_def split: if_splits)
  define r' where "r' = (if held_state (li_status r) \<or> closed_state (li_status r)
     then r\<lparr>li_lines := bound_held rs, li_settled := Some (env_now env), li_over_cap := (over \<or> li_over_cap r),
             li_status := Li_Settled, li_updated := env_now env, li_version := li_version r + 1\<rparr>
     else r\<lparr>li_lines := rs, li_over_cap := (over \<or> li_over_cap r), li_updated := (if over then env_now env else li_updated r)\<rparr>)"
  have "lived r r'"
  proof (cases "li_status r = Li_Settled")
    case True
    then show ?thesis by (intro lived_same) (simp_all add: r'_def held_state_def closed_state_def)
  next
    case False
    then have "Li_Settled \<in> set (life_next (li_status r))" "held_state (li_status r) \<or> closed_state (li_status r)"
      using u by (cases "li_status r"; simp add: life_next_def held_state_def closed_state_def)+
    then show ?thesis by (intro lived_edge [where s' = Li_Settled]) (simp_all add: r'_def)
  qed
  moreover have "dict_get (liabilities (fst (settle_liability env i ev tok d))) k = (if k = i then Some r' else dict_get (liabilities d) k)" for k
    unfolding wrote(7) fst_conv settle_write_get r'_def by simp
  ultimately show ?thesis using a wrote(1) lived_trans by (auto simp: lived_at_def)
qed simp

lemma lived_fold: "(\<And>i d. lived_at lid l d \<Longrightarrow> lived_at lid l (f i d)) \<Longrightarrow> lived_at lid l db \<Longrightarrow> lived_at lid l (fold f xs db)"
  by (induction xs arbitrary: db) simp_all

lemma lived_reconcile: "lived_at lid l db \<Longrightarrow> lived_at lid l (reconcile_money_liabilities env b db)"
proof -
  assume a: "lived_at lid l db"
  have 1: "lived_at lid l d \<Longrightarrow> lived_at lid l (reconcile_one env i d)" for i d
    by (erule lived_moves_one [OF _ reconcile_moves_one]) (auto simp: life_next_def)
  have 2: "lived_at lid l d \<Longrightarrow> lived_at lid l (recover_one env i d)" for i d
    by (auto simp: recover_one_def lived_settle split: option.split)
  have "lived_at lid l (db\<lparr>reconciled := True\<rparr>)" using a by (simp add: lived_at_def)
  with a show ?thesis unfolding reconcile_money_liabilities_def recover_admission_refusal_holds_def
    by (auto intro!: lived_fold [OF 2] lived_fold [OF 1])
qed

text \<open>Only pruning removes a liability, so it either is gone or has lived on.\<close>

definition lives :: "string \<Rightarrow> liability \<Rightarrow> money_db \<Rightarrow> bool" where
  "lives lid l db \<longleftrightarrow> (case dict_get (liabilities db) lid of None \<Rightarrow> True | Some l' \<Rightarrow> lived l l')"

lemma lived_lives: "lived_at lid l db \<Longrightarrow> lives lid l db"
  by (auto simp: lived_at_def lives_def)

lemma lives_reserve:
  assumes wf: "wf_dict (liabilities db)" and a: "lived_at lid l db"
  shows "lives lid l (fst (reserve_liability env rq fresh db))"
proof -
  let ?d = "reconcile_money_liabilities env False db"
  have d: "wf_dict (liabilities ?d)" "lived_at lid l ?d" using wf_reconcile [OF wf] lived_reconcile [OF a] by blast+
  have "lives lid l (fst (reserve_txn env rq fc fresh ?d))" for fc
  proof (rule reserve_txn_cases [OF d(1), of env rq fc fresh])
    fix i
    assume "moves_one i (env_now env) [(Li_Unsent, Li_Reserved), (Li_Released, Li_Reserved)] ?d (fst (reserve_txn env rq fc fresh ?d))"
    then show ?thesis by (intro lived_lives lived_moves_one [OF d(2)]) (auto simp: life_next_def)
  next
    fix g
    assume new: "dict_get (liabilities ?d) (''mli:'' @ fresh) = None"
      and r: "fst (reserve_txn env rq fc fresh ?d) = prune_money (env_now env)
        (?d\<lparr>liabilities := dict_set (''mli:'' @ fresh) (new_liability env fc g) (liabilities ?d)\<rparr>)"
    have "lid \<noteq> ''mli:'' @ fresh" using new d(2) by (auto simp: lived_at_def)
    then show ?thesis using d unfolding r lives_def by (subst prune_get) (auto simp: lived_at_def split: option.splits)
  qed
  with lived_lives [OF a] show ?thesis by (simp add: reserve_liability_def split: sum.split)
qed



end
