(* ===== verification/Money_Ceilings.thy ===== *)
theory Money_Ceilings
  imports Money_Safety "HOL-Library.Multiset"
begin

text \<open>
  The ceilings of a grant, over every operation of \<open>Money_Liability\<close>: what is outstanding or paid under a grant never
  sums to more than the grant allows. The weight of a liability (principal, network fees, being open, being held) falls
  or stays in every move, falls or stays in a settlement within the maxima, and is admitted by a reservation only when
  the grant's check has room for it; a retry reads the same amounts back from the rows.
\<close>

declare map_of_eq_Some_iff [simp del] Some_eq_map_of_iff [simp del]

section \<open>What a grant has outstanding\<close>

definition open_count :: "liability \<Rightarrow> int" where "open_count l = (if closed_state (li_status l) then 0 else 1)"
definition held_count :: "liability \<Rightarrow> int" where "held_count l = (if held_state (li_status l) then 1 else 0)"

definition grant_total :: "(liability \<Rightarrow> int) \<Rightarrow> string \<Rightarrow> (string, liability) dict \<Rightarrow> int" where
  "grant_total w gid ls = dict_sum (\<lambda>l. if tm_grant (li_terms l) = gid then w l else 0) ls"

text \<open>A grant whose usage is only its own liabilities, whenever they settled.\<close>

definition plain_grant :: "grant_spec \<Rightarrow> bool" where
  "plain_grant sp \<longleftrightarrow> gs_carried sp = [] \<and> gs_renewal sp = 0"

lemma counted_sum:
  "sum_list (map w (map snd (filter (\<lambda>(i, l). tm_grant (li_terms l) = gid \<and> i \<noteq> ex) ls))) = grant_total w gid (dict_pop ex ls)"
  unfolding grant_total_def by (induction ls) (auto split: if_splits)

lemma count_sum: "int (length (filter P xs)) = sum_list (map (\<lambda>x. if P x then 1 else 0) xs)"
  by (induction xs) simp_all

lemma plain_counts:
  "plain_grant sp \<Longrightarrow> grant_counts gid sp now ex i l \<longleftrightarrow> tm_grant (li_terms l) = gid \<and> i \<noteq> ex"
  by (simp add: grant_counts_def plain_grant_def aged_out_def)

lemma open_count_if: "open_count = (\<lambda>l. if \<not> closed_state (li_status l) then 1 else 0)"
  by (auto simp: open_count_def)

lemma held_count_if: "held_count = (\<lambda>l. if held_state (li_status l) then 1 else 0)"
  by (auto simp: held_count_def)

lemma usage_totals:
  assumes "plain_grant sp"
  shows "us_principal (usage_of db gid sp now ex) = grant_total principal_of gid (dict_pop ex (liabilities db))"
    and "us_fees (usage_of db gid sp now ex) = grant_total fees_of gid (dict_pop ex (liabilities db))"
    and "us_operations (usage_of db gid sp now ex) = grant_total open_count gid (dict_pop ex (liabilities db))"
    and "us_concurrent (usage_of db gid sp now ex) = grant_total held_count gid (dict_pop ex (liabilities db))"
  unfolding usage_of_def Let_def plain_counts [OF assms] grant_usage.simps count_sum
    counted_sum [symmetric] open_count_if held_count_if by (rule refl)+

lemma total_set:
  "wf_dict ls \<Longrightarrow> grant_total w gid (dict_set i l' ls) = grant_total w gid (dict_pop i ls) + (if tm_grant (li_terms l') = gid then w l' else 0)"
  by (auto simp: grant_total_def dict_sum_set dict_sum_pop split: option.split)

section \<open>Sound liabilities\<close>

definition counted_flow :: "money_flow \<Rightarrow> bool" where "counted_flow f \<longleftrightarrow> f \<noteq> Credit_credit"

definition liability_ok :: "liability \<Rightarrow> bool" where
  "liability_ok l \<longleftrightarrow> distinct (map ln_flow (li_lines l)) \<and> (\<forall>r\<in>set (li_lines l). counted_flow (ln_flow r) \<longrightarrow> 0 \<le> line_amount r)
     \<and> (li_status l \<noteq> Li_Settled \<longrightarrow> li_lines l = map held_row (tm_lines (li_terms l)))
     \<and> py_strip (tm_grant (li_terms l)) = tm_grant (li_terms l)"

definition line_sum :: "(money_flow \<Rightarrow> bool) \<Rightarrow> line_row list \<Rightarrow> int" where
  "line_sum P rs = sum_list (map (\<lambda>r. if P (ln_flow r) then line_amount r else 0) rs)"

lemma principal_line_sum: "principal_of l = (if closed_state (li_status l) then 0 else line_sum (principal_flow l) (li_lines l))"
  by (simp add: principal_of_def line_sum_def)

lemma fees_line_sum: "fees_of l = (if closed_state (li_status l) then 0 else line_sum (\<lambda>f. \<not> principal_flow l f \<and> f = Network_fee) (li_lines l))"
  by (simp add: fees_of_def line_sum_def)

lemma principal_counted: "principal_flow l f \<Longrightarrow> counted_flow f"
  by (cases "tm_kind (li_terms l)") (auto simp: principal_flow_def counted_flow_def operation_schema_def)

lemma line_sum_nonneg: "\<forall>r\<in>set rs. counted_flow (ln_flow r) \<longrightarrow> 0 \<le> line_amount r \<Longrightarrow> (\<And>f. P f \<Longrightarrow> counted_flow f) \<Longrightarrow> 0 \<le> line_sum P rs"
  unfolding line_sum_def by (rule sum_list_nonneg) auto

lemma weights_nonneg:
  assumes "liability_ok l"
  shows "0 \<le> principal_of l" "0 \<le> fees_of l" "0 \<le> open_count l" "0 \<le> held_count l"
proof -
  have ok: "\<forall>r\<in>set (li_lines l). counted_flow (ln_flow r) \<longrightarrow> 0 \<le> line_amount r" using assms by (simp add: liability_ok_def)
  show "0 \<le> principal_of l" using line_sum_nonneg [OF ok principal_counted] by (simp add: principal_line_sum)
  have "0 \<le> line_sum (\<lambda>f. \<not> principal_flow l f \<and> f = Network_fee) (li_lines l)"
    by (rule line_sum_nonneg [OF ok]) (simp add: counted_flow_def)
  then show "0 \<le> fees_of l" by (simp add: fees_line_sum)
qed (simp_all add: open_count_def held_count_def)

text \<open>No weight rises from one row to another of the same grant.\<close>

definition lighter :: "liability \<Rightarrow> liability \<Rightarrow> bool" where
  "lighter l' l \<longleftrightarrow> tm_grant (li_terms l') = tm_grant (li_terms l) \<and> principal_of l' \<le> principal_of l \<and> fees_of l' \<le> fees_of l
     \<and> open_count l' \<le> open_count l \<and> held_count l' \<le> held_count l"

lemma lighter_closed: "liability_ok l \<Longrightarrow> li_terms l' = li_terms l \<Longrightarrow> closed_state (li_status l') \<Longrightarrow> lighter l' l"
  using weights_nonneg [of l] by (auto simp: lighter_def principal_of_def fees_of_def open_count_def held_count_def closed_state_def held_state_def)

lemma lighter_move:
  assumes ok: "liability_ok l" and t: "li_terms l' = li_terms l" and ls: "li_lines l' = li_lines l"
    and s: "closed_state (li_status l') \<or> \<not> closed_state (li_status l) \<and> (held_state (li_status l') \<longrightarrow> held_state (li_status l))"
  shows "lighter l' l"
proof (cases "closed_state (li_status l')")
  case True
  with ok t show ?thesis by (rule lighter_closed)
next
  case False
  have "principal_flow l' = principal_flow l" by (intro ext) (simp add: principal_flow_def t)
  with False s show ?thesis by (simp add: lighter_def t ls principal_line_sum fees_line_sum open_count_def held_count_def)
qed

text \<open>The rows of a settlement against the rows it started from.\<close>

definition row_settles :: "line_row \<Rightarrow> line_row \<Rightarrow> bool" where
  "row_settles r' r \<longleftrightarrow> ln_flow r' = ln_flow r \<and> (counted_flow (ln_flow r) \<longrightarrow> ln_max r' = ln_max r \<and> line_amount r' \<le> line_amount r \<and> 0 \<le> line_amount r')"

lemma settles_set_exact:
  assumes "list_all2 row_settles xs rs" and "\<forall>r\<in>set rs. ln_flow r = f \<and> counted_flow f \<longrightarrow> 0 \<le> v \<and> v \<le> line_amount r"
  shows "list_all2 row_settles (set_exact now ev f v b xs) rs"
  using assms by (induction xs rs rule: list_all2_induct) (auto simp: set_exact_def row_settles_def line_amount_def)

lemma settles_bound_held: "list_all2 row_settles xs rs \<Longrightarrow> list_all2 row_settles (bound_held xs) rs"
  by (induction xs rs rule: list_all2_induct) (auto simp: bound_held_def row_settles_def line_amount_def)

lemma settles_refl: "liability_ok l \<Longrightarrow> list_all2 row_settles (li_lines l) (li_lines l)"
  by (auto simp: list_all2_same row_settles_def liability_ok_def)

lemma settles_flows: "list_all2 row_settles xs rs \<Longrightarrow> map ln_flow xs = map ln_flow rs"
  by (induction xs rs rule: list_all2_induct) (auto simp: row_settles_def)

lemma settles_sum: "list_all2 row_settles xs rs \<Longrightarrow> (\<And>f. P f \<Longrightarrow> counted_flow f) \<Longrightarrow> line_sum P xs \<le> line_sum P rs"
  by (induction xs rs rule: list_all2_induct) (auto simp: line_sum_def row_settles_def intro: add_mono)

lemma line_of_row:
  assumes "liability_ok l" "line_of l f = Some r" "q \<in> set (li_lines l)" "ln_flow q = f"
  shows "q = r"
proof -
  have "r \<in> set (li_lines l)" "ln_flow r = f" using assms(2) by (auto simp: line_of_def find_Some_iff)
  with assms show ?thesis by (auto simp: liability_ok_def distinct_map inj_on_def)
qed


section \<open>A settlement within the maxima\<close>

text \<open>A settlement may add the credit row that its evidence brings; no ceiling counts it.\<close>

definition rows_settle :: "line_row list \<Rightarrow> line_row list \<Rightarrow> bool" where
  "rows_settle xs rs \<longleftrightarrow> (\<exists>ys es. xs = ys @ es \<and> list_all2 row_settles ys rs \<and> distinct (map ln_flow es)
     \<and> (\<forall>e\<in>set es. ln_flow e = Credit_credit \<and> Credit_credit \<notin> ln_flow ` set rs))"

lemma rows_settle_set_exact:
  assumes "rows_settle xs rs" "\<forall>r\<in>set rs. ln_flow r = f \<and> counted_flow f \<longrightarrow> 0 \<le> v \<and> v \<le> line_amount r"
  shows "rows_settle (set_exact now ev f v b xs) rs"
proof -
  obtain ys es where x: "xs = ys @ es" "list_all2 row_settles ys rs" "distinct (map ln_flow es)"
    "\<forall>e\<in>set es. ln_flow e = Credit_credit \<and> Credit_credit \<notin> ln_flow ` set rs"
    using assms(1) by (auto simp: rows_settle_def)
  have "set_exact now ev f v b xs = set_exact now ev f v b ys @ set_exact now ev f v b es" using x(1) by (simp add: set_exact_def)
  moreover have "map ln_flow (set_exact now ev f v b es) = map ln_flow es" by (simp add: set_exact_def)
  moreover have "\<forall>e\<in>set (set_exact now ev f v b es). ln_flow e = Credit_credit \<and> Credit_credit \<notin> ln_flow ` set rs"
    using x(4) by (auto simp: set_exact_def)
  ultimately show ?thesis using settles_set_exact [OF x(2) assms(2)] x(3) unfolding rows_settle_def by metis
qed

lemma rows_settle_bound_held: "rows_settle xs rs \<Longrightarrow> rows_settle (bound_held xs) rs"
proof -
  assume "rows_settle xs rs"
  then obtain ys es where x: "xs = ys @ es" "list_all2 row_settles ys rs" "distinct (map ln_flow es)"
    "\<forall>e\<in>set es. ln_flow e = Credit_credit \<and> Credit_credit \<notin> ln_flow ` set rs"
    by (auto simp: rows_settle_def)
  have "bound_held xs = bound_held ys @ bound_held es" using x(1) by (simp add: bound_held_def)
  moreover have "map ln_flow (bound_held es) = map ln_flow es" by (simp add: bound_held_def)
  moreover have "\<forall>e\<in>set (bound_held es). ln_flow e = Credit_credit \<and> Credit_credit \<notin> ln_flow ` set rs"
    using x(4) by (auto simp: bound_held_def)
  ultimately show ?thesis using settles_bound_held [OF x(2)] x(3) unfolding rows_settle_def by metis
qed

lemma rows_settle_sum:
  assumes "rows_settle xs rs" "\<And>f. P f \<Longrightarrow> counted_flow f"
  shows "line_sum P xs \<le> line_sum P rs"
proof -
  obtain ys es where x: "xs = ys @ es" "list_all2 row_settles ys rs" "\<forall>e\<in>set es. ln_flow e = Credit_credit"
    using assms(1) by (auto simp: rows_settle_def)
  have "\<not> P Credit_credit" using assms(2) by (auto simp: counted_flow_def)
  then have "line_sum P es = 0" using x(3) by (induction es) (auto simp: line_sum_def)
  then show ?thesis using settles_sum [OF x(2) assms(2)] x(1) by (simp add: line_sum_def)
qed

lemma rows_settle_sound:
  assumes "rows_settle xs rs" "distinct (map ln_flow rs)"
  shows "distinct (map ln_flow xs)" "\<forall>r\<in>set xs. counted_flow (ln_flow r) \<longrightarrow> 0 \<le> line_amount r"
proof -
  obtain ys es where x: "xs = ys @ es" "list_all2 row_settles ys rs" "distinct (map ln_flow es)"
    "\<forall>e\<in>set es. ln_flow e = Credit_credit \<and> Credit_credit \<notin> ln_flow ` set rs"
    using assms(1) by (auto simp: rows_settle_def)
  have "a \<notin> ln_flow ` set rs" if "a \<in> ln_flow ` set es" for a
  proof -
    from that obtain e where "e \<in> set es" "a = ln_flow e" by auto
    with x(4) show ?thesis by simp
  qed
  then have "ln_flow ` set rs \<inter> ln_flow ` set es = {}" by blast
  then show "distinct (map ln_flow xs)" using x(1, 3) assms(2) settles_flows [OF x(2)] by simp
  have "\<forall>r\<in>set ys. counted_flow (ln_flow r) \<longrightarrow> 0 \<le> line_amount r"
    using x(2) by (induction ys rs rule: list_all2_induct) (auto simp: row_settles_def)
  then show "\<forall>r\<in>set xs. counted_flow (ln_flow r) \<longrightarrow> 0 \<le> line_amount r" using x(1, 4) by (auto simp: counted_flow_def)
qed

lemma admissible_nonneg:
  assumes "evidence_admissible ev = Inr pl" "p \<in> set (pl_actuals pl)"
  shows "0 \<le> snd p"
proof -
  obtain as where as: "each (\<lambda>(f, v). and_then (require_atomic True v) (\<lambda>a. Inr (f, a))) (ev_actuals ev) = Inr as"
    "pl_actuals pl = sort_key (flow_rank \<circ> fst) as"
    using assms(1) by (auto simp: evidence_admissible_def payload_of_def and_then_Inr split: if_splits)
  have "list_all2 (\<lambda>x y. 0 \<le> snd y) (ev_actuals ev) as"
    using as(1) unfolding each_Inr by (rule list_all2_mono) (auto simp: and_then_Inr require_atomic_def split: if_splits prod.splits)
  then have "\<forall>y\<in>set as. 0 \<le> snd y" by (induction rule: list_all2_induct) auto
  with as(2) assms(2) show ?thesis by simp
qed

lemma actuals_settle:
  assumes ok: "liability_ok l" and nn: "\<forall>p\<in>set (pl_actuals pl). 0 \<le> snd p" and a: "apply_actuals now l pl = (rs, False)"
  shows "list_all2 row_settles rs (li_lines l)"
proof -
  have walk: "\<not> snd (fold (apply_actual now (pl_id pl) l) ps st) \<Longrightarrow> \<forall>p\<in>set ps. 0 \<le> snd p \<Longrightarrow> list_all2 row_settles (fst st) (li_lines l)
      \<Longrightarrow> \<not> snd st \<and> list_all2 row_settles (fst (fold (apply_actual now (pl_id pl) l) ps st)) (li_lines l)" for ps st
  proof (induction ps arbitrary: st)
    case (Cons p ps)
    let ?st = "apply_actual now (pl_id pl) l p st"
    have IH: "list_all2 row_settles (fst ?st) (li_lines l) \<Longrightarrow> \<not> snd ?st \<and> list_all2 row_settles (fst (fold (apply_actual now (pl_id pl) l) ps ?st)) (li_lines l)"
      using Cons by simp
    show ?case
    proof (cases "line_of l (fst p)")
      case None
      then have "?st = st" by (simp add: apply_actual_def)
      with IH Cons.prems(3) show ?thesis by simp
    next
      case (Some r)
      show ?thesis
      proof (cases "ln_state r = Line_Exact")
        case True
        then have "?st = st" using Some by (simp add: apply_actual_def)
        with IH Cons.prems(3) show ?thesis by simp
      next
        case False
        then have st: "?st = (set_exact now (pl_id pl) (fst p) (snd p) False (fst st), snd st \<or> snd p > ln_max r)"
          using Some by (simp add: apply_actual_def)
        have amt: "line_amount r = ln_max r" using False by (simp add: line_amount_def split: line_state.split option.split)
        have over: "list_all2 row_settles (set_exact now (pl_id pl) (fst p) (snd p) False (fst st)) (li_lines l)" if "snd p \<le> ln_max r"
          by (rule settles_set_exact [OF Cons.prems(3)])
            (use line_of_row [OF ok Some] Cons.prems(2) that amt in auto)
        show ?thesis
        proof (cases "snd p \<le> ln_max r")
          case True
          then have "list_all2 row_settles (fst ?st) (li_lines l)" using over by (simp add: st)
          from IH [OF this] have "\<not> snd ?st" "list_all2 row_settles (fst (fold (apply_actual now (pl_id pl) l) ps ?st)) (li_lines l)" by simp_all
          then show ?thesis by (simp add: st)
        next
          case False
          have mono: "snd s \<Longrightarrow> snd (fold (apply_actual now (pl_id pl) l) qs s)" for qs s
            by (induction qs arbitrary: s) (simp_all add: apply_actual_def split: option.split)
          have "snd ?st" using False by (simp add: st)
          from mono [OF this] Cons.prems(1) show ?thesis by simp
        qed
      qed
    qed
  qed simp
  show ?thesis using walk [of "pl_actuals pl" "(li_lines l, False)"] settles_refl [OF ok] a nn by (simp add: apply_actuals_def)
qed


lemma credit_settle:
  assumes "list_all2 row_settles (fst st) (li_lines l)" "apply_credit now l pl st = Inr st'"
  shows "rows_settle (fst st') (li_lines l)" "\<not> snd st' \<Longrightarrow> \<not> snd st"
proof -
  have base: "rows_settle (fst st) (li_lines l)" using assms(1) unfolding rows_settle_def
    by (intro exI [of _ "fst st"] exI [of _ "[]"]) simp
  have set: "rows_settle (set_exact now (pl_id pl) Credit_credit n v (fst st)) (li_lines l)" for n v
    by (rule rows_settle_set_exact [OF base]) (simp add: counted_flow_def)
  have add: "rows_settle (fst st @ [r]) (li_lines l)" if "line_of l Credit_credit = None" "ln_flow r = Credit_credit" for r
    unfolding rows_settle_def using assms(1) that
    by (intro exI [of _ "fst st"] exI [of _ "[r]"]) (auto simp: line_of_def find_None_iff)
  show "rows_settle (fst st') (li_lines l)"
    using assms(2) base set add by (auto simp: apply_credit_def Let_def split: list.splits prod.splits option.splits if_splits)
  show "\<not> snd st' \<Longrightarrow> \<not> snd st"
    using assms(2) by (auto simp: apply_credit_def Let_def split: list.splits prod.splits option.splits if_splits)
qed

lemma newly_nonneg: "accrue f now db = (db', Inr a) \<Longrightarrow> 0 \<le> ac_newly_representable a"
  by (auto simp: accrue_def Let_def split: sum.splits option.splits if_splits)

lemma fee_settle:
  assumes ok: "liability_ok l" and rs: "rows_settle rs (li_lines l)" and f: "fee_step_of now lid l pl rs fdb = Inr (rs', fdb')"
  shows "rows_settle rs' (li_lines l)"
proof (cases "rs' = rs")
  case False
  obtain fee where fee: "line_of l Service_fee = Some fee" and acc: "accrue_service_fee now lid l pl fee rs fdb = Inr (rs', fdb')"
    using f False by (auto simp: fee_step_of_def split: option.splits if_splits)
  have "\<exists>fx a. accrue fx now fdb = (fdb', Inr a) \<and> ln_state fee \<noteq> Line_Exact
      \<and> rs' = set_exact now (pl_id pl) Service_fee (min (ac_newly_representable a) (ln_max fee)) False rs"
    using acc False unfolding accrue_service_fee_def Let_def by (auto split: option.splits if_splits prod.splits sum.splits)
  then obtain fx a where "accrue fx now fdb = (fdb', Inr a)" and ex: "ln_state fee \<noteq> Line_Exact"
    and rs': "rs' = set_exact now (pl_id pl) Service_fee (min (ac_newly_representable a) (ln_max fee)) False rs"
    by (elim exE conjE)
  then have nn: "0 \<le> ac_newly_representable a" by (intro newly_nonneg)
  have amt: "line_amount fee = ln_max fee" using ex by (simp add: line_amount_def split: line_state.split option.split)
  have "fee \<in> set (li_lines l)" "ln_flow fee = Service_fee" using fee by (auto simp: line_of_def find_Some_iff)
  then have "0 \<le> ln_max fee" using ok amt by (auto simp: liability_ok_def counted_flow_def)
  then show ?thesis unfolding rs'
    by (intro rows_settle_set_exact [OF rs]) (use line_of_row [OF ok fee] amt nn in auto)
qed (use rs in simp)


lemma settled_lighter:
  assumes ok: "liability_ok l" and rs: "rows_settle rs (li_lines l)" and o: "\<not> closed_state (li_status l)"
    and l': "li_terms l' = li_terms l" "li_status l' = Li_Settled" "li_lines l' = rs"
  shows "liability_ok l'" "lighter l' l"
proof -
  have "distinct (map ln_flow (li_lines l))" using ok by (simp add: liability_ok_def)
  from rows_settle_sound [OF rs this] show "liability_ok l'"
    using ok l' by (simp add: liability_ok_def)
  have p: "principal_flow l' = principal_flow l" by (intro ext) (simp add: principal_flow_def l'(1))
  have "line_sum (principal_flow l) rs \<le> line_sum (principal_flow l) (li_lines l)"
    by (rule rows_settle_sum [OF rs principal_counted])
  moreover have "line_sum (\<lambda>f. \<not> principal_flow l f \<and> f = Network_fee) rs \<le> line_sum (\<lambda>f. \<not> principal_flow l f \<and> f = Network_fee) (li_lines l)"
    by (rule rows_settle_sum [OF rs]) (simp add: counted_flow_def)
  ultimately show "lighter l' l" using o
    by (simp add: lighter_def l' p principal_line_sum fees_line_sum open_count_def held_count_def held_state_def closed_state_def)
qed

section \<open>Sound tables\<close>

definition within_ceilings :: "string \<Rightarrow> grant_spec \<Rightarrow> (string, liability) dict \<Rightarrow> bool" where
  "within_ceilings gid sp ls \<longleftrightarrow> grant_total principal_of gid ls \<le> gs_max_total sp \<and> grant_total fees_of gid ls \<le> gs_max_fee_total sp
     \<and> (gs_max_operations sp \<noteq> 0 \<longrightarrow> grant_total open_count gid ls \<le> gs_max_operations sp)
     \<and> (gs_max_concurrent sp \<noteq> 0 \<longrightarrow> grant_total held_count gid ls \<le> gs_max_concurrent sp)"

definition liabilities_sound :: "money_db \<Rightarrow> bool" where
  "liabilities_sound db \<longleftrightarrow> wf_dict (liabilities db) \<and> dict_get (liabilities db) [] = None
     \<and> (\<forall>i l. dict_get (liabilities db) i = Some l \<longrightarrow> liability_ok l \<and> dict_get (grants db) (tm_grant (li_terms l)) \<noteq> None)"

definition ceilings_hold :: "money_db \<Rightarrow> bool" where
  "ceilings_hold db \<longleftrightarrow> (\<forall>gid g. dict_get (grants db) gid = Some g \<longrightarrow> plain_grant (gr_spec g) \<longrightarrow> within_ceilings gid (gr_spec g) (liabilities db))"

definition money_sound :: "money_db \<Rightarrow> bool" where
  "money_sound db \<longleftrightarrow> liabilities_sound db \<and> ceilings_hold db"

lemma total_lighter:
  assumes "wf_dict ls" "dict_get ls i = Some l" "lighter l' l"
  shows "grant_total principal_of gid (dict_set i l' ls) \<le> grant_total principal_of gid ls"
    and "grant_total fees_of gid (dict_set i l' ls) \<le> grant_total fees_of gid ls"
    and "grant_total open_count gid (dict_set i l' ls) \<le> grant_total open_count gid ls"
    and "grant_total held_count gid (dict_set i l' ls) \<le> grant_total held_count gid ls"
  using assms(2, 3) by (auto simp: grant_total_def dict_sum_set [OF assms(1)] lighter_def)

lemma within_le:
  "within_ceilings gid sp ls \<Longrightarrow> grant_total principal_of gid ls' \<le> grant_total principal_of gid ls
    \<Longrightarrow> grant_total fees_of gid ls' \<le> grant_total fees_of gid ls \<Longrightarrow> grant_total open_count gid ls' \<le> grant_total open_count gid ls
    \<Longrightarrow> grant_total held_count gid ls' \<le> grant_total held_count gid ls \<Longrightarrow> within_ceilings gid sp ls'"
  by (auto simp: within_ceilings_def)

lemma sound_lighter:
  assumes s: "money_sound db" and l: "dict_get (liabilities db) i = Some l" and l': "liability_ok l'" "lighter l' l"
    and d: "grants db' = grants db" "liabilities db' = dict_set i l' (liabilities db)"
  shows "money_sound db'"
proof -
  have wf: "wf_dict (liabilities db)" and g: "tm_grant (li_terms l') = tm_grant (li_terms l)"
    using s l'(2) by (simp_all add: money_sound_def liabilities_sound_def lighter_def)
  have "liabilities_sound db'" using s l l' g by (auto simp: money_sound_def liabilities_sound_def d)
  moreover have "ceilings_hold db'" using s
    by (auto simp: money_sound_def ceilings_hold_def d intro!: within_le [OF _ total_lighter [OF wf l l'(2)]])
  ultimately show ?thesis by (simp add: money_sound_def)
qed

lemma sound_cong: "liabilities db' = liabilities db \<Longrightarrow> grants db' = grants db \<Longrightarrow> money_sound db \<Longrightarrow> money_sound db'"
  by (simp add: money_sound_def liabilities_sound_def ceilings_hold_def)

lemma sound_ok: "money_sound db \<Longrightarrow> dict_get (liabilities db) i = Some l \<Longrightarrow> liability_ok l"
  by (auto simp: money_sound_def liabilities_sound_def)

lemma sound_moves_one:
  assumes s: "money_sound db" and m: "moves_one i t edges db db'"
    and e: "\<And>a b. (a, b) \<in> set edges \<Longrightarrow> a \<noteq> Li_Settled \<and> (closed_state b \<or> \<not> closed_state a \<and> (held_state b \<longrightarrow> held_state a))"
  shows "money_sound db'"
  using m unfolding moves_one_def
proof (elim disjE exE conjE)
  fix l l' b
  assume l: "dict_get (liabilities db) i = Some l" and b: "(li_status l, b) \<in> set edges" and d: "db' = li_move t i b l' db"
    and t: "li_terms l' = li_terms l" "li_lines l' = li_lines l"
  let ?l = "l'\<lparr>li_status := b, li_updated := t, li_version := li_version l' + 1\<rparr>"
  have ok: "liability_ok l" by (rule sound_ok [OF s l])
  have "liability_ok ?l" using ok e [OF b] t by (auto simp: liability_ok_def)
  moreover have "lighter ?l l" by (rule lighter_move [OF ok]) (use t e [OF b] in simp_all)
  ultimately show ?thesis by (rule sound_lighter [OF s l]) (simp_all add: d li_move_def)
qed (use s in simp)


section \<open>Each operation keeps the tables sound\<close>

definition within_maxima :: "money_code + settle_result \<Rightarrow> bool" where
  "within_maxima res = (case res of Inl _ \<Rightarrow> True | Inr r \<Rightarrow> \<not> se_over_cap r \<and> \<not> se_contradiction r)"

lemma sound_settle:
  assumes s: "money_sound db" and w: "within_maxima (snd (settle_liability env lid ev tok db))"
  shows "money_sound (fst (settle_liability env lid ev tok db))"
proof (cases rule: money_settle_cases [of env lid ev tok db])
  case (wrote l pl rs0 rs over fdb)
  have over: "over = False" and o: "\<not> closed_state (li_status l)" using w by (simp_all add: wrote(7) within_maxima_def)
  have ok: "liability_ok l" by (rule sound_ok [OF s wrote(1)])
  obtain ra oa where ra: "apply_actuals (env_now env) l pl = (ra, oa)" by (cases "apply_actuals (env_now env) l pl")
  have nn: "\<forall>p\<in>set (pl_actuals pl). 0 \<le> snd p" using admissible_nonneg [OF wrote(2)] by blast
  have credit: "apply_credit (env_now env) l pl (ra, oa) = Inr (rs0, over)" using wrote(5) ra by simp
  have "oa = False" using credit over
    by (auto simp: apply_credit_def Let_def split: list.splits prod.splits option.splits if_splits)
  then have "list_all2 row_settles ra (li_lines l)" using actuals_settle [OF ok nn] ra by simp
  then have "rows_settle rs0 (li_lines l)" using credit_settle(1) [OF _ credit] by simp
  then have rs: "rows_settle rs (li_lines l)" by (rule fee_settle [OF ok _ wrote(6)])
  let ?db = "fst (settle_liability env lid ev tok db)"
  define l' where "l' = (if held_state (li_status l)
      then l\<lparr>li_lines := bound_held rs, li_settled := Some (env_now env), li_over_cap := (over \<or> li_over_cap l),
             li_status := Li_Settled, li_updated := env_now env, li_version := li_version l + 1\<rparr>
      else l\<lparr>li_lines := rs, li_over_cap := (over \<or> li_over_cap l), li_updated := (if over then env_now env else li_updated l)\<rparr>)"
  have d: "liabilities ?db = dict_set lid l' (liabilities db)" "grants ?db = grants db"
    using o by (auto simp: wrote(7) settle_write_def Let_def li_move_def l'_def)
  have st: "li_terms l' = li_terms l" "li_status l' = Li_Settled" using o
    by (cases "li_status l"; simp add: l'_def held_state_def closed_state_def)+
  have lines: "rows_settle (li_lines l') (li_lines l)" using rs rows_settle_bound_held by (simp add: l'_def)
  show ?thesis using settled_lighter [OF ok lines o st refl] by (intro sound_lighter [OF s wrote(1) _ _ d(2, 1)])
qed (use s in simp)

lemma actuals_zero:
  assumes ok: "liability_ok l" and z: "\<forall>p\<in>set (pl_actuals pl). snd p = 0 \<and> counted_flow (fst p)"
  shows "snd (apply_actuals now l pl) = False"
proof -
  have "\<not> ln_max r < 0" if "line_of l f = Some r" "counted_flow f" "ln_state r \<noteq> Line_Exact" for f r
  proof -
    have "r \<in> set (li_lines l)" "ln_flow r = f" using that(1) by (auto simp: line_of_def find_Some_iff)
    moreover have "line_amount r = ln_max r" using that(3) by (simp add: line_amount_def split: line_state.split option.split)
    ultimately show ?thesis using ok that(2) by (auto simp: liability_ok_def)
  qed
  then have "\<forall>p\<in>set ps. snd p = 0 \<and> counted_flow (fst p) \<Longrightarrow> snd st = False \<Longrightarrow> snd (fold (apply_actual now (pl_id pl) l) ps st) = False" for ps st
    by (induction ps arbitrary: st) (simp_all add: apply_actual_def split: option.split)
  then show ?thesis using z by (simp add: apply_actuals_def)
qed

lemma recovery_payload:
  assumes "evidence_admissible (recovery_evidence l c) = Inr pl"
  shows "pl_credits pl = []" "\<forall>p\<in>set (pl_actuals pl). snd p = 0 \<and> counted_flow (fst p)"
  using assms by (auto simp: evidence_admissible_def payload_of_def recovery_evidence_def require_atomic_def and_then_Inr counted_flow_def split: if_splits)

lemma sound_recover_one: "money_sound db \<Longrightarrow> money_sound (recover_one env i db)"
proof (cases "dict_get (liabilities db) i")
  case (Some l)
  assume s: "money_sound db"
  let ?ev = "recovery_evidence l (refusal_code_of (li_unknown_reason l))"
  have "money_sound (fst (settle_liability env i ?ev [] db))" if "recoverable l"
  proof (cases rule: money_settle_cases [of env i ?ev "[]" db])
    case (wrote r pl rs0 rs over fdb)
    have r: "r = l" using wrote(1) Some by simp
    have "snd (apply_actuals (env_now env) l pl) = over" using wrote(5) recovery_payload(1) [OF wrote(2)] by (simp add: r apply_credit_def)
    then have "over = False" using actuals_zero [OF sound_ok [OF s Some] recovery_payload(2) [OF wrote(2)]] by simp
    then have "within_maxima (snd (settle_liability env i ?ev [] db))"
      using that by (simp add: wrote(7) within_maxima_def r recoverable_def closed_state_def)
    then show ?thesis by (rule sound_settle [OF s])
  qed (use s in simp)
  then show ?thesis using s Some by (simp add: recover_one_def)
qed (simp add: recover_one_def)

lemma sound_fold: "(\<And>i d. money_sound d \<Longrightarrow> money_sound (f i d)) \<Longrightarrow> money_sound db \<Longrightarrow> money_sound (fold f xs db)"
  by (induction xs arbitrary: db) simp_all

lemma sound_reconcile: "money_sound db \<Longrightarrow> money_sound (reconcile_money_liabilities env f db)"
proof -
  assume s: "money_sound db"
  have 1: "money_sound d \<Longrightarrow> money_sound (reconcile_one env i d)" for i d
    by (erule sound_moves_one [OF _ reconcile_moves_one]) (auto simp: closed_state_def held_state_def)
  have "money_sound (db\<lparr>reconciled := True\<rparr>)" using s by (rule sound_cong [rotated 2]) simp_all
  with s show ?thesis unfolding reconcile_money_liabilities_def recover_admission_refusal_holds_def
    by (auto intro!: sound_fold [OF sound_recover_one] sound_fold [OF 1])
qed

section \<open>Pruning, reserving and granting\<close>

lemma total_filter:
  "\<forall>p\<in>set ls. 0 \<le> w (snd p) \<Longrightarrow> grant_total w gid (filter P ls) \<le> grant_total w gid ls"
  unfolding grant_total_def by (induction ls) (auto simp: dict_sum_def split: if_splits)

lemma sound_prune:
  assumes s: "money_sound db"
  shows "money_sound (prune_money now db)"
proof -
  let ?ls = "filter (\<lambda>(i, l). \<not> stale now l) (liabilities db)"
  have d: "liabilities (prune_money now db) = ?ls" "grants (prune_money now db) = grants db" by (simp_all add: prune_money_def Let_def)
  have wf: "wf_dict (liabilities db)" using s by (simp add: money_sound_def liabilities_sound_def)
  have "\<forall>p\<in>set (liabilities db). liability_ok (snd p)" using sound_ok [OF s] dict_mem_get [OF wf] by fastforce
  then have w: "\<forall>p\<in>set (liabilities db). 0 \<le> principal_of (snd p)" "\<forall>p\<in>set (liabilities db). 0 \<le> fees_of (snd p)"
    "\<forall>p\<in>set (liabilities db). 0 \<le> open_count (snd p)" "\<forall>p\<in>set (liabilities db). 0 \<le> held_count (snd p)"
    using weights_nonneg by blast+
  have "liabilities_sound (prune_money now db)" unfolding liabilities_sound_def d
    using s wf by (auto simp: money_sound_def liabilities_sound_def wf_dict_filter dict_get_filter_val [where P = "\<lambda>l. \<not> stale now l"] split: option.splits if_splits)
  moreover have "ceilings_hold (prune_money now db)" unfolding ceilings_hold_def d
    using s by (auto simp: money_sound_def ceilings_hold_def intro!: within_le [OF _ total_filter [OF w(1)] total_filter [OF w(2)] total_filter [OF w(3)] total_filter [OF w(4)]])
  ultimately show ?thesis by (simp add: money_sound_def)
qed


text \<open>What a request asks for is what its rows hold.\<close>

definition asked :: "money_flow \<Rightarrow> money_line list \<Rightarrow> int" where
  "asked f ls = sum_list (map (\<lambda>l. if ml_flow l = f then ml_max l else 0) ls)"

lemma asked_absent: "f \<notin> ml_flow ` set ls \<Longrightarrow> asked f ls = 0"
  by (induction ls) (auto simp: asked_def)

lemma asked_Cons: "asked f (l # ls) = (if ml_flow l = f then ml_max l else 0) + asked f ls"
  by (simp add: asked_def)

lemma asked_max: "distinct (map ml_flow ls) \<Longrightarrow> asked f ls = max_of f (by_flow ls)"
proof (induction ls)
  case (Cons l ls)
  then show ?case using asked_absent [of f ls] by (auto simp: asked_Cons max_of_def line_get_def by_flow_def)
qed (simp add: asked_def max_of_def line_get_def by_flow_def)

lemma line_amount_held [simp]: "line_amount (held_row m) = ml_max m" "ln_flow (held_row m) = ml_flow m" "ln_max (held_row m) = ml_max m"
  by (simp_all add: line_amount_def held_row_def)

lemma line_sum_held: "line_sum (\<lambda>g. g = f) (map held_row ls) = asked f ls"
  by (induction ls) (simp_all add: line_sum_def asked_def)

lemma asked_sorted: "asked f (sort_key k ls) = asked f ls"
proof -
  have "asked f xs = sum_mset (mset (map (\<lambda>l. if ml_flow l = f then ml_max l else 0) xs))" for xs
    by (simp only: asked_def sum_mset_sum_list)
  then show ?thesis by (simp only: mset_map mset_sort)
qed

lemma line_sum_or: "b \<noteq> c \<Longrightarrow> line_sum (\<lambda>f. f = b \<or> f = c) rs = line_sum (\<lambda>f. f = b) rs + line_sum (\<lambda>f. f = c) rs"
  by (induction rs) (auto simp: line_sum_def)

lemma request_facts:
  assumes "validate_request rq now = Inr fc"
  shows "fc_lines fc = by_flow (rq_lines rq)" "distinct (map ml_flow (rq_lines rq))" "tm_grant (fc_terms fc) = py_strip (rq_grant rq)"
    "tm_lines (fc_terms fc) = sort_key (flow_rank \<circ> ml_flow) (rq_lines rq)" "rq_kind rq = Some (tm_kind (fc_terms fc))"
  using assms
  by (auto simp: validate_request_def Let_def and_then_Inr lines_fit_def by_flow_def o_def split: if_splits option.splits)

definition holds_request :: "liability \<Rightarrow> facts \<Rightarrow> bool" where
  "holds_request l fc \<longleftrightarrow> tm_grant (li_terms l) = tm_grant (fc_terms fc)
     \<and> line_sum (principal_flow l) (li_lines l) = principal_need fc
     \<and> line_sum (\<lambda>f. \<not> principal_flow l f \<and> f = Network_fee) (li_lines l) = max_of Network_fee (fc_lines fc)"

lemma holds_requestI:
  assumes v: "validate_request rq now = Inr fc" and k: "tm_kind (li_terms l) = tm_kind (fc_terms fc)"
    and g: "tm_grant (li_terms l) = tm_grant (fc_terms fc)"
    and sums: "\<And>f. counted_flow f \<Longrightarrow> line_sum (\<lambda>g. g = f) (li_lines l) = asked f (rq_lines rq)"
  shows "holds_request l fc"
proof -
  let ?b = "sc_bound (operation_schema (tm_kind (fc_terms fc)))"
  have b: "?b \<noteq> Service_fee" "?b \<noteq> Network_fee" "counted_flow ?b"
    by (cases "tm_kind (fc_terms fc)"; simp add: operation_schema_def counted_flow_def)+
  have c: "counted_flow Service_fee" "counted_flow Network_fee" by (simp_all add: counted_flow_def)
  have p: "principal_flow l = (\<lambda>f. f = ?b \<or> f = Service_fee)" by (intro ext) (simp add: principal_flow_def k)
  have n: "(\<lambda>f. \<not> (f = ?b \<or> f = Service_fee) \<and> f = Network_fee) = (\<lambda>f. f = Network_fee)" using b by auto
  have m: "asked f (rq_lines rq) = max_of f (fc_lines fc)" for f
    using asked_max [OF request_facts(2) [OF v]] request_facts(1) [OF v] by simp
  show ?thesis unfolding holds_request_def p n line_sum_or [OF b(1)]
    by (simp add: g sums [OF b(3)] sums [OF c(1)] sums [OF c(2)] principal_need_def m)
qed

lemma holds_new:
  assumes v: "validate_request rq now = Inr fc" and l: "li_terms l = fc_terms fc" "li_lines l = map held_row (tm_lines (li_terms l))"
  shows "holds_request l fc"
  by (rule holds_requestI [OF v]) (simp_all add: l request_facts(4) [OF v] line_sum_held asked_sorted)

lemma holds_retry:
  assumes ok: "liability_ok l" and u: "li_status l \<noteq> Li_Settled" and r: "request_from_row l = Inr rq" and v: "validate_request rq now = Inr fc"
  shows "holds_request l fc"
proof (rule holds_requestI [OF v])
  obtain ls where ls: "request_lines l = Inr ls" and rq: "rq_lines rq = ls" "rq_grant rq = tm_grant (li_terms l)" "rq_kind rq = Some (tm_kind (li_terms l))"
    using r by (auto simp: request_from_row_def and_then_Inr Let_def)
  show "tm_kind (li_terms l) = tm_kind (fc_terms fc)" using rq(3) request_facts(5) [OF v] by simp
  show "tm_grant (li_terms l) = tm_grant (fc_terms fc)" using rq(2) request_facts(3) [OF v] ok by (simp add: liability_ok_def)
  fix f
  assume f: "counted_flow f"
  let ?P = "\<lambda>r. ln_flow r \<noteq> Credit_credit \<or> tm_kind (li_terms l) = Provider_topup"
  have "list_all2 (\<lambda>r m. ml_flow m = ln_flow r \<and> ml_max m = ln_max r) (filter ?P (li_lines l)) ls"
    using ls unfolding request_lines_def each_Inr
    by (rule list_all2_mono) (auto simp: and_then_Inr make_line_def require_atomic_def split: if_splits)
  then have 1: "line_sum (\<lambda>g. g = f) (map (\<lambda>r. r\<lparr>ln_state := Line_Held\<rparr>) (filter ?P (li_lines l))) = asked f ls"
    by (induction rule: list_all2_induct) (auto simp: asked_def line_sum_def line_amount_def)
  have 2: "line_sum (\<lambda>g. g = f) (map (\<lambda>r. r\<lparr>ln_state := Line_Held\<rparr>) (filter ?P (map held_row ms))) = line_sum (\<lambda>g. g = f) (map held_row ms)" for ms
    using f by (induction ms) (auto simp: line_sum_def line_amount_def counted_flow_def held_row_def)
  obtain ms where "li_lines l = map held_row ms" using ok u by (auto simp: liability_ok_def)
  with 1 2 show "line_sum (\<lambda>g. g = f) (li_lines l) = asked f (rq_lines rq)" by (simp add: rq)
qed


lemma max_of_absent: "line_get f d = None \<Longrightarrow> max_of f d = 0"
  by (simp add: max_of_def)

lemma check_grant_fits:
  assumes c: "check_grant db gid g fc now ex = Inr u" and p: "plain_grant (gr_spec g)"
  shows "grant_total principal_of gid (dict_pop ex (liabilities db)) + principal_need fc \<le> gs_max_total (gr_spec g)"
    and "line_get Network_fee (fc_lines fc) \<noteq> None \<Longrightarrow>
      grant_total fees_of gid (dict_pop ex (liabilities db)) + max_of Network_fee (fc_lines fc) \<le> gs_max_fee_total (gr_spec g)"
    and "gs_max_operations (gr_spec g) \<noteq> 0 \<Longrightarrow> grant_total open_count gid (dict_pop ex (liabilities db)) + 1 \<le> gs_max_operations (gr_spec g)"
    and "gs_max_concurrent (gr_spec g) \<noteq> 0 \<Longrightarrow> grant_total held_count gid (dict_pop ex (liabilities db)) + 1 \<le> gs_max_concurrent (gr_spec g)"
  using c by (simp_all add: check_grant_def Let_def usage_totals [OF p] split: if_splits)

lemma reserve_checks_grant:
  assumes "reserve_checks db fc now ex = Inr g"
  shows "dict_get (grants db) (tm_grant (fc_terms fc)) = Some g" "check_grant db (tm_grant (fc_terms fc)) g fc now ex = Inr ()"
  using assms by (auto simp: reserve_checks_def and_then_Inr split: option.splits)

lemma total_pop_le:
  assumes wf: "wf_dict ls" and nn: "\<And>l. dict_get ls i = Some l \<Longrightarrow> 0 \<le> w l"
  shows "grant_total w gid (dict_pop i ls) \<le> grant_total w gid ls"
  using nn by (auto simp: grant_total_def dict_sum_pop [OF wf] split: option.split)

lemma total_set_other:
  assumes "wf_dict ls" "\<And>l. dict_get ls i = Some l \<Longrightarrow> tm_grant (li_terms l) \<noteq> gid" "tm_grant (li_terms l') \<noteq> gid"
  shows "grant_total w gid (dict_set i l' ls) = grant_total w gid ls"
  using assms(2, 3) by (auto simp: grant_total_def dict_sum_set [OF assms(1)] split: option.split)

text \<open>A reservation that passed the checks keeps the tables sound.\<close>

lemma sound_admit:
  assumes s: "money_sound db" and c: "reserve_checks db fc now ex = Inr g" and h: "holds_request l' fc"
    and l': "liability_ok l'" "li_status l' = Li_Reserved" and i: "i \<noteq> []"
    and ex: "dict_pop ex (liabilities db) = dict_pop i (liabilities db)"
    and old: "\<And>l. dict_get (liabilities db) i = Some l \<Longrightarrow> tm_grant (li_terms l) = tm_grant (fc_terms fc)"
    and d: "grants db' = grants db" "liabilities db' = dict_set i l' (liabilities db)"
  shows "money_sound db'"
proof -
  let ?gid = "tm_grant (fc_terms fc)" and ?ls = "liabilities db"
  have wf: "wf_dict ?ls" using s by (simp add: money_sound_def liabilities_sound_def)
  have gid: "tm_grant (li_terms l') = ?gid" using h by (simp add: holds_request_def)
  note g = reserve_checks_grant [OF c]
  have w: "principal_of l' = principal_need fc" "fees_of l' = max_of Network_fee (fc_lines fc)" "open_count l' = 1" "held_count l' = 1"
    using h l'(2) by (simp_all add: principal_line_sum fees_line_sum holds_request_def open_count_def held_count_def closed_state_def held_state_def)
  have "liabilities_sound db'" using s l'(1) g(1) gid i by (auto simp: money_sound_def liabilities_sound_def d)
  moreover have "within_ceilings k (gr_spec q) (liabilities db')" if q: "dict_get (grants db) k = Some q" "plain_grant (gr_spec q)" for k q
  proof -
    have now: "within_ceilings k (gr_spec q) ?ls" using s q by (simp add: money_sound_def ceilings_hold_def)
    show ?thesis
    proof (cases "k = ?gid")
      case False
      have t: "grant_total w k (dict_set i l' ?ls) = grant_total w k ?ls" for w
        by (rule total_set_other [OF wf]) (use False old gid in auto)
      with now show ?thesis by (simp add: within_ceilings_def d t)
    next
      case True
      then have "q = g" using q(1) g(1) by simp
      have fees: "grant_total fees_of k (dict_pop i ?ls) + max_of Network_fee (fc_lines fc) \<le> gs_max_fee_total (gr_spec q)"
      proof (cases "line_get Network_fee (fc_lines fc)")
        case None
        have "grant_total fees_of k (dict_pop i ?ls) \<le> grant_total fees_of k ?ls"
          by (rule total_pop_le [OF wf]) (rule weights_nonneg [OF sound_ok [OF s]])
        with now None show ?thesis by (simp add: within_ceilings_def max_of_absent)
      next
        case (Some x)
        then show ?thesis using check_grant_fits(2) [OF g(2)] q(2) \<open>q = g\<close> True ex by simp
      qed
      show ?thesis using check_grant_fits(1, 3, 4) [OF g(2)] q(2) fees
        by (simp add: within_ceilings_def d total_set [OF wf] True \<open>q = g\<close> gid w ex)
    qed
  qed
  ultimately show ?thesis by (simp add: money_sound_def ceilings_hold_def d)
qed

lemma rereserve_cases:
  assumes "dict_get (liabilities db) i = Some l"
  obtains (refused) "fst (rereserve env i l rq fr ow db) = db"
  | (admitted) fc g l' where "validate_request rq (env_now env) = Inr fc" "reserve_checks db fc (env_now env) i = Inr g"
      "li_terms l' = li_terms l" "li_lines l' = li_lines l" "li_status l' = Li_Reserved"
      "liabilities (fst (rereserve env i l rq fr ow db)) = dict_set i l' (liabilities db)" "grants (fst (rereserve env i l rq fr ow db)) = grants db"
proof (cases "fst (rereserve env i l rq fr ow db) = db")
  case False
  then obtain fc g where "validate_request rq (env_now env) = Inr fc" "reserve_checks db fc (env_now env) i = Inr g"
    by (auto simp: rereserve_def split: if_splits sum.splits)
  with False show thesis
    by (intro admitted [of fc g "l\<lparr>li_instance := env_instance env, li_claim_token := [], li_claim_instance := [], li_close_reason := [],
         li_owner := ow, li_grant_version := gr_version g, li_status := Li_Reserved, li_updated := env_now env, li_version := li_version l + 1\<rparr>"])
      (auto simp: rereserve_def Let_def li_move_def split: if_splits sum.splits)
qed

lemma sound_rereserve:
  assumes s: "money_sound db" and l: "dict_get (liabilities db) i = Some l" and c: "closed_state (li_status l)"
    and h: "\<And>fc l'. validate_request rq (env_now env) = Inr fc \<Longrightarrow> holds_request l fc"
  shows "money_sound (fst (rereserve env i l rq fr ow db))"
proof (rule rereserve_cases [OF l, of env rq fr ow])
  fix fc g l'
  assume v: "validate_request rq (env_now env) = Inr fc" and g: "reserve_checks db fc (env_now env) i = Inr g"
    and l': "li_terms l' = li_terms l" "li_lines l' = li_lines l" "li_status l' = Li_Reserved"
    and d: "liabilities (fst (rereserve env i l rq fr ow db)) = dict_set i l' (liabilities db)" "grants (fst (rereserve env i l rq fr ow db)) = grants db"
  have ok: "liability_ok l" by (rule sound_ok [OF s l])
  have hl: "holds_request l fc" by (rule h [OF v])
  have p: "principal_flow l' = principal_flow l" by (intro ext) (simp add: principal_flow_def l'(1))
  have "i \<noteq> []" using s l by (auto simp: money_sound_def liabilities_sound_def)
  moreover have "holds_request l' fc" using hl by (simp add: holds_request_def p l'(1, 2))
  moreover have "liability_ok l'" using ok c l' by (auto simp: liability_ok_def closed_state_def)
  moreover have "tm_grant (li_terms l0) = tm_grant (fc_terms fc)" if "dict_get (liabilities db) i = Some l0" for l0
    using that l hl by (simp add: holds_request_def)
  ultimately show ?thesis using l'(3) by (intro sound_admit [OF s g _ _ _ _ refl _ d(2, 1)]) auto
qed (use s in simp)

lemma new_liability_ok:
  assumes v: "validate_request rq now = Inr fc" and m: "\<forall>l\<in>set (rq_lines rq). 0 \<le> ml_max l"
  shows "liability_ok (new_liability env fc g)"
proof -
  let ?ls = "sort_key (flow_rank \<circ> ml_flow) (rq_lines rq)"
  have "distinct (map ml_flow ?ls)" using request_facts(2) [OF v] by (metis distinct_map distinct_sort set_sort)
  then show ?thesis using m request_facts(3, 4) [OF v]
    by (auto simp: liability_ok_def new_liability_def o_def)
qed

lemma sound_reserve_txn:
  assumes s: "money_sound db" and v: "validate_request rq (env_now env) = Inr fc" and m: "\<forall>l\<in>set (rq_lines rq). 0 \<le> ml_max l"
  shows "money_sound (fst (reserve_txn env rq fc fresh db))"
proof (cases "operation_row db (fc_operation fc)")
  case None
  show ?thesis
  proof (cases "reserve_checks db fc (env_now env) []")
    case (Inl e)
    then show ?thesis using s None by (simp add: reserve_txn_def)
  next
    case (Inr g)
    let ?i = "''mli:'' @ fresh" and ?l = "new_liability env fc g"
    show ?thesis
    proof (cases "dict_get (liabilities db) ?i")
      case (Some x)
      then show ?thesis using s None Inr by (simp add: reserve_txn_def Let_def)
    next
      case absent: None
      have terms: "li_terms ?l = fc_terms fc" "li_lines ?l = map held_row (tm_lines (li_terms ?l))" "li_status ?l = Li_Reserved"
        by (simp_all add: new_liability_def)
      have pops: "dict_pop [] (liabilities db) = dict_pop ?i (liabilities db)"
        using s absent by (simp add: money_sound_def liabilities_sound_def dict_pop_absent)
      have "money_sound (db\<lparr>liabilities := dict_set ?i ?l (liabilities db)\<rparr>)"
        by (rule sound_admit [OF s Inr holds_new [OF v terms(1, 2)] new_liability_ok [OF v m] terms(3) _ pops]) (use absent in simp_all)
      then show ?thesis using None Inr absent by (simp add: reserve_txn_def Let_def sound_prune)
    qed
  qed
next
  case (Some x)
  obtain i l where x: "x = (i, l)" by (cases x)
  have l: "dict_get (liabilities db) i = Some l"
    using Some x operation_row_get s by (auto simp: money_sound_def liabilities_sound_def)
  have "holds_request l fc'" if "li_terms l = fc_terms fc" "closed_state (li_status l)" "validate_request rq (env_now env) = Inr fc'" for fc'
    using that v sound_ok [OF s l] by (intro holds_new [OF that(3)]) (auto simp: liability_ok_def closed_state_def)
  then show ?thesis using s Some x sound_rereserve [OF s l] by (auto simp: reserve_txn_def)
qed

lemma sound_retry: "money_sound db \<Longrightarrow> money_sound (fst (retry_unsent env lid db))"
proof (cases "dict_get (liabilities db) lid")
  case (Some l)
  assume s: "money_sound db"
  have "money_sound (fst (rereserve env lid l rq fr ow db))" if "li_status l = Li_Unsent" "request_from_row l = Inr rq" for rq fr ow
    by (rule sound_rereserve [OF s Some]) (use that holds_retry [OF sound_ok [OF s Some]] in \<open>auto simp: closed_state_def\<close>)
  then show ?thesis using s Some by (auto simp: retry_unsent_def split: sum.split)
qed (simp add: retry_unsent_def)


lemma if_Inr: "(if P then Inl e else x) = Inr y \<longleftrightarrow> \<not> P \<and> x = Inr y"
  by simp

lemma option_Inr: "(case x of None \<Rightarrow> Inl e | Some a \<Rightarrow> F a) = Inr y \<longleftrightarrow> (\<exists>a. x = Some a \<and> F a = Inr y)"
  by (cases x) simp_all

lemma three_Inr: "(case xs of [a, b, c] \<Rightarrow> F a b c | _ \<Rightarrow> Inl e) = Inr y \<longleftrightarrow> (\<exists>a b c. xs = [a, b, c] \<and> F a b c = Inr y)"
  by (auto split: list.split)

lemma spec_ceilings:
  assumes "validate_grant_spec q now = Inr sp"
  shows "0 \<le> gs_max_total sp" "0 \<le> gs_max_fee_total sp" "0 \<le> gs_max_operations sp" "0 \<le> gs_max_concurrent sp"
proof -
  have "\<exists>total fa ft fp. require_atomic False (gq_max_total q) = Inr total \<and> fee_maxima q = Inr (fa, ft, fp)
      \<and> gs_max_total sp = total \<and> gs_max_fee_total sp = ft \<and> 0 \<le> gs_max_operations sp \<and> 0 \<le> gs_max_concurrent sp"
    using assms unfolding validate_grant_spec_def Let_def option_Inr and_then_Inr if_Inr three_Inr prod.case_eq_if sum.inject
    by (elim exE conjE, hypsubst) (simp add: prod_eq_iff)
  then obtain total fa ft fp where t: "require_atomic False (gq_max_total q) = Inr total" "fee_maxima q = Inr (fa, ft, fp)"
    "gs_max_total sp = total" "gs_max_fee_total sp = ft" "0 \<le> gs_max_operations sp" "0 \<le> gs_max_concurrent sp"
    by (elim exE conjE)
  have "0 \<le> ft" using t(2) by (auto simp: fee_maxima_def and_then_Inr require_atomic_def split: option.splits if_splits)
  moreover have "0 \<le> total" using t(1) by (auto simp: require_atomic_def split: if_splits)
  ultimately show "0 \<le> gs_max_total sp" "0 \<le> gs_max_fee_total sp" "0 \<le> gs_max_operations sp" "0 \<le> gs_max_concurrent sp"
    using t by simp_all
qed

lemma no_liability_no_total:
  assumes "\<And>i l. (i, l) \<in> set ls \<Longrightarrow> tm_grant (li_terms l) \<noteq> gid"
  shows "grant_total w gid ls = 0"
  unfolding grant_total_def by (rule dict_sum_zero) (use assms in auto)

lemma replace_budgets_get:
  "dict_get (replace_budgets sp now gs) k = map_option (\<lambda>g. if \<not> gr_revoked g \<and> same_budget (gr_spec g) sp \<and> Inference_prepaid \<in> set (gs_ops (gr_spec g))
      then g\<lparr>gr_revoked := True, gr_revoked_at := Some now\<rparr> else g) (dict_get gs k)"
  unfolding replace_budgets_def by (subst map_of_map) (rule comp_apply)

lemma sound_grants:
  assumes s: "money_sound db" and d: "liabilities db' = liabilities db"
    and old: "\<And>k g. dict_get (grants db) k = Some g \<Longrightarrow> \<exists>g'. dict_get (grants db') k = Some g' \<and> gr_spec g' = gr_spec g"
    and new: "\<And>k g. dict_get (grants db') k = Some g \<Longrightarrow> dict_get (grants db) k = None \<Longrightarrow>
       0 \<le> gs_max_total (gr_spec g) \<and> 0 \<le> gs_max_fee_total (gr_spec g) \<and> 0 \<le> gs_max_operations (gr_spec g) \<and> 0 \<le> gs_max_concurrent (gr_spec g)"
  shows "money_sound db'"
proof -
  have ls: "liabilities_sound db" and wf: "wf_dict (liabilities db)" using s by (simp_all add: money_sound_def liabilities_sound_def)
  have "liabilities_sound db'" using ls old by (fastforce simp: liabilities_sound_def d)
  moreover have "within_ceilings k (gr_spec g) (liabilities db')" if g: "dict_get (grants db') k = Some g" "plain_grant (gr_spec g)" for k g
  proof (cases "dict_get (grants db) k")
    case None
    have "tm_grant (li_terms l) \<noteq> k" if "(i, l) \<in> set (liabilities db)" for i l
    proof -
      have "dict_get (grants db) (tm_grant (li_terms l)) \<noteq> None"
        using ls dict_mem_get [OF wf that] unfolding liabilities_sound_def by blast
      with None show ?thesis by auto
    qed
    then have "grant_total w k (liabilities db) = 0" for w by (rule no_liability_no_total)
    then show ?thesis using new [OF g(1) None] by (simp add: within_ceilings_def d)
  next
    case (Some g0)
    then show ?thesis using old [OF Some] g s by (auto simp: money_sound_def ceilings_hold_def d)
  qed
  ultimately show ?thesis by (simp add: money_sound_def ceilings_hold_def)
qed

lemma sound_grant: "money_sound db \<Longrightarrow> money_sound (fst (grant_money_authority env tok fresh q c db))"
proof (cases "fst (grant_money_authority env tok fresh q c db) = db")
  case False
  assume s: "money_sound db"
  let ?db = "fst (grant_money_authority env tok fresh q c db)"
  obtain spec g gs where v: "validate_grant_spec q (env_now env) = Inr spec" and absent: "dict_get (grants db) (''mga:'' @ fresh) = None"
    and db: "?db = db\<lparr>grants := dict_set (''mga:'' @ fresh) g gs\<rparr>" and gs: "gs = grants db \<or> gs = replace_budgets spec (env_now env) (grants db)"
    and g: "gr_spec g = spec \<or> gr_spec g = spec\<lparr>gs_carried := carried_liabilities db spec\<rparr>"
    using False by (auto simp: grant_money_authority_def Let_def split: sum.splits option.splits if_splits)
  show ?thesis
  proof (rule sound_grants [OF s])
    show "liabilities ?db = liabilities db" by (simp add: db)
    fix k h
    show "dict_get (grants db) k = Some h \<Longrightarrow> \<exists>h'. dict_get (grants ?db) k = Some h' \<and> gr_spec h' = gr_spec h"
      using gs absent by (auto simp: db replace_budgets_get)
    assume h: "dict_get (grants ?db) k = Some h" "dict_get (grants db) k = None"
    then have "h = g" using gs by (auto simp: db replace_budgets_get split: if_splits)
    with g spec_ceilings [OF v] show "0 \<le> gs_max_total (gr_spec h) \<and> 0 \<le> gs_max_fee_total (gr_spec h) \<and> 0 \<le> gs_max_operations (gr_spec h)
        \<and> 0 \<le> gs_max_concurrent (gr_spec h)" by auto
  qed
qed simp

lemma sound_revoke: "money_sound db \<Longrightarrow> money_sound (fst (revoke_money_authority env tok gid r db))"
proof (rule sound_grants)
  fix k h
  show "dict_get (grants db) k = Some h \<Longrightarrow> \<exists>h'. dict_get (grants (fst (revoke_money_authority env tok gid r db))) k = Some h' \<and> gr_spec h' = gr_spec h"
    by (auto simp: revoke_money_authority_def Let_def split: sum.splits option.splits)
  assume "dict_get (grants (fst (revoke_money_authority env tok gid r db))) k = Some h" "dict_get (grants db) k = None"
  then show "0 \<le> gs_max_total (gr_spec h) \<and> 0 \<le> gs_max_fee_total (gr_spec h) \<and> 0 \<le> gs_max_operations (gr_spec h) \<and> 0 \<le> gs_max_concurrent (gr_spec h)"
    by (auto simp: revoke_money_authority_def Let_def split: sum.splits option.splits if_splits)
qed (simp_all add: frame_revoke)

lemma sound_bind: "money_sound db \<Longrightarrow> money_sound (fst (bind_liability_effect i ef db))"
proof (cases "fst (bind_liability_effect i ef db) = db")
  case False
  assume s: "money_sound db"
  obtain l e where l: "dict_get (liabilities db) i = Some l"
    and db: "fst (bind_liability_effect i ef db) = db\<lparr>liabilities := dict_set i (l\<lparr>li_effect := e\<rparr>) (liabilities db)\<rparr>"
    using False by (auto simp: bind_liability_effect_def split: sum.splits option.splits if_splits)
  have ok: "liability_ok l" by (rule sound_ok [OF s l])
  have p: "principal_flow (l\<lparr>li_effect := e\<rparr>) = principal_flow l" by (intro ext) (simp add: principal_flow_def)
  have "liability_ok (l\<lparr>li_effect := e\<rparr>)" using ok by (simp add: liability_ok_def)
  moreover have "lighter (l\<lparr>li_effect := e\<rparr>) l" by (simp add: lighter_def p principal_line_sum fees_line_sum open_count_def held_count_def)
  ultimately show ?thesis by (rule sound_lighter [OF s l]) (simp_all add: db)
qed simp

section \<open>Every lawful operation\<close>

text \<open>What is asked of the caller: a line's maximum is not negative (its constructor refuses one), and no settlement
  is answered as over the cap or as contradicting a release.\<close>

fun money_lawful :: "money_env \<times> money_op \<Rightarrow> money_db \<Rightarrow> bool" where
  "money_lawful (env, Reserve_op rq fresh) db = list_all (\<lambda>l. 0 \<le> ml_max l) (rq_lines rq)"
| "money_lawful (env, Settle_op lid ev tok) db = within_maxima (snd (settle_liability env lid ev tok db))"
| "money_lawful ex db = True"

lemma sound_reserve:
  assumes s: "money_sound db" and m: "list_all (\<lambda>l. 0 \<le> ml_max l) (rq_lines rq)"
  shows "money_sound (fst (reserve_liability env rq fresh db))"
  using s m sound_reserve_txn [OF sound_reconcile [OF s, of env False], of rq env]
  by (auto simp: reserve_liability_def list_all_iff split: sum.split)

lemma sound_owner: "money_sound db \<Longrightarrow> money_sound (fst (release_unclaimed_for_owner env ow r db))"
proof -
  assume s: "money_sound db"
  have "money_sound d \<Longrightarrow> money_sound (fst (release_unclaimed env i r d))" for i d
    by (erule sound_moves_one [OF _ release_moves_one]) (auto simp: closed_state_def held_state_def)
  from sound_fold [OF this s] show ?thesis using release_owner_fold [of env ow r db] s by (elim disjE) simp_all
qed

lemma sound_step:
  assumes s: "money_sound db" and m: "money_lawful (env, x) db"
  shows "money_sound (money_step (env, x) db)"
proof -
  note states = closed_state_def held_state_def
  have moves: "money_sound (fst (claim_dispatch env i e t db))" "money_sound (fst (record_dispatched env i t e db))"
    "money_sound (fst (record_unknown env i t e db))" "money_sound (fst (release_unclaimed env i e db))"
    "money_sound (fst (record_unsent env i t p e ss o' db))" for i e t p ss o'
    by (rule sound_moves_one [OF s claim_moves_one] sound_moves_one [OF s dispatched_moves_one] sound_moves_one [OF s unknown_moves_one]
      sound_moves_one [OF s release_moves_one] sound_moves_one [OF s unsent_moves_one]; auto simp: states)+
  show ?thesis
    using s m moves by (cases x) (auto intro: sound_reserve sound_settle sound_reconcile sound_retry sound_owner sound_bind sound_grant sound_revoke
      sound_cong [OF frame_rules(1, 3)] sound_cong [OF frame_conversion(1, 3)] sound_cong [OF frame_observe(1, 3)]
      sound_cong [OF frame_funding(1, 3)] sound_cong [OF frame_reverse(1, 3)])
qed

interpretation ceilings: lawful_system money_step money_lawful money_sound
  by unfold_locales (use sound_step in \<open>auto simp: split_paired_all\<close>)

lemma fresh_money_sound: "money_sound fresh_money"
  by (simp add: money_sound_def liabilities_sound_def ceilings_hold_def fresh_money_def)




end
