(* ===== verification/Effect_Budget.thy ===== *)
theory Effect_Budget
  imports Vool_Prelude "HOL-Library.Char_ord" "HOL-Library.List_Lexorder" "HOL-Library.Product_Lexorder"
begin

text \<open>
  The unit law, from \<open>src/core/effect_budget.py\<close>: budgets over counts of effects. The store (rules, counters,
  reservations, instances and the event journal), the operator's surface, and the atomic core that reserves, consumes
  and releases units. The invariant and the ceilings are in \<open>Effect_Budget_Laws\<close>.

  Correspondence. A keyed table is a dictionary in insertion order. A class or scope outside the closed catalog is
  \<open>None\<close>. What a call reads from outside the store is its environment: the clock (one reading per call), the process id,
  the host name, the pids the kernel reports absent, whether an effect scope is active, the random token of the call,
  and whether the store can be opened (\<open>ev_open\<close>), whether the call's transaction goes through (\<open>ev_up\<close>) and
  whether the transaction on one reservation does (\<open>ev_commit\<close>). A transaction that fails leaves the store as it was.
  The JSON of a rules snapshot is the list of its rules. The text of a refusal is its code, with the rule it names.
  Rows are well typed, and the in-memory failure counters, the table definitions and the monetary half of
  \<open>reconcile_stale_reservations\<close> (see \<open>Money_Liability\<close>) are left out.
\<close>

section \<open>Vocabulary\<close>

datatype unit_class = File_write | Command | Network_fetch | Public_write | Provider_call
  | Wallet_proposal | Wallet_broadcast | Wallet_transaction | Wallet_sign

datatype unit_scope = Us_Request | Us_Turn | Us_Task | Us_Agent | Us_Session | Us_Project | Us_Provider | Us_Global | Us_Window

datatype unit_state = Unit_Reserved | Unit_Consumed | Unit_Released

datatype unit_refusal = Unit_exceeded string | Unit_store_unavailable | Unit_authority | Unit_state_error
  | Unit_unknown_class | Unit_raw_store_error

definition class_name :: "unit_class \<Rightarrow> string" where
  "class_name c = (case c of
     File_write \<Rightarrow> ''file_write'' | Command \<Rightarrow> ''command'' | Network_fetch \<Rightarrow> ''network_fetch''
   | Public_write \<Rightarrow> ''public_write'' | Provider_call \<Rightarrow> ''provider_call'' | Wallet_proposal \<Rightarrow> ''wallet_proposal''
   | Wallet_broadcast \<Rightarrow> ''wallet_broadcast'' | Wallet_transaction \<Rightarrow> ''wallet_transaction'' | Wallet_sign \<Rightarrow> ''wallet_sign'')"

definition unit_scope_name :: "unit_scope \<Rightarrow> string" where
  "unit_scope_name s = (case s of
     Us_Request \<Rightarrow> ''request'' | Us_Turn \<Rightarrow> ''turn'' | Us_Task \<Rightarrow> ''task'' | Us_Agent \<Rightarrow> ''agent'' | Us_Session \<Rightarrow> ''session''
   | Us_Project \<Rightarrow> ''project'' | Us_Provider \<Rightarrow> ''provider'' | Us_Global \<Rightarrow> ''global'' | Us_Window \<Rightarrow> ''window'')"

definition gateway_budget_class :: "string \<Rightarrow> unit_class option" where
  "gateway_budget_class txt = map_of [(''network_fetch'', Network_fetch), (''command'', Command), (''file_write'', File_write),
     (''public_write'', Public_write), (''provider_call'', Provider_call), (''wallet_transaction'', Wallet_transaction),
     (''wallet_sign'', Wallet_sign), (''wallet_proposal'', Wallet_proposal), (''wallet_broadcast'', Wallet_broadcast)] txt"

definition unit_scope_rank :: "unit_scope \<Rightarrow> nat" where
  "unit_scope_rank s = (case s of
     Us_Request \<Rightarrow> 0 | Us_Turn \<Rightarrow> 1 | Us_Task \<Rightarrow> 2 | Us_Agent \<Rightarrow> 3 | Us_Session \<Rightarrow> 4 | Us_Project \<Rightarrow> 5 | Us_Provider \<Rightarrow> 6
   | Us_Global \<Rightarrow> 7 | Us_Window \<Rightarrow> 8)"

definition instance_stale :: time where "instance_stale = 6 * 3600"
definition reservation_retention :: time where "reservation_retention = 7 * 24 * 3600"
definition event_retention :: time where "event_retention = 30 * 24 * 3600"

section \<open>The store\<close>

record unit_rule =
  ur_class :: unit_class
  ur_scope :: unit_scope
  ur_limit :: int
  ur_window :: time

text \<open>\<open>str(n)\<close> of an integer, on the integer itself.\<close>

function show_digits :: "int \<Rightarrow> string" where
  "show_digits n = (if n < 10 then [char_of (48 + n)] else show_digits (n div 10) @ [char_of (48 + n mod 10)])"
  by auto
termination by (relation "measure nat") auto

declare show_digits.simps [simp del]

definition window_text :: "time \<Rightarrow> string" where
  "window_text w = ''w'' @ (if \<lfloor>w\<rfloor> < 0 then ''-'' @ show_digits (- \<lfloor>w\<rfloor>) else show_digits \<lfloor>w\<rfloor>)"

definition rule_id :: "unit_rule \<Rightarrow> string" where
  "rule_id r = class_name (ur_class r) @ ''/'' @ unit_scope_name (ur_scope r)
     @ (if ur_scope r = Us_Window then '':'' @ window_text (ur_window r) else [])"

record unit_identity =
  ui_turn :: string
  ui_session :: string
  ui_project :: string
  ui_request :: string
  ui_task :: string
  ui_agent :: string
  ui_provider :: string

record rule_row =
  rr_limit :: int
  rr_note :: string
  rr_by :: string

record unit_counter =
  ct_reserved :: int
  ct_consumed :: int
  ct_updated :: time

record unit_reservation =
  rv_class :: unit_class
  rv_units :: int
  rv_state :: unit_state
  rv_rules :: "unit_rule list"
  rv_instance :: string
  rv_owner :: string
  rv_effect :: string
  rv_identity :: unit_identity
  rv_created :: time
  rv_settled :: "time option"
  rv_active :: time
  rv_reason :: string

record budget_instance =
  in_closed :: bool
  in_seen :: time
  in_pid :: int
  in_host :: string

datatype unit_event =
    Ev_closed string
  | Ev_grant string
  | Ev_authority_refused
  | Ev_adjustment "unit_class \<times> unit_scope \<times> time" "int option" string
  | Ev_refused unit_rule int int
  | Ev_reserved string int
  | Ev_consumed string int
  | Ev_released string int string
  | Ev_reconciled string int
  | Ev_cost string int bool

type_synonym unit_rule_key = "unit_class \<times> unit_scope \<times> time"
type_synonym counter_key = "unit_class \<times> unit_scope \<times> string"

record unit_store =
  us_rules :: "(unit_rule_key, rule_row) dict"
  us_counters :: "(counter_key, unit_counter) dict"
  us_reservations :: "(string, unit_reservation) dict"
  us_instances :: "(string, budget_instance) dict"
  us_events :: "(time \<times> unit_event) list"

text \<open>The module globals of one process: \<open>_INSTANCE\<close> and \<open>_RECONCILED_THIS_PROCESS\<close>.\<close>

record unit_process =
  pr_instance :: "(string \<times> int) option"
  pr_reconciled :: bool

record unit_env =
  ev_now :: time
  ev_pid :: int
  ev_host :: string
  ev_posix :: bool
  ev_absent :: "int \<Rightarrow> bool"
  ev_in_scope :: bool
  ev_token :: string
  ev_open :: bool
  ev_up :: bool
  ev_commit :: "string \<Rightarrow> bool"

definition store_ok :: "unit_env \<Rightarrow> bool" where
  "store_ok e \<longleftrightarrow> ev_open e \<and> ev_up e"

definition log_event :: "unit_env \<Rightarrow> unit_event \<Rightarrow> unit_store \<Rightarrow> unit_store" where
  "log_event e v s = s\<lparr>us_events := us_events s @ [(ev_now e, v)]\<rparr>"

section \<open>Process instances\<close>

definition current_instance :: "unit_env \<Rightarrow> unit_process \<Rightarrow> unit_store \<Rightarrow> string \<times> unit_process \<times> unit_store" where
  "current_instance e p s =
     (let minted = ''ebi:'' @ ev_token e;
          (i, p') = (case pr_instance p of
              Some (i, pid) \<Rightarrow> if i \<noteq> [] \<and> pid = ev_pid e then (i, p) else (minted, p\<lparr>pr_instance := Some (minted, ev_pid e)\<rparr>)
            | None \<Rightarrow> (minted, p\<lparr>pr_instance := Some (minted, ev_pid e)\<rparr>))
      in (i, p', s\<lparr>us_instances := dict_set i \<lparr>in_closed = False, in_seen = ev_now e, in_pid = ev_pid e, in_host = ev_host e\<rparr>
                     (us_instances s)\<rparr>))"

definition shutdown_instance :: "unit_env \<Rightarrow> unit_process \<Rightarrow> unit_store \<Rightarrow> unit_store" where
  "shutdown_instance e p s = (case pr_instance p of
     None \<Rightarrow> s
   | Some (i, _) \<Rightarrow>
       if i = [] \<or> \<not> store_ok e then s
       else log_event e (Ev_closed i) (s\<lparr>us_instances := (case dict_get (us_instances s) i of
              None \<Rightarrow> us_instances s | Some row \<Rightarrow> dict_set i (row\<lparr>in_closed := True\<rparr>) (us_instances s))\<rparr>))"

definition instance_process_gone :: "unit_env \<Rightarrow> budget_instance \<Rightarrow> bool" where
  "instance_process_gone e row \<longleftrightarrow> ev_posix e \<and> \<not> (in_pid row \<le> 0 \<or> in_pid row = ev_pid e \<or> in_host row = [] \<or> in_host row \<noteq> ev_host e)
     \<and> ev_absent e (in_pid row)"

datatype instance_death = Death_closed | Death_stale | Death_process_gone

definition instance_death_reason :: "unit_env \<Rightarrow> budget_instance \<Rightarrow> instance_death option" where
  "instance_death_reason e row =
     (if in_closed row then Some Death_closed
      else if ev_now e - in_seen row \<ge> instance_stale then Some Death_stale
      else if instance_process_gone e row then Some Death_process_gone
      else None)"

definition instance_is_live :: "unit_env \<Rightarrow> budget_instance \<Rightarrow> bool" where
  "instance_is_live e row \<longleftrightarrow> instance_death_reason e row = None"

section \<open>Counters\<close>

definition identity_field :: "unit_scope \<Rightarrow> unit_identity \<Rightarrow> string" where
  "identity_field sc i = (case sc of
     Us_Request \<Rightarrow> ui_request i | Us_Turn \<Rightarrow> ui_turn i | Us_Task \<Rightarrow> ui_task i | Us_Agent \<Rightarrow> ui_agent i
   | Us_Session \<Rightarrow> ui_session i | Us_Project \<Rightarrow> ui_project i | Us_Provider \<Rightarrow> ui_provider i | _ \<Rightarrow> [])"

definition scope_key :: "unit_rule \<Rightarrow> unit_identity \<Rightarrow> string option" where
  "scope_key r i =
     (if ur_scope r = Us_Global then Some ''global''
      else if ur_scope r = Us_Window then Some (window_text (ur_window r))
      else (let v = identity_field (ur_scope r) i in if v = [] then None else Some v))"

definition scope_key_for_reservation :: "unit_reservation \<Rightarrow> unit_rule \<Rightarrow> string option" where
  "scope_key_for_reservation row r = scope_key r (rv_identity row)"

datatype counter_field = Reserved_units | Consumed_units

definition counter_read :: "(counter_key, unit_counter) dict \<Rightarrow> counter_key \<Rightarrow> counter_field \<Rightarrow> int" where
  "counter_read cs k f = (case dict_get cs k of None \<Rightarrow> 0
     | Some c \<Rightarrow> (case f of Reserved_units \<Rightarrow> ct_reserved c | Consumed_units \<Rightarrow> ct_consumed c))"

definition counter_add :: "time \<Rightarrow> counter_field \<Rightarrow> int \<Rightarrow> counter_key \<Rightarrow> (counter_key, unit_counter) dict \<Rightarrow> (counter_key, unit_counter) dict" where
  "counter_add now f u k cs =
     (let c = (case dict_get cs k of None \<Rightarrow> \<lparr>ct_reserved = 0, ct_consumed = 0, ct_updated = now\<rparr> | Some c \<Rightarrow> c)
      in dict_set k (case f of Reserved_units \<Rightarrow> c\<lparr>ct_reserved := ct_reserved c + u, ct_updated := now\<rparr>
                             | Consumed_units \<Rightarrow> c\<lparr>ct_consumed := ct_consumed c + u, ct_updated := now\<rparr>) cs)"

fun counter_adjust_rules :: "time \<Rightarrow> counter_field \<Rightarrow> int \<Rightarrow> unit_reservation \<Rightarrow> unit_rule list
    \<Rightarrow> (counter_key, unit_counter) dict \<Rightarrow> (counter_key, unit_counter) dict" where
  "counter_adjust_rules now f u row [] cs = cs"
| "counter_adjust_rules now f u row (r # rs) cs =
     (if ur_scope r = Us_Window then counter_adjust_rules now f u row rs cs
      else (case scope_key_for_reservation row r of
          None \<Rightarrow> counter_adjust_rules now f u row rs cs
        | Some key \<Rightarrow> counter_adjust_rules now f u row rs (counter_add now f u (ur_class r, ur_scope r, key) cs)))"

definition counter_adjust :: "unit_env \<Rightarrow> unit_reservation \<Rightarrow> int \<Rightarrow> counter_field \<Rightarrow> unit_store \<Rightarrow> unit_store" where
  "counter_adjust e row sign f s =
     s\<lparr>us_counters := counter_adjust_rules (ev_now e) f (rv_units row * (if sign > 0 then 1 else -1)) row (rv_rules row) (us_counters s)\<rparr>"

definition settled_row :: "unit_env \<Rightarrow> unit_state \<Rightarrow> string \<Rightarrow> unit_reservation \<Rightarrow> unit_reservation" where
  "settled_row e st reason row = row\<lparr>rv_state := st, rv_settled := Some (ev_now e), rv_reason := reason, rv_active := ev_now e\<rparr>"

definition settle_reservation :: "unit_env \<Rightarrow> unit_state \<Rightarrow> string \<Rightarrow> string \<Rightarrow> unit_reservation \<Rightarrow> unit_store \<Rightarrow> unit_store" where
  "settle_reservation e st reason rid row s =
     counter_adjust e row (-1) Reserved_units (s\<lparr>us_reservations := dict_set rid (settled_row e st reason row) (us_reservations s)\<rparr>)"

section \<open>Reconciliation of the dead\<close>

definition orphaned :: "unit_env \<Rightarrow> unit_store \<Rightarrow> unit_reservation \<Rightarrow> bool" where
  "orphaned e s row \<longleftrightarrow> (case dict_get (us_instances s) (rv_instance row) of None \<Rightarrow> True | Some i \<Rightarrow> \<not> instance_is_live e i)"

fun release_orphans :: "unit_env \<Rightarrow> (string \<times> unit_reservation) list \<Rightarrow> unit_store \<Rightarrow> unit_store" where
  "release_orphans e [] s = s"
| "release_orphans e ((rid, row) # rows) s =
     release_orphans e rows (log_event e (Ev_reconciled rid (rv_units row))
       (settle_reservation e Unit_Released ''reconciled: owning instance is no longer live'' rid row s))"

definition reconcile_stale_reservations :: "unit_env \<Rightarrow> bool \<Rightarrow> unit_process \<Rightarrow> unit_store
    \<Rightarrow> (unit_refusal + string list) \<times> unit_process \<times> unit_store" where
  "reconcile_stale_reservations e force p s =
     (if \<not> force \<and> pr_reconciled p then (Inr [], p, s)
      else if \<not> ev_open e then (Inl Unit_raw_store_error, p\<lparr>pr_reconciled := True\<rparr>, s)
      else if \<not> ev_up e then (Inl Unit_raw_store_error, p\<lparr>pr_reconciled := False\<rparr>, s)
      else (let stale = filter (\<lambda>(rid, row). rv_state row = Unit_Reserved \<and> orphaned e s row) (us_reservations s)
            in (Inr (map fst stale), p\<lparr>pr_reconciled := True\<rparr>, release_orphans e stale s)))"

section \<open>The operator's surface\<close>

definition journal_authority_refusal :: "unit_env \<Rightarrow> unit_store \<Rightarrow> (unit_refusal + 'a) \<times> unit_store" where
  "journal_authority_refusal e s = (Inl Unit_authority, if store_ok e then log_event e Ev_authority_refused s else s)"

definition grant_operator_budget_authority :: "unit_env \<Rightarrow> unit_store \<Rightarrow> (unit_refusal + string) \<times> unit_store" where
  "grant_operator_budget_authority e s =
     (if ev_in_scope e then journal_authority_refusal e s
      else if \<not> store_ok e then (Inl Unit_store_unavailable, s)
      else (let token = ''obt:'' @ ev_token e in (Inr token, log_event e (Ev_grant token) s)))"

definition token_was_granted :: "unit_env \<Rightarrow> string \<Rightarrow> unit_store \<Rightarrow> bool" where
  "token_was_granted e token s \<longleftrightarrow> store_ok e \<and> list_ex (\<lambda>(t, v). v = Ev_grant token) (us_events s)"

record budget_adjustment =
  ba_class :: "unit_class option"
  ba_scope :: "unit_scope option"
  ba_limit :: "int option"
  ba_window :: time
  ba_note :: string

definition check_adjustment :: "budget_adjustment \<Rightarrow> unit_refusal option" where
  "check_adjustment a =
     (if ba_class a = None then Some Unit_unknown_class
      else if ba_scope a = None then Some Unit_state_error
      else if ba_scope a = Some Us_Window \<and> ba_window a \<le> 0 then Some Unit_state_error
      else (case ba_limit a of Some n \<Rightarrow> if n < 0 then Some Unit_state_error else None | None \<Rightarrow> None))"

definition adjustment_key :: "budget_adjustment \<Rightarrow> unit_rule_key" where
  "adjustment_key a = (the (ba_class a), the (ba_scope a), if ba_scope a = Some Us_Window then ba_window a else 0)"

definition apply_unit_adjustment :: "unit_env \<Rightarrow> string \<Rightarrow> budget_adjustment \<Rightarrow> unit_store \<Rightarrow> unit_store" where
  "apply_unit_adjustment e token a s =
     log_event e (Ev_adjustment (adjustment_key a) (ba_limit a) token)
       (s\<lparr>us_rules := (case ba_limit a of
            None \<Rightarrow> dict_pop (adjustment_key a) (us_rules s)
          | Some n \<Rightarrow> dict_set (adjustment_key a) \<lparr>rr_limit = n, rr_note = ba_note a, rr_by = token\<rparr> (us_rules s))\<rparr>)"

definition rule_of :: "unit_rule_key \<times> rule_row \<Rightarrow> unit_rule" where
  "rule_of = (\<lambda>((c, sc, w), row). \<lparr>ur_class = c, ur_scope = sc, ur_limit = rr_limit row, ur_window = w\<rparr>)"

fun applied_rules :: "budget_adjustment list \<Rightarrow> unit_rule list" where
  "applied_rules [] = []"
| "applied_rules (a # as) = (case (ba_limit a, adjustment_key a) of
     (Some n, (c, sc, w)) \<Rightarrow> \<lparr>ur_class = c, ur_scope = sc, ur_limit = n, ur_window = w\<rparr> # applied_rules as
   | _ \<Rightarrow> applied_rules as)"

definition apply_operator_adjustment :: "unit_env \<Rightarrow> string \<Rightarrow> budget_adjustment list \<Rightarrow> unit_store
    \<Rightarrow> (unit_refusal + unit_rule list) \<times> unit_store" where
  "apply_operator_adjustment e token as s =
     (if token = [] then journal_authority_refusal e s
      else if \<not> token_was_granted e token s then journal_authority_refusal e s
      else if ev_in_scope e then journal_authority_refusal e s
      else (case check_all check_adjustment as of
          Inl x \<Rightarrow> (Inl x, s)
        | Inr _ \<Rightarrow> if \<not> store_ok e then (Inl Unit_store_unavailable, s)
                   else (Inr (applied_rules as), fold (apply_unit_adjustment e token) as s)))"

definition active_budgets :: "unit_class option \<Rightarrow> unit_store \<Rightarrow> unit_rule list" where
  "active_budgets c s =
     sort_key (\<lambda>r. (class_name (ur_class r), unit_scope_rank (ur_scope r)))
       (map rule_of (filter (\<lambda>(k, row). c = None \<or> c = Some (fst k)) (us_rules s)))"

section \<open>Usage and the reserve transaction\<close>

definition unit_usage :: "time \<Rightarrow> unit_rule \<Rightarrow> string \<Rightarrow> unit_store \<Rightarrow> int" where
  "unit_usage now r key s =
     (if ur_scope r = Us_Window then
        dict_sum (\<lambda>row. if rv_class row = ur_class r \<and> rv_state row \<noteq> Unit_Released \<and> rv_active row \<ge> now - ur_window r
             \<and> list_ex (\<lambda>q. ur_scope q = Us_Window \<and> ur_window q = ur_window r) (rv_rules row) then rv_units row else 0)
          (us_reservations s)
      else counter_read (us_counters s) (ur_class r, ur_scope r, key) Reserved_units
         + counter_read (us_counters s) (ur_class r, ur_scope r, key) Consumed_units)"

definition prune_stores :: "time \<Rightarrow> unit_store \<Rightarrow> unit_store" where
  "prune_stores now s =
     s\<lparr>us_reservations := filter (\<lambda>(rid, row). \<not> (rv_state row \<noteq> Unit_Reserved \<and> rv_created row < now - reservation_retention))
          (us_reservations s),
       us_counters := filter (\<lambda>((c, sc, key), ct). \<not> ((sc = Us_Turn \<or> sc = Us_Request)
          \<and> ct_updated ct < now - reservation_retention \<and> ct_reserved ct + ct_consumed ct = 0)) (us_counters s),
       us_events := filter (\<lambda>(t, v). \<not> t < now - event_retention) (us_events s)\<rparr>"

definition rules_for :: "unit_class \<Rightarrow> unit_store \<Rightarrow> unit_rule list" where
  "rules_for c s = sort_key (\<lambda>r. unit_scope_rank (ur_scope r)) (map rule_of (filter (\<lambda>(k, row). fst k = c) (us_rules s)))"

text \<open>The loop over the rules: the first failing rule, and the usage recorded under each rule id.\<close>

fun check_unit_rules :: "time \<Rightarrow> unit_identity \<Rightarrow> int \<Rightarrow> unit_store \<Rightarrow> unit_rule list \<Rightarrow> unit_rule option \<times> (string, int) dict
    \<Rightarrow> unit_rule option \<times> (string, int) dict" where
  "check_unit_rules now i u s [] acc = acc"
| "check_unit_rules now i u s (r # rs) (failing, usage) =
     (case scope_key r i of
        None \<Rightarrow> check_unit_rules now i u s rs (failing, usage)
      | Some key \<Rightarrow>
          (let used = unit_usage now r key s;
               failing' = (if used + u > ur_limit r then (case failing of None \<Rightarrow> Some r | Some q \<Rightarrow> Some q) else failing)
           in check_unit_rules now i u s rs (failing', dict_set (rule_id r) used usage)))"

record unit_receipt =
  rt_reservation :: string
  rt_class :: unit_class
  rt_units :: int
  rt_rules :: "unit_rule list"
  rt_unbudgeted :: bool
  rt_effect :: string
  rt_owner :: string

definition new_reservation :: "unit_env \<Rightarrow> unit_class \<Rightarrow> string \<Rightarrow> string \<Rightarrow> unit_identity \<Rightarrow> int \<Rightarrow> string \<Rightarrow> unit_rule list \<Rightarrow> unit_reservation" where
  "new_reservation e c effect owner i u inst rules =
     \<lparr>rv_class = c, rv_units = u, rv_state = Unit_Reserved, rv_rules = rules, rv_instance = inst, rv_owner = owner,
      rv_effect = effect, rv_identity = i, rv_created = ev_now e, rv_settled = None, rv_active = ev_now e, rv_reason = []\<rparr>"

definition insert_reservation :: "unit_env \<Rightarrow> string \<Rightarrow> unit_reservation \<Rightarrow> unit_store \<Rightarrow> unit_store" where
  "insert_reservation e rid row s =
     prune_stores (ev_now e) (log_event e (Ev_reserved rid (rv_units row))
       (counter_adjust e row 1 Reserved_units (s\<lparr>us_reservations := dict_set rid row (us_reservations s)\<rparr>)))"

definition reserve_transaction :: "unit_env \<Rightarrow> unit_class \<Rightarrow> string \<Rightarrow> string \<Rightarrow> unit_identity \<Rightarrow> int \<Rightarrow> unit_process \<Rightarrow> unit_store
    \<Rightarrow> (unit_refusal + unit_receipt) \<times> unit_process \<times> unit_store" where
  "reserve_transaction e c effect owner i u p s0 =
     (if \<not> store_ok e then (Inl Unit_store_unavailable, p, s0)
      else (let (inst, p', s) = current_instance e p s0; rules = rules_for c s;
                rid = ''ebr:'' @ ev_token e;
                receipt = (\<lambda>rid rs. \<lparr>rt_reservation = rid, rt_class = c, rt_units = u, rt_rules = rs,
                             rt_unbudgeted = (rs = []), rt_effect = effect, rt_owner = owner\<rparr>)
            in if rules = [] then (Inr (receipt [] []), p', s0)
               else (case check_unit_rules (ev_now e) i u s rules (None, []) of
                   (Some r, usage) \<Rightarrow> (Inl (Unit_exceeded (rule_id r)), p',
                      log_event e (Ev_refused r u (case dict_get usage (rule_id r) of None \<Rightarrow> 0 | Some n \<Rightarrow> n)) s)
                 | (None, _) \<Rightarrow>
                     if dict_get (us_reservations s) rid \<noteq> None then (Inl Unit_store_unavailable, p', s0)
                     else (Inr (receipt rid rules), p', insert_reservation e rid (new_reservation e c effect owner i u inst rules) s))))"

definition reserve_effect_units :: "unit_env \<Rightarrow> unit_class option \<Rightarrow> string \<Rightarrow> string \<Rightarrow> unit_identity \<Rightarrow> int \<Rightarrow> unit_process \<Rightarrow> unit_store
    \<Rightarrow> (unit_refusal + unit_receipt) \<times> unit_process \<times> unit_store" where
  "reserve_effect_units e cls effect owner i u p s = (case cls of
     None \<Rightarrow> (Inl Unit_unknown_class, p, s)
   | Some c \<Rightarrow>
       if u < 1 then (Inl Unit_state_error, p, s)
       else (let (_, p1, s1) = reconcile_stale_reservations e False p s
             in reserve_transaction e c effect owner i u p1 s1))"

section \<open>The life of a reservation\<close>

definition bind_reservation_effect :: "unit_env \<Rightarrow> string \<Rightarrow> string \<Rightarrow> unit_store \<Rightarrow> (unit_refusal + unit) \<times> unit_store" where
  "bind_reservation_effect e rid effect s =
     (if rid = [] \<or> effect = [] then (Inr (), s)
      else if \<not> store_ok e then (Inl Unit_raw_store_error, s)
      else (case dict_get (us_reservations s) rid of
          None \<Rightarrow> (Inr (), s)
        | Some row \<Rightarrow>
            if rv_state row \<noteq> Unit_Reserved then (Inr (), s)
            else (Inr (), s\<lparr>us_reservations := dict_set rid (row\<lparr>rv_effect := effect\<rparr>) (us_reservations s)\<rparr>)))"

definition consume_reservation :: "unit_env \<Rightarrow> string \<Rightarrow> unit_store \<Rightarrow> (unit_refusal + bool) \<times> unit_store" where
  "consume_reservation e rid s =
     (if \<not> (store_ok e \<and> ev_commit e rid) then (Inl Unit_store_unavailable, s)
      else (case dict_get (us_reservations s) rid of
          None \<Rightarrow> (Inl Unit_state_error, s)
        | Some row \<Rightarrow> (case rv_state row of
            Unit_Consumed \<Rightarrow> (Inr False, s)
          | Unit_Released \<Rightarrow> (Inl Unit_state_error, s)
          | Unit_Reserved \<Rightarrow>
              (Inr True, log_event e (Ev_consumed rid (rv_units row))
                (counter_adjust e row 1 Consumed_units
                  (settle_reservation e Unit_Consumed ''consumed by transport attempt'' rid row s))))))"

definition release_reservation :: "unit_env \<Rightarrow> string \<Rightarrow> string \<Rightarrow> unit_store \<Rightarrow> (unit_refusal + bool) \<times> unit_store" where
  "release_reservation e rid reason s =
     (if \<not> (store_ok e \<and> ev_commit e rid) then (Inl Unit_store_unavailable, s)
      else (case dict_get (us_reservations s) rid of
          None \<Rightarrow> (Inr False, s)
        | Some row \<Rightarrow>
            if rv_state row \<noteq> Unit_Reserved then (Inr False, s)
            else (let why = (if reason = [] then ''released'' else reason)
                  in (Inr True, log_event e (Ev_released rid (rv_units row) why)
                       (settle_reservation e Unit_Released why rid row s)))))"

definition reservation_rows :: "unit_state option \<Rightarrow> string \<Rightarrow> unit_store \<Rightarrow> (string \<times> unit_reservation) list" where
  "reservation_rows st owner s =
     filter (\<lambda>(rid, row). (case st of None \<Rightarrow> True | Some x \<Rightarrow> rv_state row = x) \<and> (owner = [] \<or> rv_owner row = owner)) (us_reservations s)"

text \<open>The loops that settle one row after the other, each in its own transaction.\<close>

fun release_each :: "unit_env \<Rightarrow> bool \<Rightarrow> string \<Rightarrow> string list \<Rightarrow> int \<Rightarrow> unit_store \<Rightarrow> (unit_refusal + int) \<times> unit_store" where
  "release_each e quiet reason [] n s = (Inr n, s)"
| "release_each e quiet reason (rid # rids) n s = (case release_reservation e rid reason s of
     (Inl x, s') \<Rightarrow> if quiet then release_each e quiet reason rids n s' else (Inl x, s')
   | (Inr b, s') \<Rightarrow> release_each e quiet reason rids (if b then n + 1 else n) s')"

fun consume_each :: "unit_env \<Rightarrow> string list \<Rightarrow> int \<Rightarrow> unit_store \<Rightarrow> (unit_refusal + int) \<times> unit_store" where
  "consume_each e [] n s = (Inr n, s)"
| "consume_each e (rid # rids) n s = (case consume_reservation e rid s of
     (Inl x, s') \<Rightarrow> (Inl x, s')
   | (Inr b, s') \<Rightarrow> consume_each e rids (if b then n + 1 else n) s')"

definition release_unconsumed_for_owner :: "unit_env \<Rightarrow> string \<Rightarrow> string \<Rightarrow> bool \<Rightarrow> unit_store \<Rightarrow> (unit_refusal + int) \<times> unit_store" where
  "release_unconsumed_for_owner e owner reason quiet s =
     (if owner = [] then (Inr 0, s)
      else if \<not> store_ok e then (if quiet then Inr 0 else Inl Unit_store_unavailable, s)
      else release_each e quiet reason (map fst (reservation_rows (Some Unit_Reserved) owner s)) 0 s)"

definition effect_rows :: "string \<Rightarrow> unit_store \<Rightarrow> (string \<times> unit_reservation) list" where
  "effect_rows effect s = filter (\<lambda>(rid, row). rv_effect row = effect) (us_reservations s)"

definition effect_reservation_states :: "string \<Rightarrow> unit_store \<Rightarrow> unit_state list" where
  "effect_reservation_states effect s = (if effect = [] then [] else map (rv_state \<circ> snd) (effect_rows effect s))"

definition release_effect_reservations :: "unit_env \<Rightarrow> string \<Rightarrow> string \<Rightarrow> unit_store \<Rightarrow> (unit_refusal + int) \<times> unit_store" where
  "release_effect_reservations e effect reason s =
     (if effect = [] then (Inr 0, s)
      else if \<not> store_ok e then (Inl Unit_raw_store_error, s)
      else release_each e False reason (map fst (filter (\<lambda>(rid, row). rv_state row = Unit_Reserved) (effect_rows effect s))) 0 s)"

definition consume_effect_reservations :: "unit_env \<Rightarrow> string \<Rightarrow> unit_class option \<Rightarrow> unit_store \<Rightarrow> (unit_refusal + int) \<times> unit_store" where
  "consume_effect_reservations e effect cls s =
     (if effect = [] then (Inr 0, s)
      else if \<not> store_ok e then (Inl Unit_store_unavailable, s)
      else (let rows = effect_rows effect s;
                open_rows = filter (\<lambda>(rid, row). rv_state row = Unit_Reserved) rows
            in if rows = [] then
                 (if (case cls of None \<Rightarrow> False | Some c \<Rightarrow> list_ex (\<lambda>(k, row). fst k = c) (us_rules s))
                  then (Inl Unit_state_error, s) else (Inr 0, s))
               else if open_rows = [] \<and> \<not> list_ex (\<lambda>(rid, row). rv_state row = Unit_Consumed) rows then (Inl Unit_state_error, s)
               else consume_each e (map fst open_rows) 0 s))"

section \<open>Preview and status\<close>

record rule_status =
  rs_rule :: unit_rule
  rs_limit :: int
  rs_used :: int
  rs_remaining :: int
  rs_applies :: bool

definition rule_status_of :: "time \<Rightarrow> unit_identity \<Rightarrow> unit_store \<Rightarrow> unit_rule \<Rightarrow> rule_status" where
  "rule_status_of now i s r = (case scope_key r i of
     None \<Rightarrow> \<lparr>rs_rule = r, rs_limit = ur_limit r, rs_used = 0, rs_remaining = ur_limit r, rs_applies = False\<rparr>
   | Some key \<Rightarrow> (let used = unit_usage now r key s
       in \<lparr>rs_rule = r, rs_limit = ur_limit r, rs_used = used, rs_remaining = max 0 (ur_limit r - used), rs_applies = True\<rparr>))"

definition budget_status :: "unit_env \<Rightarrow> unit_class option \<Rightarrow> unit_identity \<Rightarrow> unit_store \<Rightarrow> unit_refusal + rule_status list" where
  "budget_status e cls i s = (case cls of
     None \<Rightarrow> Inl Unit_unknown_class
   | Some c \<Rightarrow> if \<not> store_ok e then Inl Unit_raw_store_error
               else Inr (map (rule_status_of (ev_now e) i s) (active_budgets (Some c) s)))"

record preview =
  pv_allowed :: bool
  pv_rule :: string
  pv_per_rule :: "rule_status list"

definition preview_effect :: "unit_env \<Rightarrow> unit_class option \<Rightarrow> unit_identity \<Rightarrow> int \<Rightarrow> unit_store \<Rightarrow> unit_refusal + preview" where
  "preview_effect e cls i u s = and_then (budget_status e cls i s) (\<lambda>statuses.
     if statuses = [] then Inr \<lparr>pv_allowed = True, pv_rule = [], pv_per_rule = []\<rparr>
     else (case find (\<lambda>st. rs_applies st \<and> rs_used st + u > rs_limit st) statuses of
         Some st \<Rightarrow> Inr \<lparr>pv_allowed = False, pv_rule = rule_id (rs_rule st), pv_per_rule = statuses\<rparr>
       | None \<Rightarrow> Inr \<lparr>pv_allowed = True, pv_rule = [], pv_per_rule = statuses\<rparr>))"

section \<open>Measured cost\<close>

record cost_record =
  co_effect :: string
  co_reservation :: string
  co_class :: unit_class
  co_reserved :: int
  co_actual :: int
  co_delta :: int
  co_over_limit :: bool

definition consumed_row :: "string \<Rightarrow> string \<Rightarrow> unit_store \<Rightarrow> (string \<times> unit_reservation) option" where
  "consumed_row effect rid s =
     find (\<lambda>(k, row). (if rid \<noteq> [] then k = rid else rv_effect row = effect) \<and> rv_state row = Unit_Consumed) (us_reservations s)"

definition over_limit :: "time \<Rightarrow> unit_reservation \<Rightarrow> unit_store \<Rightarrow> bool" where
  "over_limit now row s \<longleftrightarrow> list_ex (\<lambda>r. case scope_key_for_reservation row r of
     None \<Rightarrow> False | Some key \<Rightarrow> unit_usage now r key s > ur_limit r) (rv_rules row)"

definition charge_delta :: "unit_env \<Rightarrow> string \<Rightarrow> unit_reservation \<Rightarrow> int \<Rightarrow> unit_store \<Rightarrow> unit_store" where
  "charge_delta e rid row actual s =
     s\<lparr>us_counters := counter_adjust_rules (ev_now e) Consumed_units (actual - rv_units row) row (rv_rules row) (us_counters s),
       us_reservations := dict_set rid (row\<lparr>rv_units := actual, rv_active := ev_now e\<rparr>) (us_reservations s)\<rparr>"

definition reconcile_effect_cost :: "unit_env \<Rightarrow> string \<Rightarrow> string \<Rightarrow> int \<Rightarrow> unit_store \<Rightarrow> (unit_refusal + cost_record) \<times> unit_store" where
  "reconcile_effect_cost e effect rid actual s =
     (if effect = [] \<and> rid = [] then (Inl Unit_state_error, s)
      else if actual < 0 then (Inl Unit_state_error, s)
      else if \<not> store_ok e then (Inl Unit_store_unavailable, s)
      else (case consumed_row effect rid s of
          None \<Rightarrow> (Inl Unit_state_error, s)
        | Some (k, row) \<Rightarrow>
            (let delta = actual - rv_units row;
                 s' = (if delta > 0 then charge_delta e k row actual s else s);
                 over = (delta > 0 \<and> over_limit (ev_now e) row s')
             in (Inr \<lparr>co_effect = effect, co_reservation = k, co_class = rv_class row, co_reserved = rv_units row,
                      co_actual = actual, co_delta = delta, co_over_limit = over\<rparr>,
                 log_event e (Ev_cost k delta over) s'))))"

definition budget_events :: "unit_store \<Rightarrow> unit_event list" where
  "budget_events s = map snd (us_events s)"

end
