(* ===== verification/Effect_Budget_Laws.thy ===== *)
theory Effect_Budget_Laws
  imports Effect_Budget
begin

declare map_of_eq_Some_iff [simp del] Some_eq_map_of_iff [simp del]

section \<open>Sums over the reservations\<close>

lemma dict_sum_filter_zero:
  assumes "\<And>k v. (k, v) \<in> set d \<Longrightarrow> \<not> P (k, v) \<Longrightarrow> f v = 0"
  shows "dict_sum f (filter P d) = dict_sum f d"
  using assms
proof (induction d)
  case (Cons p d)
  obtain k v where p: "p = (k, v)" by fastforce
  have "dict_sum f (filter P d) = dict_sum f d" by (rule Cons.IH) (rule Cons.prems, auto)
  moreover have "\<not> P (k, v) \<Longrightarrow> f v = 0" using Cons.prems [of k v] p by simp
  ultimately show ?case using p by auto
qed simp

lemma dict_sum_filter_le:
  fixes f :: "'v \<Rightarrow> int"
  assumes "\<And>v. v \<in> snd ` set d \<Longrightarrow> 0 \<le> f v"
  shows "dict_sum f (filter P d) \<le> dict_sum f d"
  using assms
proof (induction d)
  case (Cons p d)
  obtain k v where p: "p = (k, v)" by fastforce
  have "0 \<le> f v" using Cons.prems [of v] p by simp
  moreover have "dict_sum f (filter P d) \<le> dict_sum f d" using Cons by simp
  ultimately show ?case using p by simp
qed simp

lemma dict_sum_mono:
  fixes f :: "'v \<Rightarrow> int"
  assumes "\<And>k v. (k, v) \<in> set d \<Longrightarrow> f v \<le> g v"
  shows "dict_sum f d \<le> dict_sum g d"
  unfolding dict_sum_def by (rule sum_list_mono) (use assms in auto)

lemma dict_get_filter:
  "wf_dict d \<Longrightarrow> dict_get (filter P d) k = (case dict_get d k of None \<Rightarrow> None | Some v \<Rightarrow> if P (k, v) then Some v else None)"
proof (induction d)
  case (Cons p d)
  then show ?case by (cases p) (auto simp: dict_get_None_iff image_iff split: option.splits)
qed simp

section \<open>Counters and the keys a reservation touches\<close>

fun touched_by :: "unit_identity \<Rightarrow> unit_rule list \<Rightarrow> counter_key list" where
  "touched_by i [] = []"
| "touched_by i (r # rs) =
     (if ur_scope r = Us_Window then touched_by i rs
      else (case scope_key r i of None \<Rightarrow> touched_by i rs | Some key \<Rightarrow> (ur_class r, ur_scope r, key) # touched_by i rs))"

definition touched_counters :: "unit_reservation \<Rightarrow> counter_key list" where
  "touched_counters row = touched_by (rv_identity row) (rv_rules row)"

lemma touched_by_iff:
  "(c, sc, key) \<in> set (touched_by i rs) \<longleftrightarrow> sc \<noteq> Us_Window \<and> (\<exists>r\<in>set rs. ur_class r = c \<and> ur_scope r = sc \<and> scope_key r i = Some key)"
  by (induction rs) (auto split: option.splits)

lemma counter_read_add [simp]:
  "counter_read (counter_add now f u k cs) k' f' = counter_read cs k' f' + (if k' = k \<and> f' = f then u else 0)"
  by (auto simp: counter_read_def counter_add_def Let_def split: option.splits counter_field.splits)

lemma counter_adjust_fold:
  "counter_adjust_rules now f u row (rv_rules row) cs = fold (counter_add now f u) (touched_counters row) cs"
proof -
  have "counter_adjust_rules now f u row rs cs = fold (counter_add now f u) (touched_by (rv_identity row) rs) cs" for rs
    by (induction rs arbitrary: cs) (auto simp: scope_key_for_reservation_def split: option.splits)
  then show ?thesis by (simp add: touched_counters_def)
qed

lemma counter_read_fold:
  "distinct ks \<Longrightarrow> counter_read (fold (counter_add now f u) ks cs) k f'
     = counter_read cs k f' + (if k \<in> set ks \<and> f' = f then u else 0)"
  by (induction ks arbitrary: cs) auto

lemma wf_counter_fold: "wf_dict cs \<Longrightarrow> wf_dict (fold (counter_add now f u) ks cs)"
  by (induction ks arbitrary: cs) (auto simp: counter_add_def Let_def)

definition snapshot_ok :: "unit_class \<Rightarrow> unit_rule list \<Rightarrow> bool" where
  "snapshot_ok c rs \<longleftrightarrow> (\<forall>r\<in>set rs. ur_class r = c \<and> (ur_scope r \<noteq> Us_Window \<longrightarrow> ur_window r = 0))
     \<and> distinct (map (\<lambda>r. (ur_scope r, ur_window r)) rs)"

definition row_ok :: "unit_reservation \<Rightarrow> bool" where
  "row_ok row \<longleftrightarrow> 1 \<le> rv_units row \<and> snapshot_ok (rv_class row) (rv_rules row)"

lemma distinct_touched_by: "snapshot_ok c rs \<Longrightarrow> distinct (touched_by i rs)"
proof (induction rs)
  case (Cons r rs)
  then have rest: "snapshot_ok c rs" by (auto simp: snapshot_ok_def)
  have "(ur_class r, ur_scope r, key) \<notin> set (touched_by i rs)" if w: "ur_scope r \<noteq> Us_Window" for key
  proof
    assume "(ur_class r, ur_scope r, key) \<in> set (touched_by i rs)"
    then obtain q where "q \<in> set rs" "ur_scope q = ur_scope r" by (auto simp: touched_by_iff)
    with Cons.prems w show False by (force simp: snapshot_ok_def image_iff)
  qed
  with Cons.IH [OF rest] show ?case by (auto split: option.splits)
qed simp

lemma distinct_touched: "row_ok row \<Longrightarrow> distinct (touched_counters row)"
  by (auto simp: row_ok_def touched_counters_def intro: distinct_touched_by)

definition held_units :: "counter_key \<Rightarrow> unit_reservation \<Rightarrow> int" where
  "held_units k row = (if rv_state row = Unit_Reserved \<and> k \<in> set (touched_counters row) then rv_units row else 0)"

definition spent_units :: "counter_key \<Rightarrow> unit_reservation \<Rightarrow> int" where
  "spent_units k row = (if rv_state row = Unit_Consumed \<and> k \<in> set (touched_counters row) then rv_units row else 0)"

definition rule_ok :: "unit_rule_key \<times> rule_row \<Rightarrow> bool" where
  "rule_ok = (\<lambda>((c, sc, w), row). (if sc = Us_Window then 0 < w else w = 0) \<and> 0 \<le> rr_limit row)"

definition rows_ok :: "unit_store \<Rightarrow> bool" where
  "rows_ok s \<longleftrightarrow> wf_dict (us_rules s) \<and> wf_dict (us_counters s) \<and> wf_dict (us_reservations s) \<and> wf_dict (us_instances s)
     \<and> list_all rule_ok (us_rules s) \<and> list_all (row_ok \<circ> snd) (us_reservations s)"

definition counters_ok :: "unit_store \<Rightarrow> bool" where
  "counters_ok s \<longleftrightarrow> (\<forall>k. counter_read (us_counters s) k Reserved_units = dict_sum (held_units k) (us_reservations s)
     \<and> dict_sum (spent_units k) (us_reservations s) \<le> counter_read (us_counters s) k Consumed_units)"

lemma counters_okD:
  assumes "counters_ok s"
  shows "counter_read (us_counters s) k Reserved_units = dict_sum (held_units k) (us_reservations s)"
    and "dict_sum (spent_units k) (us_reservations s) \<le> counter_read (us_counters s) k Consumed_units"
  using assms unfolding counters_ok_def by blast+

definition unit_inv :: "unit_store \<Rightarrow> bool" where
  "unit_inv s \<longleftrightarrow> rows_ok s \<and> counters_ok s"

lemma touched_cong:
  "rv_rules row' = rv_rules row \<Longrightarrow> rv_identity row' = rv_identity row \<Longrightarrow> touched_counters row' = touched_counters row"
  by (simp add: touched_counters_def)

lemma held_units_nonneg: "row_ok row \<Longrightarrow> 0 \<le> held_units k row"
  by (simp add: held_units_def row_ok_def)

lemma spent_units_nonneg: "row_ok row \<Longrightarrow> 0 \<le> spent_units k row"
  by (simp add: spent_units_def row_ok_def)

lemma rows_okD: "rows_ok s \<Longrightarrow> (k, v) \<in> set (us_reservations s) \<Longrightarrow> row_ok v"
  by (fastforce simp: rows_ok_def list_all_iff)

lemma rows_ok_row: "rows_ok s \<Longrightarrow> dict_get (us_reservations s) rid = Some row \<Longrightarrow> row_ok row"
  by (drule dict_get_mem) (fastforce simp: rows_ok_def list_all_iff)

lemma list_all_dict_set:
  "list_all (P \<circ> snd) d \<Longrightarrow> wf_dict d \<Longrightarrow> P v \<Longrightarrow> list_all (P \<circ> snd) (dict_set k v d)"
  by (auto simp: list_all_iff set_dict_set)

section \<open>The invariant, operation by operation\<close>

lemma unit_inv_log [simp]: "unit_inv (log_event e v s) \<longleftrightarrow> unit_inv s"
  by (simp add: unit_inv_def rows_ok_def counters_ok_def log_event_def)

lemma unit_inv_settle:
  assumes inv: "unit_inv s" and row: "dict_get (us_reservations s) rid = Some row" "rv_state row = Unit_Reserved"
    and st: "st \<noteq> Unit_Reserved"
  shows "rows_ok (settle_reservation e st why rid row s)"
    and "counter_read (us_counters (settle_reservation e st why rid row s)) k Reserved_units
       = dict_sum (held_units k) (us_reservations (settle_reservation e st why rid row s))"
    and "dict_sum (spent_units k) (us_reservations (settle_reservation e st why rid row s))
       \<le> counter_read (us_counters (settle_reservation e st why rid row s)) k Consumed_units
          + (if st = Unit_Consumed \<and> k \<in> set (touched_counters row) then rv_units row else 0)"
proof -
  let ?row' = "settled_row e st why row"
  from inv have ok: "rows_ok s" and cs: "counters_ok s" by (auto simp: unit_inv_def)
  from rows_ok_row [OF ok row(1)] have r: "row_ok row" .
  then have r': "row_ok ?row'" by (simp add: row_ok_def settled_row_def)
  have t: "touched_counters ?row' = touched_counters row" by (rule touched_cong) (simp_all add: settled_row_def)
  from r have d: "distinct (touched_counters row)" by (rule distinct_touched)
  show "rows_ok (settle_reservation e st why rid row s)"
    using ok r' by (auto simp: rows_ok_def settle_reservation_def counter_adjust_def counter_adjust_fold
        intro!: wf_counter_fold list_all_dict_set)
  from ok have wf: "wf_dict (us_reservations s)" by (simp add: rows_ok_def)
  show "counter_read (us_counters (settle_reservation e st why rid row s)) k Reserved_units
       = dict_sum (held_units k) (us_reservations (settle_reservation e st why rid row s))"
    using counters_okD [OF cs, of k] row st d by (simp add: settle_reservation_def counter_adjust_def counter_adjust_fold counter_read_fold
        dict_sum_set [OF wf] held_units_def t) (simp add: settled_row_def)
  have "dict_sum (spent_units k) (us_reservations s) \<le> counter_read (us_counters s) k Consumed_units"
    by (rule counters_okD [OF cs])
  then show "dict_sum (spent_units k) (us_reservations (settle_reservation e st why rid row s))
       \<le> counter_read (us_counters (settle_reservation e st why rid row s)) k Consumed_units
          + (if st = Unit_Consumed \<and> k \<in> set (touched_counters row) then rv_units row else 0)"
    using row d by (simp add: settle_reservation_def counter_adjust_def counter_adjust_fold counter_read_fold
        dict_sum_set [OF wf] spent_units_def t) (simp add: settled_row_def)
qed

lemma unit_inv_release_row:
  assumes "unit_inv s" and "dict_get (us_reservations s) rid = Some row" "rv_state row = Unit_Reserved"
  shows "unit_inv (settle_reservation e Unit_Released why rid row s)"
  using unit_inv_settle [OF assms, where st = Unit_Released] by (simp add: unit_inv_def counters_ok_def)

lemma unit_inv_consume_row:
  assumes "unit_inv s" and row: "dict_get (us_reservations s) rid = Some row" "rv_state row = Unit_Reserved"
  shows "unit_inv (counter_adjust e row 1 Consumed_units (settle_reservation e Unit_Consumed why rid row s))"
proof -
  have r: "row_ok row" using assms rows_ok_row by (auto simp: unit_inv_def)
  then have d: "distinct (touched_counters row)" by (rule distinct_touched)
  note S = unit_inv_settle [OF assms(1) row, where st = Unit_Consumed and e = e and why = why]
  have "rows_ok (counter_adjust e row 1 Consumed_units (settle_reservation e Unit_Consumed why rid row s))"
    using S(1) by (auto simp: rows_ok_def counter_adjust_def counter_adjust_fold intro!: wf_counter_fold)
  then show ?thesis using S(2,3) d
    by (simp add: unit_inv_def counters_ok_def counter_adjust_def [of _ _ 1] counter_adjust_fold counter_read_fold)
qed

lemma unit_inv_parts [simp]:
  "unit_inv (s\<lparr>us_events := x\<rparr>) \<longleftrightarrow> unit_inv s"
  by (simp add: unit_inv_def rows_ok_def counters_ok_def)

lemma unit_inv_instances: "unit_inv s \<Longrightarrow> unit_inv (s\<lparr>us_instances := dict_set k v (us_instances s)\<rparr>)"
  by (auto simp: unit_inv_def rows_ok_def counters_ok_def)

lemma unit_inv_current_instance: "unit_inv s \<Longrightarrow> current_instance e p s = (i, p', s') \<Longrightarrow> unit_inv s'"
  by (auto simp: current_instance_def Let_def split: prod.splits option.splits if_splits intro: unit_inv_instances)

lemma unit_inv_shutdown: "unit_inv s \<Longrightarrow> unit_inv (shutdown_instance e p s)"
  by (auto simp: shutdown_instance_def split: option.splits intro: unit_inv_instances)

lemma wf_filter: "wf_dict d \<Longrightarrow> wf_dict (filter P d)"
  by (induction d) auto

lemma counter_read_prune:
  assumes "unit_inv s"
  shows "counter_read (us_counters (prune_stores now s)) k f = counter_read (us_counters s) k f"
proof -
  from assms have ok: "rows_ok s" and cs: "counters_ok s" by (auto simp: unit_inv_def)
  have nonneg: "0 \<le> dict_sum (held_units k) (us_reservations s)" "0 \<le> dict_sum (spent_units k) (us_reservations s)" for k
    using rows_okD [OF ok] by (auto intro!: dict_sum_nonneg spent_units_nonneg held_units_nonneg)
  have reads: "0 \<le> counter_read (us_counters s) k f" for f
    using counters_okD [OF cs, of k] nonneg [of k] by (cases f) simp_all
  show ?thesis
  proof (cases "dict_get (us_counters s) k")
    case (Some c)
    then have "0 \<le> ct_reserved c" "0 \<le> ct_consumed c"
      using reads [of Reserved_units] reads [of Consumed_units] by (simp_all add: counter_read_def)
    then show ?thesis
      using ok Some by (cases k) (auto simp: prune_stores_def counter_read_def dict_get_filter rows_ok_def split: counter_field.splits)
  next
    case None
    then show ?thesis
      using ok by (cases k) (auto simp: prune_stores_def counter_read_def dict_get_filter rows_ok_def split: counter_field.splits)
  qed
qed

lemma unit_inv_prune:
  assumes "unit_inv s"
  shows "unit_inv (prune_stores now s)"
proof -
  let ?s = "prune_stores now s"
  from assms have ok: "rows_ok s" and cs: "counters_ok s" by (auto simp: unit_inv_def)
  have rows: "rows_ok ?s"
    using ok by (auto simp: rows_ok_def prune_stores_def wf_filter list_all_iff)
  have held: "dict_sum (held_units k) (us_reservations ?s) = dict_sum (held_units k) (us_reservations s)" for k
    unfolding prune_stores_def by (simp, rule dict_sum_filter_zero) (auto simp: held_units_def)
  have spent: "dict_sum (spent_units k) (us_reservations ?s) \<le> dict_sum (spent_units k) (us_reservations s)" for k
    unfolding prune_stores_def using ok
    by (simp, intro dict_sum_filter_le) (auto simp: rows_ok_def list_all_iff intro!: spent_units_nonneg)
  note same = counter_read_prune [OF assms]
  have "counters_ok ?s"
    unfolding counters_ok_def same held using cs spent unfolding counters_ok_def by (meson order_trans)
  with rows show ?thesis by (simp add: unit_inv_def)
qed

lemma unit_inv_insert_unpruned:
  assumes inv: "unit_inv s" and new: "dict_get (us_reservations s) rid = None" and row: "row_ok row" "rv_state row = Unit_Reserved"
  shows "unit_inv (counter_adjust e row 1 Reserved_units (s\<lparr>us_reservations := dict_set rid row (us_reservations s)\<rparr>))" (is "unit_inv ?s")
proof -
  from inv have ok: "rows_ok s" and cs: "counters_ok s" by (auto simp: unit_inv_def)
  then have wf: "wf_dict (us_reservations s)" by (simp add: rows_ok_def)
  have "rows_ok ?s"
    using ok row by (auto simp: rows_ok_def counter_adjust_def counter_adjust_fold intro!: wf_counter_fold list_all_dict_set)
  moreover have "counter_read (us_counters ?s) k Reserved_units = dict_sum (held_units k) (us_reservations ?s)" for k
    using counters_okD [OF cs, of k] new row distinct_touched [OF row(1)]
    by (simp add: counter_adjust_def counter_adjust_fold counter_read_fold dict_sum_set [OF wf] held_units_def)
  moreover have "dict_sum (spent_units k) (us_reservations ?s) \<le> counter_read (us_counters ?s) k Consumed_units" for k
    using counters_okD [OF cs, of k] new row distinct_touched [OF row(1)]
    by (simp add: counter_adjust_def counter_adjust_fold counter_read_fold dict_sum_set [OF wf] spent_units_def)
  ultimately show ?thesis by (simp add: unit_inv_def counters_ok_def)
qed

lemma unit_inv_insert:
  assumes "unit_inv s" "dict_get (us_reservations s) rid = None" "row_ok row" "rv_state row = Unit_Reserved"
  shows "unit_inv (insert_reservation e rid row s)"
  using unit_inv_insert_unpruned [OF assms] by (simp add: insert_reservation_def unit_inv_prune)

lemma unit_inv_charge:
  assumes inv: "unit_inv s" and row: "dict_get (us_reservations s) rid = Some row" "rv_state row = Unit_Consumed"
    and up: "rv_units row < actual"
  shows "unit_inv (charge_delta e rid row actual s)"
proof -
  let ?row' = "row\<lparr>rv_units := actual, rv_active := ev_now e\<rparr>"
  from inv have ok: "rows_ok s" and cs: "counters_ok s" by (auto simp: unit_inv_def)
  then have wf: "wf_dict (us_reservations s)" by (simp add: rows_ok_def)
  have r: "row_ok row" using ok row by (rule_tac rows_ok_row)
  with up have r': "row_ok ?row'" by (simp add: row_ok_def)
  have t: "touched_counters ?row' = touched_counters row" by (rule touched_cong) simp_all
  have "rows_ok (charge_delta e rid row actual s)"
    using ok r' by (auto simp: rows_ok_def charge_delta_def counter_adjust_fold intro!: wf_counter_fold list_all_dict_set)
  moreover have "counter_read (us_counters (charge_delta e rid row actual s)) k Reserved_units
      = dict_sum (held_units k) (us_reservations (charge_delta e rid row actual s))" for k
    using counters_okD [OF cs, of k] row distinct_touched [OF r]
    by (simp add: charge_delta_def counter_adjust_fold counter_read_fold dict_sum_set [OF wf] held_units_def t)
  moreover have "dict_sum (spent_units k) (us_reservations (charge_delta e rid row actual s))
      \<le> counter_read (us_counters (charge_delta e rid row actual s)) k Consumed_units" for k
    using counters_okD [OF cs, of k] row distinct_touched [OF r] up
    by (simp add: charge_delta_def counter_adjust_fold counter_read_fold dict_sum_set [OF wf] spent_units_def t)
  ultimately show ?thesis by (simp add: unit_inv_def counters_ok_def)
qed

lemma distinct_rule_scopes:
  "wf_dict d \<Longrightarrow> distinct (map (\<lambda>r. (ur_scope r, ur_window r)) (map rule_of (filter (\<lambda>(k, row). fst k = c) d)))"
proof (induction d)
  case (Cons p d)
  obtain c' sc w row where p: "p = ((c', sc, w), row)" by (cases p) auto
  have "(sc, w) \<notin> set (map (\<lambda>r. (ur_scope r, ur_window r)) (map rule_of (filter (\<lambda>(k, row). fst k = c) d)))" if "c' = c"
    using Cons.prems p that by (force simp: rule_of_def)
  with Cons p show ?case by (simp add: rule_of_def)
qed simp

lemma rules_for_mem:
  "r \<in> set (rules_for c s) \<longleftrightarrow> (\<exists>row. ((c, ur_scope r, ur_window r), row) \<in> set (us_rules s) \<and> ur_class r = c \<and> ur_limit r = rr_limit row)"
  by (force simp: rules_for_def rule_of_def image_iff)

lemma snapshot_rules_for: "rows_ok s \<Longrightarrow> snapshot_ok c (rules_for c s)"
proof -
  assume ok: "rows_ok s"
  then have "wf_dict (us_rules s)" by (simp add: rows_ok_def)
  from distinct_rule_scopes [OF this, of c]
  have "distinct (map (\<lambda>r. (ur_scope r, ur_window r)) (rules_for c s))"
    by (simp only: rules_for_def distinct_map set_sort distinct_sort)
  moreover have "ur_class r = c \<and> (ur_scope r \<noteq> Us_Window \<longrightarrow> ur_window r = 0)" if "r \<in> set (rules_for c s)" for r
    using that ok by (auto simp: rules_for_mem rows_ok_def list_all_iff rule_ok_def split: if_splits)
  ultimately show ?thesis by (simp add: snapshot_ok_def)
qed

lemma rules_for_cong: "us_rules s = us_rules s' \<Longrightarrow> rules_for c s = rules_for c s'"
  by (simp add: rules_for_def)

lemma unit_inv_bound:
  assumes inv: "unit_inv s" and row: "dict_get (us_reservations s) rid = Some row"
  shows "unit_inv (s\<lparr>us_reservations := dict_set rid (row\<lparr>rv_effect := effect\<rparr>) (us_reservations s)\<rparr>)"
proof -
  let ?row = "row\<lparr>rv_effect := effect\<rparr>"
  from inv have ok: "rows_ok s" and cs: "counters_ok s" by (auto simp: unit_inv_def)
  then have wf: "wf_dict (us_reservations s)" by (simp add: rows_ok_def)
  have "row_ok ?row" using rows_ok_row [OF ok row] by (simp add: row_ok_def)
  moreover have "touched_counters ?row = touched_counters row" by (rule touched_cong) simp_all
  then have "held_units k ?row = held_units k row" "spent_units k ?row = spent_units k row" for k
    by (simp_all add: held_units_def spent_units_def)
  ultimately show ?thesis
    using ok cs row by (auto simp: unit_inv_def rows_ok_def counters_ok_def dict_sum_set [OF wf] intro!: list_all_dict_set)
qed

section \<open>What each operation leaves alone\<close>

lemma settle_frame [frame_simps]:
  "us_rules (settle_reservation e st why rid row s) = us_rules s"
  "us_instances (settle_reservation e st why rid row s) = us_instances s"
  "us_events (settle_reservation e st why rid row s) = us_events s"
  "us_reservations (settle_reservation e st why rid row s) = dict_set rid (settled_row e st why row) (us_reservations s)"
  by (simp_all add: settle_reservation_def counter_adjust_def)

lemma small_frame [frame_simps]:
  "us_rules (log_event e v s) = us_rules s" "us_reservations (log_event e v s) = us_reservations s"
  "us_instances (log_event e v s) = us_instances s" "us_counters (log_event e v s) = us_counters s"
  "us_events (log_event e v s) = us_events s @ [(ev_now e, v)]"
  "us_rules (counter_adjust e row n f s) = us_rules s" "us_reservations (counter_adjust e row n f s) = us_reservations s"
  "us_instances (counter_adjust e row n f s) = us_instances s" "us_events (counter_adjust e row n f s) = us_events s"
  "us_rules (prune_stores now s) = us_rules s" "us_instances (prune_stores now s) = us_instances s"
  "us_rules (charge_delta e rid row actual s) = us_rules s" "us_instances (charge_delta e rid row actual s) = us_instances s"
  "us_events (charge_delta e rid row actual s) = us_events s"
  by (simp_all add: log_event_def counter_adjust_def prune_stores_def charge_delta_def)

definition stale_rows :: "(string \<times> unit_reservation) list \<Rightarrow> unit_store \<Rightarrow> bool" where
  "stale_rows rows s \<longleftrightarrow> distinct (map fst rows)
     \<and> (\<forall>(rid, row)\<in>set rows. dict_get (us_reservations s) rid = Some row \<and> rv_state row = Unit_Reserved)"

lemma stale_rows_step:
  assumes "stale_rows ((rid, row) # rows) s"
  shows "dict_get (us_reservations s) rid = Some row" "rv_state row = Unit_Reserved"
    and "stale_rows rows (log_event e v (settle_reservation e' st why rid row s))"
proof -
  from assms show "dict_get (us_reservations s) rid = Some row" "rv_state row = Unit_Reserved"
    by (auto simp: stale_rows_def)
  from assms have "rid \<notin> fst ` set rows" "distinct (map fst rows)"
    "(r, x) \<in> set rows \<Longrightarrow> dict_get (us_reservations s) r = Some x \<and> rv_state x = Unit_Reserved" for r x
    by (auto simp: stale_rows_def)
  then show "stale_rows rows (log_event e v (settle_reservation e' st why rid row s))"
    by (force simp: stale_rows_def frame_simps)
qed

lemma stale_rows_filter:
  "wf_dict (us_reservations s) \<Longrightarrow> stale_rows (filter (\<lambda>(rid, row). rv_state row = Unit_Reserved \<and> P row) (us_reservations s)) s"
  by (auto simp: stale_rows_def wf_filter intro: dict_mem_get)

lemma consumed_row_Some:
  assumes "consumed_row effect rid s = Some (k, row)" "wf_dict (us_reservations s)"
  shows "dict_get (us_reservations s) k = Some row \<and> rv_state row = Unit_Consumed"
  using assms by (auto simp: consumed_row_def find_Some_iff intro!: dict_mem_get) (metis nth_mem)

lemma unit_inv_refusal [simp]: "unit_inv (snd (journal_authority_refusal e s)) \<longleftrightarrow> unit_inv s"
  by (simp add: journal_authority_refusal_def)

lemma unit_inv_grant: "unit_inv s \<Longrightarrow> unit_inv (snd (grant_operator_budget_authority e s))"
  by (simp add: grant_operator_budget_authority_def Let_def)

lemma unit_inv_apply: "check_adjustment a = None \<Longrightarrow> unit_inv s \<Longrightarrow> unit_inv (apply_unit_adjustment e token a s)"
  by (auto simp: unit_inv_def rows_ok_def counters_ok_def apply_unit_adjustment_def log_event_def check_adjustment_def
      adjustment_key_def rule_ok_def list_all_iff set_dict_set set_dict_pop split: option.splits if_splits)

lemma unit_inv_adjust: "unit_inv s \<Longrightarrow> unit_inv (snd (apply_operator_adjustment e token as s))"
proof -
  have "list_all (\<lambda>a. check_adjustment a = None) as \<Longrightarrow> unit_inv s \<Longrightarrow> unit_inv (fold (apply_unit_adjustment e token) as s)" for s
    by (induction as arbitrary: s) (simp_all add: unit_inv_apply)
  then show "unit_inv s \<Longrightarrow> ?thesis" by (auto simp: apply_operator_adjustment_def split: sum.splits)
qed

section \<open>The system: several processes over one store\<close>

record unit_system =
  sy_store :: unit_store
  sy_procs :: "(int, unit_process) dict"

definition fresh_process :: unit_process where "fresh_process = \<lparr>pr_instance = None, pr_reconciled = False\<rparr>"

definition process_of :: "int \<Rightarrow> unit_system \<Rightarrow> unit_process" where
  "process_of pid sy = (case dict_get (sy_procs sy) pid of None \<Rightarrow> fresh_process | Some p \<Rightarrow> p)"

datatype unit_op =
    U_Reserve unit_env "unit_class option" string string unit_identity int
  | U_Bind unit_env string string
  | U_Consume unit_env string
  | U_Release unit_env string string
  | U_Release_owner unit_env string string bool
  | U_Release_effect unit_env string string
  | U_Consume_effect unit_env string "unit_class option"
  | U_Cost unit_env string string int
  | U_Reconcile unit_env bool
  | U_Shutdown unit_env
  | U_Grant unit_env
  | U_Adjust unit_env string "budget_adjustment list"
  | U_Exit unit_env
  | U_Fork unit_env int

fun unit_step :: "unit_op \<Rightarrow> unit_system \<Rightarrow> unit_system" where
  "unit_step (U_Reserve e cls effect owner i u) sy =
     (let (_, p, s) = reserve_effect_units e cls effect owner i u (process_of (ev_pid e) sy) (sy_store sy)
      in \<lparr>sy_store = s, sy_procs = dict_set (ev_pid e) p (sy_procs sy)\<rparr>)"
| "unit_step (U_Bind e rid effect) sy = sy\<lparr>sy_store := snd (bind_reservation_effect e rid effect (sy_store sy))\<rparr>"
| "unit_step (U_Consume e rid) sy = sy\<lparr>sy_store := snd (consume_reservation e rid (sy_store sy))\<rparr>"
| "unit_step (U_Release e rid why) sy = sy\<lparr>sy_store := snd (release_reservation e rid why (sy_store sy))\<rparr>"
| "unit_step (U_Release_owner e owner why quiet) sy = sy\<lparr>sy_store := snd (release_unconsumed_for_owner e owner why quiet (sy_store sy))\<rparr>"
| "unit_step (U_Release_effect e effect why) sy = sy\<lparr>sy_store := snd (release_effect_reservations e effect why (sy_store sy))\<rparr>"
| "unit_step (U_Consume_effect e effect cls) sy = sy\<lparr>sy_store := snd (consume_effect_reservations e effect cls (sy_store sy))\<rparr>"
| "unit_step (U_Cost e effect rid actual) sy = sy\<lparr>sy_store := snd (reconcile_effect_cost e effect rid actual (sy_store sy))\<rparr>"
| "unit_step (U_Reconcile e force) sy =
     (let (_, p, s) = reconcile_stale_reservations e force (process_of (ev_pid e) sy) (sy_store sy)
      in \<lparr>sy_store = s, sy_procs = dict_set (ev_pid e) p (sy_procs sy)\<rparr>)"
| "unit_step (U_Shutdown e) sy = sy\<lparr>sy_store := shutdown_instance e (process_of (ev_pid e) sy) (sy_store sy)\<rparr>"
| "unit_step (U_Grant e) sy = sy\<lparr>sy_store := snd (grant_operator_budget_authority e (sy_store sy))\<rparr>"
| "unit_step (U_Adjust e token as) sy = sy\<lparr>sy_store := snd (apply_operator_adjustment e token as (sy_store sy))\<rparr>"
| "unit_step (U_Exit e) sy = sy\<lparr>sy_procs := dict_pop (ev_pid e) (sy_procs sy)\<rparr>"
| "unit_step (U_Fork e child) sy = sy\<lparr>sy_procs := dict_set child (process_of (ev_pid e) sy) (sy_procs sy)\<rparr>"

definition empty_units :: unit_system where
  "empty_units = \<lparr>sy_store = \<lparr>us_rules = [], us_counters = [], us_reservations = [], us_instances = [], us_events = []\<rparr>, sy_procs = []\<rparr>"

lemma unit_step_store:
  "sy_store (unit_step x sy) = (case x of
     U_Reserve e cls effect owner i u \<Rightarrow> snd (snd (reserve_effect_units e cls effect owner i u (process_of (ev_pid e) sy) (sy_store sy)))
   | U_Bind e rid effect \<Rightarrow> snd (bind_reservation_effect e rid effect (sy_store sy))
   | U_Consume e rid \<Rightarrow> snd (consume_reservation e rid (sy_store sy))
   | U_Release e rid why \<Rightarrow> snd (release_reservation e rid why (sy_store sy))
   | U_Release_owner e owner why quiet \<Rightarrow> snd (release_unconsumed_for_owner e owner why quiet (sy_store sy))
   | U_Release_effect e effect why \<Rightarrow> snd (release_effect_reservations e effect why (sy_store sy))
   | U_Consume_effect e effect cls \<Rightarrow> snd (consume_effect_reservations e effect cls (sy_store sy))
   | U_Cost e effect rid actual \<Rightarrow> snd (reconcile_effect_cost e effect rid actual (sy_store sy))
   | U_Reconcile e force \<Rightarrow> snd (snd (reconcile_stale_reservations e force (process_of (ev_pid e) sy) (sy_store sy)))
   | U_Shutdown e \<Rightarrow> shutdown_instance e (process_of (ev_pid e) sy) (sy_store sy)
   | U_Grant e \<Rightarrow> snd (grant_operator_budget_authority e (sy_store sy))
   | U_Adjust e token as \<Rightarrow> snd (apply_operator_adjustment e token as (sy_store sy))
   | U_Exit e \<Rightarrow> sy_store sy | U_Fork e child \<Rightarrow> sy_store sy)"
  by (cases x) (simp_all split: prod.split)

section \<open>Moves: the transactions that change a reservation or a counter\<close>

text \<open>
  Every operation but the operator's changes the store through a handful of transactions, the moves. What every move
  keeps is kept by every operation, whatever its branches and loops, and also when the transactions of two operations
  interleave.
\<close>

datatype unit_move = Mv_quiet | Mv_bind string | Mv_release string | Mv_consume string | Mv_insert string | Mv_charge string bool

definition granted_tokens :: "unit_store \<Rightarrow> string set" where
  "granted_tokens s = {tok. \<exists>t. (t, Ev_grant tok) \<in> set (us_events s)}"

definition is_grant :: "unit_event \<Rightarrow> bool" where
  "is_grant v = (case v of Ev_grant _ \<Rightarrow> True | _ \<Rightarrow> False)"

inductive move :: "unit_env \<Rightarrow> unit_move \<Rightarrow> unit_store \<Rightarrow> unit_store \<Rightarrow> bool" for e :: unit_env where
  quiet: "us_rules s' = us_rules s \<Longrightarrow> us_counters s' = us_counters s \<Longrightarrow> us_reservations s' = us_reservations s
     \<Longrightarrow> (wf_dict (us_instances s) \<longrightarrow> wf_dict (us_instances s')) \<Longrightarrow> granted_tokens s' \<subseteq> granted_tokens s
     \<Longrightarrow> move e Mv_quiet s s'"
| bind: "dict_get (us_reservations s) rid = Some row \<Longrightarrow> rv_state row = Unit_Reserved
     \<Longrightarrow> move e (Mv_bind rid) s (s\<lparr>us_reservations := dict_set rid (row\<lparr>rv_effect := effect\<rparr>) (us_reservations s)\<rparr>)"
| release: "dict_get (us_reservations s) rid = Some row \<Longrightarrow> rv_state row = Unit_Reserved \<Longrightarrow> \<not> is_grant v
     \<Longrightarrow> move e (Mv_release rid) s (log_event e v (settle_reservation e Unit_Released why rid row s))"
| consume: "dict_get (us_reservations s) rid = Some row \<Longrightarrow> rv_state row = Unit_Reserved \<Longrightarrow> \<not> is_grant v
     \<Longrightarrow> move e (Mv_consume rid) s (log_event e v (counter_adjust e row 1 Consumed_units (settle_reservation e Unit_Consumed why rid row s)))"
| insert: "dict_get (us_reservations s) rid = None \<Longrightarrow> 1 \<le> u \<Longrightarrow> rules_for c s \<noteq> []
     \<Longrightarrow> fst (check_unit_rules (ev_now e) i u s (rules_for c s) (None, [])) = None
     \<Longrightarrow> move e (Mv_insert rid) s (insert_reservation e rid (new_reservation e c effect owner i u inst (rules_for c s)) s)"
| charge: "dict_get (us_reservations s) rid = Some row \<Longrightarrow> rv_state row = Unit_Consumed \<Longrightarrow> rv_units row < actual
     \<Longrightarrow> over = over_limit (ev_now e) row (charge_delta e rid row actual s)
     \<Longrightarrow> move e (Mv_charge rid over) s (charge_delta e rid row actual s)"

definition moves :: "unit_env \<Rightarrow> (unit_move \<Rightarrow> bool) \<Rightarrow> unit_store \<Rightarrow> unit_store \<Rightarrow> bool" where
  "moves e P = (\<lambda>s s'. \<exists>mv. P mv \<and> move e mv s s')\<^sup>*\<^sup>*"

lemma moves_refl [simp, intro]: "moves e P s s"
  by (simp add: moves_def)

lemma moves_step: "P mv \<Longrightarrow> move e mv s s' \<Longrightarrow> moves e P s s'"
  by (auto simp: moves_def)

lemma moves_trans: "moves e P s s' \<Longrightarrow> moves e P s' s'' \<Longrightarrow> moves e P s s''"
  unfolding moves_def by (rule rtranclp_trans)

lemma moves_quiet:
  "P Mv_quiet \<Longrightarrow> us_rules s' = us_rules s \<Longrightarrow> us_counters s' = us_counters s \<Longrightarrow> us_reservations s' = us_reservations s
   \<Longrightarrow> (wf_dict (us_instances s) \<longrightarrow> wf_dict (us_instances s')) \<Longrightarrow> granted_tokens s' \<subseteq> granted_tokens s \<Longrightarrow> moves e P s s'"
  by (rule moves_step) (auto intro: move.quiet)

lemma moves_keep:
  assumes "moves e P s s'" and "Q s" and "\<And>mv s s'. P mv \<Longrightarrow> move e mv s s' \<Longrightarrow> Q s \<Longrightarrow> Q s'"
  shows "Q s'"
  using assms(1) unfolding moves_def by (induction rule: rtranclp_induct) (use assms(2,3) in blast)+

lemma granted_log [simp]:
  "granted_tokens (log_event e v s) = granted_tokens s \<union> (case v of Ev_grant tok \<Rightarrow> {tok} | _ \<Rightarrow> {})"
  "granted_tokens (s\<lparr>us_instances := x\<rparr>) = granted_tokens s"
  by (auto simp: granted_tokens_def log_event_def split: unit_event.splits)

lemma moves_release: "(\<And>rid. P (Mv_release rid)) \<Longrightarrow> moves e P s (snd (release_reservation e rid why s))"
  by (auto simp: release_reservation_def Let_def split: option.splits intro!: moves_step [OF _ move.release] simp: is_grant_def)

lemma moves_consume: "(\<And>rid. P (Mv_consume rid)) \<Longrightarrow> moves e P s (snd (consume_reservation e rid s))"
  by (auto simp: consume_reservation_def split: option.splits unit_state.splits intro!: moves_step [OF _ move.consume] simp: is_grant_def)

lemma moves_release_each: "(\<And>rid. P (Mv_release rid)) \<Longrightarrow> moves e P s (snd (release_each e quiet why rids n s))"
proof (induction rids arbitrary: n s)
  case (Cons rid rids)
  note one = moves_release [of P e s rid why, OF Cons.prems] and rest = Cons.IH [OF Cons.prems]
  show ?case using one moves_trans [OF one rest] by (auto split: prod.splits sum.splits)
qed simp

lemma moves_consume_each: "(\<And>rid. P (Mv_consume rid)) \<Longrightarrow> moves e P s (snd (consume_each e rids n s))"
proof (induction rids arbitrary: n s)
  case (Cons rid rids)
  note one = moves_consume [of P e s rid, OF Cons.prems] and rest = Cons.IH [OF Cons.prems]
  show ?case using one moves_trans [OF one rest] by (auto split: prod.splits sum.splits)
qed simp

lemma moves_bind: "(\<And>rid. P (Mv_bind rid)) \<Longrightarrow> moves e P s (snd (bind_reservation_effect e rid effect s))"
  by (auto simp: bind_reservation_effect_def split: option.splits intro!: moves_step [OF _ move.bind])

lemma moves_orphans: "(\<And>rid. P (Mv_release rid)) \<Longrightarrow> stale_rows rows s \<Longrightarrow> moves e P s (release_orphans e rows s)"
proof (induction rows arbitrary: s)
  case (Cons p rows)
  obtain rid row where p: "p = (rid, row)" by fastforce
  note st = stale_rows_step [OF Cons.prems(2) [unfolded p]]
  have "\<not> is_grant (Ev_reconciled rid (rv_units row))" by (simp add: is_grant_def)
  from moves_trans [OF moves_step [where P = P, OF Cons.prems(1) move.release [OF st(1,2) this]] Cons.IH [OF Cons.prems(1) st(3)]]
  show ?case by (simp add: p)
qed simp

lemma moves_reconcile:
  assumes "\<And>rid. P (Mv_release rid)" "wf_dict (us_reservations s)"
  shows "moves e P s (snd (snd (reconcile_stale_reservations e force p s)))"
  using moves_orphans [where P = P, OF assms(1) stale_rows_filter [OF assms(2)]] by (simp add: reconcile_stale_reservations_def Let_def)

lemma moves_transaction:
  assumes P: "P Mv_quiet" "P (Mv_insert (''ebr:'' @ ev_token e))" and u: "1 \<le> u"
  shows "moves e P s (snd (snd (reserve_transaction e c effect owner i u p s)))"
proof -
  obtain inst p' s' where ci: "current_instance e p s = (inst, p', s')" by (metis prod_cases3)
  then have q: "moves e P s s'" "moves e P s (log_event e (Ev_refused r n m) s')" for r n m
    using P by (auto simp: current_instance_def frame_simps Let_def split: prod.splits option.splits intro!: moves_quiet)
  from moves_trans [OF q(1) moves_step [where P = P, OF P(2) move.insert [OF _ u]]] q show ?thesis
    by (auto simp: reserve_transaction_def ci Let_def split: option.splits prod.splits)
qed

lemma moves_reserve:
  assumes "P Mv_quiet" "\<And>rid. P (Mv_release rid)" "P (Mv_insert (''ebr:'' @ ev_token e))" "wf_dict (us_reservations s)"
  shows "moves e P s (snd (snd (reserve_effect_units e cls effect owner i u p s)))"
proof -
  obtain r p1 s1 where rec: "reconcile_stale_reservations e False p s = (r, p1, s1)" by (metis prod_cases3)
  from moves_reconcile [where P = P and e = e and force = False and p = p, OF assms(2,4)] rec have "moves e P s s1" by simp
  from moves_trans [OF this moves_transaction [where P = P, OF assms(1,3)]] show ?thesis
    by (auto simp: reserve_effect_units_def rec Let_def split: option.splits)
qed

lemma moves_cost:
  assumes "P Mv_quiet" "wf_dict (us_reservations s)"
    and "\<And>rec. fst (reconcile_effect_cost e effect rid actual s) = Inr rec \<Longrightarrow> 0 < co_delta rec \<Longrightarrow> P (Mv_charge (co_reservation rec) (co_over_limit rec))"
  shows "moves e P s (snd (reconcile_effect_cost e effect rid actual s))"
proof -
  have q: "moves e P s' (log_event e (Ev_cost k n b) s')" for k n b s'
    using assms(1) by (auto simp: frame_simps intro!: moves_quiet)
  show ?thesis
  proof (cases "consumed_row effect rid s")
    case (Some kr)
    obtain k row where kr: "kr = (k, row)" by fastforce
    note row = consumed_row_Some [OF Some [unfolded kr] assms(2)]
    show ?thesis
      using Some kr row q assms(3) moves_trans [OF moves_step [where P = P, OF _ move.charge] q]
      by (auto simp: reconcile_effect_cost_def Let_def)
  qed (use q in \<open>auto simp: reconcile_effect_cost_def\<close>)
qed

definition op_env :: "unit_op \<Rightarrow> unit_env" where
  "op_env x = (case x of
     U_Reserve e cls effect owner i u \<Rightarrow> e | U_Bind e rid effect \<Rightarrow> e | U_Consume e rid \<Rightarrow> e | U_Release e rid why \<Rightarrow> e
   | U_Release_owner e owner why quiet \<Rightarrow> e | U_Release_effect e effect why \<Rightarrow> e | U_Consume_effect e effect cls \<Rightarrow> e
   | U_Cost e effect rid actual \<Rightarrow> e | U_Reconcile e force \<Rightarrow> e | U_Shutdown e \<Rightarrow> e | U_Grant e \<Rightarrow> e | U_Adjust e token as \<Rightarrow> e
   | U_Exit e \<Rightarrow> e | U_Fork e child \<Rightarrow> e)"

definition operator_op :: "unit_op \<Rightarrow> bool" where
  "operator_op x = (case x of U_Grant e \<Rightarrow> True | U_Adjust e token as \<Rightarrow> True | _ \<Rightarrow> False)"

definition may_move :: "unit_op \<Rightarrow> unit_system \<Rightarrow> unit_move \<Rightarrow> bool" where
  "may_move x sy mv = (case mv of
     Mv_insert rid \<Rightarrow> (case x of U_Reserve e cls effect owner i u \<Rightarrow> rid = ''ebr:'' @ ev_token e | _ \<Rightarrow> False)
   | Mv_charge rid over \<Rightarrow> (case x of
        U_Cost e effect r actual \<Rightarrow> (case fst (reconcile_effect_cost e effect r actual (sy_store sy)) of
            Inr rec \<Rightarrow> 0 < co_delta rec \<and> rid = co_reservation rec \<and> over = co_over_limit rec | Inl _ \<Rightarrow> False)
      | _ \<Rightarrow> False)
   | _ \<Rightarrow> True)"

lemma moves_shutdown: "P Mv_quiet \<Longrightarrow> moves e P s (shutdown_instance e p s)"
  by (auto simp: shutdown_instance_def frame_simps split: option.splits intro!: moves_quiet)

lemma moves_owner: "(\<And>rid. P (Mv_release rid)) \<Longrightarrow> moves e P s (snd (release_unconsumed_for_owner e owner why quiet s))"
  by (auto simp: release_unconsumed_for_owner_def intro: moves_release_each)

lemma moves_release_effect: "(\<And>rid. P (Mv_release rid)) \<Longrightarrow> moves e P s (snd (release_effect_reservations e effect why s))"
  by (auto simp: release_effect_reservations_def intro: moves_release_each)

lemma moves_consume_effect: "(\<And>rid. P (Mv_consume rid)) \<Longrightarrow> moves e P s (snd (consume_effect_reservations e effect cls s))"
  by (auto simp: consume_effect_reservations_def Let_def intro: moves_consume_each)

lemma step_moves:
  assumes "wf_dict (us_reservations (sy_store sy))" "\<not> operator_op x"
  shows "moves (op_env x) (may_move x sy) (sy_store sy) (sy_store (unit_step x sy))"
proof (cases x)
  case (U_Cost e effect rid actual)
  then show ?thesis using assms(1)
    by (simp only: unit_step_store unit_op.case op_env_def, intro moves_cost) (simp_all add: may_move_def)
qed (use assms in \<open>simp_all only: unit_step_store unit_op.case op_env_def\<close>,
   auto simp: may_move_def operator_op_def intro!: moves_reserve moves_bind moves_consume moves_release moves_owner moves_release_effect
     moves_consume_effect moves_reconcile moves_shutdown)

lemma unit_inv_move: "move e mv s s' \<Longrightarrow> unit_inv s \<Longrightarrow> unit_inv s'"
proof (induction rule: move.induct)
  case (quiet s' s)
  then show ?case by (simp add: unit_inv_def rows_ok_def counters_ok_def)
next
  case (insert s rid u c i effect owner inst)
  then have "row_ok (new_reservation e c effect owner i u inst (rules_for c s))"
    by (simp add: row_ok_def new_reservation_def unit_inv_def snapshot_rules_for)
  with insert show ?case by (intro unit_inv_insert) (simp_all add: new_reservation_def)
qed (simp_all add: unit_inv_bound unit_inv_release_row unit_inv_consume_row unit_inv_charge)

lemma unit_inv_step: "unit_inv (sy_store sy) \<Longrightarrow> unit_inv (sy_store (unit_step x sy))"
proof (cases "operator_op x")
  case True
  then show "unit_inv (sy_store sy) \<Longrightarrow> ?thesis"
    by (cases x) (simp_all add: operator_op_def unit_inv_adjust unit_inv_grant)
next
  case False
  assume inv: "unit_inv (sy_store sy)"
  then have "wf_dict (us_reservations (sy_store sy))" by (simp add: unit_inv_def rows_ok_def)
  from moves_keep [where Q = unit_inv, OF step_moves [OF this False] inv] show ?thesis using unit_inv_move by blast
qed

lemma unit_inv_empty: "unit_inv (sy_store empty_units)"
  by (simp add: unit_inv_def rows_ok_def counters_ok_def empty_units_def counter_read_def)

lemma unit_inv_run: "unit_inv (sy_store sy) \<Longrightarrow> unit_inv (sy_store (fold unit_step xs sy))"
  by (induction xs arbitrary: sy) (simp_all add: unit_inv_step)

section \<open>The loop over the rules\<close>

definition rule_fails :: "time \<Rightarrow> unit_identity \<Rightarrow> int \<Rightarrow> unit_store \<Rightarrow> unit_rule \<Rightarrow> bool" where
  "rule_fails now i u s r \<longleftrightarrow> (case scope_key r i of None \<Rightarrow> False | Some key \<Rightarrow> unit_usage now r key s + u > ur_limit r)"

lemma check_unit_rules_find:
  "fst (check_unit_rules now i u s rs (f, us)) = (case f of Some q \<Rightarrow> Some q | None \<Rightarrow> find (rule_fails now i u s) rs)"
  by (induction rs arbitrary: f us) (auto simp: rule_fails_def Let_def split: option.splits)

lemma check_unit_rules_None:
  "fst (check_unit_rules now i u s rs (None, [])) = None \<longleftrightarrow> (\<forall>r\<in>set rs. \<not> rule_fails now i u s r)"
  by (auto simp: check_unit_rules_find find_None_iff)

section \<open>Ceilings\<close>

abbreviation total_units :: "unit_store \<Rightarrow> counter_key \<Rightarrow> int" where
  "total_units s k \<equiv> counter_read (us_counters s) k Reserved_units + counter_read (us_counters s) k Consumed_units"

lemma counter_read_adjust:
  assumes "row_ok row" "n = 1 \<or> n = -1"
  shows "counter_read (us_counters (counter_adjust e row n f s)) k f'
     = counter_read (us_counters s) k f' + (if k \<in> set (touched_counters row) \<and> f' = f then n * rv_units row else 0)"
  using assms(2) distinct_touched [OF assms(1)]
  by (auto simp: counter_adjust_def counter_adjust_fold counter_read_fold)

lemma total_settle:
  assumes "row_ok row"
  shows "total_units (settle_reservation e st why rid row s) k = total_units s k - (if k \<in> set (touched_counters row) then rv_units row else 0)"
  using counter_read_adjust [OF assms, of "-1" e Reserved_units] by (simp add: settle_reservation_def)

lemma total_consume:
  assumes "row_ok row"
  shows "total_units (counter_adjust e row 1 Consumed_units (settle_reservation e st why rid row s)) k = total_units s k"
  using total_settle [OF assms, of e st why rid s k] counter_read_adjust [OF assms, of 1 e Consumed_units]
  by (cases "k \<in> set (touched_counters row)") simp_all

lemma total_insert:
  assumes "unit_inv s" "dict_get (us_reservations s) rid = None" "row_ok row" "rv_state row = Unit_Reserved"
  shows "total_units (insert_reservation e rid row s) k = total_units s k + (if k \<in> set (touched_counters row) then rv_units row else 0)"
proof -
  let ?s = "log_event e (Ev_reserved rid (rv_units row)) (counter_adjust e row 1 Reserved_units (s\<lparr>us_reservations := dict_set rid row (us_reservations s)\<rparr>))"
  have "unit_inv ?s" using unit_inv_insert_unpruned [OF assms] by simp
  from counter_read_prune [OF this] show ?thesis
    using counter_read_adjust [OF assms(3), of 1 e Reserved_units] by (simp add: insert_reservation_def frame_simps)
qed

lemma total_charge:
  assumes "row_ok row"
  shows "total_units (charge_delta e rid row actual s) k = total_units s k + (if k \<in> set (touched_counters row) then actual - rv_units row else 0)"
  using distinct_touched [OF assms] by (simp add: charge_delta_def counter_adjust_fold counter_read_fold)

definition snapshots_current :: "unit_store \<Rightarrow> bool" where
  "snapshots_current s \<longleftrightarrow> list_all (\<lambda>(rid, row). rv_rules row = rules_for (rv_class row) s) (us_reservations s)"

definition units_within :: "unit_store \<Rightarrow> bool" where
  "units_within s \<longleftrightarrow> (\<forall>c. \<forall>r\<in>set (rules_for c s). ur_scope r \<noteq> Us_Window \<longrightarrow> (\<forall>key. total_units s (c, ur_scope r, key) \<le> ur_limit r))"

definition unit_good :: "unit_store \<Rightarrow> bool" where
  "unit_good s \<longleftrightarrow> unit_inv s \<and> snapshots_current s \<and> units_within s"

lemma rules_move: "move e mv s s' \<Longrightarrow> us_rules s' = us_rules s"
  by (induction rule: move.induct) (simp_all add: frame_simps insert_reservation_def)

lemma reservations_insert:
  "us_reservations (insert_reservation e rid row s)
     = filter (\<lambda>(rid, row). \<not> (rv_state row \<noteq> Unit_Reserved \<and> rv_created row < ev_now e - reservation_retention)) (dict_set rid row (us_reservations s))"
  by (simp add: insert_reservation_def prune_stores_def frame_simps)

lemma reservations_charge:
  "us_reservations (charge_delta e rid row actual s) = dict_set rid (row\<lparr>rv_units := actual, rv_active := ev_now e\<rparr>) (us_reservations s)"
  by (simp add: charge_delta_def)

text \<open>Where a move puts a row, it is the row that stood there with some of its fields changed, or a new one.\<close>

lemma move_rows:
  assumes "move e mv s s'" "wf_dict (us_reservations s)" "dict_get (us_reservations s') rid = Some row'"
  shows "(\<exists>row. dict_get (us_reservations s) rid = Some row \<and> rv_rules row' = rv_rules row \<and> rv_class row' = rv_class row
            \<and> rv_identity row' = rv_identity row \<and> rv_created row' = rv_created row \<and> rv_instance row' = rv_instance row
            \<and> (rv_active row' = rv_active row \<or> rv_active row' = ev_now e)
            \<and> (rv_units row' = rv_units row \<or> (\<exists>over. mv = Mv_charge rid over) \<and> rv_units row < rv_units row')
            \<and> (rv_state row' = rv_state row \<or> rv_state row = Unit_Reserved))
     \<or> mv = Mv_insert rid \<and> dict_get (us_reservations s) rid = None \<and> rv_rules row' = rules_for (rv_class row') s
         \<and> rv_state row' = Unit_Reserved \<and> rv_created row' = ev_now e \<and> rv_active row' = ev_now e"
  using assms
proof (cases rule: move.cases)
  case (insert rid' u c i effect owner inst)
  then have "dict_get (dict_set rid' (new_reservation e c effect owner i u inst (rules_for c s)) (us_reservations s)) rid = Some row'"
    using assms(2,3) by (auto simp: reservations_insert dict_get_filter split: option.splits if_splits)
  with insert show ?thesis by (auto simp: new_reservation_def split: if_splits)
qed (auto simp: frame_simps settled_row_def reservations_charge split: if_splits)

lemma snapshots_move:
  assumes "move e mv s s'" "snapshots_current s" "wf_dict (us_reservations s)" "wf_dict (us_reservations s')"
  shows "snapshots_current s'"
proof -
  have rf: "rules_for c s' = rules_for c s" for c by (rule rules_for_cong) (rule rules_move [OF assms(1)])
  have "rv_rules row' = rules_for (rv_class row') s" if mem: "(rid, row') \<in> set (us_reservations s')" for rid row'
  proof -
    have old: "rv_rules row = rules_for (rv_class row) s" if "dict_get (us_reservations s) rid = Some row" for row
      using assms(2) dict_get_mem [OF that] by (auto simp: snapshots_current_def list_all_iff)
    consider row where "dict_get (us_reservations s) rid = Some row" "rv_rules row' = rv_rules row" "rv_class row' = rv_class row"
      | "rv_rules row' = rules_for (rv_class row') s"
      using move_rows [OF assms(1,3) dict_mem_get [OF assms(4) mem]] by blast
    then show ?thesis using old by cases simp_all
  qed
  then show ?thesis by (auto simp: snapshots_current_def rf list_all_iff)
qed

lemma within_move_le:
  assumes "units_within s" "us_rules s' = us_rules s" "\<And>k. total_units s' k \<le> total_units s k"
  shows "units_within s'"
proof -
  have rf: "rules_for c s' = rules_for c s" for c by (rule rules_for_cong [OF assms(2)])
  have "total_units s' (c, ur_scope r, key) \<le> ur_limit r"
    if "r \<in> set (rules_for c s)" "ur_scope r \<noteq> Us_Window" for c r key
    using assms(1) assms(3) [of "(c, ur_scope r, key)"] that unfolding units_within_def by (meson order_trans)
  then show ?thesis by (simp add: units_within_def rf)
qed

lemma touched_rule:
  "k \<in> set (touched_counters row) \<longleftrightarrow> (\<exists>r\<in>set (rv_rules row). ur_scope r \<noteq> Us_Window
     \<and> (\<exists>key. scope_key r (rv_identity row) = Some key \<and> k = (ur_class r, ur_scope r, key)))"
  by (cases k) (auto simp: touched_counters_def touched_by_iff)

lemma same_scope_same_rule:
  assumes "snapshot_ok c rs" "r \<in> set rs" "q \<in> set rs" "ur_scope r = ur_scope q" "ur_scope r \<noteq> Us_Window"
  shows "r = q"
proof -
  from assms have "(ur_scope r, ur_window r) = (ur_scope q, ur_window q)" by (auto simp: snapshot_ok_def)
  with assms(1-3) show ?thesis unfolding snapshot_ok_def distinct_map by (auto dest: inj_onD)
qed

lemma within_insert:
  assumes good: "unit_inv s" "units_within s" and new: "dict_get (us_reservations s) rid = None" and u: "1 \<le> u"
    and ok: "fst (check_unit_rules (ev_now e) i u s (rules_for c s) (None, [])) = None"
  shows "units_within (insert_reservation e rid (new_reservation e c effect owner i u inst (rules_for c s)) s)"
    (is "units_within ?s")
proof -
  let ?row = "new_reservation e c effect owner i u inst (rules_for c s)"
  from good(1) have rows: "rows_ok s" by (simp add: unit_inv_def)
  have row: "row_ok ?row" "rv_state ?row = Unit_Reserved"
    using u snapshot_rules_for [OF rows] by (simp_all add: row_ok_def new_reservation_def)
  note total = total_insert [OF good(1) new row]
  have rf: "rules_for c' ?s = rules_for c' s" for c' by (rule rules_for_cong) (simp add: insert_reservation_def frame_simps)
  have "total_units ?s (c', ur_scope r, key) \<le> ur_limit r"
    if r: "r \<in> set (rules_for c' s)" "ur_scope r \<noteq> Us_Window" for c' r key
  proof (cases "(c', ur_scope r, key) \<in> set (touched_counters ?row)")
    case True
    then obtain q where q: "q \<in> set (rules_for c s)" "scope_key q i = Some key" "ur_class q = c'" "ur_scope q = ur_scope r"
      by (auto simp: touched_rule new_reservation_def)
    then have "c' = c" by (auto simp: rules_for_mem)
    then have "r = q"
      using same_scope_same_rule [OF snapshot_rules_for [OF rows, of c]] r q by simp
    with ok q r(2) have "unit_usage (ev_now e) r key s + u \<le> ur_limit r"
      by (auto simp: check_unit_rules_None rule_fails_def split: option.splits)
    moreover have "ur_class r = c'" using q(3) \<open>r = q\<close> by blast
    moreover have "rv_units ?row = u" by (simp add: new_reservation_def)
    ultimately show ?thesis using True r(2) by (simp only: total if_True unit_usage_def if_False)
  next
    case False
    have "total_units s (c', ur_scope r, key) \<le> ur_limit r" using good(2) r unfolding units_within_def by blast
    with False show ?thesis by (simp add: total)
  qed
  then show ?thesis by (simp add: units_within_def rf)
qed

lemma within_charge:
  assumes good: "unit_inv s" "snapshots_current s" "units_within s"
    and row: "dict_get (us_reservations s) rid = Some row" "rv_state row = Unit_Consumed" "rv_units row < actual"
    and ok: "\<not> over_limit (ev_now e) row (charge_delta e rid row actual s)" (is "\<not> over_limit _ _ ?s")
  shows "units_within ?s"
proof -
  from good(1) have rows: "rows_ok s" by (simp add: unit_inv_def)
  note total = total_charge [OF rows_ok_row [OF rows row(1)]]
  have snap: "rv_rules row = rules_for (rv_class row) s"
    using good(2) dict_get_mem [OF row(1)] by (auto simp: snapshots_current_def list_all_iff)
  have rf: "rules_for c' ?s = rules_for c' s" for c' by (rule rules_for_cong) (simp add: frame_simps)
  have "total_units ?s (c, ur_scope r, key) \<le> ur_limit r"
    if r: "r \<in> set (rules_for c s)" "ur_scope r \<noteq> Us_Window" for c r key
  proof (cases "(c, ur_scope r, key) \<in> set (touched_counters row)")
    case True
    then obtain q where q: "q \<in> set (rules_for (rv_class row) s)" "scope_key q (rv_identity row) = Some key"
        "ur_class q = c" "ur_scope q = ur_scope r"
      by (auto simp: touched_rule snap)
    then have "c = rv_class row" by (auto simp: rules_for_mem)
    then have "r = q"
      using same_scope_same_rule [OF snapshot_rules_for [OF rows, of "rv_class row"]] r q by simp
    with ok q snap have "unit_usage (ev_now e) r key ?s \<le> ur_limit r"
      by (auto simp: over_limit_def list_ex_iff scope_key_for_reservation_def split: option.splits)
    moreover have "ur_class r = c" using q(3) \<open>r = q\<close> by blast
    ultimately show ?thesis using r(2) by (simp only: unit_usage_def if_False)
  next
    case False
    have "total_units s (c, ur_scope r, key) \<le> ur_limit r" using good(3) r unfolding units_within_def by blast
    with False show ?thesis by (simp add: total)
  qed
  then show ?thesis by (simp add: units_within_def rf)
qed

lemma unit_good_move:
  assumes "move e mv s s'" "unit_good s" "\<And>rid. mv \<noteq> Mv_charge rid True"
  shows "unit_good s'"
proof -
  from assms(2) have inv: "unit_inv s" and snap: "snapshots_current s" and within: "units_within s"
    by (auto simp: unit_good_def)
  have inv': "unit_inv s'" by (rule unit_inv_move [OF assms(1) inv])
  have wf: "wf_dict (us_reservations s)" "wf_dict (us_reservations s')" using inv inv' by (simp_all add: unit_inv_def rows_ok_def)
  have row: "row_ok row" if "dict_get (us_reservations s) rid = Some row" for rid row
    using rows_ok_row [OF _ that] inv by (simp add: unit_inv_def)
  have "units_within s'"
    using assms(1)
  proof cases
    case (charge rid row actual over)
    with assms(3) have "\<not> over_limit (ev_now e) row (charge_delta e rid row actual s)" by (cases over) auto
    with charge within_charge [OF inv snap within charge(3-5)] show ?thesis by simp
  next
    case (insert rid u c i effect owner inst)
    then show ?thesis using within_insert [OF inv within] by simp
  next
    case (release rid row v why)
    then have "0 \<le> rv_units row" using row [of rid row] by (simp add: row_ok_def)
    with release show ?thesis
      by (intro within_move_le [OF within]) (simp_all add: frame_simps total_settle row)
  next
    case (consume rid row v why)
    then show ?thesis by (intro within_move_le [OF within]) (simp_all add: frame_simps total_consume row)
  qed (use within in \<open>auto intro!: within_move_le [OF within]\<close>)
  then show ?thesis by (simp add: unit_good_def inv' snapshots_move [OF assms(1) snap wf])
qed

end
