(* ===== verification/Effect_Budget_Safety.thy ===== *)
theory Effect_Budget_Safety
  imports Effect_Budget_Laws
begin

section \<open>Windows\<close>

definition window_units :: "unit_class \<Rightarrow> time \<Rightarrow> time \<Rightarrow> time \<Rightarrow> unit_reservation \<Rightarrow> int" where
  "window_units c w lo hi row = (if rv_class row = c \<and> rv_state row \<noteq> Unit_Released \<and> lo \<le> rv_created row \<and> rv_created row \<le> hi
     \<and> list_ex (\<lambda>q. ur_scope q = Us_Window \<and> ur_window q = w) (rv_rules row) then rv_units row else 0)"

definition windows_ok :: "unit_store \<Rightarrow> bool" where
  "windows_ok s \<longleftrightarrow> (\<forall>c. \<forall>r\<in>set (rules_for c s). ur_scope r = Us_Window \<longrightarrow>
     (\<forall>t. dict_sum (window_units c (ur_window r) (t - ur_window r) t) (us_reservations s) \<le> ur_limit r))"

definition dated :: "time \<Rightarrow> unit_store \<Rightarrow> bool" where
  "dated clk s \<longleftrightarrow> list_all (\<lambda>(rid, row). rv_created row \<le> rv_active row \<and> rv_created row \<le> clk) (us_reservations s)"

definition windows_good :: "time \<Rightarrow> unit_store \<Rightarrow> bool" where
  "windows_good clk s \<longleftrightarrow> unit_inv s \<and> snapshots_current s \<and> windows_ok s \<and> dated clk s"

lemma window_units_nonneg: "row_ok row \<Longrightarrow> 0 \<le> window_units c w lo hi row"
  by (simp add: window_units_def row_ok_def)

lemma dated_move:
  assumes "move e mv s s'" "dated clk s" "clk \<le> ev_now e" "wf_dict (us_reservations s)" "wf_dict (us_reservations s')"
  shows "dated (ev_now e) s'"
proof -
  have "rv_created row' \<le> rv_active row' \<and> rv_created row' \<le> ev_now e" if mem: "(rid, row') \<in> set (us_reservations s')" for rid row'
  proof -
    have old: "rv_created row \<le> rv_active row \<and> rv_created row \<le> clk" if "dict_get (us_reservations s) rid = Some row" for row
      using assms(2) dict_get_mem [OF that] by (auto simp: dated_def list_all_iff)
    consider row where "dict_get (us_reservations s) rid = Some row" "rv_created row' = rv_created row"
        "rv_active row' = rv_active row \<or> rv_active row' = ev_now e"
      | "rv_created row' = ev_now e" "rv_active row' = ev_now e"
      using move_rows [OF assms(1,4) dict_mem_get [OF assms(5) mem]] by blast
    then show ?thesis using old assms(3) by cases force+
  qed
  then show ?thesis by (auto simp: dated_def list_all_iff)
qed

lemma windows_le:
  assumes "windows_ok s" "us_rules s' = us_rules s"
    and "\<And>c w lo hi. dict_sum (window_units c w lo hi) (us_reservations s') \<le> dict_sum (window_units c w lo hi) (us_reservations s)"
  shows "windows_ok s'"
proof -
  have rf: "rules_for c s' = rules_for c s" for c by (rule rules_for_cong [OF assms(2)])
  have "dict_sum (window_units c (ur_window r) (t - ur_window r) t) (us_reservations s') \<le> ur_limit r"
    if "r \<in> set (rules_for c s)" "ur_scope r = Us_Window" for c r t
    using assms(1) assms(3) that unfolding windows_ok_def by (meson order_trans)
  then show ?thesis by (simp add: windows_ok_def rf)
qed

lemma windows_set_le:
  assumes ok: "windows_ok s" and wf: "wf_dict (us_reservations s)" and row: "dict_get (us_reservations s) rid = Some row"
    and res: "us_reservations s' = dict_set rid row' (us_reservations s)" and rules: "us_rules s' = us_rules s"
    and le: "\<And>c w lo hi. window_units c w lo hi row' \<le> window_units c w lo hi row"
  shows "windows_ok s'"
  by (rule windows_le [OF ok rules]) (simp add: res dict_sum_set [OF wf] row le)

lemma windows_insert:
  assumes good: "windows_good clk s" and new: "dict_get (us_reservations s) rid = None" and u: "1 \<le> u"
    and now: "clk \<le> ev_now e"
    and ok: "fst (check_unit_rules (ev_now e) i u s (rules_for c s) (None, [])) = None"
  shows "windows_ok (insert_reservation e rid (new_reservation e c effect owner i u inst (rules_for c s)) s)"
    (is "windows_ok ?s")
proof -
  let ?row = "new_reservation e c effect owner i u inst (rules_for c s)"
  from good have rows: "rows_ok s" and wok: "windows_ok s" and dt: "dated clk s" by (auto simp: windows_good_def unit_inv_def)
  then have wf: "wf_dict (us_reservations s)" by (simp add: rows_ok_def)
  have row: "row_ok ?row"
    using u snapshot_rules_for [OF rows] by (simp add: row_ok_def new_reservation_def)
  have nonneg: "0 \<le> window_units c' w lo hi v" if "v \<in> snd ` set (dict_set rid ?row (us_reservations s))" for c' w lo hi v
    using that rows_okD [OF rows] row by (auto simp: set_dict_set [OF wf] intro!: window_units_nonneg)
  have le: "dict_sum (window_units c' w lo hi) (us_reservations ?s)
      \<le> dict_sum (window_units c' w lo hi) (us_reservations s) + window_units c' w lo hi ?row" for c' w lo hi
    using dict_sum_filter_le [OF nonneg, of "dict_set rid ?row (us_reservations s)"]
    by (simp add: reservations_insert dict_sum_set [OF wf] new)
  have rf: "rules_for c' ?s = rules_for c' s" for c' by (rule rules_for_cong) (simp add: insert_reservation_def frame_simps)
  have "dict_sum (window_units c' (ur_window r) (t - ur_window r) t) (us_reservations ?s) \<le> ur_limit r"
    if r: "r \<in> set (rules_for c' s)" "ur_scope r = Us_Window" for c' r t
  proof (cases "window_units c' (ur_window r) (t - ur_window r) t ?row = 0")
    case True
    have "dict_sum (window_units c' (ur_window r) (t - ur_window r) t) (us_reservations s) \<le> ur_limit r"
      using wok r unfolding windows_ok_def by blast
    with le [of c' "ur_window r" "t - ur_window r" t] True show ?thesis by linarith
  next
    case False
    then have c: "c' = c" and t: "ev_now e \<le> t" and units: "window_units c' (ur_window r) (t - ur_window r) t ?row = u"
      by (auto simp: window_units_def new_reservation_def split: if_splits)
    from r(1) have rc: "ur_class r = c'" by (auto simp: rules_for_mem)
    have "dict_sum (window_units c' (ur_window r) (t - ur_window r) t) (us_reservations s) \<le> unit_usage (ev_now e) r key s" for key
      unfolding unit_usage_def if_P [OF r(2)]
    proof (rule dict_sum_mono)
      fix k v assume kv: "(k, v) \<in> set (us_reservations s)"
      then have "rv_created v \<le> rv_active v" "0 \<le> rv_units v"
        using dt rows_okD [OF rows kv] by (auto simp: dated_def list_all_iff row_ok_def)
      then show "window_units c' (ur_window r) (t - ur_window r) t v
          \<le> (if rv_class v = ur_class r \<and> rv_state v \<noteq> Unit_Released \<and> rv_active v \<ge> ev_now e - ur_window r
             \<and> list_ex (\<lambda>q. ur_scope q = Us_Window \<and> ur_window q = ur_window r) (rv_rules v) then rv_units v else 0)"
        using t by (auto simp: window_units_def rc)
    qed
    moreover have "\<not> rule_fails (ev_now e) i u s r" using ok r(1) c by (simp add: check_unit_rules_None)
    then have "unit_usage (ev_now e) r (window_text (ur_window r)) s + u \<le> ur_limit r"
      using r(2) by (simp add: rule_fails_def scope_key_def)
    ultimately show ?thesis using le [of c' "ur_window r" "t - ur_window r" t] units by (smt (verit))
  qed
  then show ?thesis by (simp add: windows_ok_def rf)
qed

lemma windows_good_move:
  assumes "move e mv s s'" "windows_good clk s" "clk \<le> ev_now e" "\<And>rid over. mv \<noteq> Mv_charge rid over"
  shows "windows_good (ev_now e) s'"
proof -
  from assms(2) have inv: "unit_inv s" and snap: "snapshots_current s" and ok: "windows_ok s" and dt: "dated clk s"
    by (auto simp: windows_good_def)
  have inv': "unit_inv s'" by (rule unit_inv_move [OF assms(1) inv])
  have wf: "wf_dict (us_reservations s)" "wf_dict (us_reservations s')" using inv inv' by (simp_all add: unit_inv_def rows_ok_def)
  have nonneg: "0 \<le> rv_units row" if "dict_get (us_reservations s) rid = Some row" for rid row
    using rows_ok_row [OF _ that] inv by (simp add: unit_inv_def row_ok_def)
  have "windows_ok s'"
    using assms(1)
  proof cases
    case (insert rid u c i effect owner inst)
    then show ?thesis using windows_insert [OF assms(2) _ _ assms(3)] by simp
  next
    case (release rid row v why)
    show ?thesis
      by (rule windows_set_le [OF ok wf(1) release(3)]) (use nonneg [OF release(3)] in \<open>auto simp: release frame_simps window_units_def settled_row_def\<close>)
  next
    case (consume rid row v why)
    show ?thesis
      by (rule windows_set_le [OF ok wf(1) consume(3)]) (auto simp: consume frame_simps window_units_def settled_row_def)
  next
    case (bind rid row effect)
    show ?thesis by (rule windows_set_le [OF ok wf(1) bind(3)]) (auto simp: bind window_units_def)
  next
    case quiet
    then show ?thesis by (auto intro: windows_le [OF ok])
  qed (use assms(4) in blast)
  then show ?thesis
    by (simp add: windows_good_def inv' snapshots_move [OF assms(1) snap wf] dated_move [OF assms(1) dt assms(3) wf])
qed

section \<open>Runs\<close>

definition reports_overage :: "unit_op \<Rightarrow> unit_system \<Rightarrow> bool" where
  "reports_overage x sy = (case x of
     U_Cost e effect rid actual \<Rightarrow> (case fst (reconcile_effect_cost e effect rid actual (sy_store sy)) of
        Inr rec \<Rightarrow> co_over_limit rec | Inl _ \<Rightarrow> False)
   | _ \<Rightarrow> False)"

definition raises_cost :: "unit_op \<Rightarrow> unit_system \<Rightarrow> bool" where
  "raises_cost x sy = (case x of
     U_Cost e effect rid actual \<Rightarrow> (case fst (reconcile_effect_cost e effect rid actual (sy_store sy)) of
        Inr rec \<Rightarrow> 0 < co_delta rec | Inl _ \<Rightarrow> False)
   | _ \<Rightarrow> False)"

definition silent_participant :: "unit_op \<Rightarrow> unit_system \<Rightarrow> bool" where
  "silent_participant x sy \<longleftrightarrow> \<not> operator_op x \<and> \<not> reports_overage x sy"

lemma unit_good_step:
  assumes "unit_good (sy_store sy)" "silent_participant x sy"
  shows "unit_good (sy_store (unit_step x sy))"
proof -
  have wf: "wf_dict (us_reservations (sy_store sy))" using assms(1) by (simp add: unit_good_def unit_inv_def rows_ok_def)
  have no: "\<not> operator_op x" using assms(2) by (simp add: silent_participant_def)
  have "\<not> may_move x sy (Mv_charge rid True)" for rid
    using assms(2) by (auto simp: may_move_def silent_participant_def reports_overage_def split: unit_op.splits sum.splits)
  then show ?thesis
    by (intro moves_keep [where Q = unit_good, OF step_moves [OF wf no] assms(1)]) (metis unit_good_move)
qed

interpretation unit_run: lawful_system unit_step silent_participant "\<lambda>sy. unit_good (sy_store sy)"
  by unfold_locales (rule unit_good_step)

definition clocked_step :: "unit_op \<Rightarrow> unit_system \<times> time \<Rightarrow> unit_system \<times> time" where
  "clocked_step x = (\<lambda>(sy, clk). (unit_step x sy, ev_now (op_env x)))"

definition clocked_participant :: "unit_op \<Rightarrow> unit_system \<times> time \<Rightarrow> bool" where
  "clocked_participant x = (\<lambda>(sy, clk). clk \<le> ev_now (op_env x) \<and> \<not> operator_op x \<and> \<not> raises_cost x sy)"

lemma windows_good_later: "windows_good clk s \<Longrightarrow> clk \<le> clk' \<Longrightarrow> windows_good clk' s"
  by (fastforce simp: windows_good_def dated_def list_all_iff)

lemma windows_good_step:
  assumes "windows_good clk (sy_store sy)" "clocked_participant x (sy, clk)"
  shows "windows_good (ev_now (op_env x)) (sy_store (unit_step x sy))"
proof -
  have wf: "wf_dict (us_reservations (sy_store sy))" using assms(1) by (simp add: windows_good_def unit_inv_def rows_ok_def)
  have no: "\<not> operator_op x" and now: "clk \<le> ev_now (op_env x)" using assms(2) by (auto simp: clocked_participant_def)
  have "\<not> may_move x sy (Mv_charge rid over)" for rid over
    using assms(2) by (auto simp: may_move_def clocked_participant_def raises_cost_def split: unit_op.splits sum.splits)
  then have keep: "windows_good (ev_now (op_env x)) s'"
    if "may_move x sy mv" "move (op_env x) mv s s'" "windows_good (ev_now (op_env x)) s" for mv s s'
    using that windows_good_move [OF that(2,3) order_refl] by blast
  show ?thesis
    by (rule moves_keep [where Q = "windows_good (ev_now (op_env x))", OF step_moves [OF wf no] windows_good_later [OF assms(1) now] keep])
qed

interpretation window_run: lawful_system clocked_step clocked_participant "\<lambda>(sy, clk). windows_good clk (sy_store sy)"
  by unfold_locales (auto simp: clocked_step_def intro: windows_good_step)

text \<open>The operator sets up an empty store: rules, and nothing reserved.\<close>

lemma operator_step:
  assumes "operator_op x"
  shows "us_reservations (sy_store (unit_step x sy)) = us_reservations (sy_store sy)"
    and "us_counters (sy_store (unit_step x sy)) = us_counters (sy_store sy)"
proof -
  have f: "us_reservations (fold (apply_unit_adjustment e token) as s) = us_reservations s"
    "us_counters (fold (apply_unit_adjustment e token) as s) = us_counters s" for e token as s
    by (induction as arbitrary: s) (simp_all add: apply_unit_adjustment_def log_event_def)
  show "us_reservations (sy_store (unit_step x sy)) = us_reservations (sy_store sy)"
    and "us_counters (sy_store (unit_step x sy)) = us_counters (sy_store sy)"
    using assms f by (auto simp: operator_op_def apply_operator_adjustment_def grant_operator_budget_authority_def
        journal_authority_refusal_def frame_simps Let_def split: unit_op.splits sum.splits)
qed

lemma setup_run:
  "list_all operator_op xs \<Longrightarrow> us_reservations (sy_store (fold unit_step xs sy)) = us_reservations (sy_store sy)
     \<and> us_counters (sy_store (fold unit_step xs sy)) = us_counters (sy_store sy)"
  by (induction xs arbitrary: sy) (simp_all add: operator_step)

definition configured :: "unit_op list \<Rightarrow> unit_system" where
  "configured conf = fold unit_step conf empty_units"

lemma configured_good:
  assumes "list_all operator_op conf"
  shows "unit_good (sy_store (configured conf))" and "windows_good clk (sy_store (configured conf))"
proof -
  let ?s = "sy_store (configured conf)"
  have inv: "unit_inv ?s" unfolding configured_def by (rule unit_inv_run [OF unit_inv_empty])
  have e: "us_reservations ?s = []" "us_counters ?s = []"
    using setup_run [OF assms, of empty_units] by (simp_all add: configured_def empty_units_def)
  have "0 \<le> ur_limit r" if "r \<in> set (rules_for c ?s)" for c r
    using inv that by (auto simp: rules_for_mem unit_inv_def rows_ok_def list_all_iff rule_ok_def)
  with inv e show "unit_good ?s" "windows_good clk ?s"
    by (simp_all add: unit_good_def windows_good_def snapshots_current_def units_within_def windows_ok_def dated_def counter_read_def)
qed

section \<open>A reservation settles once\<close>

lemma settled_move:
  assumes "move e mv s s'" "wf_dict (us_reservations s)" "wf_dict (us_reservations s')" "mv \<noteq> Mv_insert rid" "st \<noteq> Unit_Reserved"
    and "\<And>row. dict_get (us_reservations s) rid = Some row \<Longrightarrow> rv_state row = st"
    and "dict_get (us_reservations s') rid = Some row'"
  shows "rv_state row' = st"
proof -
  from move_rows [OF assms(1,2,7)] assms(4)
  obtain row where "dict_get (us_reservations s) rid = Some row" "rv_state row' = rv_state row \<or> rv_state row = Unit_Reserved" by blast
  with assms(5) assms(6) [of row] show ?thesis by auto
qed

definition mints :: "string \<Rightarrow> unit_op \<Rightarrow> bool" where
  "mints rid x = (case x of U_Reserve e cls effect owner i u \<Rightarrow> rid = ''ebr:'' @ ev_token e | _ \<Rightarrow> False)"

definition settled_as :: "string \<Rightarrow> unit_state \<Rightarrow> unit_store \<Rightarrow> bool" where
  "settled_as rid st s \<longleftrightarrow> (case dict_get (us_reservations s) rid of None \<Rightarrow> True | Some row \<Rightarrow> rv_state row = st)"

lemma settled_step:
  assumes inv: "unit_inv (sy_store sy)" and st: "settled_as rid st (sy_store sy)" "st \<noteq> Unit_Reserved" and "\<not> mints rid x"
  shows "settled_as rid st (sy_store (unit_step x sy))"
proof (cases "operator_op x")
  case True
  with st show ?thesis by (simp add: settled_as_def operator_step)
next
  case False
  have wf: "wf_dict (us_reservations (sy_store sy))" using inv by (simp add: unit_inv_def rows_ok_def)
  let ?Q = "\<lambda>s. unit_inv s \<and> settled_as rid st s"
  have "?Q s'" if mv: "may_move x sy mv" "move (op_env x) mv s s'" "?Q s" for mv s s'
  proof
    show inv': "unit_inv s'" using unit_inv_move [OF mv(2)] mv(3) by blast
    have "mv \<noteq> Mv_insert rid" using mv(1) assms(4) by (auto simp: may_move_def mints_def split: unit_op.splits)
    moreover have "wf_dict (us_reservations s)" "wf_dict (us_reservations s')"
      using mv(3) inv' by (simp_all add: unit_inv_def rows_ok_def)
    moreover have "rv_state row = st" if "dict_get (us_reservations s) rid = Some row" for row
      using mv(3) that by (simp add: settled_as_def)
    ultimately have "rv_state row' = st" if "dict_get (us_reservations s') rid = Some row'" for row'
      using settled_move [OF mv(2) _ _ _ st(2) _ that] by blast
    then show "settled_as rid st s'" by (simp add: settled_as_def split: option.split)
  qed
  note keep = this
  have "?Q (sy_store (unit_step x sy))"
    by (rule moves_keep [where Q = ?Q, OF step_moves [OF wf False]]) (use inv st(1) keep in blast)+
  then show ?thesis ..
qed

lemma settled_run:
  assumes "unit_inv (sy_store sy)" "settled_as rid st (sy_store sy)" "st \<noteq> Unit_Reserved" "list_all (\<lambda>x. \<not> mints rid x) xs"
  shows "settled_as rid st (sy_store (fold unit_step xs sy))"
  using assms by (induction xs arbitrary: sy) (simp_all add: settled_step unit_inv_step)

section \<open>Rules change by the operator's hand only\<close>

lemma granted_move: "move e mv s s' \<Longrightarrow> granted_tokens s' \<subseteq> granted_tokens s"
  by (induction rule: move.induct)
     (auto simp: granted_tokens_def frame_simps insert_reservation_def prune_stores_def is_grant_def)

lemma granted_step:
  assumes "unit_inv (sy_store sy)" "tok \<in> granted_tokens (sy_store (unit_step x sy))" "tok \<notin> granted_tokens (sy_store sy)"
  shows "\<exists>g. x = U_Grant g \<and> \<not> ev_in_scope g \<and> tok = ''obt:'' @ ev_token g"
proof (cases "operator_op x")
  case False
  have wf: "wf_dict (us_reservations (sy_store sy))" using assms(1) by (simp add: unit_inv_def rows_ok_def)
  have "granted_tokens (sy_store (unit_step x sy)) \<subseteq> granted_tokens (sy_store sy)"
    by (rule moves_keep [where Q = "\<lambda>s. granted_tokens s \<subseteq> granted_tokens (sy_store sy)", OF step_moves [OF wf False]])
       (use granted_move in blast)+
  with assms show ?thesis by blast
next
  case True
  have "granted_tokens (fold (apply_unit_adjustment e token) as s) = granted_tokens s" for e token as s
    by (induction as arbitrary: s) (auto simp: apply_unit_adjustment_def granted_tokens_def log_event_def)
  with True assms(2,3) show ?thesis
    by (auto simp: operator_op_def grant_operator_budget_authority_def apply_operator_adjustment_def
        journal_authority_refusal_def Let_def split: unit_op.splits if_splits sum.splits)
qed

lemma rules_step:
  assumes "unit_inv (sy_store sy)" "us_rules (sy_store (unit_step x sy)) \<noteq> us_rules (sy_store sy)"
  shows "\<exists>a token as. x = U_Adjust a token as \<and> \<not> ev_in_scope a \<and> token \<in> granted_tokens (sy_store sy)"
proof (cases "operator_op x")
  case False
  have wf: "wf_dict (us_reservations (sy_store sy))" using assms(1) by (simp add: unit_inv_def rows_ok_def)
  have "us_rules (sy_store (unit_step x sy)) = us_rules (sy_store sy)"
    by (rule moves_keep [where Q = "\<lambda>s. us_rules s = us_rules (sy_store sy)", OF step_moves [OF wf False]])
       (simp_all add: rules_move)
  with assms(2) show ?thesis by simp
next
  case True
  then show ?thesis
    using assms(2) by (auto simp: operator_op_def grant_operator_budget_authority_def apply_operator_adjustment_def token_was_granted_def
        granted_tokens_def list_ex_iff journal_authority_refusal_def frame_simps Let_def split: unit_op.splits if_splits sum.splits)
qed

lemma granted_by:
  assumes "unit_inv (sy_store sy)" "granted_tokens (sy_store sy) = {}" "tok \<in> granted_tokens (sy_store (fold unit_step xs sy))"
  shows "\<exists>ys g zs. xs = ys @ U_Grant g # zs \<and> \<not> ev_in_scope g \<and> tok = ''obt:'' @ ev_token g"
  using assms
proof (induction xs rule: rev_induct)
  case (snoc x xs)
  let ?s = "fold unit_step xs sy"
  show ?case
  proof (cases "tok \<in> granted_tokens (sy_store ?s)")
    case True
    then obtain ys g zs where "xs = ys @ U_Grant g # zs" "\<not> ev_in_scope g" "tok = ''obt:'' @ ev_token g" using snoc by blast
    then show ?thesis by (intro exI [of _ ys] exI [of _ g] exI [of _ "zs @ [x]"]) simp
  next
    case False
    from granted_step [OF unit_inv_run [OF snoc.prems(1)] _ False, of x] snoc.prems(3)
    show ?thesis by force
  qed
qed simp

lemma rules_changed_by:
  assumes "unit_inv (sy_store sy)" "us_rules (sy_store (fold unit_step xs sy)) \<noteq> us_rules (sy_store sy)"
  shows "\<exists>ys a token as ws. xs = ys @ U_Adjust a token as # ws \<and> \<not> ev_in_scope a
     \<and> token \<in> granted_tokens (sy_store (fold unit_step ys sy))"
  using assms
proof (induction xs rule: rev_induct)
  case (snoc x xs)
  let ?s = "fold unit_step xs sy"
  show ?case
  proof (cases "us_rules (sy_store ?s) = us_rules (sy_store sy)")
    case False
    then obtain ys a token as ws where "xs = ys @ U_Adjust a token as # ws" "\<not> ev_in_scope a"
      "token \<in> granted_tokens (sy_store (fold unit_step ys sy))" using snoc by blast
    then show ?thesis
      by (intro exI [of _ ys] exI [of _ a] exI [of _ token] exI [of _ as] exI [of _ "ws @ [x]"]) simp
  next
    case True
    with rules_step [OF unit_inv_run [OF snoc.prems(1)], of x xs] snoc.prems(2)
    show ?thesis by force
  qed
qed simp

section \<open>Reconciliation, preview, and consumption by effect\<close>

lemma orphans_rows:
  "stale_rows rows s \<Longrightarrow> dict_get (us_reservations (release_orphans e rows s)) rid
     = (case map_of rows rid of None \<Rightarrow> dict_get (us_reservations s) rid
        | Some row \<Rightarrow> Some (settled_row e Unit_Released ''reconciled: owning instance is no longer live'' row))"
proof (induction rows arbitrary: s)
  case (Cons p rows)
  obtain r row where p: "p = (r, row)" by fastforce
  note st = stale_rows_step [OF Cons.prems [unfolded p]]
  have "map_of rows r = None" using Cons.prems by (simp add: stale_rows_def p map_of_eq_None_iff image_iff)
  with Cons.IH [OF st(3)] show ?case by (auto simp: p frame_simps split: option.splits)
qed simp

lemma unit_usage_cong:
  "us_counters s' = us_counters s \<Longrightarrow> us_reservations s' = us_reservations s \<Longrightarrow> unit_usage now r key s' = unit_usage now r key s"
  by (simp add: unit_usage_def)

lemma sort_key_same_order:
  assumes "\<And>x y. x \<in> set xs \<Longrightarrow> y \<in> set xs \<Longrightarrow> f x \<le> f y \<longleftrightarrow> g x \<le> g y"
  shows "sort_key f xs = sort_key g xs"
proof -
  have ins: "insort_key f x ys = insort_key g x ys" if "set ys \<subseteq> set xs" "x \<in> set xs" for x ys
    using that assms by (induction ys) auto
  have "set zs \<subseteq> set xs \<Longrightarrow> foldr (insort_key f) zs [] = foldr (insort_key g) zs []" for zs
  proof (induction zs)
    case (Cons z zs)
    have "set (foldr (insort_key g) zs []) = set zs" using set_sort [of g zs] by (simp only: sort_key_def)
    with Cons ins [of "foldr (insort_key g) zs []" z] show ?case by simp
  qed simp
  from this [of xs] show ?thesis by (simp only: sort_key_def order_refl)
qed

lemma active_rules_for: "active_budgets (Some c) s = rules_for c s"
  unfolding active_budgets_def rules_for_def
proof -
  have "filter (\<lambda>(k, row). Some c = None \<or> Some c = Some (fst k)) (us_rules s) = filter (\<lambda>(k, row). fst k = c) (us_rules s)"
    by (rule filter_cong) auto
  moreover have "sort_key (\<lambda>r. (class_name (ur_class r), unit_scope_rank (ur_scope r))) (map rule_of (filter (\<lambda>(k, row). fst k = c) (us_rules s)))
     = sort_key (\<lambda>r. unit_scope_rank (ur_scope r)) (map rule_of (filter (\<lambda>(k, row). fst k = c) (us_rules s)))"
    by (rule sort_key_same_order) (auto simp: rule_of_def)
  ultimately show "sort_key (\<lambda>r. (class_name (ur_class r), unit_scope_rank (ur_scope r)))
       (map rule_of (filter (\<lambda>(k, row). Some c = None \<or> Some c = Some (fst k)) (us_rules s)))
     = sort_key (\<lambda>r. unit_scope_rank (ur_scope r)) (map rule_of (filter (\<lambda>(k, row). fst k = c) (us_rules s)))" by simp
qed

lemma find_map_status:
  "find (\<lambda>st. rs_applies st \<and> rs_used st + u > rs_limit st) (map (rule_status_of now i s) rs)
     = map_option (rule_status_of now i s) (find (rule_fails now i u s) rs)"
  by (induction rs) (auto simp: rule_status_of_def rule_fails_def Let_def split: option.splits)

lemma consume_keeps:
  assumes "dict_get (us_reservations s) rid = Some row" "rv_state row = Unit_Consumed"
  shows "\<exists>row'. dict_get (us_reservations (snd (consume_reservation e r s))) rid = Some row' \<and> rv_state row' = Unit_Consumed
     \<and> rv_effect row' = rv_effect row"
  using assms by (auto simp: consume_reservation_def frame_simps settled_row_def split: option.splits unit_state.splits)

lemma consume_Inr:
  assumes "fst (consume_reservation e rid s) = Inr b" "dict_get (us_reservations s) rid = Some row"
  shows "\<exists>row'. dict_get (us_reservations (snd (consume_reservation e rid s))) rid = Some row' \<and> rv_state row' = Unit_Consumed
     \<and> rv_effect row' = rv_effect row"
  using assms by (auto simp: consume_reservation_def frame_simps settled_row_def split: option.splits unit_state.splits if_splits)

lemma consume_other:
  "r \<noteq> rid \<Longrightarrow> dict_get (us_reservations (snd (consume_reservation e rid s))) r = dict_get (us_reservations s) r"
  by (auto simp: consume_reservation_def frame_simps split: option.splits unit_state.splits)

lemma consume_each_Inr:
  assumes "fst (consume_each e rids n s) = Inr m" "distinct rids"
    and "\<And>r. r \<in> set rids \<Longrightarrow> \<exists>row. dict_get (us_reservations s) r = Some row \<and> rv_effect row = effect"
  shows "(r \<in> set rids \<longrightarrow> (\<exists>row. dict_get (us_reservations (snd (consume_each e rids n s))) r = Some row
            \<and> rv_state row = Unit_Consumed \<and> rv_effect row = effect))
     \<and> (r \<notin> set rids \<longrightarrow> dict_get (us_reservations (snd (consume_each e rids n s))) r = dict_get (us_reservations s) r)"
  using assms
proof (induction rids arbitrary: n s)
  case (Cons rid rids)
  let ?s = "snd (consume_reservation e rid s)"
  from Cons.prems(1) obtain b where b: "fst (consume_reservation e rid s) = Inr b"
    by (auto split: prod.splits sum.splits)
  then have step: "consume_each e (rid # rids) n s = consume_each e rids (if b then n + 1 else n) ?s"
    by (auto split: prod.splits sum.splits)
  from Cons.prems(3) [of rid] obtain row where "dict_get (us_reservations s) rid = Some row" "rv_effect row = effect" by auto
  from consume_Inr [OF b this(1)] this(2)
  have one: "\<exists>row. dict_get (us_reservations ?s) rid = Some row \<and> rv_state row = Unit_Consumed \<and> rv_effect row = effect" by simp
  have rest: "\<exists>row. dict_get (us_reservations ?s) r = Some row \<and> rv_effect row = effect" if "r \<in> set rids" for r
  proof -
    from that Cons.prems(2) have "r \<noteq> rid" by auto
    with Cons.prems(3) [of r] that show ?thesis by (simp add: consume_other)
  qed
  have "fst (consume_each e rids (if b then n + 1 else n) ?s) = Inr m" using Cons.prems(1) step by simp
  from Cons.IH [OF this _ rest] Cons.prems(2) one consume_other [of r rid e s] show ?case
    unfolding step by (cases "r = rid") auto
qed simp

lemma effect_rows_iff:
  "wf_dict (us_reservations s) \<Longrightarrow> (rid, row) \<in> set (effect_rows effect s) \<longleftrightarrow> dict_get (us_reservations s) rid = Some row \<and> rv_effect row = effect"
  by (auto simp: effect_rows_def dest: dict_get_mem intro: dict_mem_get)

lemma rules_for_Nil: "rules_for c s = [] \<longleftrightarrow> \<not> list_ex (\<lambda>(k, row). fst k = c) (us_rules s)"
proof -
  have "rules_for c s = [] \<longleftrightarrow> filter (\<lambda>(k, row). fst k = c) (us_rules s) = []"
    by (simp only: rules_for_def length_0_conv [symmetric] length_sort length_map)
  then show ?thesis by (simp add: filter_empty_conv list_ex_iff split_def)
qed

text \<open>An attempt of a budgeted class is covered: after the consumption the effect holds a spent unit and none is left held.\<close>

lemma consumed_effect_covered:
  assumes inv: "unit_inv s" and ok: "fst (consume_effect_reservations e effect (Some c) s) = Inr n"
    and e: "effect \<noteq> []" and b: "rules_for c s \<noteq> []"
  shows "\<exists>rid row. dict_get (us_reservations (snd (consume_effect_reservations e effect (Some c) s))) rid = Some row
      \<and> rv_effect row = effect \<and> rv_state row = Unit_Consumed"
    and "dict_get (us_reservations (snd (consume_effect_reservations e effect (Some c) s))) rid = Some row
      \<Longrightarrow> rv_effect row = effect \<Longrightarrow> rv_state row \<noteq> Unit_Reserved"
proof -
  from inv have wf: "wf_dict (us_reservations s)" by (simp add: unit_inv_def rows_ok_def)
  let ?rows = "effect_rows effect s"
  let ?open = "filter (\<lambda>(rid, row). rv_state row = Unit_Reserved) ?rows"
  have b': "list_ex (\<lambda>(k, row). fst k = c) (us_rules s)" using b by (simp add: rules_for_Nil)
  from ok e b' have run: "consume_effect_reservations e effect (Some c) s = consume_each e (map fst ?open) 0 s"
    and some: "?open \<noteq> [] \<or> list_ex (\<lambda>(rid, row). rv_state row = Unit_Consumed) ?rows"
    by (auto simp: consume_effect_reservations_def Let_def split: if_splits)
  have d: "distinct (map fst ?open)" using wf by (simp add: effect_rows_def wf_filter)
  have mem: "\<exists>row. dict_get (us_reservations s) r = Some row \<and> rv_effect row = effect" if "r \<in> set (map fst ?open)" for r
    using that by (auto simp: effect_rows_iff [OF wf])
  note each = consume_each_Inr [OF ok [unfolded run] d mem]
  have keep: "dict_get (us_reservations (snd (consume_each e (map fst ?open) 0 s))) r = dict_get (us_reservations s) r"
    if "r \<notin> set (map fst ?open)" for r
    using each [of r] that by blast
  show "\<exists>rid row. dict_get (us_reservations (snd (consume_effect_reservations e effect (Some c) s))) rid = Some row
      \<and> rv_effect row = effect \<and> rv_state row = Unit_Consumed"
  proof (cases "?open = []")
    case True
    with some obtain rid row where "(rid, row) \<in> set ?rows" "rv_state row = Unit_Consumed" by (auto simp: list_ex_iff)
    with True keep [of rid] show ?thesis unfolding run by (auto simp: effect_rows_iff [OF wf])
  next
    case False
    then obtain rid where "rid \<in> set (map fst ?open)" by (cases ?open) auto
    with each [of rid] show ?thesis unfolding run by blast
  qed
  show "dict_get (us_reservations (snd (consume_effect_reservations e effect (Some c) s))) rid = Some row
      \<Longrightarrow> rv_effect row = effect \<Longrightarrow> rv_state row \<noteq> Unit_Reserved"
    unfolding run
  proof (cases "rid \<in> set (map fst ?open)")
    case False
    assume "dict_get (us_reservations (snd (consume_each e (map fst ?open) 0 s))) rid = Some row" "rv_effect row = effect"
    with keep [OF False] have "(rid, row) \<in> set ?rows" by (simp add: effect_rows_iff [OF wf])
    with False show ?thesis by force
  next
    case True
    assume "dict_get (us_reservations (snd (consume_each e (map fst ?open) 0 s))) rid = Some row"
    with each [of rid] True show ?thesis by auto
  qed
qed

section \<open>A small store to evaluate\<close>

definition demo_at :: "time \<Rightarrow> string \<Rightarrow> unit_env" where
  "demo_at t tok = \<lparr>ev_now = t, ev_pid = 7, ev_host = ''h'', ev_posix = True, ev_absent = (\<lambda>_. False), ev_in_scope = True, ev_token = tok,
     ev_open = True, ev_up = True, ev_commit = (\<lambda>_. True)\<rparr>"

definition demo_operator :: "time \<Rightarrow> unit_env" where
  "demo_operator t = (demo_at t ''g'')\<lparr>ev_in_scope := False\<rparr>"

definition demo_who :: unit_identity where
  "demo_who = \<lparr>ui_turn = ''t1'', ui_session = ''s1'', ui_project = ''p1'', ui_request = [], ui_task = [], ui_agent = [], ui_provider = []\<rparr>"

definition demo_rule :: "unit_scope \<Rightarrow> int \<Rightarrow> time \<Rightarrow> budget_adjustment" where
  "demo_rule sc n w = \<lparr>ba_class = Some Command, ba_scope = Some sc, ba_limit = Some n, ba_window = w, ba_note = []\<rparr>"

definition demo_setup :: "budget_adjustment list \<Rightarrow> unit_op list" where
  "demo_setup as = [U_Grant (demo_operator 0), U_Adjust (demo_operator 0) ''obt:g'' as]"

definition demo_reserve :: "time \<Rightarrow> string \<Rightarrow> unit_op" where
  "demo_reserve t tok = U_Reserve (demo_at t tok) (Some Command) ''e'' ''o'' demo_who 1"

definition demo_consume :: "time \<Rightarrow> string \<Rightarrow> unit_op" where
  "demo_consume t tok = U_Consume (demo_at t tok) (''ebr:'' @ tok)"

definition demo_turn :: "unit_op list" where
  "demo_turn = [demo_reserve 1 ''a'', demo_consume 2 ''a'', demo_reserve 3 ''b'', demo_reserve 4 ''c'',
     U_Cost (demo_at 5 ''d'') [] ''ebr:a'' 1, U_Release (demo_at 6 ''d'') ''ebr:b'' [], demo_reserve 7 ''d'']"

section \<open>Properties\<close>

text \<open>C17. The books are exact: after any run of operations, whatever the interleaving of processes, failures, releases,
  reconciliations and prunings, every counter's reserved units are the sum of the live reservations under that rule and
  identity, and its consumed units are at least the sum of the consumed ones still stored.\<close>

theorem unit_books_exact:
  "let s = sy_store (fold unit_step ops empty_units) in
     counter_read (us_counters s) k Reserved_units = dict_sum (held_units k) (us_reservations s)
     \<and> dict_sum (spent_units k) (us_reservations s) \<le> counter_read (us_counters s) k Consumed_units"
  using unit_inv_run [OF unit_inv_empty, of ops] counters_okD by (simp add: unit_inv_def Let_def)

text \<open>C15. The ceilings hold: from the operator's rules on an empty store, no run of the participants' operations takes the
  units of a turn, session, project or any other identity past the limit of a rule, as long as no reconciliation of a
  measured cost reports an overage.\<close>

theorem unit_ceilings_hold:
  assumes "list_all operator_op conf" and "unit_run.lawful_run ops (configured conf)"
    and "s = sy_store (fold unit_step ops (configured conf))" and "r \<in> set (rules_for c s)" and "ur_scope r \<noteq> Us_Window"
  shows "unit_usage now r key s \<le> ur_limit r"
proof -
  have "unit_good s" using unit_run.run_good [OF configured_good(1) [OF assms(1)] assms(2)] assms(3) by simp
  moreover have "ur_class r = c" using assms(4) by (auto simp: rules_for_mem)
  ultimately show ?thesis using assms(4,5) by (auto simp: unit_good_def units_within_def unit_usage_def)
qed

theorem unit_ceilings_hold_witness:
  "unit_usage 9 \<lparr>ur_class = Command, ur_scope = Us_Turn, ur_limit = 2, ur_window = 0\<rparr> ''t1''
     (sy_store (fold unit_step demo_turn (configured (demo_setup [demo_rule Us_Turn 2 0, demo_rule Us_Session 9 0])))) = 2
   \<and> unit_usage 9 \<lparr>ur_class = Command, ur_scope = Us_Turn, ur_limit = 2, ur_window = 0\<rparr> ''t1''
     (sy_store (fold unit_step demo_turn (configured (demo_setup [demo_rule Us_Turn 2 0, demo_rule Us_Session 9 0])))) \<le> 2"
proof -
  let ?conf = "demo_setup [demo_rule Us_Turn 2 0, demo_rule Us_Session 9 0]"
  let ?r = "\<lparr>ur_class = Command, ur_scope = Us_Turn, ur_limit = 2, ur_window = 0\<rparr>"
  have "list_all operator_op ?conf" by code_simp
  moreover have "unit_run.lawful_run demo_turn (configured ?conf)"
    by (simp only: demo_turn_def unit_run.lawful_run.simps) code_simp
  moreover have "?r \<in> set (rules_for Command (sy_store (fold unit_step demo_turn (configured ?conf))))" by code_simp
  moreover have "unit_usage 9 ?r ''t1'' (sy_store (fold unit_step demo_turn (configured ?conf))) = 2" by code_simp
  ultimately show ?thesis
    using unit_ceilings_hold [of ?conf demo_turn _ ?r Command 9 "''t1''", OF _ _ refl] by simp
qed


definition demo_minute :: "unit_op list" where
  "demo_minute = [demo_reserve 1 ''a'', demo_consume 2 ''a'', demo_reserve 3 ''b'', demo_reserve 4 ''c'', demo_reserve 63 ''d'']"


text \<open>A reservation settles once: whatever runs after it was consumed or released, it stays so until it is pruned (its id
  is not minted again), and a released one is never spent: every later attempt to consume it is refused.\<close>

theorem reservation_settles_once:
  assumes "unit_inv (sy_store sy)" and "dict_get (us_reservations (sy_store sy)) rid = Some row" and "rv_state row = st"
    and "st \<noteq> Unit_Reserved" and "list_all (\<lambda>x. \<not> mints rid x) ops" and "s = sy_store (fold unit_step ops sy)"
  shows "(\<forall>row'. dict_get (us_reservations s) rid = Some row' \<longrightarrow> rv_state row' = st)
     \<and> (st = Unit_Released \<longrightarrow> fst (consume_reservation e rid s) \<in> {Inl Unit_state_error, Inl Unit_store_unavailable})"
proof -
  have "settled_as rid st s"
    using settled_run [OF assms(1) _ assms(4,5)] assms(2,3,6) by (simp add: settled_as_def)
  then show ?thesis by (auto simp: settled_as_def consume_reservation_def split: option.splits)
qed

theorem reservation_settles_once_witness:
  "fst (consume_reservation (demo_at 9 []) ''ebr:a'' (sy_store (fold unit_step [demo_reserve 3 ''b'', demo_consume 4 ''b'']
      (fold unit_step [demo_reserve 1 ''a'', U_Release (demo_at 2 []) ''ebr:a'' []] (configured (demo_setup [demo_rule Us_Turn 1 0]))))))
     \<in> {Inl Unit_state_error, Inl Unit_store_unavailable}"
proof -
  let ?sy = "fold unit_step [demo_reserve 1 ''a'', U_Release (demo_at 2 []) ''ebr:a'' []] (configured (demo_setup [demo_rule Us_Turn 1 0]))"
  obtain row where row: "dict_get (us_reservations (sy_store ?sy)) ''ebr:a'' = Some row" "rv_state row = Unit_Released"
  proof -
    have "map_option rv_state (dict_get (us_reservations (sy_store ?sy)) ''ebr:a'') = Some Unit_Released" by code_simp
    with that show ?thesis by auto
  qed
  have "unit_inv (sy_store ?sy)" unfolding configured_def by (intro unit_inv_run unit_inv_empty)
  moreover have "list_all (\<lambda>x. \<not> mints ''ebr:a'' x) [demo_reserve 3 ''b'', demo_consume 4 ''b'']" by code_simp
  ultimately show ?thesis
    using reservation_settles_once [of ?sy "''ebr:a''" row Unit_Released _ _ "demo_at 9 []", OF _ row _ _ refl]
    by (simp only: unit_state.distinct not_False_eq_True True_implies_equals refl)
qed

text \<open>C18. Only the operator changes a rule: if a run changes the rule table, it contains a grant and, after it, an adjustment
  carrying the token of that grant, both outside every effect scope. Nothing that runs inside a scope can raise a budget.\<close>

theorem rules_need_the_operator:
  assumes "us_rules (sy_store (fold unit_step ops empty_units)) \<noteq> []"
  shows "\<exists>before g between a as after. ops = before @ U_Grant g # between @ U_Adjust a (''obt:'' @ ev_token g) as # after
     \<and> \<not> ev_in_scope g \<and> \<not> ev_in_scope a"
proof -
  have e: "us_rules (sy_store empty_units) = []" "granted_tokens (sy_store empty_units) = {}"
    by (simp_all add: empty_units_def granted_tokens_def)
  from rules_changed_by [OF unit_inv_empty, of ops] assms e obtain ys a token as ws where
    1: "ops = ys @ U_Adjust a token as # ws" "\<not> ev_in_scope a" "token \<in> granted_tokens (sy_store (fold unit_step ys empty_units))"
    by auto
  from granted_by [OF unit_inv_empty e(2) 1(3)] obtain ps g qs where
    2: "ys = ps @ U_Grant g # qs" "\<not> ev_in_scope g" "token = ''obt:'' @ ev_token g" by blast
  show ?thesis
    by (intro exI [of _ ps] exI [of _ g] exI [of _ qs] exI [of _ a] exI [of _ as] exI [of _ ws]) (simp add: 1 2)
qed

theorem rules_need_the_operator_witness:
  "\<exists>before g between a as after. demo_setup [demo_rule Us_Turn 1 0]
       = before @ U_Grant g # between @ U_Adjust a (''obt:'' @ ev_token g) as # after \<and> \<not> ev_in_scope g \<and> \<not> ev_in_scope a"
proof (rule rules_need_the_operator)
  have "length (us_rules (sy_store (fold unit_step (demo_setup [demo_rule Us_Turn 1 0]) empty_units))) = 1" by code_simp
  then show "us_rules (sy_store (fold unit_step (demo_setup [demo_rule Us_Turn 1 0]) empty_units)) \<noteq> []" by auto
qed

text \<open>The preview tells the truth: on the same store, clock and identity it allows an effect exactly when the reserve
  grants it, and otherwise names the very rule the reserve refuses with.\<close>

theorem preview_agrees_with_reserve:
  assumes "store_ok e" and "1 \<le> u" and "pr_reconciled p" and "dict_get (us_reservations s) (''ebr:'' @ ev_token e) = None"
  shows "preview_effect e cls i u s = (case fst (reserve_effect_units e cls effect owner i u p s) of
     Inr rc \<Rightarrow> Inr \<lparr>pv_allowed = True, pv_rule = [], pv_per_rule = map (rule_status_of (ev_now e) i s) (rt_rules rc)\<rparr>
   | Inl (Unit_exceeded rule) \<Rightarrow> Inr \<lparr>pv_allowed = False, pv_rule = rule,
        pv_per_rule = map (rule_status_of (ev_now e) i s) (active_budgets cls s)\<rparr>
   | Inl x \<Rightarrow> Inl x)"
proof (cases cls)
  case (Some c)
  obtain inst p' s' where ci: "current_instance e p s = (inst, p', s')" by (metis prod_cases3)
  then have s': "us_rules s' = us_rules s" "us_counters s' = us_counters s" "us_reservations s' = us_reservations s"
    by (auto simp: current_instance_def Let_def split: prod.splits option.splits)
  have rf: "rules_for c s' = rules_for c s" by (rule rules_for_cong [OF s'(1)])
  have fails: "rule_fails now i u s' = rule_fails now i u s" for now
    by (rule ext) (simp add: rule_fails_def unit_usage_cong [OF s'(2,3)] split: option.split)
  let ?f = "find (rule_fails (ev_now e) i u s) (rules_for c s)"
  have check: "fst (check_unit_rules (ev_now e) i u s' (rules_for c s) (None, [])) = ?f" by (simp add: check_unit_rules_find fails)
  have st: "store_ok e" using assms(1) .
  have id: "rule_id (rs_rule (rule_status_of now i s r)) = rule_id r" for now r
    by (simp add: rule_status_of_def Let_def split: option.split)
  show ?thesis
    using assms(2,3,4) st check
    by (cases "rules_for c s = []"; cases ?f)
       (auto simp: Some preview_effect_def budget_status_def reserve_effect_units_def reconcile_stale_reservations_def
         reserve_transaction_def ci rf s' active_rules_for find_map_status id Let_def split: prod.splits)
qed (simp add: preview_effect_def budget_status_def reserve_effect_units_def)

theorem preview_agrees_with_reserve_witness:
  "preview_effect (demo_at 4 ''c'') (Some Command) demo_who 1
      (sy_store (fold unit_step [demo_reserve 1 ''a''] (configured (demo_setup [demo_rule Us_Turn 1 0, demo_rule Us_Session 9 0]))))
   = Inr \<lparr>pv_allowed = False, pv_rule = ''command/turn'', pv_per_rule =
       [\<lparr>rs_rule = \<lparr>ur_class = Command, ur_scope = Us_Turn, ur_limit = 1, ur_window = 0\<rparr>, rs_limit = 1, rs_used = 1, rs_remaining = 0, rs_applies = True\<rparr>,
        \<lparr>rs_rule = \<lparr>ur_class = Command, ur_scope = Us_Session, ur_limit = 9, ur_window = 0\<rparr>, rs_limit = 9, rs_used = 1, rs_remaining = 8, rs_applies = True\<rparr>]\<rparr>"
proof -
  let ?s = "sy_store (fold unit_step [demo_reserve 1 ''a''] (configured (demo_setup [demo_rule Us_Turn 1 0, demo_rule Us_Session 9 0])))"
  let ?p = "\<lparr>pr_instance = None, pr_reconciled = True\<rparr>"
  have "store_ok (demo_at 4 ''c'')" by code_simp
  moreover have "map_option rv_state (dict_get (us_reservations ?s) (''ebr:'' @ ev_token (demo_at 4 ''c''))) = None" by code_simp
  then have "dict_get (us_reservations ?s) (''ebr:'' @ ev_token (demo_at 4 ''c'')) = None" by simp
  moreover have "fst (reserve_effect_units (demo_at 4 ''c'') (Some Command) [] [] demo_who 1 ?p ?s) = Inl (Unit_exceeded ''command/turn'')"
    by code_simp
  moreover have "map (rule_status_of (ev_now (demo_at 4 ''c'')) demo_who ?s) (active_budgets (Some Command) ?s) =
       [\<lparr>rs_rule = \<lparr>ur_class = Command, ur_scope = Us_Turn, ur_limit = 1, ur_window = 0\<rparr>, rs_limit = 1, rs_used = 1, rs_remaining = 0, rs_applies = True\<rparr>,
        \<lparr>rs_rule = \<lparr>ur_class = Command, ur_scope = Us_Session, ur_limit = 9, ur_window = 0\<rparr>, rs_limit = 9, rs_used = 1, rs_remaining = 8, rs_applies = True\<rparr>]"
    by code_simp
  ultimately show ?thesis
    using preview_agrees_with_reserve [of "demo_at 4 ''c''" 1 ?p ?s "Some Command" demo_who "[]" "[]"] by simp
qed

section \<open>Where the code departs from its law\<close>

text \<open>
  A held unit of a window rule lapses: once a reservation is older than the window it no longer counts, although it is
  still held, so another is granted; both are then spent within one window. Rule: one command a minute. Both commands
  run within a second of each other.
\<close>

lemma held_window_unit_lapses:
  "(let s = sy_store (fold unit_step [demo_reserve 0 ''a'', demo_reserve 61 ''b'', demo_consume 62 ''a'', demo_consume 63 ''b'']
       (configured (demo_setup [demo_rule Us_Window 1 60])))
    in (map (rv_state \<circ> snd) (us_reservations s), unit_usage 63 \<lparr>ur_class = Command, ur_scope = Us_Window, ur_limit = 1, ur_window = 60\<rparr> ''w60'' s))
   = ([Unit_Consumed, Unit_Consumed], 2)"
  by code_simp

text \<open>
  A window longer than the retention forgets: spent reservations are pruned after seven days, so a rule of two commands in
  thirty days admits a third on the ninth day.
\<close>

definition demo_month :: "unit_op list" where
  "demo_month = [demo_reserve 0 ''a'', demo_consume 0 ''a'', demo_reserve 700000 ''b'', demo_consume 700000 ''b'',
     demo_reserve 800000 ''c'', demo_consume 800000 ''c'']"

lemma long_window_forgets:
  "(let s = sy_store (fold unit_step demo_month (configured (demo_setup [demo_rule Us_Window 2 2592000])))
    in (length (us_reservations s), filter (\<lambda>v. case v of Ev_consumed r u \<Rightarrow> True | _ \<Rightarrow> False) (budget_events s)))
   = (2, [Ev_consumed ''ebr:a'' 1, Ev_consumed ''ebr:b'' 1, Ev_consumed ''ebr:c'' 1])"
  by code_simp

text \<open>
  An overage can be silent: the reconciliation of a measured cost compares with the limit of the snapshot taken when the
  unit was reserved, so after the operator lowered the limit from ten to three, a cost of five is charged without the flag.
\<close>

lemma overage_against_old_limit:
  "(let sy = fold unit_step [demo_reserve 1 ''a'', demo_consume 2 ''a'', U_Adjust (demo_operator 3) ''obt:g'' [demo_rule Us_Turn 3 0]]
          (configured (demo_setup [demo_rule Us_Turn 10 0]));
        (res, s) = reconcile_effect_cost (demo_at 4 []) [] ''ebr:a'' 5 (sy_store sy)
    in ((case res of Inr rec \<Rightarrow> Some (co_over_limit rec) | Inl _ \<Rightarrow> None), map ur_limit (rules_for Command s),
        unit_usage 4 \<lparr>ur_class = Command, ur_scope = Us_Turn, ur_limit = 3, ur_window = 0\<rparr> ''t1'' s))
   = (Some False, [3], 5)"
  by code_simp

text \<open>
  A store that cannot be opened at a process's first use switches its reconciliation off for good: the flag is set before
  the connection is made, and only a failure after it clears the flag again.
\<close>

lemma reconcile_lost_when_unopened:
  "\<not> ev_open e \<Longrightarrow> \<not> pr_reconciled p \<Longrightarrow> reconcile_stale_reservations e False p s = (Inl Unit_raw_store_error, p\<lparr>pr_reconciled := True\<rparr>, s)
     \<and> reconcile_stale_reservations e' False (p\<lparr>pr_reconciled := True\<rparr>) s' = (Inr [], p\<lparr>pr_reconciled := True\<rparr>, s')"
  by (simp add: reconcile_stale_reservations_def)

text \<open>
  A forked child that shuts down cleanly closes its parent's instance, which it inherited: the shutdown does not compare
  process ids, and the living parent's unit is reconciled away.
\<close>

lemma forked_shutdown_closes_parent:
  "(let other = \<lambda>t pid. (demo_at t [])\<lparr>ev_pid := pid\<rparr>;
        ops = [demo_reserve 1 ''a'', U_Fork (demo_at 2 []) 8, U_Shutdown (other 3 8), U_Reconcile (other 4 9) True]
    in map (rv_state \<circ> snd) (us_reservations (sy_store (fold unit_step ops (configured (demo_setup [demo_rule Us_Turn 1 0]))))))
   = [Unit_Released]"
  by code_simp

end
