(* ===== verification/Effect_Journal.thy ===== *)
theory Effect_Journal
  imports Vool_Prelude
begin

text \<open>
  The receipts of effects and the durable journal of background effects, from \<open>src/core/effect_gateway.py\<close>
  (\<open>EffectReceipt\<close>, \<open>BackgroundEffectJournal\<close>, \<open>background_effect_evidence\<close>).

  The journal keeps the visible rows, a witness row for each with a hash over its predecessor's hash and the stored
  payload, and one checkpoint: the hash and the count of what retention has pruned. The hash is an argument \<open>H\<close> of the
  model, applied to the previous hash and the payload; two payloads are the same text exactly when they are equal
  values, so the payload stands for its JSON. Whether the store takes a write is an argument of the call; a write that
  fails leaves the tables as they were. Creation times are left out.
\<close>

section \<open>Receipts\<close>

datatype decision = Allowed | Denied | Simulated

datatype lifecycle = Lc_denied | Lc_authorized | Lc_started | Lc_succeeded | Lc_failed | Lc_cancelled | Lc_unknown | Lc_simulated

definition lifecycle_name :: "lifecycle \<Rightarrow> string" where
  "lifecycle_name l = (case l of Lc_denied \<Rightarrow> ''denied'' | Lc_authorized \<Rightarrow> ''authorized'' | Lc_started \<Rightarrow> ''started''
     | Lc_succeeded \<Rightarrow> ''succeeded'' | Lc_failed \<Rightarrow> ''failed'' | Lc_cancelled \<Rightarrow> ''cancelled'' | Lc_unknown \<Rightarrow> ''unknown''
     | Lc_simulated \<Rightarrow> ''simulated'')"

definition terminal_lifecycle :: "lifecycle \<Rightarrow> bool" where
  "terminal_lifecycle l \<longleftrightarrow> l = Lc_succeeded \<or> l = Lc_failed \<or> l = Lc_cancelled"

definition decision_lifecycle :: "decision \<Rightarrow> lifecycle" where
  "decision_lifecycle d = (case d of Allowed \<Rightarrow> Lc_authorized | Denied \<Rightarrow> Lc_denied | Simulated \<Rightarrow> Lc_simulated)"

record effect_entry =
  en_class :: string
  en_decision :: decision
  en_lifecycle :: lifecycle
  en_reason :: string
  en_host :: string
  en_mode :: string
  en_decided_by :: string
  en_recorded :: string
  en_request :: string
  en_turn :: string
  en_effect :: string
  en_policy :: string
  en_scope :: string
  en_note :: "string list"
  en_provider :: string
  en_keyed :: string
  en_attempt :: nat

definition make_receipt :: "string \<Rightarrow> decision \<Rightarrow> lifecycle option \<Rightarrow> string \<Rightarrow> string \<Rightarrow> string \<Rightarrow> string \<Rightarrow> nat \<Rightarrow> effect_entry" where
  "make_receipt cls d l reason host mode by n =
     \<lparr>en_class = cls, en_decision = d, en_lifecycle = (case l of None \<Rightarrow> decision_lifecycle d | Some x \<Rightarrow> x), en_reason = reason,
      en_host = host, en_mode = mode, en_decided_by = by, en_recorded = [], en_request = [], en_turn = [], en_effect = [],
      en_policy = [], en_scope = [], en_note = [], en_provider = [], en_keyed = [], en_attempt = n\<rparr>"

section \<open>The journal's rows\<close>

record journal_payload =
  jp_effect :: string
  jp_attempt :: nat
  jp_lifecycle :: lifecycle
  jp_class :: string
  jp_decision :: decision
  jp_reason :: string
  jp_host :: string
  jp_mode :: string
  jp_decided_by :: string
  jp_recorded :: string
  jp_scope :: string
  jp_instance :: string
  jp_dropped :: bool

record visible_row =
  vi_id :: string
  vi_scope :: string
  vi_effect :: string
  vi_payload :: journal_payload

record witness_row =
  wi_id :: string
  wi_prev :: string
  wi_hash :: string
  wi_payload :: journal_payload

record journal_store =
  jo_visible :: "visible_row list"
  jo_witness :: "witness_row list"
  jo_head :: string
  jo_pruned :: nat
  jo_cap :: nat

record journal =
  jn_cap :: nat
  jn_failures :: nat
  jn_conflicts :: nat

definition new_journal :: "int \<Rightarrow> journal" where
  "new_journal cap = \<lparr>jn_cap = nat (max 1 cap), jn_failures = 0, jn_conflicts = 0\<rparr>"

definition empty_journal_store :: "nat \<Rightarrow> journal_store" where
  "empty_journal_store cap = \<lparr>jo_visible = [], jo_witness = [], jo_head = [], jo_pruned = 0, jo_cap = cap\<rparr>"

section \<open>Publishing\<close>

definition event_id_for :: "effect_entry \<Rightarrow> string" where
  "event_id_for en = ''bge:'' @ en_effect en @ '':'' @ show_nat (en_attempt en) @ '':'' @ lifecycle_name (en_lifecycle en)"

definition unsafe_markers :: "string list" where
  "unsafe_markers = [''token'', ''webhook'', ''bearer'', ''authorization'']"

definition safe_reason :: "string \<Rightarrow> string" where
  "safe_reason txt =
     (if txt = [] then []
      else if length txt > 80 then ''reason_redacted''
      else if contains_text ''://'' txt \<or> list_ex (\<lambda>m. contains_text m (py_lower txt)) unsafe_markers then ''reason_redacted''
      else txt)"

definition payload_for :: "effect_entry \<Rightarrow> string \<Rightarrow> string \<Rightarrow> bool \<Rightarrow> journal_payload" where
  "payload_for en scope inst dropped =
     \<lparr>jp_effect = en_effect en, jp_attempt = en_attempt en, jp_lifecycle = en_lifecycle en, jp_class = en_class en,
      jp_decision = en_decision en, jp_reason = safe_reason (en_reason en), jp_host = en_host en, jp_mode = en_mode en,
      jp_decided_by = en_decided_by en, jp_recorded = en_recorded en, jp_scope = scope, jp_instance = inst, jp_dropped = dropped\<rparr>"

definition append_witness :: "(string \<Rightarrow> journal_payload \<Rightarrow> string) \<Rightarrow> string \<Rightarrow> journal_payload \<Rightarrow> journal_store \<Rightarrow> journal_store" where
  "append_witness H i p s =
     (let prev = (if jo_witness s = [] then jo_head s else wi_hash (last (jo_witness s)))
      in s\<lparr>jo_witness := jo_witness s @ [\<lparr>wi_id = i, wi_prev = prev, wi_hash = H prev p, wi_payload = p\<rparr>]\<rparr>)"

definition append_visible :: "string \<Rightarrow> string \<Rightarrow> string \<Rightarrow> journal_payload \<Rightarrow> journal_store \<Rightarrow> journal_store" where
  "append_visible i scope effect p s =
     s\<lparr>jo_visible := jo_visible s @ [\<lparr>vi_id = i, vi_scope = scope, vi_effect = effect, vi_payload = p\<rparr>]\<rparr>"

definition publish :: "(string \<Rightarrow> journal_payload \<Rightarrow> string) \<Rightarrow> string \<Rightarrow> string \<Rightarrow> string \<Rightarrow> journal_payload \<Rightarrow> journal_store \<Rightarrow> journal_store option" where
  "publish H i scope effect p s =
     (let visible = find (\<lambda>v. vi_id v = i) (jo_visible s)
      in case find (\<lambda>w. wi_id w = i) (jo_witness s) of
           Some w \<Rightarrow>
             if wi_payload w \<noteq> p then None
             else if visible = None then Some (append_visible i scope effect p s) else Some s
         | None \<Rightarrow>
             (case visible of
                Some v \<Rightarrow> if vi_payload v \<noteq> p then None else Some (append_witness H i p s)
              | None \<Rightarrow> Some (append_visible i scope effect p (append_witness H i p s))))"

definition advance_checkpoint :: "nat \<Rightarrow> nat \<Rightarrow> string option \<Rightarrow> journal_store \<Rightarrow> journal_store" where
  "advance_checkpoint cap pruned head s =
     s\<lparr>jo_head := (case head of None \<Rightarrow> jo_head s | Some h \<Rightarrow> h), jo_pruned := jo_pruned s + pruned, jo_cap := cap\<rparr>"

definition enforce_retention :: "nat \<Rightarrow> journal_store \<Rightarrow> journal_store" where
  "enforce_retention cap s =
     (if length (jo_visible s) \<le> cap then s
      else (let ids = map vi_id (take (length (jo_visible s) - cap) (jo_visible s));
                newest = find (\<lambda>w. wi_id w \<in> set ids) (rev (jo_witness s))
            in advance_checkpoint cap (length ids) (map_option wi_hash newest)
                 (s\<lparr>jo_visible := filter (\<lambda>v. vi_id v \<notin> set ids) (jo_visible s),
                    jo_witness := filter (\<lambda>w. wi_id w \<notin> set ids) (jo_witness s)\<rparr>)))"

text \<open>\<open>record\<close>: published and pruned in one transaction, or nothing; a refusal is counted and never raised.\<close>

definition journal_record :: "(string \<Rightarrow> journal_payload \<Rightarrow> string) \<Rightarrow> bool \<Rightarrow> effect_entry \<Rightarrow> string \<Rightarrow> string \<Rightarrow> bool
    \<Rightarrow> journal \<times> journal_store \<Rightarrow> bool \<times> journal \<times> journal_store" where
  "journal_record H up en scope inst dropped = (\<lambda>(j, s).
     if \<not> up then (False, j\<lparr>jn_failures := jn_failures j + 1\<rparr>, s)
     else (case publish H (event_id_for en) scope (en_effect en) (payload_for en scope inst dropped) s of
         None \<Rightarrow> (False, j\<lparr>jn_conflicts := jn_conflicts j + 1\<rparr>, s)
       | Some s' \<Rightarrow> (True, j, enforce_retention (jn_cap j) s')))"

section \<open>Reading it back\<close>

fun verify_chain :: "(string \<Rightarrow> journal_payload \<Rightarrow> string) \<Rightarrow> string \<Rightarrow> witness_row list \<Rightarrow> bool" where
  "verify_chain H prev [] = True"
| "verify_chain H prev (w # ws) = (wi_prev w = prev \<and> H prev (wi_payload w) = wi_hash w \<and> verify_chain H (wi_hash w) ws)"

definition visible_payloads :: "journal_store \<Rightarrow> (string, journal_payload) dict" where
  "visible_payloads s = fold (\<lambda>v d. dict_set (vi_id v) (vi_payload v) d) (jo_visible s) []"

record witness_report =
  wr_parity :: bool
  wr_verified :: bool
  wr_witnesses :: nat
  wr_events :: nat
  wr_head :: string
  wr_tail :: string

definition witness_state :: "(string \<Rightarrow> journal_payload \<Rightarrow> string) \<Rightarrow> journal_store \<Rightarrow> witness_report" where
  "witness_state H s =
     (let payloads = visible_payloads s in
      \<lparr>wr_parity = (length payloads = length (jo_witness s)
           \<and> list_all (\<lambda>w. dict_get payloads (wi_id w) = Some (wi_payload w)) (jo_witness s)
           \<and> length payloads = length (py_unique (map wi_id (jo_witness s)))),
       wr_verified = verify_chain H (jo_head s) (jo_witness s),
       wr_witnesses = length (jo_witness s), wr_events = length (jo_visible s), wr_head = jo_head s,
       wr_tail = (if jo_witness s = [] then jo_head s else wi_hash (last (jo_witness s)))\<rparr>)"

definition background_effect_evidence :: "string \<Rightarrow> string \<Rightarrow> int \<Rightarrow> journal_store \<Rightarrow> visible_row list \<times> nat \<times> nat \<times> bool" where
  "background_effect_evidence scope effect limit s =
     (let rows = filter (\<lambda>v. (scope = [] \<or> vi_scope v = scope) \<and> (effect = [] \<or> vi_effect v = effect)) (jo_visible s);
          n = nat (max 1 (min limit 2000))
      in (drop (length rows - n) rows, length rows, jo_pruned s, jo_pruned s > 0))"

section \<open>The witness holds\<close>

definition row_pair :: "visible_row \<Rightarrow> string \<times> journal_payload" where
  "row_pair v = (vi_id v, vi_payload v)"

definition journal_ok :: "(string \<Rightarrow> journal_payload \<Rightarrow> string) \<Rightarrow> journal_store \<Rightarrow> bool" where
  "journal_ok H s \<longleftrightarrow> map row_pair (jo_visible s) = map (\<lambda>w. (wi_id w, wi_payload w)) (jo_witness s)
     \<and> distinct (map vi_id (jo_visible s)) \<and> verify_chain H (jo_head s) (jo_witness s)"

abbreviation chain_tail :: "string \<Rightarrow> witness_row list \<Rightarrow> string" where
  "chain_tail head ws \<equiv> (if ws = [] then head else wi_hash (last ws))"

lemma verify_append:
  "verify_chain H head (ws @ vs) \<longleftrightarrow> verify_chain H head ws \<and> verify_chain H (chain_tail head ws) vs"
  by (induction ws arbitrary: head) auto

lemma verify_append_witness:
  "verify_chain H (jo_head s) (jo_witness s) \<Longrightarrow> verify_chain H (jo_head (append_witness H i p s)) (jo_witness (append_witness H i p s))"
  by (simp add: append_witness_def verify_append Let_def)

lemma journal_ids: "map row_pair vs = map (\<lambda>w. (wi_id w, wi_payload w)) ws \<Longrightarrow> map vi_id vs = map wi_id ws"
  by (drule arg_cong [where f = "map fst"]) (simp add: row_pair_def comp_def)

lemma find_same:
  "map row_pair vs = map (\<lambda>w. (wi_id w, wi_payload w)) ws
   \<Longrightarrow> map_option vi_payload (find (\<lambda>v. vi_id v = i) vs) = map_option wi_payload (find (\<lambda>w. wi_id w = i) ws)"
proof (induction vs arbitrary: ws)
  case (Cons v vs)
  then show ?case by (cases ws) (auto simp: row_pair_def)
qed simp

lemma journal_ok_publish:
  assumes ok: "journal_ok H s" and pub: "publish H i scope effect p s = Some s'"
  shows "journal_ok H s'"
proof -
  from ok have rows: "map row_pair (jo_visible s) = map (\<lambda>w. (wi_id w, wi_payload w)) (jo_witness s)"
    and d: "distinct (map vi_id (jo_visible s))" and v: "verify_chain H (jo_head s) (jo_witness s)"
    by (auto simp: journal_ok_def)
  show ?thesis
  proof (cases "find (\<lambda>w. wi_id w = i) (jo_witness s)")
    case (Some w)
    with find_same [OF rows, of i] have "find (\<lambda>v. vi_id v = i) (jo_visible s) \<noteq> None" by auto
    with Some pub have "s' = s" by (auto simp: publish_def Let_def split: if_splits)
    with ok show ?thesis by simp
  next
    case None
    with find_same [OF rows, of i] have f: "find (\<lambda>v. vi_id v = i) (jo_visible s) = None" by simp
    with None pub have s': "s' = append_visible i scope effect p (append_witness H i p s)"
      by (simp add: publish_def Let_def)
    have "i \<notin> set (map vi_id (jo_visible s))" using f by (auto simp: find_None_iff)
    with rows d verify_append_witness [OF v, of i p] show ?thesis
      by (simp add: s' journal_ok_def append_visible_def) (simp add: append_witness_def Let_def row_pair_def)
  qed
qed

lemma filter_key_taken:
  assumes "distinct (map f xs)"
  shows "filter (\<lambda>x. f x \<notin> set (take n (map f xs))) xs = drop n xs"
proof -
  have "filter (\<lambda>x. f x \<notin> f ` set ys) (ys @ zs) = zs" if "distinct (map f (ys @ zs))" for ys zs
    using that by (auto simp: filter_empty_conv filter_id_conv)
  from this [of "take n xs" "drop n xs"] assms show ?thesis by (simp add: take_map)
qed

lemma find_rev_last: "xs \<noteq> [] \<Longrightarrow> P (last xs) \<Longrightarrow> find P (rev xs) = Some (last xs)"
  by (cases xs rule: rev_cases) auto

lemma find_rev_prefix:
  assumes "\<And>x. x \<in> set ys \<Longrightarrow> \<not> P x" "xs \<noteq> []" "P (last xs)"
  shows "find P (rev (xs @ ys)) = Some (last xs)"
  using assms
proof (induction ys rule: rev_induct)
  case Nil
  then show ?case using find_rev_last [of xs P] by simp
qed simp

lemma journal_ok_retention:
  assumes ok: "journal_ok H s"
  shows "journal_ok H (enforce_retention cap s)" and "length (jo_visible (enforce_retention cap s)) \<le> cap"
proof -
  from ok have rows: "map row_pair (jo_visible s) = map (\<lambda>w. (wi_id w, wi_payload w)) (jo_witness s)"
    and d: "distinct (map vi_id (jo_visible s))" and v: "verify_chain H (jo_head s) (jo_witness s)"
    by (auto simp: journal_ok_def)
  let ?n = "length (jo_visible s) - cap"
  note ids = journal_ids [OF rows]
  have len: "length (jo_witness s) = length (jo_visible s)" using rows by (metis length_map)
  have dw: "distinct (map wi_id (jo_witness s))" using d ids by simp
  have taken: "map vi_id (take ?n (jo_visible s)) = take ?n (map wi_id (jo_witness s))" using ids by (simp add: take_map [symmetric])
  have "journal_ok H (enforce_retention cap s) \<and> length (jo_visible (enforce_retention cap s)) \<le> cap"
  proof (cases "length (jo_visible s) \<le> cap")
    case False
    let ?ws = "take ?n (jo_witness s)" and ?vs = "drop ?n (jo_witness s)"
    have ne: "?ws \<noteq> []" using False len by (cases "jo_witness s") auto
    have fv: "filter (\<lambda>x. vi_id x \<notin> set (map vi_id (take ?n (jo_visible s)))) (jo_visible s) = drop ?n (jo_visible s)"
      using filter_key_taken [OF d, of ?n] by (simp add: take_map)
    have fw: "filter (\<lambda>x. wi_id x \<notin> set (map vi_id (take ?n (jo_visible s)))) (jo_witness s) = ?vs"
      using filter_key_taken [OF dw, of ?n] by (simp only: taken)
    have disj: "wi_id x \<notin> set (map vi_id (take ?n (jo_visible s)))" if "x \<in> set ?vs" for x
      using that fw by (metis (mono_tags, lifting) mem_Collect_eq set_filter)
    have "find (\<lambda>w. wi_id w \<in> set (map vi_id (take ?n (jo_visible s)))) (rev (?ws @ ?vs)) = Some (last ?ws)"
    proof (rule find_rev_prefix [OF _ ne])
      show "wi_id (last ?ws) \<in> set (map vi_id (take ?n (jo_visible s)))"
        unfolding taken take_map using last_in_set [OF ne] by simp
    qed (use disj in blast)
    then have newest: "find (\<lambda>w. wi_id w \<in> set (map vi_id (take ?n (jo_visible s)))) (rev (jo_witness s)) = Some (last ?ws)"
      by (simp only: append_take_drop_id)
    have r: "enforce_retention cap s = advance_checkpoint cap ?n (Some (wi_hash (last ?ws)))
        (s\<lparr>jo_visible := drop ?n (jo_visible s), jo_witness := ?vs\<rparr>)"
      using False by (simp only: enforce_retention_def Let_def newest fv fw if_False option.map length_map length_take) simp
    have "verify_chain H (jo_head s) (?ws @ ?vs)" using v by (simp only: append_take_drop_id)
    then have "verify_chain H (wi_hash (last ?ws)) ?vs" using ne by (simp only: verify_append if_False)
    moreover have "map row_pair (drop ?n (jo_visible s)) = map (\<lambda>w. (wi_id w, wi_payload w)) ?vs"
      using rows by (simp add: drop_map [symmetric])
    ultimately show ?thesis
      using d False by (simp add: r advance_checkpoint_def journal_ok_def drop_map [symmetric])
  qed (use ok in \<open>simp add: enforce_retention_def\<close>)
  then show "journal_ok H (enforce_retention cap s)" "length (jo_visible (enforce_retention cap s)) \<le> cap" by auto
qed

lemma journal_ok_record:
  assumes "journal_ok H s"
  shows "journal_ok H (snd (snd (journal_record H up en scope inst dropped (j, s))))"
  using assms by (auto simp: journal_record_def journal_ok_retention journal_ok_publish split: option.split)

lemma visible_payloads_map:
  "distinct (map vi_id vs) \<Longrightarrow> set (map vi_id vs) \<inter> set (map fst d) = {} \<Longrightarrow> fold (\<lambda>v d. dict_set (vi_id v) (vi_payload v) d) vs d = d @ map row_pair vs"
proof (induction vs arbitrary: d)
  case (Cons v vs)
  have "dict_get d (vi_id v) = None" using Cons.prems by (auto simp: dict_get_None_iff)
  then have "dict_set (vi_id v) (vi_payload v) d = d @ [row_pair v]" by (simp add: dict_set_append row_pair_def)
  with Cons show ?case by (auto simp: row_pair_def)
qed simp

lemma journal_ok_report:
  assumes "journal_ok H s"
  shows "wr_parity (witness_state H s)" and "wr_verified (witness_state H s)"
proof -
  from assms have rows: "map row_pair (jo_visible s) = map (\<lambda>w. (wi_id w, wi_payload w)) (jo_witness s)"
    and d: "distinct (map vi_id (jo_visible s))" and v: "verify_chain H (jo_head s) (jo_witness s)"
    by (auto simp: journal_ok_def)
  have p: "visible_payloads s = map (\<lambda>w. (wi_id w, wi_payload w)) (jo_witness s)"
    using visible_payloads_map [OF d, of "[]"] rows by (simp add: visible_payloads_def)
  have dw: "distinct (map wi_id (jo_witness s))" using d journal_ids [OF rows] by simp
  have "dict_get (visible_payloads s) (wi_id w) = Some (wi_payload w)" if "w \<in> set (jo_witness s)" for w
    unfolding p by (rule dict_mem_get) (use dw that in \<open>auto simp: comp_def\<close>)
  moreover have "length (py_unique (map wi_id (jo_witness s))) = length (jo_witness s)"
    using distinct_card [OF dw] distinct_card [OF distinct_py_unique, of "map wi_id (jo_witness s)"] by simp
  ultimately show "wr_parity (witness_state H s)" by (simp add: witness_state_def Let_def p list_all_iff)
  from v show "wr_verified (witness_state H s)" by (simp add: witness_state_def Let_def)
qed

definition journal_run :: "(string \<Rightarrow> journal_payload \<Rightarrow> string) \<Rightarrow> (bool \<times> effect_entry \<times> string \<times> string \<times> bool) list
    \<Rightarrow> journal \<times> journal_store \<Rightarrow> journal \<times> journal_store" where
  "journal_run H calls js = fold (\<lambda>(up, en, scope, inst, dropped) js. snd (journal_record H up en scope inst dropped js)) calls js"

lemma journal_run_ok:
  "journal_ok H (snd js) \<Longrightarrow> length (jo_visible (snd js)) \<le> jn_cap (fst js) \<Longrightarrow>
     journal_ok H (snd (journal_run H calls js)) \<and> length (jo_visible (snd (journal_run H calls js))) \<le> jn_cap (fst js)
     \<and> jn_cap (fst (journal_run H calls js)) = jn_cap (fst js)"
proof (induction calls arbitrary: js)
  case (Cons c calls)
  obtain up en scope inst dropped j s where c: "c = (up, en, scope, inst, dropped)" "js = (j, s)" by (cases c, cases js) auto
  let ?js = "snd (journal_record H up en scope inst dropped (j, s))"
  have cap: "jn_cap (fst ?js) = jn_cap j" by (auto simp: journal_record_def split: option.split)
  have "journal_ok H (snd ?js)" "length (jo_visible (snd ?js)) \<le> jn_cap j"
    using Cons.prems journal_ok_record [of H s up en scope inst dropped j]
    by (auto simp: c journal_record_def intro: journal_ok_retention [OF journal_ok_publish] split: option.splits)
  with Cons.IH [of ?js] cap show ?case by (simp add: journal_run_def c)
qed (simp add: journal_run_def)

lemma chain_collision:
  assumes "verify_chain H h ws" "verify_chain H h vs" "chain_tail h ws = chain_tail h vs" "length ws = length vs"
    and "map wi_payload ws \<noteq> map wi_payload vs"
  shows "\<exists>a p b q. (a, p) \<noteq> (b, q) \<and> H a p = H b q"
  using assms
proof (induction ws arbitrary: vs rule: rev_induct)
  case (snoc w ws)
  then obtain v us where vs: "vs = us @ [v]" by (cases vs rule: rev_cases) auto
  let ?a = "chain_tail h ws" and ?b = "chain_tail h us"
  from snoc.prems have hash: "H ?a (wi_payload w) = H ?b (wi_payload v)" and v: "verify_chain H h ws" "verify_chain H h us"
    by (simp_all add: vs verify_append)
  show ?case
  proof (cases "(?a, wi_payload w) = (?b, wi_payload v)")
    case True
    with snoc.prems vs have "map wi_payload ws \<noteq> map wi_payload us" "length ws = length us" by auto
    with snoc.IH [OF v] True show ?thesis by blast
  qed (use hash in blast)
qed simp

section \<open>Properties\<close>

definition plain_hash :: "string \<Rightarrow> journal_payload \<Rightarrow> string" where
  "plain_hash prev p = prev @ ''/'' @ jp_effect p @ show_nat (jp_attempt p) @ lifecycle_name (jp_lifecycle p)"

definition demo_event :: "string \<Rightarrow> nat \<Rightarrow> lifecycle \<Rightarrow> effect_entry" where
  "demo_event effect n l = (make_receipt ''network_fetch'' Allowed (Some l) [] ''h'' [] [] n)\<lparr>en_effect := effect\<rparr>"

text \<open>C33. The journal's evidence always verifies: after any sequence of records, with conflicts, redeliveries, a store that
  fails now and then, and retention pruning, the visible rows and the witnesses agree, the retained chain verifies from the
  checkpoint, and no more rows are kept than the cap.\<close>

theorem journal_always_verifies:
  fixes cap :: int
  shows "let js = journal_run H calls (new_journal cap, empty_journal_store n) in
     wr_parity (witness_state H (snd js)) \<and> wr_verified (witness_state H (snd js))
     \<and> wr_events (witness_state H (snd js)) \<le> nat (max 1 cap) \<and> wr_witnesses (witness_state H (snd js)) \<le> nat (max 1 cap)"
proof -
  let ?js = "journal_run H calls (new_journal cap, empty_journal_store n)"
  have "journal_ok H (snd ?js) \<and> length (jo_visible (snd ?js)) \<le> nat (max 1 cap)"
    using journal_run_ok [of H "(new_journal cap, empty_journal_store n)" calls]
    by (simp add: journal_ok_def empty_journal_store_def new_journal_def)
  moreover from this have "length (jo_witness (snd ?js)) = length (jo_visible (snd ?js))"
    unfolding journal_ok_def by (metis length_map)
  ultimately show ?thesis
    using journal_ok_report [of H "snd ?js"] by (simp add: Let_def witness_state_def)
qed

text \<open>Tampering shows or breaks the hash: when the stored witnesses are replaced by as many others with another payload,
  and the chain still verifies between the same checkpoint and the same tail, then two different hash inputs have the same
  hash.\<close>

theorem tampering_needs_a_collision:
  assumes "wr_verified (witness_state H s)" and "wr_verified (witness_state H (s\<lparr>jo_witness := ws\<rparr>))"
    and "wr_tail (witness_state H (s\<lparr>jo_witness := ws\<rparr>)) = wr_tail (witness_state H s)"
    and "length ws = length (jo_witness s)" and "map wi_payload ws \<noteq> map wi_payload (jo_witness s)"
  shows "\<exists>a p b q. (a, p) \<noteq> (b, q) \<and> H a p = H b q"
proof -
  from assms(1,2) have "verify_chain H (jo_head s) ws" "verify_chain H (jo_head s) (jo_witness s)"
    by (simp_all add: witness_state_def Let_def)
  moreover have "chain_tail (jo_head s) ws = chain_tail (jo_head s) (jo_witness s)"
    using assms(3) by (simp add: witness_state_def Let_def split: if_splits)
  ultimately show ?thesis using chain_collision assms(4,5) by blast
qed

theorem tampering_needs_a_collision_witness:
  "\<exists>a p b q. (a, p) \<noteq> (b, q) \<and> plain_hash a p = plain_hash b q"
proof -
  let ?s = "snd (journal_run plain_hash [(True, demo_event ''e'' 1 Lc_started, ''relay'', ''i'', False)] (new_journal 9, empty_journal_store 9))"
  let ?ws = "map (\<lambda>w. w\<lparr>wi_payload := (wi_payload w)\<lparr>jp_host := ''forged''\<rparr>\<rparr>) (jo_witness ?s)"
  have "wr_verified (witness_state plain_hash ?s)" by code_simp
  moreover have "wr_verified (witness_state plain_hash (?s\<lparr>jo_witness := ?ws\<rparr>))" by code_simp
  moreover have "wr_tail (witness_state plain_hash (?s\<lparr>jo_witness := ?ws\<rparr>)) = wr_tail (witness_state plain_hash ?s)" by code_simp
  moreover have "length ?ws = length (jo_witness ?s)" by simp
  moreover have "map (jp_host \<circ> wi_payload) ?ws \<noteq> map (jp_host \<circ> wi_payload) (jo_witness ?s)" by code_simp
  then have "map wi_payload ?ws \<noteq> map wi_payload (jo_witness ?s)" by (metis map_map)
  ultimately show ?thesis by (rule tampering_needs_a_collision)
qed

text \<open>A redelivery writes nothing, and another payload under a recorded id is refused and counted.\<close>

lemma redelivery_and_conflict:
  assumes "find (\<lambda>w. wi_id w = event_id_for en) (jo_witness s) = Some w"
    and "find (\<lambda>v. vi_id v = event_id_for en) (jo_visible s) = Some v" and "length (jo_visible s) \<le> jn_cap j"
  shows "journal_record H True en scope inst dropped (j, s) =
     (if wi_payload w = payload_for en scope inst dropped then (True, j, s)
      else (False, j\<lparr>jn_conflicts := jn_conflicts j + 1\<rparr>, s))"
  using assms by (simp add: journal_record_def publish_def enforce_retention_def Let_def)

end
