(* ===== verification/Effect_Gateway.thy ===== *)
theory Effect_Gateway
  imports Effect_Journal Effect_Budget_Safety Money_Ceilings
begin

text \<open>
  The effect gateway, from \<open>src/core/effect_gateway.py\<close>: the ledger of one scope's effects (\<open>EffectLedger\<close>) and the
  lifecycle of one logical effect (\<open>EffectLifecycle\<close>), the place where the unit law and the monetary law meet: an effect
  reserves its unit and its money before it is authorized, and spends its unit and claims its money before an attempt.

  The two laws keep their books in one store for every process; the gateway's state holds it (\<open>unit_system\<close>,
  \<open>money_db\<close>). The ledgers of the process are a dictionary by id, and the bound scopes a stack of ids, innermost first; a handle names
  its ledger. What a ledger reads from the live turn is the turn context of the call. The text of a reason that comes from a
  refusal is its code and rule; the notes on a replaced identity name the field. Where the code suppresses a failure the
  model goes on from the state the failed call left. Policies (\<open>TurnPolicy\<close>, \<open>decide_network_fetch\<close>) are left out, but
  for the policy id and workspace a receipt carries.
\<close>

section \<open>State\<close>

definition max_receipts :: nat where "max_receipts = 256"

record turn_context =
  cx_request_turn :: string
  cx_request_request :: string
  cx_request_session :: string
  cx_turn :: string
  cx_request :: string
  cx_session :: string
  cx_workspace :: string
  cx_task :: string
  cx_agent :: string
  cx_extra_task :: string
  cx_extra_agent :: string
  cx_ambient_request :: string

record effect_record =
  fr_class :: string
  fr_decision :: decision
  fr_host :: string
  fr_mode :: string
  fr_provider :: string
  fr_keyed :: string
  fr_attempts :: nat
  fr_terminal :: "(nat \<times> lifecycle) option"
  fr_recorded :: string

record effect_ledger =
  el_id :: string
  el_scope :: string
  el_durable :: bool
  el_instance :: string
  el_policy :: string
  el_workspace :: string
  el_turn :: string
  el_request :: string
  el_seq :: nat
  el_entries :: "effect_entry list"
  el_truncated :: bool
  el_dropped :: nat
  el_effects :: "(string, effect_record) dict"
  el_effects_truncated :: bool
  el_effects_dropped :: nat
  el_memo :: "(string, decision \<times> string) dict"

record gateway =
  gw_ledgers :: "(string, effect_ledger) dict"
  gw_stack :: "string list"
  gw_units :: unit_system
  gw_money :: money_db
  gw_journal :: "journal \<times> journal_store"

record gateway_env =
  ge_unit :: unit_env
  ge_money :: money_env
  ge_context :: turn_context
  ge_stamp :: string
  ge_liability :: string
  ge_claim :: string
  ge_second_claim :: string
  ge_hash :: "string \<Rightarrow> journal_payload \<Rightarrow> string"
  ge_journal_up :: bool

datatype gateway_refusal = Gw_unit unit_refusal | Gw_money money_code | Gw_effect_state | Gw_value

record effect_lifecycle =
  lc_ledger :: string
  lc_effect :: string
  lc_class :: string
  lc_decision :: decision
  lc_host :: string
  lc_mode :: string
  lc_decided_by :: string
  lc_attempt :: nat
  lc_liability :: string
  lc_claim :: "dispatch_claim option"

definition set_ledger :: "effect_ledger \<Rightarrow> gateway \<Rightarrow> gateway" where
  "set_ledger l g = g\<lparr>gw_ledgers := dict_set (el_id l) l (gw_ledgers g)\<rparr>"

section \<open>Identity and receipts\<close>

fun first_stated :: "string list \<Rightarrow> string" where
  "first_stated [] = []"
| "first_stated (x # xs) = (if x \<noteq> [] then x else first_stated xs)"

definition resolve_identity :: "turn_context \<Rightarrow> effect_ledger \<Rightarrow> effect_ledger" where
  "resolve_identity cx l =
     (if el_turn l \<noteq> [] \<and> el_request l \<noteq> [] then l
      else l\<lparr>el_turn := first_stated [el_turn l, cx_request_turn cx, cx_turn cx],
             el_request := first_stated [el_request l, cx_request_request cx, cx_request cx, cx_ambient_request cx]\<rparr>)"

definition mint_effect :: "string \<Rightarrow> nat \<Rightarrow> string" where
  "mint_effect lid n = ''eff:'' @ lid @ ''-'' @ rjust0 4 (show_nat n)"

definition replaced_note :: "string \<Rightarrow> string \<Rightarrow> string \<Rightarrow> string list" where
  "replaced_note field stated value = (if stated \<noteq> [] \<and> stated \<noteq> value then [field @ '' replaced by ledger''] else [])"

definition prepare_entry :: "string \<Rightarrow> effect_ledger \<Rightarrow> string \<Rightarrow> effect_entry \<Rightarrow> effect_entry" where
  "prepare_entry stamp l minted en =
     en\<lparr>en_turn := el_turn l, en_request := el_request l, en_policy := el_policy l, en_effect := minted, en_scope := el_scope l,
        en_recorded := (if en_recorded en \<noteq> [] then en_recorded en else stamp),
        en_note := en_note en @ replaced_note ''turn_id'' (en_turn en) (el_turn l) @ replaced_note ''request_id'' (en_request en) (el_request l)
          @ replaced_note ''policy_id'' (en_policy en) (el_policy l) @ replaced_note ''effect_id'' (en_effect en) minted\<rparr>"

definition ledger_append :: "turn_context \<Rightarrow> string \<Rightarrow> effect_entry \<Rightarrow> string \<Rightarrow> effect_ledger \<Rightarrow> string \<times> effect_entry \<times> bool \<times> effect_ledger" where
  "ledger_append cx stamp en keep l0 =
     (let l1 = resolve_identity cx l0; l = l1\<lparr>el_seq := el_seq l1 + 1\<rparr>;
          minted = (if keep \<noteq> [] \<and> dict_get (el_effects l) keep \<noteq> None then keep else mint_effect (el_id l) (el_seq l));
          prepared = prepare_entry stamp l minted en
      in if length (el_entries l) \<ge> max_receipts
         then (minted, prepared, False, l\<lparr>el_truncated := True, el_dropped := el_dropped l + 1\<rparr>)
         else (minted, prepared, True, l\<lparr>el_entries := el_entries l @ [prepared]\<rparr>))"

definition append_entry :: "gateway_env \<Rightarrow> string \<Rightarrow> effect_entry \<Rightarrow> string \<Rightarrow> gateway \<Rightarrow> string \<times> gateway" where
  "append_entry e lid en keep g = (case dict_get (gw_ledgers g) lid of
     None \<Rightarrow> ([], g)
   | Some l0 \<Rightarrow>
       (let (minted, prepared, kept, l) = ledger_append (ge_context e) (ge_stamp e) en keep l0; g' = set_ledger l g
        in (minted, if el_durable l
             then g'\<lparr>gw_journal := snd (journal_record (ge_hash e) (ge_journal_up e) prepared (el_scope l) (el_instance l) (\<not> kept) (gw_journal g'))\<rparr>
             else g')))"

definition finalized :: "turn_context \<Rightarrow> effect_ledger \<Rightarrow> effect_ledger" where
  "finalized cx l0 = (let l = resolve_identity cx l0
     in l\<lparr>el_entries := map (\<lambda>en. en\<lparr>en_turn := first_stated [en_turn en, el_turn l],
          en_request := first_stated [en_request en, el_request l]\<rparr>) (el_entries l)\<rparr>)"

section \<open>The registry of effects\<close>

definition new_record :: "effect_entry \<Rightarrow> effect_record" where
  "new_record en = \<lparr>fr_class = en_class en, fr_decision = en_decision en, fr_host = en_host en, fr_mode = en_mode en,
     fr_provider = en_provider en, fr_keyed = en_keyed en, fr_attempts = 0, fr_terminal = None, fr_recorded = en_recorded en\<rparr>"

definition register_effect :: "string \<Rightarrow> effect_entry \<Rightarrow> effect_ledger \<Rightarrow> effect_ledger" where
  "register_effect eid en l = (case dict_get (el_effects l) eid of
     Some r \<Rightarrow> l
   | None \<Rightarrow>
       (let n = length (el_effects l) - (max_receipts - 1)
        in l\<lparr>el_effects := dict_set eid (new_record en) (drop n (el_effects l)),
             el_effects_truncated := (el_effects_truncated l \<or> n > 0), el_effects_dropped := el_effects_dropped l + n\<rparr>))"

definition begin_registered :: "string \<Rightarrow> effect_ledger \<Rightarrow> (nat \<times> effect_ledger) option" where
  "begin_registered eid l = (case dict_get (el_effects l) eid of
     None \<Rightarrow> None
   | Some r \<Rightarrow> Some (fr_attempts r + 1, l\<lparr>el_effects := dict_set eid (r\<lparr>fr_attempts := fr_attempts r + 1\<rparr>) (el_effects l)\<rparr>))"

definition terminal_transition :: "gateway_env \<Rightarrow> string \<Rightarrow> string \<Rightarrow> nat \<Rightarrow> lifecycle \<Rightarrow> effect_entry \<Rightarrow> gateway
    \<Rightarrow> (gateway_refusal + lifecycle) \<times> gateway" where
  "terminal_transition e lid eid attempt lc en g = (case dict_get (gw_ledgers g) lid of
     None \<Rightarrow> (Inl Gw_effect_state, g)
   | Some l \<Rightarrow>
       (case dict_get (el_effects l) eid of
          None \<Rightarrow> (Inl Gw_effect_state, g)
        | Some r \<Rightarrow>
            (case fr_terminal r of
               Some (n, first) \<Rightarrow>
                 if attempt \<le> n then (Inr first, g)
                 else (Inr lc, snd (append_entry e lid en eid
                        (set_ledger (l\<lparr>el_effects := dict_set eid (r\<lparr>fr_terminal := Some (attempt, lc)\<rparr>) (el_effects l)\<rparr>) g)))
             | None \<Rightarrow> (Inr lc, snd (append_entry e lid en eid
                        (set_ledger (l\<lparr>el_effects := dict_set eid (r\<lparr>fr_terminal := Some (attempt, lc)\<rparr>) (el_effects l)\<rparr>) g))))))"

record effect_outcome =
  oc_effect :: string
  oc_class :: string
  oc_decision :: decision
  oc_lifecycle :: lifecycle
  oc_unresolved :: bool
  oc_transport_ran :: bool
  oc_attempts :: nat

definition outcome_of :: "string \<times> effect_record \<Rightarrow> effect_outcome" where
  "outcome_of = (\<lambda>(eid, r).
     (let (lc, unresolved) = (case fr_terminal r of
            Some (n, t) \<Rightarrow> if n = fr_attempts r then (t, False) else if fr_attempts r > 0 then (Lc_started, True) else (t, False)
          | None \<Rightarrow> if fr_attempts r > 0 then (Lc_started, True) else (decision_lifecycle (fr_decision r), False))
      in \<lparr>oc_effect = eid, oc_class = fr_class r, oc_decision = fr_decision r, oc_lifecycle = lc, oc_unresolved = unresolved,
          oc_transport_ran = (fr_attempts r > 0), oc_attempts = fr_attempts r\<rparr>))"

definition effect_outcomes :: "effect_ledger \<Rightarrow> effect_outcome list" where
  "effect_outcomes l = map outcome_of (el_effects l)"

definition frozen_decision :: "string \<Rightarrow> effect_ledger \<Rightarrow> (decision \<times> string) option" where
  "frozen_decision cls l = dict_get (el_memo l) cls"

definition freeze_decision :: "string \<Rightarrow> decision \<times> string \<Rightarrow> effect_ledger \<Rightarrow> effect_ledger" where
  "freeze_decision cls verdict l =
     (if dict_get (el_memo l) cls = None then l\<lparr>el_memo := dict_set cls verdict (el_memo l)\<rparr> else l)"

section \<open>The gate: units, then money\<close>

definition gate_then :: "(gateway_refusal + 'a) \<times> gateway \<Rightarrow> ('a \<Rightarrow> gateway \<Rightarrow> (gateway_refusal + 'b) \<times> gateway)
    \<Rightarrow> (gateway_refusal + 'b) \<times> gateway" where
  "gate_then r k = (case r of (Inl x, g) \<Rightarrow> (Inl x, g) | (Inr a, g) \<Rightarrow> k a g)"

definition unit_call :: "(unit_refusal + 'a) \<times> unit_store \<Rightarrow> gateway \<Rightarrow> (gateway_refusal + 'a) \<times> gateway" where
  "unit_call r g = ((case fst r of Inl x \<Rightarrow> Inl (Gw_unit x) | Inr a \<Rightarrow> Inr a), g\<lparr>gw_units := (gw_units g)\<lparr>sy_store := snd r\<rparr>\<rparr>)"

definition money_call :: "money_db \<times> (money_code + 'a) \<Rightarrow> gateway \<Rightarrow> (gateway_refusal + 'a) \<times> gateway" where
  "money_call r g = ((case snd r of Inl c \<Rightarrow> Inl (Gw_money c) | Inr a \<Rightarrow> Inr a), g\<lparr>gw_money := fst r\<rparr>)"

definition owned_project :: "turn_context \<Rightarrow> effect_ledger \<Rightarrow> string" where
  "owned_project cx l = first_stated [el_workspace l, cx_workspace cx, ''default'']"

definition budget_identity :: "turn_context \<Rightarrow> effect_ledger \<Rightarrow> string \<Rightarrow> unit_identity" where
  "budget_identity cx l0 provider = (let l = resolve_identity cx l0 in
     \<lparr>ui_turn = el_turn l, ui_session = first_stated [cx_request_session cx, cx_session cx], ui_project = owned_project cx l,
      ui_request = el_request l, ui_task = first_stated [cx_task cx, cx_extra_task cx],
      ui_agent = first_stated [cx_agent cx, cx_extra_agent cx], ui_provider = provider\<rparr>)"

definition owned_identity :: "turn_context \<Rightarrow> effect_ledger \<Rightarrow> string \<Rightarrow> money_identity" where
  "owned_identity cx l provider = (let i = budget_identity cx l provider in
     \<lparr>mi_request = ui_request i, mi_turn = ui_turn i, mi_task = ui_task i, mi_agent = ui_agent i, mi_session = ui_session i,
      mi_project = (if ui_project i = ''default'' then [] else ui_project i), mi_provider = ui_provider i\<rparr>)"

definition unit_reason :: "unit_refusal \<Rightarrow> string" where
  "unit_reason x = (case x of Unit_exceeded r \<Rightarrow> ''EFFECT_BUDGET_EXCEEDED [rule '' @ r @ '']''
     | Unit_store_unavailable \<Rightarrow> ''EFFECT_BUDGET_STORE_UNAVAILABLE'' | Unit_authority \<Rightarrow> ''EFFECT_BUDGET_AUTHORITY_REFUSED''
     | Unit_state_error \<Rightarrow> ''EFFECT_BUDGET_STATE_ERROR'' | Unit_unknown_class \<Rightarrow> ''EFFECT_BUDGET_UNKNOWN_CLASS'' | Unit_raw_store_error \<Rightarrow> ''store error'')"

definition money_reason :: "money_code \<Rightarrow> string" where
  "money_reason c = (case c of
     Budget_exceeded \<Rightarrow> ''MONEY_BUDGET_EXCEEDED'' | Authority_required \<Rightarrow> ''MONEY_AUTHORITY_REQUIRED''
   | Authority_invalid \<Rightarrow> ''MONEY_AUTHORITY_INVALID'' | Authority_exhausted \<Rightarrow> ''MONEY_AUTHORITY_EXHAUSTED''
   | Authority_expired \<Rightarrow> ''MONEY_AUTHORITY_EXPIRED'' | Authority_revoked \<Rightarrow> ''MONEY_AUTHORITY_REVOKED''
   | Authority_rate_limited \<Rightarrow> ''MONEY_AUTHORITY_RATE_LIMITED'' | Liquidity_unverified \<Rightarrow> ''MONEY_LIQUIDITY_UNVERIFIED''
   | Liquidity_insufficient \<Rightarrow> ''MONEY_LIQUIDITY_INSUFFICIENT'' | Conversion_unavailable \<Rightarrow> ''MONEY_CONVERSION_UNAVAILABLE''
   | Money_frozen \<Rightarrow> ''MONEY_FROZEN'' | Reservation_expired \<Rightarrow> ''MONEY_RESERVATION_EXPIRED'' | State_error \<Rightarrow> ''MONEY_STATE_ERROR''
   | Claim_conflict \<Rightarrow> ''MONEY_CLAIM_CONFLICT'' | Settlement_conflict \<Rightarrow> ''MONEY_SETTLEMENT_CONFLICT''
   | Evidence_insufficient \<Rightarrow> ''MONEY_EVIDENCE_INSUFFICIENT'' | Idempotency_conflict \<Rightarrow> ''MONEY_IDEMPOTENCY_CONFLICT''
   | Identity_conflict \<Rightarrow> ''MONEY_IDENTITY_CONFLICT'' | Invalid_request \<Rightarrow> ''MONEY_INVALID_REQUEST''
   | Operator_required \<Rightarrow> ''EFFECT_BUDGET_AUTHORITY_REFUSED'' | Store_unavailable \<Rightarrow> ''MONEY_STORE_UNAVAILABLE'')"

definition denied_entry :: "effect_entry \<Rightarrow> string \<Rightarrow> string \<Rightarrow> effect_entry" where
  "denied_entry en reason by = en\<lparr>en_decision := Denied, en_lifecycle := Lc_denied, en_reason := reason, en_decided_by := by\<rparr>"

definition reserve_budget_units :: "gateway_env \<Rightarrow> effect_ledger \<Rightarrow> effect_entry \<Rightarrow> string \<Rightarrow> gateway
    \<Rightarrow> (gateway_refusal + string) \<times> gateway" where
  "reserve_budget_units e l en retry g = (case gateway_budget_class (en_class en) of
     None \<Rightarrow> (Inr [], g)
   | Some c \<Rightarrow>
       if retry \<noteq> [] \<and> \<not> store_ok (ge_unit e) then (Inl (Gw_unit Unit_raw_store_error), g)
       else if retry \<noteq> [] \<and> list_ex (\<lambda>st. st \<noteq> Unit_Released) (effect_reservation_states retry (sy_store (gw_units g))) then (Inr [], g)
       else (let g1 = set_ledger (resolve_identity (ge_context e) l) g; sy = gw_units g; u = ge_unit e;
                 (r, p, s) = reserve_effect_units u (Some c) [] (el_id l) (budget_identity (ge_context e) l (en_provider en)) 1
                               (process_of (ev_pid u) sy) (sy_store sy);
                 g2 = g1\<lparr>gw_units := \<lparr>sy_store = s, sy_procs = dict_set (ev_pid u) p (sy_procs sy)\<rparr>\<rparr>
             in (case r of
                 Inl x \<Rightarrow> (Inl (Gw_unit x), snd (append_entry e (el_id l) (denied_entry en (unit_reason x) ''core.effect_budget'') [] g2))
               | Inr t \<Rightarrow> (Inr (if rt_unbudgeted t then [] else rt_reservation t), g2))))"

definition refuse_money :: "gateway_env \<Rightarrow> effect_ledger \<Rightarrow> effect_entry \<Rightarrow> string \<Rightarrow> money_code \<Rightarrow> gateway
    \<Rightarrow> (gateway_refusal + 'a) \<times> gateway" where
  "refuse_money e l en rid c g =
     (let g1 = (if rid = [] then g
                else snd (unit_call (release_reservation (ge_unit e) rid ''money authority refused the effect at the gate'' (sy_store (gw_units g))) g))
      in (Inl (Gw_money c), snd (append_entry e (el_id l) (denied_entry en (money_reason c) ''core.effect_budget_money'') [] g1)))"

definition bound_request :: "turn_context \<Rightarrow> effect_ledger \<Rightarrow> string \<Rightarrow> liability_request \<Rightarrow> money_code + liability_request" where
  "bound_request cx l provider rq = and_then (bind_owned_identity rq (owned_identity cx l provider) (el_id l) []) (\<lambda>rq.
     Inr (if mi_project (rq_identity rq) = [] then rq\<lparr>rq_identity := (rq_identity rq)\<lparr>mi_project := ''default''\<rparr>\<rparr> else rq))"

definition reserve_money_at_gate :: "gateway_env \<Rightarrow> effect_ledger \<Rightarrow> effect_entry \<Rightarrow> liability_request \<Rightarrow> string \<Rightarrow> gateway
    \<Rightarrow> (gateway_refusal + string) \<times> gateway" where
  "reserve_money_at_gate e l en rq rid g0 =
     (let g = set_ledger (resolve_identity (ge_context e) l) g0 in
      case bound_request (ge_context e) l (en_provider en) rq of
        Inl c \<Rightarrow> refuse_money e l en rid c g
      | Inr rq' \<Rightarrow>
          (case reserve_liability (ge_money e) rq' (ge_liability e) (gw_money g) of
             (db, Inl c) \<Rightarrow> refuse_money e l en rid c (g\<lparr>gw_money := db\<rparr>)
           | (db, Inr r) \<Rightarrow>
               if rc_state r \<noteq> Li_Reserved then refuse_money e l en rid Claim_conflict (g\<lparr>gw_money := db\<rparr>)
               else (Inr (rc_id r), g\<lparr>gw_money := db\<rparr>)))"

definition with_ledger :: "string \<Rightarrow> (effect_ledger \<Rightarrow> (gateway_refusal + 'a) \<times> gateway) \<Rightarrow> gateway \<Rightarrow> (gateway_refusal + 'a) \<times> gateway" where
  "with_ledger lid k g = (case dict_get (gw_ledgers g) lid of None \<Rightarrow> (Inl Gw_effect_state, g) | Some l \<Rightarrow> k l)"

definition known_effect :: "string \<Rightarrow> effect_ledger \<Rightarrow> bool" where
  "known_effect eid l \<longleftrightarrow> eid \<noteq> [] \<and> dict_get (el_effects l) eid \<noteq> None"

definition record_opening :: "gateway_env \<Rightarrow> string \<Rightarrow> effect_entry \<Rightarrow> bool \<Rightarrow> string \<Rightarrow> gateway \<Rightarrow> string \<times> effect_entry \<times> gateway" where
  "record_opening e lid en known retry g =
     (if known then (retry, en, if en_decision en = Denied then snd (append_entry e lid en retry g) else g)
      else (let en' = (if retry = [] then en else en\<lparr>en_note := en_note en @ [''retry_of not an effect of this ledger'']\<rparr>);
                (eid, g') = append_entry e lid en' [] g
            in (eid, en', g')))"

definition new_handle :: "string \<Rightarrow> string \<Rightarrow> effect_entry \<Rightarrow> string \<Rightarrow> effect_lifecycle" where
  "new_handle lid eid en li = \<lparr>lc_ledger = lid, lc_effect = eid, lc_class = en_class en, lc_decision = en_decision en, lc_host = en_host en,
     lc_mode = en_mode en, lc_decided_by = en_decided_by en, lc_attempt = 0, lc_liability = li, lc_claim = None\<rparr>"

definition enroll :: "string \<Rightarrow> string \<Rightarrow> effect_entry \<Rightarrow> gateway \<Rightarrow> gateway" where
  "enroll lid eid en g = (case dict_get (gw_ledgers g) lid of None \<Rightarrow> g | Some l \<Rightarrow> set_ledger (register_effect eid en l) g)"

definition bind_opening :: "gateway_env \<Rightarrow> string \<Rightarrow> string \<Rightarrow> effect_entry \<Rightarrow> string \<Rightarrow> string \<Rightarrow> gateway
    \<Rightarrow> (gateway_refusal + effect_lifecycle) \<times> gateway" where
  "bind_opening e lid eid en rid li g =
     gate_then (if rid = [] then (Inr (), g) else unit_call (bind_reservation_effect (ge_unit e) rid eid (sy_store (gw_units g))) g) (\<lambda>_ g1.
     gate_then (if li = [] then (Inr (), g1) else money_call (bind_liability_effect li eid (gw_money g1)) g1) (\<lambda>_ g2.
     (Inr (new_handle lid eid en li), enroll lid eid en g2)))"

definition open_effect :: "gateway_env \<Rightarrow> string \<Rightarrow> effect_entry \<Rightarrow> string \<Rightarrow> liability_request option \<Rightarrow> gateway
    \<Rightarrow> (gateway_refusal + effect_lifecycle) \<times> gateway" where
  "open_effect e lid en retry money g0 = with_ledger lid (\<lambda>l.
     let known = known_effect retry l in
     gate_then (if en_decision en = Allowed then reserve_budget_units e l en (if known then retry else []) g0 else (Inr [], g0)) (\<lambda>rid g1.
     gate_then (case money of
         Some rq \<Rightarrow> if en_decision en = Allowed then with_ledger lid (\<lambda>l. reserve_money_at_gate e l en rq rid g1) g1 else (Inr [], g1)
       | None \<Rightarrow> (Inr [], g1)) (\<lambda>li g2.
     let (eid, en', g3) = record_opening e lid en known retry g2 in bind_opening e lid eid en' rid li g3))) g0"

section \<open>The attempt\<close>

definition status_token :: "int \<Rightarrow> string" where
  "status_token n = ''http_'' @ (if n < 0 then ''-'' @ show_digits (- n) else show_digits n)"

text \<open>A transport failure as the reason reads it: the names of the exception's types, whether one is a timeout, its status.\<close>

record transport_failure =
  tf_name :: string
  tf_inner :: "string option"
  tf_timeout :: bool
  tf_code :: "int option"

definition safe_transport_failure_reason :: "transport_failure option \<Rightarrow> string" where
  "safe_transport_failure_reason x = (case x of None \<Rightarrow> ''failed'' | Some f \<Rightarrow>
     (let parts = (case tf_code f of None \<Rightarrow> [] | Some n \<Rightarrow> [status_token n]) @ (if tf_timeout f then [''timeout''] else [])
           @ [tf_name f] @ (case tf_inner f of None \<Rightarrow> [] | Some t \<Rightarrow> [t])
      in py_join '':'' (py_unique parts)))"

definition lifecycle_entry :: "effect_lifecycle \<Rightarrow> lifecycle \<Rightarrow> string \<Rightarrow> nat \<Rightarrow> effect_entry" where
  "lifecycle_entry h lc reason n = make_receipt (lc_class h) (lc_decision h) (Some lc) reason (lc_host h) (lc_mode h) (lc_decided_by h) n"

definition consume_budget_for_attempt :: "gateway_env \<Rightarrow> effect_lifecycle \<Rightarrow> gateway \<Rightarrow> (gateway_refusal + unit) \<times> gateway" where
  "consume_budget_for_attempt e h g = (case gateway_budget_class (lc_class h) of
     None \<Rightarrow> (Inr (), g)
   | Some c \<Rightarrow> gate_then (unit_call (consume_effect_reservations (ge_unit e) (lc_effect h) (Some c) (sy_store (gw_units g))) g)
                 (\<lambda>_ g'. (Inr (), g')))"

definition executor_name :: "effect_lifecycle \<Rightarrow> string" where
  "executor_name h = ''effect_gateway:'' @ lc_class h @ '':'' @ lc_effect h"

definition proven_unsent :: "string \<Rightarrow> money_db \<Rightarrow> bool" where
  "proven_unsent li db \<longleftrightarrow> (case dict_get (liabilities db) li of None \<Rightarrow> False | Some l \<Rightarrow> li_status l = Li_Unsent)"

definition claim_money_for_attempt :: "gateway_env \<Rightarrow> effect_lifecycle \<Rightarrow> gateway \<Rightarrow> (gateway_refusal + dispatch_claim option) \<times> gateway" where
  "claim_money_for_attempt e h g =
     (let li = lc_liability h; m = ge_money e in
      if li = [] then (Inr None, g)
      else (case claim_dispatch m li (executor_name h) (ge_claim e) (gw_money g) of
          (db, Inr c) \<Rightarrow> (Inr (Some c), g\<lparr>gw_money := db\<rparr>)
        | (db, Inl code) \<Rightarrow>
            if code \<noteq> State_error \<or> \<not> proven_unsent li db then (Inl (Gw_money code), g\<lparr>gw_money := db\<rparr>)
            else gate_then (money_call (retry_unsent m li db) g) (\<lambda>_ g'.
                 gate_then (money_call (claim_dispatch m li (executor_name h) (ge_second_claim e) (gw_money g')) g') (\<lambda>c g''. (Inr (Some c), g'')))))"

definition money_unsent_locally :: "gateway_env \<Rightarrow> effect_lifecycle \<Rightarrow> dispatch_claim option \<Rightarrow> string \<Rightarrow> gateway \<Rightarrow> gateway" where
  "money_unsent_locally e h claim why g = (case claim of
     None \<Rightarrow> g
   | Some c \<Rightarrow> snd (money_call (record_unsent (ge_money e) (lc_liability h) (dc_token c) Local_refusal (lc_effect h @ '':'' @ why)
                 From_mechanism None (gw_money g)) g))"

text \<open>The handle is returned with the claim and the attempt it took, also when the attempt is refused.\<close>

definition begin_attempt :: "gateway_env \<Rightarrow> effect_lifecycle \<Rightarrow> gateway \<Rightarrow> (gateway_refusal + nat) \<times> effect_lifecycle \<times> gateway" where
  "begin_attempt e h g =
     (if lc_decision h = Denied then (Inl Gw_effect_state, h, g)
      else (case claim_money_for_attempt e h g of
          (Inl x, g1) \<Rightarrow> (Inl x, h, g1)
        | (Inr c, g1) \<Rightarrow>
           (let h1 = (if c = None then h else h\<lparr>lc_claim := c\<rparr>) in
            case consume_budget_for_attempt e h1 g1 of
              (Inl x, g2) \<Rightarrow> (Inl x, h1, money_unsent_locally e h1 c ''unit-refused'' g2)
            | (Inr _, g2) \<Rightarrow>
               (case (case dict_get (gw_ledgers g2) (lc_ledger h1) of None \<Rightarrow> None | Some l \<Rightarrow> begin_registered (lc_effect h1) l) of
                  None \<Rightarrow> (Inl Gw_effect_state, h1, g2)
                | Some (n, l) \<Rightarrow>
                   (Inr n, h1\<lparr>lc_attempt := n\<rparr>,
                    snd (append_entry e (lc_ledger h1) (lifecycle_entry h1 Lc_started (''transport attempt '' @ show_nat n) n) (lc_effect h1)
                      (set_ledger l g2)))))))"

definition record_terminal :: "gateway_env \<Rightarrow> effect_lifecycle \<Rightarrow> lifecycle \<Rightarrow> string \<Rightarrow> int option \<Rightarrow> gateway \<Rightarrow> (gateway_refusal + lifecycle) \<times> gateway" where
  "record_terminal e h lc reason status g =
     (if \<not> terminal_lifecycle lc then (Inl Gw_value, g)
      else (let why = first_stated [reason, (case status of None \<Rightarrow> [] | Some n \<Rightarrow> status_token n), lifecycle_name lc]
            in terminal_transition e (lc_ledger h) (lc_effect h) (lc_attempt h) lc (lifecycle_entry h lc why (lc_attempt h)) g))"

definition money_after_attempt :: "gateway_env \<Rightarrow> effect_lifecycle \<Rightarrow> bool \<Rightarrow> string \<Rightarrow> gateway \<Rightarrow> gateway" where
  "money_after_attempt e h dispatched reason g = (case lc_claim h of
     None \<Rightarrow> g
   | Some c \<Rightarrow>
       if lc_liability h = [] then g
       else if dispatched then
         snd (money_call (record_dispatched (ge_money e) (lc_liability h) (dc_token c) (lc_effect h @ '':attempt-'' @ show_nat (lc_attempt h)) (gw_money g)) g)
       else snd (money_call (record_unknown (ge_money e) (lc_liability h) (dc_token c)
                   (take 200 (first_stated [reason, ''attempt failed after the dispatch claim''])) (gw_money g)) g))"

definition succeed :: "gateway_env \<Rightarrow> effect_lifecycle \<Rightarrow> int option \<Rightarrow> string \<Rightarrow> gateway \<Rightarrow> (gateway_refusal + lifecycle) \<times> gateway" where
  "succeed e h status reason g =
     (let why = (if reason = [] \<and> status = None then ''transport returned'' else reason)
      in gate_then (record_terminal e h Lc_succeeded why status g) (\<lambda>t g'. (Inr t, money_after_attempt e h True why g')))"

definition fail :: "gateway_env \<Rightarrow> effect_lifecycle \<Rightarrow> transport_failure option \<Rightarrow> string \<Rightarrow> gateway \<Rightarrow> (gateway_refusal + lifecycle) \<times> gateway" where
  "fail e h x reason g =
     (let why = first_stated [reason, safe_transport_failure_reason x]
      in gate_then (record_terminal e h Lc_failed why None g) (\<lambda>t g'. (Inr t, money_after_attempt e h False why g')))"

definition return_money :: "gateway_env \<Rightarrow> effect_lifecycle \<Rightarrow> string \<Rightarrow> gateway \<Rightarrow> gateway" where
  "return_money e h reason g =
     (if lc_liability h = [] then g
      else (case lc_claim h of
          None \<Rightarrow> g\<lparr>gw_money := fst (release_unclaimed (ge_money e) (lc_liability h) (first_stated [reason, ''cancelled-before-attempt'']) (gw_money g))\<rparr>
        | Some c \<Rightarrow> snd (money_call (record_unknown (ge_money e) (lc_liability h) (dc_token c)
                     (first_stated [reason, ''cancelled after the dispatch claim'']) (gw_money g)) g)))"

definition cancel :: "gateway_env \<Rightarrow> effect_lifecycle \<Rightarrow> string \<Rightarrow> gateway \<Rightarrow> (gateway_refusal + lifecycle) \<times> gateway" where
  "cancel e h reason g =
     gate_then (record_terminal e h Lc_cancelled (first_stated [reason, ''cancelled'']) None g) (\<lambda>t g'.
       (Inr t, return_money e h reason (snd (unit_call (release_effect_reservations (ge_unit e) (lc_effect h)
                  (first_stated [reason, ''cancelled-before-attempt'']) (sy_store (gw_units g'))) g'))))"

definition claim_token :: "effect_lifecycle \<Rightarrow> string" where
  "claim_token h = (case lc_claim h of None \<Rightarrow> [] | Some c \<Rightarrow> dc_token c)"

definition with_money :: "effect_lifecycle \<Rightarrow> (gateway \<Rightarrow> (gateway_refusal + 'a) \<times> gateway) \<Rightarrow> gateway \<Rightarrow> (gateway_refusal + 'a) \<times> gateway" where
  "with_money h k g = (if lc_liability h = [] then (Inl (Gw_money State_error), g) else k g)"

definition money_unsent :: "gateway_env \<Rightarrow> effect_lifecycle \<Rightarrow> unsent_proof \<Rightarrow> string \<Rightarrow> evidence_source \<Rightarrow> gateway
    \<Rightarrow> (gateway_refusal + li_state) \<times> gateway" where
  "money_unsent e h proof evidence source = with_money h (\<lambda>g.
     money_call (record_unsent (ge_money e) (lc_liability h) (claim_token h) proof evidence source None (gw_money g)) g)"

definition money_unknown :: "gateway_env \<Rightarrow> effect_lifecycle \<Rightarrow> string \<Rightarrow> gateway \<Rightarrow> (gateway_refusal + li_state) \<times> gateway" where
  "money_unknown e h reason = with_money h (\<lambda>g.
     money_call (record_unknown (ge_money e) (lc_liability h) (claim_token h) reason (gw_money g)) g)"

definition settle_money :: "gateway_env \<Rightarrow> effect_lifecycle \<Rightarrow> settlement_evidence \<Rightarrow> gateway \<Rightarrow> (gateway_refusal + settle_result) \<times> gateway" where
  "settle_money e h evidence = with_money h (\<lambda>g. money_call (settle_liability (ge_money e) (lc_liability h) evidence [] (gw_money g)) g)"

section \<open>Scopes\<close>

definition new_ledger :: "string \<Rightarrow> string \<Rightarrow> bool \<Rightarrow> string \<Rightarrow> string \<Rightarrow> string \<Rightarrow> effect_ledger" where
  "new_ledger lid scope durable inst policy workspace =
     \<lparr>el_id = lid, el_scope = scope, el_durable = (durable \<and> scope \<noteq> []), el_instance = inst, el_policy = policy, el_workspace = workspace,
      el_turn = [], el_request = [], el_seq = 0, el_entries = [], el_truncated = False, el_dropped = 0, el_effects = [],
      el_effects_truncated = False, el_effects_dropped = 0, el_memo = []\<rparr>"

definition open_effect_receipt_scope :: "string \<Rightarrow> string \<Rightarrow> string \<Rightarrow> gateway \<Rightarrow> gateway" where
  "open_effect_receipt_scope lid policy workspace g =
     (set_ledger (new_ledger lid [] False [] policy workspace) g)\<lparr>gw_stack := lid # gw_stack g\<rparr>"

text \<open>The background scope yields the current ledger when there is one; only a scope of its own is closed by it.\<close>

definition enter_background_scope :: "string \<Rightarrow> bool \<Rightarrow> string \<Rightarrow> string \<Rightarrow> string \<Rightarrow> string \<Rightarrow> gateway
    \<Rightarrow> (gateway_refusal + string \<times> bool) \<times> gateway" where
  "enter_background_scope name durable lid inst policy workspace g =
     (let scope = py_strip name in
      if scope = [] then (Inl Gw_value, g)
      else (case gw_stack g of
          current # rest \<Rightarrow> (Inr (current, False), g)
        | [] \<Rightarrow> (Inr (lid, True), (set_ledger (new_ledger lid scope durable (if durable then ''bgi:'' @ inst else []) policy workspace) g)
                  \<lparr>gw_stack := [lid]\<rparr>)))"

definition return_unspent :: "gateway_env \<Rightarrow> string \<Rightarrow> string \<Rightarrow> string \<Rightarrow> gateway \<Rightarrow> gateway" where
  "return_unspent e lid unit_why money_why g =
     (let g1 = snd (unit_call (release_unconsumed_for_owner (ge_unit e) lid unit_why True (sy_store (gw_units g))) g)
      in g1\<lparr>gw_money := fst (release_unclaimed_for_owner (ge_money e) lid money_why (gw_money g1))\<rparr>)"

definition leave_background_scope :: "gateway_env \<Rightarrow> string \<times> bool \<Rightarrow> gateway \<Rightarrow> gateway" where
  "leave_background_scope e = (\<lambda>(lid, own) g.
     if \<not> own then g
     else return_unspent e lid ''background scope closed: authorized effect never executed''
            ''background scope closed: payment never claimed for dispatch'' (g\<lparr>gw_stack := []\<rparr>))"

definition close_effect_receipt_scope :: "gateway_env \<Rightarrow> gateway \<Rightarrow> effect_entry list \<times> gateway" where
  "close_effect_receipt_scope e g = (case gw_stack g of
     [] \<Rightarrow> ([], g)
   | lid # rest \<Rightarrow>
       (let g1 = return_unspent e lid ''owner scope closed: authorized effect never executed''
                   ''owner scope closed: payment never claimed for dispatch'' (g\<lparr>gw_stack := rest\<rparr>)
        in (case dict_get (gw_ledgers g1) lid of
              None \<Rightarrow> ([], g1)
            | Some l \<Rightarrow> (el_entries (finalized (ge_context e) l), set_ledger (finalized (ge_context e) l) g1))))"

section \<open>The operations on the gateway\<close>

text \<open>Every operation on the gateway, with any handle, and every use of the two laws by somebody else.\<close>

datatype gateway_op =
    G_Open_turn string string string
  | G_Enter string bool string string string string
  | G_Leave gateway_env "string \<times> bool"
  | G_Close gateway_env
  | G_Record gateway_env string effect_entry
  | G_Open_effect gateway_env string effect_entry string "liability_request option"
  | G_Begin gateway_env effect_lifecycle
  | G_Terminal gateway_env effect_lifecycle lifecycle string "int option"
  | G_Succeed gateway_env effect_lifecycle "int option" string
  | G_Fail gateway_env effect_lifecycle "transport_failure option" string
  | G_Cancel gateway_env effect_lifecycle string
  | G_Unsent gateway_env effect_lifecycle unsent_proof string evidence_source
  | G_Unknown gateway_env effect_lifecycle string
  | G_Settle gateway_env effect_lifecycle settlement_evidence
  | G_Freeze string string "decision \<times> string"
  | G_Units unit_op
  | G_Money money_env money_op

definition freeze_on :: "string \<Rightarrow> string \<Rightarrow> decision \<times> string \<Rightarrow> gateway \<Rightarrow> gateway" where
  "freeze_on lid cls v g = (case dict_get (gw_ledgers g) lid of None \<Rightarrow> g | Some l \<Rightarrow> set_ledger (freeze_decision cls v l) g)"

fun gateway_step :: "gateway_op \<Rightarrow> gateway \<Rightarrow> gateway" where
  "gateway_step (G_Open_turn lid policy ws) g = open_effect_receipt_scope lid policy ws g"
| "gateway_step (G_Enter name durable lid inst policy ws) g = snd (enter_background_scope name durable lid inst policy ws g)"
| "gateway_step (G_Leave e sc) g = leave_background_scope e sc g"
| "gateway_step (G_Close e) g = snd (close_effect_receipt_scope e g)"
| "gateway_step (G_Record e lid en) g = snd (append_entry e lid en [] g)"
| "gateway_step (G_Open_effect e lid en retry money) g = snd (open_effect e lid en retry money g)"
| "gateway_step (G_Begin e h) g = snd (snd (begin_attempt e h g))"
| "gateway_step (G_Terminal e h lc reason status) g = snd (record_terminal e h lc reason status g)"
| "gateway_step (G_Succeed e h status reason) g = snd (succeed e h status reason g)"
| "gateway_step (G_Fail e h x reason) g = snd (fail e h x reason g)"
| "gateway_step (G_Cancel e h reason) g = snd (cancel e h reason g)"
| "gateway_step (G_Unsent e h p ev src) g = snd (money_unsent e h p ev src g)"
| "gateway_step (G_Unknown e h reason) g = snd (money_unknown e h reason g)"
| "gateway_step (G_Settle e h ev) g = snd (settle_money e h ev g)"
| "gateway_step (G_Freeze lid cls v) g = freeze_on lid cls v g"
| "gateway_step (G_Units x) g = g\<lparr>gw_units := unit_step x (gw_units g)\<rparr>"
| "gateway_step (G_Money m x) g = g\<lparr>gw_money := money_step (m, x) (gw_money g)\<rparr>"

definition fresh_gateway :: "unit_system \<Rightarrow> money_db \<Rightarrow> int \<Rightarrow> gateway" where
  "fresh_gateway units money cap = \<lparr>gw_ledgers = [], gw_stack = [], gw_units = units, gw_money = money,
     gw_journal = (new_journal cap, empty_journal_store (nat cap))\<rparr>"

end
