(* ===== verification/Effect_Gateway_Laws.thy ===== *)
theory Effect_Gateway_Laws
  imports Effect_Gateway
begin

text \<open>
  What the gateway keeps, whatever handles and interleavings: the two books move only by the participants' operations of
  their laws, so their ceilings hold through the gateway; an attempt that starts is paid for; a refused one leaves no
  claim; a scope that closes holds nothing; the receipts tell each attempt's end once.
\<close>

declare map_of_eq_Some_iff [simp del] Some_eq_map_of_iff [simp del]

section \<open>The gateway acts by the laws\<close>

definition unit_participation :: "gateway_env \<Rightarrow> unit_op \<Rightarrow> bool" where
  "unit_participation e x = (case x of
     U_Reserve u cls effect owner i n \<Rightarrow> u = ge_unit e \<and> n = 1 \<and> effect = []
   | U_Bind u rid effect \<Rightarrow> u = ge_unit e | U_Release u rid why \<Rightarrow> u = ge_unit e | U_Release_owner u owner why quiet \<Rightarrow> u = ge_unit e
   | U_Release_effect u effect why \<Rightarrow> u = ge_unit e | U_Consume_effect u effect cls \<Rightarrow> u = ge_unit e | _ \<Rightarrow> False)"

definition money_participation :: "money_op \<Rightarrow> bool" where
  "money_participation x = (case x of
     Reserve_op rq lid \<Rightarrow> True | Bind_effect_op lid ef \<Rightarrow> True | Claim_op lid ex tok \<Rightarrow> True | Dispatched_op lid tok ev \<Rightarrow> True
   | Unknown_op lid tok r \<Rightarrow> True | Unsent_op lid tok p ev s operator \<Rightarrow> operator = None | Release_op lid r \<Rightarrow> True
   | Release_owner_op ow r \<Rightarrow> True | Retry_op lid \<Rightarrow> True | Settle_op lid ev tok \<Rightarrow> True | _ \<Rightarrow> False)"

definition by_laws :: "gateway_env \<Rightarrow> (money_op \<Rightarrow> bool) \<Rightarrow> gateway \<Rightarrow> gateway \<Rightarrow> bool" where
  "by_laws e M g g' \<longleftrightarrow> (\<exists>us ms. list_all (unit_participation e) us \<and> list_all M ms
     \<and> gw_units g' = fold unit_step us (gw_units g) \<and> gw_money g' = fold money_step (map (Pair (ge_money e)) ms) (gw_money g))"

lemma by_laws_frame: "gw_units g' = gw_units g \<Longrightarrow> gw_money g' = gw_money g \<Longrightarrow> by_laws e M g g'"
  unfolding by_laws_def by (rule exI [of _ "[]"], rule exI [of _ "[]"]) simp

lemma by_laws_refl [simp]: "by_laws e M g g"
  by (rule by_laws_frame) simp_all

lemma by_laws_unit:
  "unit_participation e x \<Longrightarrow> gw_units g' = unit_step x (gw_units g) \<Longrightarrow> gw_money g' = gw_money g \<Longrightarrow> by_laws e M g g'"
  unfolding by_laws_def by (rule exI [of _ "[x]"], rule exI [of _ "[]"]) simp

lemma by_laws_money:
  "M x \<Longrightarrow> gw_money g' = money_step (ge_money e, x) (gw_money g) \<Longrightarrow> gw_units g' = gw_units g \<Longrightarrow> by_laws e M g g'"
  unfolding by_laws_def by (rule exI [of _ "[]"], rule exI [of _ "[x]"]) simp

lemma by_laws_trans: "by_laws e M g g' \<Longrightarrow> by_laws e M g' g'' \<Longrightarrow> by_laws e M g g''"
  unfolding by_laws_def by (elim exE conjE, rule_tac x = "us @ usa" in exI, rule_tac x = "ms @ msa" in exI) simp

lemma by_laws_mono: "by_laws e M g g' \<Longrightarrow> (\<And>x. M x \<Longrightarrow> N x) \<Longrightarrow> by_laws e N g g'"
  unfolding by_laws_def by (auto simp: list_all_iff) blast

named_theorems gate_frame

lemma set_ledger_frame [gate_frame, simp]:
  "gw_units (set_ledger l g) = gw_units g" "gw_money (set_ledger l g) = gw_money g" "gw_stack (set_ledger l g) = gw_stack g"
  "gw_ledgers (set_ledger l g) = dict_set (el_id l) l (gw_ledgers g)"
  by (simp_all add: set_ledger_def)

lemma append_entry_frame [gate_frame, simp]:
  "gw_units (snd (append_entry e lid en keep g)) = gw_units g" "gw_money (snd (append_entry e lid en keep g)) = gw_money g"
  "gw_stack (snd (append_entry e lid en keep g)) = gw_stack g"
  by (auto simp: append_entry_def Let_def split: option.split prod.split)

lemma terminal_transition_frame [gate_frame, simp]:
  "gw_units (snd (terminal_transition e lid eid n lc en g)) = gw_units g" "gw_money (snd (terminal_transition e lid eid n lc en g)) = gw_money g"
  "gw_stack (snd (terminal_transition e lid eid n lc en g)) = gw_stack g"
  by (auto simp: terminal_transition_def split: option.split prod.split)

lemma record_terminal_frame [gate_frame, simp]:
  "gw_units (snd (record_terminal e h lc reason status g)) = gw_units g" "gw_money (snd (record_terminal e h lc reason status g)) = gw_money g"
  "gw_stack (snd (record_terminal e h lc reason status g)) = gw_stack g"
  by (simp_all add: record_terminal_def Let_def)

lemma unit_call_frame [gate_frame, simp]:
  "gw_units (snd (unit_call r g)) = (gw_units g)\<lparr>sy_store := snd r\<rparr>" "gw_money (snd (unit_call r g)) = gw_money g"
  "gw_ledgers (snd (unit_call r g)) = gw_ledgers g" "gw_stack (snd (unit_call r g)) = gw_stack g"
  by (simp_all add: unit_call_def)

lemma money_call_frame [gate_frame, simp]:
  "gw_units (snd (money_call r g)) = gw_units g" "gw_money (snd (money_call r g)) = fst r"
  "gw_ledgers (snd (money_call r g)) = gw_ledgers g" "gw_stack (snd (money_call r g)) = gw_stack g"
  by (simp_all add: money_call_def)

lemma enroll_frame [gate_frame, simp]:
  "gw_units (enroll lid eid en g) = gw_units g" "gw_money (enroll lid eid en g) = gw_money g"
  by (simp_all add: enroll_def split: option.split)

lemma by_laws_then:
  assumes "by_laws e M g (snd r)" and "\<And>a g1. r = (Inr a, g1) \<Longrightarrow> by_laws e M g1 (snd (k a g1))"
  shows "by_laws e M g (snd (gate_then r k))"
  using assms by_laws_trans [of e M g] by (cases r rule: prod.exhaust; cases "fst r") (auto simp: gate_then_def)

lemma by_laws_ledger: "(\<And>l. by_laws e M g (snd (k l))) \<Longrightarrow> by_laws e M g (snd (with_ledger lid k g))"
  by (simp add: with_ledger_def split: option.split)

lemma by_laws_append: "by_laws e M g g' \<Longrightarrow> by_laws e M g (snd (append_entry e' lid en keep g'))"
  by (rule by_laws_trans [OF _ by_laws_frame]) simp_all

lemma laws_units:
  "by_laws e M g (snd (reserve_budget_units e l en retry g))"
proof (cases "gateway_budget_class (en_class en)")
  case (Some c)
  obtain r p s where r: "reserve_effect_units (ge_unit e) (Some c) [] (el_id l) (budget_identity (ge_context e) l (en_provider en)) 1
      (process_of (ev_pid (ge_unit e)) (gw_units g)) (sy_store (gw_units g)) = (r, p, s)" by (metis prod_cases3)
  let ?g = "(set_ledger (resolve_identity (ge_context e) l) g)
    \<lparr>gw_units := \<lparr>sy_store = s, sy_procs = dict_set (ev_pid (ge_unit e)) p (sy_procs (gw_units g))\<rparr>\<rparr>"
  have "by_laws e M g ?g"
    by (rule by_laws_unit [of _ "U_Reserve (ge_unit e) (Some c) [] (el_id l) (budget_identity (ge_context e) l (en_provider en)) 1"])
      (simp_all add: unit_participation_def r)
  then show ?thesis using Some
    by (auto simp: reserve_budget_units_def r Let_def intro: by_laws_append split: sum.split)
qed (simp add: reserve_budget_units_def)

lemma laws_refuse: "by_laws e M g (snd (refuse_money e l en rid c g))"
proof -
  have "by_laws e M g (snd (unit_call (release_reservation (ge_unit e) rid why (sy_store (gw_units g))) g))" for why
    by (rule by_laws_unit [of _ "U_Release (ge_unit e) rid why"]) (simp_all add: unit_participation_def)
  then show ?thesis by (auto simp: refuse_money_def Let_def intro: by_laws_append)
qed

lemma laws_money:
  assumes "\<And>rq'. bound_request (ge_context e) l (en_provider en) rq = Inr rq' \<Longrightarrow> M (Reserve_op rq' (ge_liability e))"
  shows "by_laws e M g (snd (reserve_money_at_gate e l en rq rid g))"
proof (cases "bound_request (ge_context e) l (en_provider en) rq")
  case (Inl c)
  have "by_laws e M g (set_ledger (resolve_identity (ge_context e) l) g)" by (rule by_laws_frame) simp_all
  from this Inl show ?thesis by (auto simp: reserve_money_at_gate_def intro: by_laws_trans [OF _ laws_refuse])
next
  case (Inr rq')
  obtain db r where r: "reserve_liability (ge_money e) rq' (ge_liability e) (gw_money g) = (db, r)" by fastforce
  have one: "by_laws e M g ((set_ledger (resolve_identity (ge_context e) l) g)\<lparr>gw_money := db\<rparr>)"
    by (rule by_laws_money [of _ "Reserve_op rq' (ge_liability e)"]) (simp_all add: assms Inr r)
  from one Inr r show ?thesis
    by (auto simp: reserve_money_at_gate_def Let_def intro: by_laws_trans [OF one laws_refuse] split: sum.split)
qed

lemma laws_opening: "by_laws e M g (snd (snd (record_opening e lid en known retry g)))"
proof -
  have "by_laws e M g (snd (append_entry e lid en' keep g))" for en' keep by (rule by_laws_frame) simp_all
  then show ?thesis by (auto simp: record_opening_def Let_def split: prod.split) (metis snd_conv)+
qed

lemma laws_open:
  assumes "\<And>rq x. money = Some rq \<Longrightarrow> rq_lines x = rq_lines rq \<Longrightarrow> M (Reserve_op x (ge_liability e))"
    and bind: "\<And>li eid. M (Bind_effect_op li eid)"
  shows "by_laws e M g (snd (open_effect e lid en retry money g))"
proof -
  have lines: "rq_lines rq' = rq_lines rq" if "bound_request cx l p rq = Inr rq'" for cx l p rq rq'
    using that by (auto simp: bound_request_def bind_owned_identity_def and_then_def Let_def split: sum.splits list.splits if_splits)
  have money: "by_laws e M g1 (snd (case money of Some rq \<Rightarrow> if en_decision en = Allowed
        then with_ledger lid (\<lambda>l. reserve_money_at_gate e l en rq rid g1) g1 else (Inr [], g1) | None \<Rightarrow> (Inr [], g1)))" for g1 rid
    using assms(1) lines by (auto intro!: by_laws_ledger laws_money split: option.split)
  have laws_bind: "by_laws e M g1 (snd (bind_opening e lid eid en rid li g1))" for g1 eid en rid li
  proof -
    have u: "by_laws e M g1 (snd (unit_call (bind_reservation_effect (ge_unit e) rid eid (sy_store (gw_units g1))) g1))" for g1 rid eid
      by (rule by_laws_unit [of _ "U_Bind (ge_unit e) rid eid"]) (simp_all add: unit_participation_def)
    have m: "by_laws e M g1 (snd (money_call (bind_liability_effect li eid (gw_money g1)) g1))" for g1 li eid
      by (rule by_laws_money [of _ "Bind_effect_op li eid"]) (simp_all add: bind)
    have d: "by_laws e M g1 (enroll lid eid en g1)" for g1 eid en by (rule by_laws_frame) simp_all
    show ?thesis unfolding bind_opening_def by (intro by_laws_then) (simp_all add: u m d)
  qed
  show ?thesis
    unfolding open_effect_def Let_def
    apply (rule by_laws_ledger)
    apply (rule by_laws_then)
     apply (simp add: laws_units)
    apply (rule by_laws_then)
     apply (rule money)
    subgoal for l rid g1 li g2
      using laws_opening [of e M g2 lid en "known_effect retry l" retry] laws_bind
      by (auto split: prod.split intro: by_laws_trans)
    done
qed

lemma laws_attempt:
  assumes M: "\<And>lid ex tok. M (Claim_op lid ex tok)" "\<And>lid. M (Retry_op lid)"
    "\<And>lid tok ev. M (Unsent_op lid tok Local_refusal ev From_mechanism None)"
  shows "by_laws e M g (snd (snd (begin_attempt e h g)))"
proof -
  have claim: "by_laws e M g1 (g2\<lparr>gw_money := db\<rparr>)"
    if "claim_dispatch (ge_money e) li ex tok (gw_money g1) = (db, r)" "gw_units g2 = gw_units g1" for g1 g2 db r li ex tok
    by (rule by_laws_money [of _ "Claim_op li ex tok"]) (simp_all add: M that)
  have retry: "by_laws e M g1 (snd (money_call (retry_unsent (ge_money e) li (gw_money g1)) g1))" for g1 li
    by (rule by_laws_money [of _ "Retry_op li"]) (simp_all add: M)
  have again: "by_laws e M g1 (snd (money_call (claim_dispatch (ge_money e) li ex tok (gw_money g1)) g1))" for g1 li ex tok
    by (rule by_laws_money [of _ "Claim_op li ex tok"]) (simp_all add: M)
  have money: "by_laws e M g (snd (claim_money_for_attempt e h g))"
  proof (cases "claim_dispatch (ge_money e) (lc_liability h) (executor_name h) (ge_claim e) (gw_money g)")
    case (Pair db r)
    have same: "money_call (retry_unsent (ge_money e) (lc_liability h) db) g
        = money_call (retry_unsent (ge_money e) (lc_liability h) db) (g\<lparr>gw_money := db\<rparr>)" by (simp add: money_call_def)
    have one: "by_laws e M g (g\<lparr>gw_money := db\<rparr>)" by (rule claim [OF Pair]) simp
    have "by_laws e M (g\<lparr>gw_money := db\<rparr>) (snd (gate_then (money_call (retry_unsent (ge_money e) (lc_liability h) db) g) (\<lambda>_ g'.
        gate_then (money_call (claim_dispatch (ge_money e) (lc_liability h) (executor_name h) (ge_second_claim e) (gw_money g')) g')
          (\<lambda>c g''. (Inr (Some c), g'')))))"
      unfolding same
      by (intro by_laws_then) (use retry [of "g\<lparr>gw_money := db\<rparr>" "lc_liability h"] in \<open>simp_all add: again\<close>)
    from by_laws_trans [OF one this] one Pair show ?thesis by (simp add: claim_money_for_attempt_def Let_def split: sum.split)
  qed
  have units: "by_laws e M g1 (snd (consume_budget_for_attempt e h' g1))" for g1 h'
  proof -
    have "by_laws e M g1 (snd (unit_call (consume_effect_reservations (ge_unit e) (lc_effect h') (Some c) (sy_store (gw_units g1))) g1))" for c
      by (rule by_laws_unit [of _ "U_Consume_effect (ge_unit e) (lc_effect h') (Some c)"]) (simp_all add: unit_participation_def)
    then show ?thesis by (auto simp: consume_budget_for_attempt_def intro: by_laws_then split: option.split)
  qed
  have unsent: "by_laws e M g1 (money_unsent_locally e h' c why g1)" for g1 h' c why
    by (cases c) (auto simp: money_unsent_locally_def M
        intro: by_laws_money [of M "Unsent_op (lc_liability h') (dc_token (the c)) Local_refusal (lc_effect h' @ '':'' @ why) From_mechanism None"])
  have started: "by_laws e M g1 (snd (append_entry e lid en keep (set_ledger l g1)))" for g1 lid en keep l
    by (rule by_laws_frame) simp_all
  show ?thesis
  proof (cases "lc_decision h = Denied")
    case False
    obtain r1 g1 where 1: "claim_money_for_attempt e h g = (r1, g1)" by fastforce
    with money have m1: "by_laws e M g g1" by simp
    show ?thesis
    proof (cases r1)
      case (Inr c)
      let ?h = "if c = None then h else h\<lparr>lc_claim := c\<rparr>"
      obtain r2 g2 where 2: "consume_budget_for_attempt e ?h g1 = (r2, g2)" by fastforce
      with units [of g1 ?h] by_laws_trans [OF m1] have m2: "by_laws e M g g2" by simp
      from False 1 2 Inr m2 by_laws_trans [OF m2 unsent] by_laws_trans [OF m2 started] show ?thesis
        by (cases r2) (simp_all add: begin_attempt_def Let_def split: option.split)
    qed (use False 1 m1 in \<open>simp add: begin_attempt_def\<close>)
  qed (simp add: begin_attempt_def)
qed

lemma laws_after:
  assumes "\<And>lid tok ev. M (Dispatched_op lid tok ev)" "\<And>lid tok r. M (Unknown_op lid tok r)"
  shows "by_laws e M g (money_after_attempt e h d reason g)"
  using by_laws_money [of M "Dispatched_op (lc_liability h) (claim_token h) (lc_effect h @ '':attempt-'' @ show_nat (lc_attempt h))"
      "money_after_attempt e h d reason g" e g, OF assms(1)]
    by_laws_money [of M "Unknown_op (lc_liability h) (claim_token h) (take 200 (first_stated [reason, ''attempt failed after the dispatch claim'']))"
      "money_after_attempt e h d reason g" e g, OF assms(2)]
  by (auto simp: money_after_attempt_def claim_token_def split: option.splits)

lemma laws_terminal: "by_laws e M g (snd (record_terminal e h lc reason status g))"
  by (rule by_laws_frame) simp_all

lemma laws_cancel:
  assumes "\<And>lid tok r. M (Unknown_op lid tok r)" "\<And>lid r. M (Release_op lid r)"
  shows "by_laws e M g (snd (cancel e h reason g))"
proof -
  let ?why = "first_stated [reason, ''cancelled-before-attempt'']"
  have units: "by_laws e M g1 (snd (unit_call (release_effect_reservations (ge_unit e) (lc_effect h) ?why (sy_store (gw_units g1))) g1))" for g1
    by (rule by_laws_unit [of _ "U_Release_effect (ge_unit e) (lc_effect h) ?why"]) (simp_all add: unit_participation_def)
  have money: "by_laws e M g1 (return_money e h reason g1)" for g1
    using by_laws_money [of M "Release_op (lc_liability h) ?why" "return_money e h reason g1" e g1, OF assms(2)]
      by_laws_money [of M "Unknown_op (lc_liability h) (claim_token h) (first_stated [reason, ''cancelled after the dispatch claim''])"
        "return_money e h reason g1" e g1, OF assms(1)]
    by (auto simp: return_money_def claim_token_def split: option.splits)
  show ?thesis
    unfolding cancel_def by (rule by_laws_then [OF laws_terminal]) (simp only: snd_conv by_laws_trans [OF units money])
qed

lemma laws_return:
  assumes "\<And>ow r. M (Release_owner_op ow r)"
  shows "by_laws e M g (return_unspent e lid why why' g)"
proof -
  have "by_laws e M g (snd (unit_call (release_unconsumed_for_owner (ge_unit e) lid why True (sy_store (gw_units g))) g))"
    by (rule by_laws_unit [of _ "U_Release_owner (ge_unit e) lid why True"]) (simp_all add: unit_participation_def)
  then show ?thesis unfolding return_unspent_def Let_def
    by (rule by_laws_trans) (rule by_laws_money [of _ "Release_owner_op lid why'"], simp_all add: assms)
qed

lemma laws_close:
  assumes "\<And>ow r. M (Release_owner_op ow r)"
  shows "by_laws e M g (snd (close_effect_receipt_scope e g))"
proof (cases "gw_stack g")
  case (Cons lid rest)
  have f: "by_laws e M g (g\<lparr>gw_stack := rest\<rparr>)" by (rule by_laws_frame) simp_all
  have k: "by_laws e M g' g'' \<Longrightarrow> by_laws e M g' (set_ledger l g'')" for g' g'' l by (rule by_laws_trans [OF _ by_laws_frame]) simp_all
  show ?thesis
    by (auto simp: close_effect_receipt_scope_def Cons Let_def split: option.split
        intro!: k by_laws_trans [OF f laws_return [of M, OF assms]])
qed (simp add: close_effect_receipt_scope_def)

text \<open>The environment an operation of the gateway runs in; the others only move ledgers and the stack.\<close>

definition gateway_op_env :: "gateway_op \<Rightarrow> gateway_env option" where
  "gateway_op_env x = (case x of
     G_Leave e sc \<Rightarrow> Some e | G_Close e \<Rightarrow> Some e | G_Open_effect e lid en retry money \<Rightarrow> Some e | G_Begin e h \<Rightarrow> Some e
   | G_Succeed e h status reason \<Rightarrow> Some e | G_Fail e h f reason \<Rightarrow> Some e | G_Cancel e h reason \<Rightarrow> Some e
   | G_Unsent e h p ev src \<Rightarrow> Some e | G_Unknown e h reason \<Rightarrow> Some e | G_Settle e h ev \<Rightarrow> Some e | _ \<Rightarrow> None)"

definition foreign_op :: "gateway_op \<Rightarrow> bool" where
  "foreign_op x = (case x of G_Units y \<Rightarrow> True | G_Money m y \<Rightarrow> True | _ \<Rightarrow> False)"

definition requests_ok :: "(money_op \<Rightarrow> bool) \<Rightarrow> gateway_op \<Rightarrow> bool" where
  "requests_ok M x = (case x of
     G_Open_effect e lid en retry (Some rq) \<Rightarrow> (\<forall>rq' i. rq_lines rq' = rq_lines rq \<longrightarrow> M (Reserve_op rq' i))
   | G_Settle e h ev \<Rightarrow> M (Settle_op (lc_liability h) ev []) | _ \<Rightarrow> True)"

lemma step_by_laws:
  assumes x: "\<not> foreign_op x" and ok: "requests_ok M x"
    and M: "\<And>y. money_participation y \<Longrightarrow> (\<And>rq i. y \<noteq> Reserve_op rq i) \<Longrightarrow> (\<And>i ev tok. y \<noteq> Settle_op i ev tok) \<Longrightarrow> M y"
    and e: "gateway_op_env x = Some e \<or> gateway_op_env x = None"
  shows "by_laws e M g (gateway_step x g)"
proof -
  note M [simp] and money_participation_def [simp]
  have money: "by_laws e M g (snd (with_money h (\<lambda>g. money_call (r (gw_money g)) g) g))"
    if "M y" "\<And>db. fst (r db) = money_step (ge_money e, y) db" for h r y
    using that by (auto simp: with_money_def intro: by_laws_money)
  show ?thesis
  proof (cases x)
    case (G_Leave e' sc)
    have "by_laws e M g (g\<lparr>gw_stack := []\<rparr>)" by (rule by_laws_frame) simp_all
    from by_laws_trans [OF this laws_return] G_Leave e show ?thesis
      by (auto simp: gateway_op_env_def leave_background_scope_def split: prod.split)
  next
    case (G_Unsent e' h p ev src)
    then show ?thesis using e
      by (auto simp: gateway_op_env_def money_unsent_def intro: money [of "Unsent_op (lc_liability h) (claim_token h) p ev src None"])
  next
    case (G_Unknown e' h reason)
    then show ?thesis using e
      by (auto simp: gateway_op_env_def money_unknown_def intro: money [of "Unknown_op (lc_liability h) (claim_token h) reason"])
  next
    case (G_Settle e' h ev)
    then show ?thesis using e ok
      by (auto simp: gateway_op_env_def settle_money_def requests_ok_def intro: money [of "Settle_op (lc_liability h) ev []"])
  next
    case (G_Succeed e' h status reason)
    then show ?thesis using e
      by (auto simp: gateway_op_env_def succeed_def Let_def laws_after intro!: by_laws_then laws_terminal)
  next
    case (G_Fail e' h f reason)
    then show ?thesis using e
      by (auto simp: gateway_op_env_def fail_def Let_def laws_after intro!: by_laws_then laws_terminal)
  next
    case (G_Open_effect e' lid en retry money)
    then show ?thesis using e ok
      by (auto simp: gateway_op_env_def requests_ok_def intro!: laws_open)
  qed (use x e in \<open>auto simp: gateway_op_env_def foreign_op_def open_effect_receipt_scope_def enter_background_scope_def Let_def freeze_on_def
         laws_attempt laws_cancel laws_close laws_terminal by_laws_append split: list.split option.split intro!: by_laws_frame\<close>)
qed

section \<open>The ceilings hold through the gateway\<close>

definition gateway_good :: "gateway \<Rightarrow> bool" where
  "gateway_good g \<longleftrightarrow> unit_good (sy_store (gw_units g)) \<and> money_sound (gw_money g)"

definition gateway_lawful :: "gateway_op \<Rightarrow> gateway \<Rightarrow> bool" where
  "gateway_lawful x g = (case x of
     G_Open_effect e lid en retry money \<Rightarrow> (case money of Some rq \<Rightarrow> list_all (\<lambda>l. 0 \<le> ml_max l) (rq_lines rq) | None \<Rightarrow> True)
   | G_Settle e h ev \<Rightarrow> money_lawful (ge_money e, Settle_op (lc_liability h) ev []) (gw_money g)
   | G_Units y \<Rightarrow> silent_participant y (gw_units g) | G_Money m y \<Rightarrow> money_lawful (m, y) (gw_money g) | _ \<Rightarrow> True)"

definition plain_use :: "money_op \<Rightarrow> bool" where
  "plain_use y = (case y of Reserve_op rq i \<Rightarrow> list_all (\<lambda>l. 0 \<le> ml_max l) (rq_lines rq) | Settle_op i ev tok \<Rightarrow> False | _ \<Rightarrow> True)"

lemma plain_use_sound: "list_all plain_use ms \<Longrightarrow> money_sound db \<Longrightarrow> money_sound (fold money_step (map (Pair m) ms) db)"
proof (induction ms arbitrary: db)
  case (Cons y ms)
  then have "money_lawful (m, y) db" by (cases y) (simp_all add: plain_use_def)
  with Cons sound_step [of db m y] show ?case by simp
qed simp

lemma participation_good:
  "list_all (unit_participation e) us \<Longrightarrow> unit_good (sy_store sy) \<Longrightarrow> unit_good (sy_store (fold unit_step us sy))"
proof (induction us arbitrary: sy)
  case (Cons x us)
  then have "silent_participant x sy"
    by (auto simp: unit_participation_def silent_participant_def operator_op_def reports_overage_def split: unit_op.splits)
  with Cons unit_good_step [of sy x] show ?case by simp
qed simp

lemma by_laws_good: "by_laws e plain_use g g' \<Longrightarrow> gateway_good g \<Longrightarrow> gateway_good g'"
  unfolding by_laws_def gateway_good_def by (auto intro: participation_good plain_use_sound)

lemma gateway_good_step:
  assumes "gateway_good g" "gateway_lawful x g"
  shows "gateway_good (gateway_step x g)"
proof (cases "foreign_op x")
  case True
  with assms show ?thesis
    by (auto simp: foreign_op_def gateway_good_def gateway_lawful_def intro: unit_good_step sound_step split: gateway_op.splits)
next
  case False
  show ?thesis
  proof (cases "\<exists>e h ev. x = G_Settle e h ev")
    case True
    then obtain e h ev where x: "x = G_Settle e h ev" by blast
    with assms sound_step [of "gw_money g" "ge_money e" "Settle_op (lc_liability h) ev []"] show ?thesis
      by (simp add: settle_money_def with_money_def gateway_good_def gateway_lawful_def)
  next
    case no: False
    have "requests_ok plain_use x"
      using no assms(2) by (cases x) (auto simp: requests_ok_def gateway_lawful_def plain_use_def split: option.splits)
    moreover obtain e where "gateway_op_env x = Some e \<or> gateway_op_env x = None" by (cases "gateway_op_env x") auto
    ultimately have "by_laws e plain_use g (gateway_step x g)"
      using False by (intro step_by_laws) (auto simp: plain_use_def split: money_op.splits)
    with assms(1) show ?thesis by (rule by_laws_good [rotated])
  qed
qed

interpretation gate: lawful_system gateway_step gateway_lawful gateway_good
  by unfold_locales (rule gateway_good_step)

section \<open>An attempt that starts is paid for\<close>

lemma claimed_money:
  assumes "claim_money_for_attempt e h g = (Inr c, g')" "lc_liability h \<noteq> []"
  shows "\<exists>d l. c = Some d \<and> dict_get (liabilities (gw_money g')) (lc_liability h) = Some l \<and> li_status l = Li_Dispatching
     \<and> li_claim_token l = dc_token d \<and> dc_token d \<in> {ge_claim e, ge_second_claim e}"
proof -
  have one: "\<exists>l. dict_get (liabilities db) li = Some l \<and> li_status l = Li_Dispatching \<and> li_claim_token l = dc_token d \<and> dc_token d = tok"
    if "claim_dispatch m li ex tok db0 = (db, Inr d)" for m li ex tok db0 db d
    using claim_success(2) [OF that] that
    by (auto simp: claim_dispatch_def closed_state_def Let_def split: sum.splits option.splits if_splits)
  obtain db r where r: "claim_dispatch (ge_money e) (lc_liability h) (executor_name h) (ge_claim e) (gw_money g) = (db, r)" by fastforce
  show ?thesis
  proof (cases r)
    case (Inr d)
    with r assms one [of "ge_money e" "lc_liability h" "executor_name h" "ge_claim e" "gw_money g" db d] show ?thesis
      by (auto simp: claim_money_for_attempt_def Let_def)
  next
    case (Inl x)
    with r assms obtain g1 where
      "gate_then (money_call (claim_dispatch (ge_money e) (lc_liability h) (executor_name h) (ge_second_claim e) (gw_money g1)) g1)
         (\<lambda>c g''. (Inr (Some c), g'')) = (Inr c, g')"
      by (auto simp: claim_money_for_attempt_def Let_def gate_then_def split: if_splits sum.splits prod.splits)
    then obtain db2 d where d: "claim_dispatch (ge_money e) (lc_liability h) (executor_name h) (ge_second_claim e) (gw_money g1) = (db2, Inr d)"
      "c = Some d" "gw_money g' = db2"
      by (cases "claim_dispatch (ge_money e) (lc_liability h) (executor_name h) (ge_second_claim e) (gw_money g1)")
        (auto simp: gate_then_def money_call_def split: sum.splits)
    with one [OF d(1)] show ?thesis by auto
  qed
qed

lemma consume_budget_frame [simp]:
  "gw_money (snd (consume_budget_for_attempt e h g)) = gw_money g" "gw_ledgers (snd (consume_budget_for_attempt e h g)) = gw_ledgers g"
  by (auto simp: consume_budget_for_attempt_def gate_then_def unit_call_def split: option.split sum.split prod.split)

lemma claim_money_frame [simp]:
  "gw_units (snd (claim_money_for_attempt e h g)) = gw_units g" "gw_ledgers (snd (claim_money_for_attempt e h g)) = gw_ledgers g"
  by (auto simp: claim_money_for_attempt_def gate_then_def money_call_def Let_def split: option.split sum.split prod.split)

end
