(* ===== verification/Effect_Gateway_Attempts.thy ===== *)
theory Effect_Gateway_Attempts
  imports Effect_Gateway_Laws
begin

text \<open>
  One attempt and one closing at the gateway, branch by branch: what an attempt that starts has spent and claimed, what a
  refused one leaves behind, and what the closing of a scope gives back.
\<close>

declare map_of_eq_Some_iff [simp del] Some_eq_map_of_iff [simp del]

section \<open>Ledgers under their ids\<close>

definition keyed :: "gateway \<Rightarrow> bool" where
  "keyed g \<longleftrightarrow> list_all (\<lambda>(lid, l). el_id l = lid) (gw_ledgers g)"

lemma keyed_get: "keyed g \<Longrightarrow> dict_get (gw_ledgers g) lid = Some l \<Longrightarrow> el_id l = lid"
  by (auto simp: keyed_def list_all_iff dest: dict_get_mem)

lemma dict_set_mem: "p \<in> set (dict_set k v d) \<Longrightarrow> p = (k, v) \<or> p \<in> set d"
  by (induction d) (auto split: if_splits)

lemma keyed_set: "keyed g \<Longrightarrow> keyed (set_ledger l g)"
  by (auto simp: keyed_def list_all_iff dest!: dict_set_mem)

lemma resolve_frame [simp]:
  "el_id (resolve_identity cx l) = el_id l" "el_effects (resolve_identity cx l) = el_effects l" "el_entries (resolve_identity cx l) = el_entries l"
  "el_seq (resolve_identity cx l) = el_seq l"
  by (simp_all add: resolve_identity_def)

lemma ledger_append_frame [simp]:
  "el_id (snd (snd (snd (ledger_append cx stamp en keep l)))) = el_id l"
  "el_effects (snd (snd (snd (ledger_append cx stamp en keep l)))) = el_effects l"
  "el_seq (snd (snd (snd (ledger_append cx stamp en keep l)))) = el_seq l + 1"
  by (simp_all add: ledger_append_def Let_def)

text \<open>What an append does to the ledgers, in one equation.\<close>

lemma append_ledgers:
  assumes "keyed g"
  shows "dict_get (gw_ledgers (snd (append_entry e lid en keep g))) k = (case dict_get (gw_ledgers g) k of None \<Rightarrow> None
     | Some l \<Rightarrow> Some (if k = lid then snd (snd (snd (ledger_append (ge_context e) (ge_stamp e) en keep l))) else l))"
proof (cases "dict_get (gw_ledgers g) lid")
  case (Some l0)
  obtain m p b l where a: "ledger_append (ge_context e) (ge_stamp e) en keep l0 = (m, p, b, l)" by (metis prod_cases4)
  have "el_id l = lid" using keyed_get [OF assms Some] ledger_append_frame(1) [of "ge_context e" "ge_stamp e" en keep l0] a by simp
  then show ?thesis using Some a by (auto simp: append_entry_def Let_def split: option.split)
qed (auto simp: append_entry_def split: option.split)

definition attempts_of :: "string \<Rightarrow> string \<Rightarrow> gateway \<Rightarrow> nat option" where
  "attempts_of lid eid g = (case dict_get (gw_ledgers g) lid of None \<Rightarrow> None | Some l \<Rightarrow> map_option fr_attempts (dict_get (el_effects l) eid))"

definition unit_spent :: "string \<Rightarrow> unit_store \<Rightarrow> bool" where
  "unit_spent effect s \<longleftrightarrow> Unit_Consumed \<in> set (effect_reservation_states effect s) \<and> Unit_Reserved \<notin> set (effect_reservation_states effect s)"

definition budgeted :: "string \<Rightarrow> unit_store \<Rightarrow> bool" where
  "budgeted cls s \<longleftrightarrow> (case gateway_budget_class cls of None \<Rightarrow> False | Some c \<Rightarrow> rules_for c s \<noteq> [])"

definition money_claimed :: "string \<Rightarrow> string \<Rightarrow> money_db \<Rightarrow> bool" where
  "money_claimed li token db \<longleftrightarrow> (case dict_get (liabilities db) li of None \<Rightarrow> False | Some l \<Rightarrow> li_status l = Li_Dispatching \<and> li_claim_token l = token)"

definition hold_claim :: "dispatch_claim option \<Rightarrow> effect_lifecycle \<Rightarrow> effect_lifecycle" where
  "hold_claim c h = (if c = None then h else h\<lparr>lc_claim := c\<rparr>)"

lemma hold_claim_frame [simp]:
  "lc_ledger (hold_claim c h) = lc_ledger h" "lc_effect (hold_claim c h) = lc_effect h" "lc_class (hold_claim c h) = lc_class h"
  "lc_liability (hold_claim c h) = lc_liability h"
  by (simp_all add: hold_claim_def)

lemma begin_attempt_eq:
  "begin_attempt e h g = (if lc_decision h = Denied then (Inl Gw_effect_state, h, g)
     else (case claim_money_for_attempt e h g of
         (Inl x, g1) \<Rightarrow> (Inl x, h, g1)
       | (Inr c, g1) \<Rightarrow>
           (case consume_budget_for_attempt e (hold_claim c h) g1 of
              (Inl x, g2) \<Rightarrow> (Inl x, hold_claim c h, money_unsent_locally e (hold_claim c h) c ''unit-refused'' g2)
            | (Inr _, g2) \<Rightarrow>
               (case (case dict_get (gw_ledgers g2) (lc_ledger h) of None \<Rightarrow> None | Some l \<Rightarrow> begin_registered (lc_effect h) l) of
                  None \<Rightarrow> (Inl Gw_effect_state, hold_claim c h, g2)
                | Some (n, l) \<Rightarrow>
                   (Inr n, (hold_claim c h)\<lparr>lc_attempt := n\<rparr>,
                    snd (append_entry e (lc_ledger h) (lifecycle_entry (hold_claim c h) Lc_started (''transport attempt '' @ show_nat n) n) (lc_effect h)
                      (set_ledger l g2)))))))"
proof -
  have led: "lc_ledger (if c = None then h else h\<lparr>lc_claim := c\<rparr>) = lc_ledger h"
    "lc_effect (if c = None then h else h\<lparr>lc_claim := c\<rparr>) = lc_effect h" for c by simp_all
  show ?thesis by (simp only: begin_attempt_def hold_claim_def Let_def led)
qed

lemma begin_success:
  assumes "begin_attempt e h g = (Inr n, h', g')"
  obtains c g1 g2 l0 l where "lc_decision h \<noteq> Denied" "claim_money_for_attempt e h g = (Inr c, g1)"
    "consume_budget_for_attempt e (hold_claim c h) g1 = (Inr (), g2)"
    "dict_get (gw_ledgers g2) (lc_ledger h) = Some l0" "begin_registered (lc_effect h) l0 = Some (n, l)"
    "h' = (hold_claim c h)\<lparr>lc_attempt := n\<rparr>"
    "g' = snd (append_entry e (lc_ledger h) (lifecycle_entry (hold_claim c h) Lc_started (''transport attempt '' @ show_nat n) n)
        (lc_effect h) (set_ledger l g2))"
proof -
  obtain r1 g1 where 1: "claim_money_for_attempt e h g = (r1, g1)" by fastforce
  with assms obtain c where c: "r1 = Inr c" by (cases r1) (auto simp: begin_attempt_def split: if_splits)
  obtain r2 g2 where 2: "consume_budget_for_attempt e (hold_claim c h) g1 = (r2, g2)" by fastforce
  with assms 1 c have r2: "r2 = Inr ()" by (cases r2) (auto simp: begin_attempt_eq split: if_splits)
  from assms 1 2 c r2 obtain l0 l where "dict_get (gw_ledgers g2) (lc_ledger h) = Some l0" "begin_registered (lc_effect h) l0 = Some (n, l)"
    "lc_decision h \<noteq> Denied" "h' = (hold_claim c h)\<lparr>lc_attempt := n\<rparr>"
    "g' = snd (append_entry e (lc_ledger h) (lifecycle_entry (hold_claim c h) Lc_started (''transport attempt '' @ show_nat n) n) (lc_effect h) (set_ledger l g2))"
    by (auto simp: begin_attempt_eq split: if_splits option.splits)
  with that [of c g1 g2 l0 l] 1 2 c r2 show thesis by simp
qed

lemma unit_spentI:
  assumes "wf_dict (us_reservations s)" "effect \<noteq> []"
    and "\<exists>rid row. dict_get (us_reservations s) rid = Some row \<and> rv_effect row = effect \<and> rv_state row = Unit_Consumed"
    and "\<And>rid row. dict_get (us_reservations s) rid = Some row \<Longrightarrow> rv_effect row = effect \<Longrightarrow> rv_state row \<noteq> Unit_Reserved"
  shows "unit_spent effect s"
proof -
  have "st \<in> set (effect_reservation_states effect s) \<longleftrightarrow>
      (\<exists>rid row. dict_get (us_reservations s) rid = Some row \<and> rv_effect row = effect \<and> rv_state row = st)" for st
    using effect_rows_iff [OF assms(1), of _ _ effect] assms(2)
    by (auto simp: effect_reservation_states_def image_iff) (metis snd_conv)+
  with assms(3,4) show ?thesis by (auto simp: unit_spent_def)
qed

lemma unit_inv_gate: "unit_inv (sy_store sy) \<Longrightarrow> list_all (unit_participation e) us \<Longrightarrow> unit_inv (sy_store (fold unit_step us sy))"
  by (rule unit_inv_run)

lemma consume_paid:
  assumes "consume_budget_for_attempt e h g = (Inr (), g')" "unit_inv (sy_store (gw_units g))" "lc_effect h \<noteq> []"
    "budgeted (lc_class h) (sy_store (gw_units g))"
  shows "unit_spent (lc_effect h) (sy_store (gw_units g'))"
proof -
  let ?s = "sy_store (gw_units g)"
  obtain c where c: "gateway_budget_class (lc_class h) = Some c" "rules_for c ?s \<noteq> []"
    using assms(4) by (auto simp: budgeted_def split: option.splits)
  obtain r s where r: "consume_effect_reservations (ge_unit e) (lc_effect h) (Some c) ?s = (r, s)" by fastforce
  from assms(1) c r obtain n where n: "r = Inr n" and s: "sy_store (gw_units g') = s"
    by (auto simp: consume_budget_for_attempt_def gate_then_def unit_call_def split: sum.splits)
  have ok: "fst (consume_effect_reservations (ge_unit e) (lc_effect h) (Some c) ?s) = Inr n" using r n by simp
  have "unit_inv (sy_store (unit_step (U_Consume_effect (ge_unit e) (lc_effect h) (Some c)) (gw_units g)))"
    by (rule unit_inv_step [OF assms(2)])
  then have wf: "wf_dict (us_reservations s)" using r by (simp add: unit_inv_def rows_ok_def)
  note cov = consumed_effect_covered [OF assms(2) ok assms(3) c(2)]
  show ?thesis unfolding s
    by (rule unit_spentI [OF wf assms(3)]) (use cov r in auto)
qed

section \<open>A refused attempt\<close>

lemma consume_budget_refusal:
  assumes "consume_budget_for_attempt e h g = (Inl x, g')"
  shows "\<exists>u. x = Gw_unit u"
  using assms by (auto simp: consume_budget_for_attempt_def gate_then_def unit_call_def split: option.splits sum.splits prod.splits)

lemma claim_money_refusal:
  assumes "claim_money_for_attempt e h g = (Inl x, g')"
  shows "\<exists>c. x = Gw_money c"
  using assms by (auto simp: claim_money_for_attempt_def gate_then_def money_call_def Let_def split: if_splits sum.splits prod.splits)

lemma unsent_locally:
  assumes "claim_money_for_attempt e h g = (Inr c, g1)" "lc_liability h \<noteq> []" "ge_claim e \<noteq> []" "ge_second_claim e \<noteq> []"
    and "gw_money g2 = gw_money g1" "clean_ident (lc_effect h @ '':'' @ why) = Inr ev"
  shows "proven_unsent (lc_liability h) (gw_money (money_unsent_locally e (hold_claim c h) c why g2))"
proof -
  from claimed_money [OF assms(1,2)] obtain d l where d: "c = Some d" "dict_get (liabilities (gw_money g1)) (lc_liability h) = Some l"
    "li_status l = Li_Dispatching" "li_claim_token l = dc_token d" "dc_token d \<in> {ge_claim e, ge_second_claim e}" by blast
  with assms(3-) show ?thesis
    by (auto simp: money_unsent_locally_def record_unsent_def proven_unsent_def claimant_proof_def claim_held_def)
qed

lemma unsent_locally_frame [simp]:
  "gw_ledgers (money_unsent_locally e h c why g) = gw_ledgers g" "gw_units (money_unsent_locally e h c why g) = gw_units g"
  by (simp_all add: money_unsent_locally_def split: option.split)

lemma begin_refused_ledgers:
  assumes "begin_attempt e h g = (Inl x, h', g')"
  shows "gw_ledgers g' = gw_ledgers g"
proof -
  obtain r1 g1 where 1: "claim_money_for_attempt e h g = (r1, g1)" by fastforce
  then have f1: "gw_ledgers g1 = gw_ledgers g" using claim_money_frame [of e h g] by simp
  show ?thesis
  proof (cases r1)
    case (Inr c)
    obtain r2 g2 where 2: "consume_budget_for_attempt e (hold_claim c h) g1 = (r2, g2)" by fastforce
    then have f2: "gw_ledgers g2 = gw_ledgers g1" using consume_budget_frame [of e "hold_claim c h" g1] by simp
    from assms 1 2 Inr f1 f2 show ?thesis by (auto simp: begin_attempt_eq split: sum.splits option.splits if_splits)
  qed (use assms 1 f1 in \<open>auto simp: begin_attempt_eq split: if_splits\<close>)
qed

section \<open>A scope that closes holds nothing\<close>

lemma release_reserved:
  assumes "store_ok e" "ev_commit e rid"
  shows "dict_get (us_reservations (snd (release_reservation e rid why s))) k =
     (case dict_get (us_reservations s) k of None \<Rightarrow> None
      | Some row \<Rightarrow> Some (if k = rid \<and> rv_state row = Unit_Reserved then settled_row e Unit_Released (if why = [] then ''released'' else why) row else row))"
  using assms by (auto simp: release_reservation_def Let_def frame_simps split: option.split)

lemma release_each_reserved:
  assumes "store_ok e" "\<And>rid. ev_commit e rid"
  shows "dict_get (us_reservations (snd (release_each e q why rids n s))) k =
     (case dict_get (us_reservations s) k of None \<Rightarrow> None
      | Some row \<Rightarrow> Some (if k \<in> set rids \<and> rv_state row = Unit_Reserved then settled_row e Unit_Released (if why = [] then ''released'' else why) row else row))"
proof (induction rids arbitrary: n s)
  case (Cons rid rids)
  have "\<exists>b. fst (release_reservation e rid why s) = Inr b"
    using assms by (auto simp: release_reservation_def Let_def split: option.split)
  then obtain b s' where r: "release_reservation e rid why s = (Inr b, s')" by (metis prod.collapse)
  with Cons.IH release_reserved [OF assms(1) assms(2), of rid why s k] show ?case
    by (auto simp: settled_row_def split: option.split)
qed (simp split: option.split)

lemma release_get:
  "dict_get (liabilities (fst (release_unclaimed env i why db))) k = (case dict_get (liabilities db) k of None \<Rightarrow> None
      | Some l \<Rightarrow> Some (if k = i \<and> li_status l = Li_Reserved
          then l\<lparr>li_close_reason := take 200 why, li_status := Li_Released, li_updated := env_now env, li_version := li_version l + 1\<rparr> else l))"
  by (auto simp: release_unclaimed_def split: option.split)

lemma release_fold:
  "dict_get (liabilities (fold (\<lambda>i d. fst (release_unclaimed env i why d)) is db)) k =
     (case dict_get (liabilities db) k of None \<Rightarrow> None
      | Some l \<Rightarrow> Some (if k \<in> set is \<and> li_status l = Li_Reserved
          then l\<lparr>li_close_reason := take 200 why, li_status := Li_Released, li_updated := env_now env, li_version := li_version l + 1\<rparr> else l))"
  by (induction "is" arbitrary: db) (auto simp: release_get split: option.split)

definition holds_for :: "string \<Rightarrow> gateway \<Rightarrow> bool" where
  "holds_for lid g \<longleftrightarrow> reservation_rows (Some Unit_Reserved) lid (sy_store (gw_units g)) \<noteq> [] \<or> owned_unclaimed (gw_money g) lid \<noteq> []"

lemma by_laws_wf:
  assumes "by_laws e M g g'" "unit_inv (sy_store (gw_units g))" "wf_dict (liabilities (gw_money g))"
  shows "unit_inv (sy_store (gw_units g'))" "wf_dict (liabilities (gw_money g'))"
proof -
  have "wf_dict (liabilities (fold money_step xs db))" if "wf_dict (liabilities db)" for xs db
    using that by (induction xs arbitrary: db) (simp_all add: wf_money_step)
  with assms show "unit_inv (sy_store (gw_units g'))" "wf_dict (liabilities (gw_money g'))"
    by (auto simp: by_laws_def unit_inv_run)
qed

lemma return_unspent_none:
  assumes ok: "store_ok (ge_unit e)" "\<And>rid. ev_commit (ge_unit e) rid" and lid: "lid \<noteq> []"
    and inv: "unit_inv (sy_store (gw_units g))" "wf_dict (liabilities (gw_money g))"
  shows "\<not> holds_for lid (return_unspent e lid why why' g)"
proof -
  let ?g = "return_unspent e lid why why' g" and ?s = "sy_store (gw_units g)"
  have s: "sy_store (gw_units ?g) = snd (release_each (ge_unit e) True why (map fst (reservation_rows (Some Unit_Reserved) lid ?s)) 0 ?s)"
    using ok lid by (simp add: return_unspent_def Let_def release_unconsumed_for_owner_def)
  have m: "gw_money ?g = fold (\<lambda>i d. fst (release_unclaimed (ge_money e) i why' d)) (owned_unclaimed (gw_money g) lid) (gw_money g)"
    using lid by (simp add: return_unspent_def Let_def release_unclaimed_for_owner_def)
  have "by_laws e money_participation g ?g" by (rule laws_return) (simp add: money_participation_def)
  from by_laws_wf [OF this inv]
  have wf: "wf_dict (us_reservations (sy_store (gw_units ?g)))" "wf_dict (liabilities (gw_money ?g))"
    by (simp_all add: unit_inv_def rows_ok_def)
  have "rv_state row \<noteq> Unit_Reserved" if "(rid, row) \<in> set (us_reservations (sy_store (gw_units ?g)))" "rv_owner row = lid" for rid row
  proof -
    from dict_mem_get [OF wf(1) that(1)] obtain row0 where r: "dict_get (us_reservations ?s) rid = Some row0"
      "row = (if rid \<in> set (map fst (reservation_rows (Some Unit_Reserved) lid ?s)) \<and> rv_state row0 = Unit_Reserved
              then settled_row (ge_unit e) Unit_Released (if why = [] then ''released'' else why) row0 else row0)"
      unfolding s release_each_reserved [OF ok] by (auto split: option.splits)
    have "rid \<in> set (map fst (reservation_rows (Some Unit_Reserved) lid ?s))" if "rv_state row0 = Unit_Reserved" "rv_owner row0 = lid"
      using dict_get_mem [OF r(1)] that lid by (force simp: reservation_rows_def)
    with r(2) that(2) show ?thesis by (auto simp: settled_row_def split: if_splits)
  qed
  then have units: "reservation_rows (Some Unit_Reserved) lid (sy_store (gw_units ?g)) = []"
    using lid by (auto simp: reservation_rows_def filter_empty_conv)
  have "li_status l \<noteq> Li_Reserved" if "(i, l) \<in> set (liabilities (gw_money ?g))" "li_owner l = lid" for i l
  proof -
    from dict_mem_get [OF wf(2) that(1)] obtain l0 where r: "dict_get (liabilities (gw_money g)) i = Some l0"
      "li_status l0 = Li_Reserved \<and> i \<in> set (owned_unclaimed (gw_money g) lid) \<longrightarrow> li_status l = Li_Released"
      "li_status l0 = Li_Reserved \<and> i \<in> set (owned_unclaimed (gw_money g) lid) \<or> l = l0"
      unfolding m release_fold by (auto split: option.splits if_splits)
    have "i \<in> set (owned_unclaimed (gw_money g) lid)" if "li_status l0 = Li_Reserved" "li_owner l0 = lid"
      using dict_get_mem [OF r(1)] that by (force simp: owned_unclaimed_def)
    with r(2,3) that(2) show ?thesis by auto
  qed
  then have "owned_unclaimed (gw_money ?g) lid = []" by (auto simp: owned_unclaimed_def filter_empty_conv)
  with units show ?thesis by (simp add: holds_for_def)
qed

text \<open>What was spent or claimed stays as it is.\<close>

lemma return_unspent_keeps:
  assumes ok: "store_ok (ge_unit e)" "\<And>rid. ev_commit (ge_unit e) rid" and lid: "lid \<noteq> []"
  shows "dict_get (us_reservations (sy_store (gw_units g))) rid = Some row \<Longrightarrow> rv_state row \<noteq> Unit_Reserved \<Longrightarrow>
      dict_get (us_reservations (sy_store (gw_units (return_unspent e lid why why' g)))) rid = Some row"
    and "dict_get (liabilities (gw_money g)) i = Some l \<Longrightarrow> li_status l \<noteq> Li_Reserved \<Longrightarrow>
      dict_get (liabilities (gw_money (return_unspent e lid why why' g))) i = Some l"
  using ok lid
  by (simp_all add: return_unspent_def Let_def release_unconsumed_for_owner_def release_unclaimed_for_owner_def release_each_reserved release_fold)

end
