(* ===== verification/Effect_Gateway_Receipts.thy ===== *)
theory Effect_Gateway_Receipts
  imports Effect_Gateway_Attempts
begin

text \<open>
  The receipts of the gateway's ledgers, an invariant of every operation: effect ids are minted by the ledger and never
  reused, the account and the registry stay within their bounds, and the end of an attempt is recorded once.
\<close>

declare map_of_eq_Some_iff [simp del] Some_eq_map_of_iff [simp del]

section \<open>The receipts of a ledger\<close>

lemma mint_effect_inj: "mint_effect lid m = mint_effect lid' n \<longleftrightarrow> lid = lid' \<and> m = n"
proof
  assume a: "mint_effect lid m = mint_effect lid' n"
  let ?d = "\<lambda>n. rjust0 4 (show_nat n)"
  have no: "CHR ''-'' \<notin> set (?d k)" for k
    using rjust0_simps(2) [of 4 k] by (auto simp: list_all_iff is_digit_def)
  have cut: "takeWhile (\<lambda>c. c \<noteq> CHR ''-'') (rev (?d k)) = rev (?d k)" for k
    using no [of k] by (auto simp: takeWhile_eq_all_conv)
  have t: "takeWhile (\<lambda>c. c \<noteq> CHR ''-'') (rev (mint_effect l k)) = rev (?d k)" for l k
    using no [of k] by (simp add: mint_effect_def takeWhile_append cut)
  from arg_cong [OF a, of "\<lambda>s. takeWhile (\<lambda>c. c \<noteq> CHR ''-'') (rev s)"] have "?d m = ?d n" by (simp only: t rev_is_rev_conv)
  then have "m = n" by (metis rjust0_simps(1))
  with a show "lid = lid' \<and> m = n" by (simp add: mint_effect_def)
qed simp

definition ends_attempt :: "effect_entry \<Rightarrow> bool" where
  "ends_attempt en \<longleftrightarrow> terminal_lifecycle (en_lifecycle en)"

definition attempt_key :: "effect_entry \<Rightarrow> string \<times> nat" where
  "attempt_key en = (en_effect en, en_attempt en)"

definition minted :: "effect_ledger \<Rightarrow> string \<Rightarrow> bool" where
  "minted l eid \<longleftrightarrow> (\<exists>n \<le> el_seq l. eid = mint_effect (el_id l) n)"

definition ended_by :: "effect_record \<Rightarrow> nat \<Rightarrow> bool" where
  "ended_by r n \<longleftrightarrow> (case fr_terminal r of None \<Rightarrow> False | Some (m, t) \<Rightarrow> n \<le> m)"

definition ledger_ok :: "effect_ledger \<Rightarrow> bool" where
  "ledger_ok l \<longleftrightarrow> length (el_entries l) \<le> max_receipts \<and> length (el_effects l) \<le> max_receipts \<and> wf_dict (el_effects l)
     \<and> (\<forall>en \<in> set (el_entries l). minted l (en_effect en)) \<and> (\<forall>eid \<in> set (dict_keys (el_effects l)). minted l eid)
     \<and> distinct (map attempt_key (filter ends_attempt (el_entries l)))
     \<and> (\<forall>en \<in> set (el_entries l). \<forall>r. ends_attempt en \<longrightarrow> dict_get (el_effects l) (en_effect en) = Some r \<longrightarrow> ended_by r (en_attempt en))"

lemma ledger_ok_ended:
  "ledger_ok l \<Longrightarrow> x \<in> set (el_entries l) \<Longrightarrow> ends_attempt x \<Longrightarrow> dict_get (el_effects l) (en_effect x) = Some r \<Longrightarrow> ended_by r (en_attempt x)"
  unfolding ledger_ok_def by blast

lemma ledger_ok_new: "ledger_ok (new_ledger lid scope durable inst policy ws)"
  by (simp add: ledger_ok_def new_ledger_def)

lemma ledger_ok_cong:
  "ledger_ok l \<Longrightarrow> el_entries l' = el_entries l \<Longrightarrow> el_effects l' = el_effects l \<Longrightarrow> el_seq l' = el_seq l \<Longrightarrow> el_id l' = el_id l \<Longrightarrow> ledger_ok l'"
  by (simp add: ledger_ok_def minted_def)

lemma ledger_ok_resolve: "ledger_ok l \<Longrightarrow> ledger_ok (resolve_identity cx l)"
  by (erule ledger_ok_cong) simp_all

lemma ledger_ok_finalized:
  assumes "ledger_ok l"
  shows "ledger_ok (finalized cx l)"
proof -
  let ?f = "\<lambda>en. en\<lparr>en_turn := first_stated [en_turn en, el_turn (resolve_identity cx l)], en_request := first_stated [en_request en, el_request (resolve_identity cx l)]\<rparr>"
  have "filter ends_attempt (map ?f xs) = map ?f (filter ends_attempt xs)" for xs
    by (induction xs) (simp_all add: ends_attempt_def)
  then have "map attempt_key (filter ends_attempt (map ?f xs)) = map attempt_key (filter ends_attempt xs)" for xs
    by (simp add: attempt_key_def comp_def)
  with assms show ?thesis
    by (auto simp: ledger_ok_def finalized_def Let_def minted_def ends_attempt_def)
qed

lemma minted_fresh: "\<not> minted l (mint_effect (el_id l) (el_seq l + 1))"
  by (simp add: minted_def mint_effect_inj)

lemma prepare_entry_frame [simp]:
  "en_effect (prepare_entry stamp l m en) = m" "en_attempt (prepare_entry stamp l m en) = en_attempt en"
  "ends_attempt (prepare_entry stamp l m en) = ends_attempt en"
  by (simp_all add: prepare_entry_def ends_attempt_def)

definition admits :: "effect_entry \<Rightarrow> string \<Rightarrow> effect_ledger \<Rightarrow> bool" where
  "admits en keep l \<longleftrightarrow> (ends_attempt en \<longrightarrow> (\<forall>r. keep \<noteq> [] \<longrightarrow> dict_get (el_effects l) keep = Some r \<longrightarrow>
     ended_by r (en_attempt en) \<and> (keep, en_attempt en) \<notin> set (map attempt_key (filter ends_attempt (el_entries l)))))"

lemma ledger_ok_append:
  assumes ok: "ledger_ok l" and ad: "admits en keep l"
  shows "ledger_ok (snd (snd (snd (ledger_append cx stamp en keep l))))"
proof -
  let ?l1 = "resolve_identity cx l"
  let ?m = "if keep \<noteq> [] \<and> dict_get (el_effects l) keep \<noteq> None then keep else mint_effect (el_id l) (el_seq l + 1)"
  let ?p = "prepare_entry stamp (?l1\<lparr>el_seq := el_seq l + 1\<rparr>) ?m en"
  have up: "minted (l'\<lparr>el_seq := el_seq l' + 1\<rparr>) x" if "minted l' x" for l' x
    using that by (auto simp: minted_def intro: le_SucI)
  have m: "minted (l\<lparr>el_seq := el_seq l + 1\<rparr>) ?m"
  proof (cases "keep \<noteq> [] \<and> dict_get (el_effects l) keep \<noteq> None")
    case True
    then have "keep \<in> set (dict_keys (el_effects l))" using dict_get_None_iff by metis
    with ok have "minted l keep" unfolding ledger_ok_def by blast
    with True up show ?thesis by simp
  qed (auto simp: minted_def)
  have fresh: "attempt_key ?p \<notin> set (map attempt_key (filter ends_attempt (el_entries l)))"
    "\<And>r. dict_get (el_effects l) ?m = Some r \<Longrightarrow> ended_by r (en_attempt en)" if "ends_attempt en"
  proof -
    have "attempt_key ?p \<notin> set (map attempt_key (filter ends_attempt (el_entries l)))
        \<and> (\<forall>r. dict_get (el_effects l) ?m = Some r \<longrightarrow> ended_by r (en_attempt en))"
    proof (cases "keep \<noteq> [] \<and> dict_get (el_effects l) keep \<noteq> None")
      case True
      with ad that show ?thesis by (auto simp: admits_def attempt_key_def)
    next
      case False
      have "\<forall>x \<in> set (el_entries l). en_effect x \<noteq> mint_effect (el_id l) (el_seq l + 1)"
        using ok minted_fresh [of l] by (auto simp: ledger_ok_def)
      moreover have "dict_get (el_effects l) (mint_effect (el_id l) (el_seq l + 1)) = None"
        using ok minted_fresh [of l] by (auto simp: ledger_ok_def dict_get_None_iff)
      ultimately show ?thesis using False by (auto simp: attempt_key_def)
    qed
    then show "attempt_key ?p \<notin> set (map attempt_key (filter ends_attempt (el_entries l)))"
      "\<And>r. dict_get (el_effects l) ?m = Some r \<Longrightarrow> ended_by r (en_attempt en)" by blast+
  qed
  let ?l2 = "?l1\<lparr>el_seq := el_seq l + 1\<rparr>"
  have l2: "ledger_ok ?l2"
    using ok up [of l] by (auto simp: ledger_ok_def minted_def)
  show ?thesis
  proof (cases "length (el_entries l) \<ge> max_receipts")
    case True
    then have "snd (snd (snd (ledger_append cx stamp en keep l))) = ?l2\<lparr>el_truncated := True, el_dropped := el_dropped ?l2 + 1\<rparr>"
      by (simp add: ledger_append_def Let_def)
    then show ?thesis using l2 by (auto intro: ledger_ok_cong)
  next
    case False
    then have r: "snd (snd (snd (ledger_append cx stamp en keep l))) = ?l2\<lparr>el_entries := el_entries l @ [?p]\<rparr>"
      by (simp add: ledger_append_def Let_def)
    have "\<forall>x \<in> set (el_entries l). minted ?l2 (en_effect x)" "\<forall>x \<in> set (dict_keys (el_effects l)). minted ?l2 x"
      using l2 by (auto simp: ledger_ok_def)
    moreover have "minted ?l2 ?m" using m by (simp add: minted_def)
    moreover have "\<forall>en \<in> set (el_entries l). \<forall>r. ends_attempt en \<longrightarrow> dict_get (el_effects l) (en_effect en) = Some r \<longrightarrow> ended_by r (en_attempt en)"
      using ok by (simp add: ledger_ok_def)
    ultimately show ?thesis unfolding r using ok False fresh
      unfolding ledger_ok_def minted_def by (simp del: not_None_eq)
  qed
qed

lemma length_dict_set: "dict_get d k = Some v \<Longrightarrow> length (dict_set k w d) = length d"
  by (induction d) (auto split: if_splits)

lemma ledger_ok_update:
  assumes ok: "ledger_ok l" and r: "dict_get (el_effects l) eid = Some r"
    and e: "\<And>x. x \<in> set (el_entries l) \<Longrightarrow> ends_attempt x \<Longrightarrow> en_effect x = eid \<Longrightarrow> ended_by r' (en_attempt x)"
  shows "ledger_ok (l\<lparr>el_effects := dict_set eid r' (el_effects l)\<rparr>)"
proof -
  have k: "eid \<in> set (dict_keys (el_effects l))" using r dict_get_None_iff by (metis option.distinct(1))
  then have keys: "set (dict_keys (dict_set eid r' (el_effects l))) = set (dict_keys (el_effects l))"
    by (simp add: dom_update insert_absorb)
  have "ended_by q (en_attempt x)"
    if "x \<in> set (el_entries l)" "ends_attempt x" "dict_get (dict_set eid r' (el_effects l)) (en_effect x) = Some q" for x q
  proof (cases "en_effect x = eid")
    case False
    with that have "dict_get (el_effects l) (en_effect x) = Some q" by simp
    with ok that show ?thesis unfolding ledger_ok_def by blast
  qed (use that e in auto)
  moreover have "wf_dict (dict_set eid r' (el_effects l))" using ok by (simp add: ledger_ok_def)
  ultimately show ?thesis
    using ok keys length_dict_set [OF r] unfolding ledger_ok_def minted_def by simp
qed

lemma ledger_ok_register:
  assumes ok: "ledger_ok l" and m: "minted l eid" and none: "\<forall>en \<in> set (el_entries l). en_effect en = eid \<longrightarrow> \<not> ends_attempt en"
    and p: "dict_get (el_effects l) eid = None"
  shows "ledger_ok (register_effect eid en l)"
proof -
  let ?n = "length (el_effects l) - (max_receipts - 1)"
  let ?d = "drop ?n (el_effects l)"
  have wf: "wf_dict ?d" using ok by (simp add: ledger_ok_def drop_map [symmetric])
  have sub: "dict_get ?d k = Some r \<Longrightarrow> dict_get (el_effects l) k = Some r" for k r
    using ok by (auto simp: ledger_ok_def dest!: dict_get_mem in_set_dropD intro: dict_mem_get)
  have "dict_get ?d eid = None" using sub p by (cases "dict_get ?d eid") auto
  then have set: "dict_set eid (new_record en) ?d = ?d @ [(eid, new_record en)]" by (rule dict_set_append)
  have len: "length ?d + 1 \<le> max_receipts" by (simp add: max_receipts_def)
  have keys: "set (dict_keys ?d) \<subseteq> set (dict_keys (el_effects l))" by (auto dest: in_set_dropD)
  have r: "register_effect eid en l = l\<lparr>el_effects := dict_set eid (new_record en) ?d, el_effects_truncated := (el_effects_truncated l \<or> ?n > 0),
      el_effects_dropped := el_effects_dropped l + ?n\<rparr>"
    using p by (simp add: register_effect_def Let_def)
  have "wf_dict (dict_set eid (new_record en) ?d)" using wf by (rule wf_dict_set)
  moreover have "length (dict_set eid (new_record en) ?d) \<le> max_receipts" using len unfolding set by simp
  moreover have "set (dict_keys (dict_set eid (new_record en) ?d)) \<subseteq> insert eid (set (dict_keys (el_effects l)))"
    using keys unfolding set by auto
  then have "\<forall>k \<in> set (dict_keys (dict_set eid (new_record en) ?d)). minted l k"
    using ok m unfolding ledger_ok_def by blast
  moreover have "ended_by q (en_attempt x)"
    if "x \<in> set (el_entries l)" "ends_attempt x" "dict_get (dict_set eid (new_record en) ?d) (en_effect x) = Some q" for x q
  proof -
    from that none have "en_effect x \<noteq> eid" by blast
    with that sub have "dict_get (el_effects l) (en_effect x) = Some q" by simp
    with ok that show ?thesis by (simp add: ledger_ok_def)
  qed
  ultimately show ?thesis using ok by (simp add: r ledger_ok_def minted_def)
qed

definition receipts_good :: "gateway \<Rightarrow> bool" where
  "receipts_good g \<longleftrightarrow> list_all (\<lambda>(lid, l). el_id l = lid \<and> ledger_ok l) (gw_ledgers g)"

lemma receipts_keyed: "receipts_good g \<Longrightarrow> keyed g"
  by (auto simp: receipts_good_def keyed_def list_all_iff)

lemma receipts_get: "receipts_good g \<Longrightarrow> dict_get (gw_ledgers g) lid = Some l \<Longrightarrow> el_id l = lid \<and> ledger_ok l"
  by (auto simp: receipts_good_def list_all_iff dest: dict_get_mem)

lemma receipts_set: "receipts_good g \<Longrightarrow> ledger_ok l \<Longrightarrow> receipts_good (set_ledger l g)"
  by (auto simp: receipts_good_def list_all_iff dest!: dict_set_mem)

lemma receipts_cong: "gw_ledgers g' = gw_ledgers g \<Longrightarrow> receipts_good g' = receipts_good g"
  by (simp add: receipts_good_def)

lemma receipts_append:
  assumes "receipts_good g" "\<And>l. dict_get (gw_ledgers g) lid = Some l \<Longrightarrow> admits en keep l"
  shows "receipts_good (snd (append_entry e lid en keep g))"
proof (cases "dict_get (gw_ledgers g) lid")
  case (Some l0)
  obtain m p b l where a: "ledger_append (ge_context e) (ge_stamp e) en keep l0 = (m, p, b, l)" by (metis prod_cases4)
  have "ledger_ok l" using ledger_ok_append [of l0 en keep "ge_context e" "ge_stamp e"] receipts_get [OF assms(1) Some] assms(2) [OF Some] a by simp
  from receipts_set [OF assms(1) this] Some a show ?thesis
    by (auto simp: append_entry_def Let_def receipts_good_def)
qed (use assms(1) in \<open>simp add: append_entry_def\<close>)

lemma receipts_note: "receipts_good g \<Longrightarrow> \<not> ends_attempt en \<Longrightarrow> receipts_good (snd (append_entry e lid en keep g))"
  by (erule receipts_append) (simp add: admits_def)

lemma receipts_fresh: "receipts_good g \<Longrightarrow> receipts_good (snd (append_entry e lid en [] g))"
  by (erule receipts_append) (simp add: admits_def)

lemma denied_no_end [simp]: "\<not> ends_attempt (denied_entry en why by)"
  by (simp add: denied_entry_def ends_attempt_def terminal_lifecycle_def)

lemma receipts_terminal:
  assumes good: "receipts_good g" and n: "en_attempt en = n"
  shows "receipts_good (snd (terminal_transition e lid eid n lc en g))"
proof (cases "dict_get (gw_ledgers g) lid")
  case (Some l)
  show ?thesis
  proof (cases "dict_get (el_effects l) eid")
    case r: (Some r)
    let ?l = "l\<lparr>el_effects := dict_set eid (r\<lparr>fr_terminal := Some (n, lc)\<rparr>) (el_effects l)\<rparr>"
    note l = receipts_get [OF good Some]
    have "receipts_good (snd (append_entry e lid en eid (set_ledger ?l g)))" if new: "\<not> ended_by r n"
    proof (rule receipts_append)
      have older: "en_attempt x < n" if "x \<in> set (el_entries l)" "ends_attempt x" "en_effect x = eid" for x
      proof -
        from l that r have "ended_by r (en_attempt x)" unfolding ledger_ok_def by blast
        with new show ?thesis by (auto simp: ended_by_def split: option.splits)
      qed
      have "ledger_ok ?l"
        using l older by (intro ledger_ok_update [OF _ r]) (auto simp: ended_by_def intro: less_imp_le)
      with good show "receipts_good (set_ledger ?l g)" by (rule receipts_set)
      fix l' assume "dict_get (gw_ledgers (set_ledger ?l g)) lid = Some l'"
      with l have "l' = ?l" by simp
      moreover have "(eid, n) \<notin> set (map attempt_key (filter ends_attempt (el_entries l)))"
      proof
        assume "(eid, n) \<in> set (map attempt_key (filter ends_attempt (el_entries l)))"
        then obtain x where "x \<in> set (el_entries l)" "ends_attempt x" "en_effect x = eid" "en_attempt x = n"
          by (auto simp: attempt_key_def)
        with older [of x] show False by simp
      qed
      ultimately show "admits en eid l'" using n by (simp add: admits_def ended_by_def)
    qed
    with Some r good show ?thesis by (auto simp: terminal_transition_def ended_by_def split: option.split)
  qed (use Some good in \<open>simp add: terminal_transition_def\<close>)
qed (use good in \<open>simp add: terminal_transition_def\<close>)

lemma receipts_record_terminal: "receipts_good g \<Longrightarrow> receipts_good (snd (record_terminal e h lc reason status g))"
  by (auto simp: record_terminal_def Let_def lifecycle_entry_def make_receipt_def intro: receipts_terminal)

lemma receipts_then:
  assumes "receipts_good (snd r)" "\<And>a g1. r = (Inr a, g1) \<Longrightarrow> receipts_good (snd (k a g1))"
  shows "receipts_good (snd (gate_then r k))"
  using assms by (cases r rule: prod.exhaust; cases "fst r") (auto simp: gate_then_def)

lemma receipts_calls [simp]:
  "receipts_good (snd (unit_call r g)) = receipts_good g" "receipts_good (snd (money_call q g)) = receipts_good g"
  by (simp_all add: receipts_good_def)

lemma receipts_begin:
  assumes "receipts_good g"
  shows "receipts_good (snd (snd (begin_attempt e h g)))"
proof (cases "fst (begin_attempt e h g)")
  case (Inl x)
  then obtain h' g' where b: "begin_attempt e h g = (Inl x, h', g')" by (metis prod.collapse)
  with begin_refused_ledgers [OF b] assms show ?thesis by (simp add: receipts_good_def)
next
  case (Inr n)
  then obtain h' g' where b: "begin_attempt e h g = (Inr n, h', g')" by (metis prod.collapse)
  from begin_success [OF b] obtain c g1 g2 l0 l where "lc_decision h \<noteq> Denied" and s: "claim_money_for_attempt e h g = (Inr c, g1)"
    "consume_budget_for_attempt e (hold_claim c h) g1 = (Inr (), g2)"
    "dict_get (gw_ledgers g2) (lc_ledger h) = Some l0" "begin_registered (lc_effect h) l0 = Some (n, l)"
    "h' = (hold_claim c h)\<lparr>lc_attempt := n\<rparr>"
    "g' = snd (append_entry e (lc_ledger h) (lifecycle_entry (hold_claim c h) Lc_started (''transport attempt '' @ show_nat n) n) (lc_effect h) (set_ledger l g2))" .
  have f: "gw_ledgers g2 = gw_ledgers g"
    using claim_money_frame [of e h g] consume_budget_frame [of e "hold_claim c h" g1] s(1,2) by simp
  with assms have g2: "receipts_good g2" by (simp add: receipts_good_def)
  note l0 = receipts_get [OF g2 s(3)]
  from s(4) obtain r where r: "dict_get (el_effects l0) (lc_effect h) = Some r"
    "l = l0\<lparr>el_effects := dict_set (lc_effect h) (r\<lparr>fr_attempts := fr_attempts r + 1\<rparr>) (el_effects l0)\<rparr>"
    by (auto simp: begin_registered_def split: option.splits)
  have "ended_by r (en_attempt x)" if "x \<in> set (el_entries l0)" "ends_attempt x" "en_effect x = lc_effect h" for x
    using ledger_ok_ended [of l0 x r] l0 r(1) that by simp
  then have "ledger_ok l"
    unfolding r(2) using l0 by (intro ledger_ok_update [OF _ r(1)]) (auto simp: ended_by_def)
  with g2 have "receipts_good (set_ledger l g2)" by (rule receipts_set)
  then show ?thesis
    by (simp add: b s(6) receipts_note lifecycle_entry_def make_receipt_def ends_attempt_def terminal_lifecycle_def)
qed

lemma receipts_units:
  assumes "receipts_good g" "dict_get (gw_ledgers g) lid = Some l"
  shows "receipts_good (snd (reserve_budget_units e l en retry g))"
proof (cases "gateway_budget_class (en_class en)")
  case (Some c)
  obtain r p s where r: "reserve_effect_units (ge_unit e) (Some c) [] (el_id l) (budget_identity (ge_context e) l (en_provider en)) 1
      (process_of (ev_pid (ge_unit e)) (gw_units g)) (sy_store (gw_units g)) = (r, p, s)" by (metis prod_cases3)
  have "receipts_good (set_ledger (resolve_identity (ge_context e) l) g)"
    using receipts_set [OF assms(1) ledger_ok_resolve] receipts_get [OF assms] by simp
  then have "receipts_good ((set_ledger (resolve_identity (ge_context e) l) g)\<lparr>gw_units := sy\<rparr>)" for sy
    by (simp add: receipts_good_def)
  with Some r assms(1) show ?thesis
    by (auto simp: reserve_budget_units_def Let_def intro: receipts_note split: sum.split)
qed (use assms(1) in \<open>simp add: reserve_budget_units_def\<close>)

lemma receipts_refuse: "receipts_good g \<Longrightarrow> receipts_good (snd (refuse_money e l en rid c g))"
  by (simp add: refuse_money_def Let_def receipts_note)

lemma receipts_money:
  assumes "receipts_good g" "dict_get (gw_ledgers g) lid = Some l"
  shows "receipts_good (snd (reserve_money_at_gate e l en rq rid g))"
proof -
  have g: "receipts_good (set_ledger (resolve_identity (ge_context e) l) g)"
    using receipts_set [OF assms(1) ledger_ok_resolve] receipts_get [OF assms] by simp
  then have "receipts_good ((set_ledger (resolve_identity (ge_context e) l) g)\<lparr>gw_money := db\<rparr>)" for db
    by (simp add: receipts_good_def)
  with g show ?thesis
    by (auto simp: reserve_money_at_gate_def Let_def intro: receipts_refuse split: sum.split prod.split)
qed

lemma receipts_ledger:
  assumes "receipts_good g" "\<And>l. dict_get (gw_ledgers g) lid = Some l \<Longrightarrow> receipts_good (snd (k l))"
  shows "receipts_good (snd (with_ledger lid k g))"
  using assms by (simp add: with_ledger_def split: option.split)

text \<open>After the opening is recorded its effect may be enrolled: it is registered already, or new and without an end.\<close>

definition enrollable :: "string \<Rightarrow> string \<Rightarrow> gateway \<Rightarrow> bool" where
  "enrollable lid eid g \<longleftrightarrow> (\<forall>l. dict_get (gw_ledgers g) lid = Some l \<longrightarrow> dict_get (el_effects l) eid \<noteq> None
     \<or> minted l eid \<and> (\<forall>en \<in> set (el_entries l). en_effect en = eid \<longrightarrow> \<not> ends_attempt en))"

lemma receipts_enroll: "receipts_good g \<Longrightarrow> enrollable lid eid g \<Longrightarrow> receipts_good (enroll lid eid en g)"
proof (cases "dict_get (gw_ledgers g) lid")
  case (Some l)
  assume g: "receipts_good g" "enrollable lid eid g"
  note l = receipts_get [OF g(1) Some]
  show ?thesis
  proof (cases "dict_get (el_effects l) eid")
    case None
    with g(2) Some l have "ledger_ok (register_effect eid en l)"
      by (intro ledger_ok_register) (auto simp: enrollable_def)
    with g(1) Some show ?thesis by (simp add: enroll_def receipts_set)
  next
    case r: (Some r)
    have "receipts_good (set_ledger l g)" using receipts_set [OF g(1)] l by simp
    with Some r show ?thesis by (simp add: enroll_def register_effect_def)
  qed
qed (simp add: enroll_def)

lemma append_entry_fresh:
  assumes g: "receipts_good g" and no: "\<not> ends_attempt en"
  shows "enrollable lid (fst (append_entry e lid en [] g)) (snd (append_entry e lid en [] g))"
proof (cases "dict_get (gw_ledgers g) lid")
  case (Some l0)
  obtain m p b l where a: "ledger_append (ge_context e) (ge_stamp e) en [] l0 = (m, p, b, l)" by (metis prod_cases4)
  note l0 = receipts_get [OF g Some]
  have m: "m = mint_effect (el_id l0) (el_seq l0 + 1)" and l: "el_id l = el_id l0" "el_seq l = el_seq l0 + 1"
    using a by (auto simp: ledger_append_def Let_def split: if_splits)
  have "\<not> ends_attempt x" if "x \<in> set (el_entries l)" "en_effect x = m" for x
  proof -
    have "x \<in> set (el_entries l0) \<or> x = p" using that(1) a by (auto simp: ledger_append_def Let_def split: if_splits)
    moreover have "\<not> ends_attempt p" using a no by (auto simp: ledger_append_def Let_def split: if_splits)
    moreover have "x \<notin> set (el_entries l0)" using that(2) l0 minted_fresh [of l0] m by (auto simp: ledger_ok_def)
    ultimately show ?thesis by blast
  qed
  moreover have "minted l m" by (auto simp: minted_def m l)
  moreover have "dict_get (gw_ledgers (snd (append_entry e lid en [] g))) lid = Some l"
    using append_ledgers [OF receipts_keyed [OF g], of e lid en "[]" lid] Some a by simp
  moreover have "fst (append_entry e lid en [] g) = m" using Some a by (simp add: append_entry_def Let_def)
  ultimately show ?thesis by (simp add: enrollable_def)
qed (simp add: append_entry_def enrollable_def)

lemma receipts_opening:
  assumes g: "receipts_good g" and no: "\<not> ends_attempt en" and k: "known \<Longrightarrow> \<forall>l. dict_get (gw_ledgers g) lid = Some l \<longrightarrow> dict_get (el_effects l) retry \<noteq> None"
    and o: "record_opening e lid en known retry g = (eid, en', g')"
  shows "receipts_good g'" "enrollable lid eid g'"
proof -
  have "receipts_good g' \<and> enrollable lid eid g'"
  proof (cases known)
    case True
    from append_ledgers [OF receipts_keyed [OF g], of e lid en retry lid] k [OF True]
    have "enrollable lid retry (snd (append_entry e lid en retry g))" "enrollable lid retry g"
      by (auto simp: enrollable_def split: option.splits)
    with o True receipts_note [OF g no] g show ?thesis by (auto simp: record_opening_def split: if_splits)
  next
    case False
    let ?en = "if retry = [] then en else en\<lparr>en_note := en_note en @ [''retry_of not an effect of this ledger'']\<rparr>"
    have "\<not> ends_attempt ?en" using no by (simp add: ends_attempt_def)
    from append_entry_fresh [OF g this, of lid e] receipts_note [OF g this, of e lid "[]"] o False show ?thesis
      by (simp add: record_opening_def Let_def split: prod.splits)
  qed
  then show "receipts_good g'" "enrollable lid eid g'" by simp_all
qed

lemma bind_opening_ledgers:
  assumes "receipts_good g" "enrollable lid eid g"
  shows "receipts_good (snd (bind_opening e lid eid en rid li g))"
proof -
  have en: "enrollable lid eid g1" if "gw_ledgers g1 = gw_ledgers g" for g1 using assms(2) that by (simp add: enrollable_def)
  have good: "receipts_good g1" if "gw_ledgers g1 = gw_ledgers g" for g1 using assms(1) that by (simp add: receipts_good_def)
  have u: "gw_ledgers g1 = gw_ledgers g" if "(if rid = [] then (Inr (), g) else unit_call q g) = (Inr a, g1)" for q a g1
    using that unit_call_frame(3) [of q g] by (auto simp del: unit_call_frame split: if_splits)
  have m: "gw_ledgers g2 = gw_ledgers g" if "(if li = [] then (Inr (), g1) else money_call q g1) = (Inr a, g2)" "gw_ledgers g1 = gw_ledgers g" for q a g1 g2
    using that money_call_frame(3) [of q g1] by (auto simp del: money_call_frame split: if_splits)
  show ?thesis
    unfolding bind_opening_def
  proof (rule receipts_then)
    fix a g1 assume 1: "(if rid = [] then (Inr (), g) else unit_call (bind_reservation_effect (ge_unit e) rid eid (sy_store (gw_units g))) g) = (Inr a, g1)"
    show "receipts_good (snd (gate_then (if li = [] then (Inr (), g1) else money_call (bind_liability_effect li eid (gw_money g1)) g1)
        (\<lambda>_ g2. (Inr (new_handle lid eid en li), enroll lid eid en g2))))"
    proof (rule receipts_then)
      fix b g2 assume "(if li = [] then (Inr (), g1) else money_call (bind_liability_effect li eid (gw_money g1)) g1) = (Inr b, g2)"
      from m [OF this u [OF 1]] show "receipts_good (snd (Inr (new_handle lid eid en li), enroll lid eid en g2))"
        using receipts_enroll good en by simp
    qed (simp add: good u [OF 1])
  qed (simp add: assms(1))
qed

lemma reserve_units_effects:
  assumes "receipts_good g" "dict_get (gw_ledgers g) lid = Some l" "reserve_budget_units e l en retry g = (Inr rid, g1)"
  shows "\<exists>l1. dict_get (gw_ledgers g1) lid = Some l1 \<and> el_effects l1 = el_effects l"
  using assms receipts_get [OF assms(1,2)]
  by (auto simp: reserve_budget_units_def Let_def split: option.splits if_splits prod.splits sum.splits)

lemma reserve_money_effects:
  assumes "receipts_good g" "dict_get (gw_ledgers g) lid = Some l" "reserve_money_at_gate e l en rq rid g = (Inr li, g1)"
  shows "\<exists>l1. dict_get (gw_ledgers g1) lid = Some l1 \<and> el_effects l1 = el_effects l"
  using assms receipts_get [OF assms(1,2)]
  by (auto simp: reserve_money_at_gate_def refuse_money_def Let_def split: option.splits if_splits prod.splits sum.splits)

lemma receipts_open:
  assumes g: "receipts_good g" and no: "\<not> ends_attempt en"
  shows "receipts_good (snd (open_effect e lid en retry money g))"
  unfolding open_effect_def Let_def
proof (rule receipts_ledger [OF g])
  fix l assume l: "dict_get (gw_ledgers g) lid = Some l"
  let ?units = "if en_decision en = Allowed then reserve_budget_units e l en (if known_effect retry l then retry else []) g else (Inr [], g)"
  let ?money = "\<lambda>rid g1. case money of
      Some rq \<Rightarrow> if en_decision en = Allowed then with_ledger lid (\<lambda>l. reserve_money_at_gate e l en rq rid g1) g1 else (Inr [], g1)
    | None \<Rightarrow> (Inr [], g1)"
  let ?rest = "\<lambda>rid li g2. let (eid, en', g3) = record_opening e lid en (known_effect retry l) retry g2 in bind_opening e lid eid en' rid li g3"
  have "receipts_good (snd (gate_then ?units (\<lambda>rid g1. gate_then (?money rid g1) (?rest rid))))"
  proof (rule receipts_then)
    show gu: "receipts_good (snd ?units)" using receipts_units [OF g l] g by simp
    fix rid g1 assume u: "?units = (Inr rid, g1)"
    with gu have g1: "receipts_good g1" by simp
    have "\<exists>l1. dict_get (gw_ledgers g1) lid = Some l1 \<and> el_effects l1 = el_effects l"
      using u reserve_units_effects [OF g l] l by (auto split: if_splits)
    then obtain l1 where l1: "dict_get (gw_ledgers g1) lid = Some l1" "el_effects l1 = el_effects l" by blast
    show "receipts_good (snd (gate_then (?money rid g1) (?rest rid)))"
    proof (rule receipts_then)
      show gm: "receipts_good (snd (?money rid g1))"
        using receipts_money [OF g1] g1 by (auto intro!: receipts_ledger split: option.split)
      fix li g2 assume m: "?money rid g1 = (Inr li, g2)"
      with gm have g2: "receipts_good g2" by (simp only: snd_conv)
      have l2: "\<exists>l2. dict_get (gw_ledgers g2) lid = Some l2 \<and> el_effects l2 = el_effects l"
        using m l1 reserve_money_effects [OF g1 l1(1)] by (auto simp: with_ledger_def split: option.splits if_splits)
      obtain eid en' g3 where o: "record_opening e lid en (known_effect retry l) retry g2 = (eid, en', g3)" by (metis prod_cases3)
      have k: "\<forall>l. dict_get (gw_ledgers g2) lid = Some l \<longrightarrow> dict_get (el_effects l) retry \<noteq> None" if "known_effect retry l"
        using that l2 by (auto simp: known_effect_def)
      from receipts_opening [OF g2 no k o] show "receipts_good (snd (?rest rid li g2))"
        by (simp add: o bind_opening_ledgers)
    qed
  qed
  then show "receipts_good (snd (gate_then ?units (\<lambda>rid g1. gate_then (?money rid g1) (\<lambda>li g2. case record_opening e lid en (known_effect retry l) retry g2 of
      (eid, en', g3) \<Rightarrow> bind_opening e lid eid en' rid li g3))))"
    by (simp only: Let_def)
qed

definition receipts_lawful :: "gateway_op \<Rightarrow> gateway \<Rightarrow> bool" where
  "receipts_lawful x g = (case x of G_Open_effect e lid en retry money \<Rightarrow> \<not> ends_attempt en | _ \<Rightarrow> True)"

lemma receipts_step:
  assumes g: "receipts_good g" and x: "receipts_lawful x g"
  shows "receipts_good (gateway_step x g)"
proof -
  have led: "receipts_good g'" if "gw_ledgers g' = gw_ledgers g0" "receipts_good g0" for g' g0 :: gateway
    using that by (simp add: receipts_good_def)
  have after: "receipts_good (money_after_attempt e h d why g1)" "receipts_good (return_money e h why g1)"
    "receipts_good (return_unspent e lid why why' g1)" if "receipts_good g1" for e h d why why' lid g1
    by (rule led [OF _ that]; auto simp: money_after_attempt_def return_money_def return_unspent_def Let_def split: option.split)+
  have new: "receipts_good (set_ledger (new_ledger lid scope durable inst policy ws) g\<lparr>gw_stack := st\<rparr>)" for lid scope durable inst policy ws st
    using receipts_set [OF g ledger_ok_new] by (rule led [rotated]) simp
  have money: "receipts_good (snd (with_money h (\<lambda>g. money_call (r (gw_money g)) g) g))" for h r
    using g by (simp add: with_money_def)
  have ended: "receipts_good g1" if "record_terminal e h lc why st g = (r, g1)" for e h lc why st r g1
    using receipts_record_terminal [OF g, of e h lc why st] that by simp
  show ?thesis
  proof (cases x)
    case (G_Close e)
    show ?thesis
    proof (cases "gw_stack g")
      case (Cons lid rest)
      have g1: "receipts_good (return_unspent e i why why' (g\<lparr>gw_stack := rest\<rparr>))" for i why why'
        by (rule after(3)) (rule led [OF _ g], simp)
      show ?thesis using Cons G_Close
        by (auto simp: close_effect_receipt_scope_def Let_def g1 split: option.split
            intro!: receipts_set ledger_ok_finalized dest!: receipts_get [OF g1])
    qed (use G_Close g in \<open>simp add: close_effect_receipt_scope_def\<close>)
  next
    case (G_Leave e sc)
    have "receipts_good (g\<lparr>gw_stack := []\<rparr>)" by (rule led [OF _ g]) simp
    with G_Leave g after show ?thesis by (cases sc) (simp add: leave_background_scope_def)
  next
    case (G_Freeze lid cls v)
    have "ledger_ok (freeze_decision cls v l)" if "ledger_ok l" for l
      using that by (auto simp: freeze_decision_def intro: ledger_ok_cong)
    then show ?thesis using G_Freeze g receipts_get [OF g] receipts_set [OF g] by (auto simp: freeze_on_def split: option.split)
  next
    case (G_Cancel e h reason)
    then show ?thesis using g after
      by (auto simp: cancel_def simp del: first_stated.simps intro!: receipts_then receipts_record_terminal dest!: ended)
  next
    case (G_Succeed e h status reason)
    then show ?thesis using g after
      by (auto simp: succeed_def Let_def intro!: receipts_then receipts_record_terminal dest!: ended)
  next
    case (G_Fail e h f reason)
    then show ?thesis using g after
      by (auto simp: fail_def Let_def simp del: first_stated.simps intro!: receipts_then receipts_record_terminal dest!: ended)
  next
    case (G_Enter name durable lid inst policy ws)
    then show ?thesis using g new by (simp add: enter_background_scope_def Let_def split: list.split)
  next
    case (G_Units y)
    show ?thesis unfolding G_Units by (rule led [OF _ g]) simp
  next
    case (G_Money m y)
    show ?thesis unfolding G_Money by (rule led [OF _ g]) simp
  next
    case (G_Open_turn lid policy ws)
    then show ?thesis using new by (simp add: open_effect_receipt_scope_def)
  next
    case (G_Open_effect e lid en retry m)
    then show ?thesis using g x by (simp add: receipts_lawful_def receipts_open)
  qed (use g money in \<open>simp_all add: money_unsent_def money_unknown_def settle_money_def receipts_begin receipts_fresh receipts_record_terminal\<close>)
qed

interpretation receipts: lawful_system gateway_step receipts_lawful receipts_good
  by unfold_locales (rule receipts_step)

end
