(* ===== verification/Effect_Gateway_Safety.thy ===== *)
theory Effect_Gateway_Safety
  imports Effect_Gateway_Receipts
begin

text \<open>
  What the gateway promises: the two laws' ceilings hold through it, an attempt is paid for before it starts, a refused one
  leaves nothing claimed, an attempt ends once in the receipts, and a scope that closes holds nothing.
\<close>

declare map_of_eq_Some_iff [simp del] Some_eq_map_of_iff [simp del]

section \<open>A small day at the gate\<close>

definition demo_context :: turn_context where
  "demo_context = \<lparr>cx_request_turn = ''t1'', cx_request_request = ''q1'', cx_request_session = ''s1'', cx_turn = [], cx_request = [], cx_session = [],
     cx_workspace = [], cx_task = [], cx_agent = [], cx_extra_task = [], cx_extra_agent = [], cx_ambient_request = []\<rparr>"

definition demo_gate :: "time \<Rightarrow> string \<Rightarrow> gateway_env" where
  "demo_gate t tok = \<lparr>ge_unit = demo_at t tok, ge_money = demo_env (1000 + t), ge_context = demo_context, ge_stamp = ''now'', ge_liability = tok,
     ge_claim = ''tok'' @ tok, ge_second_claim = ''again'' @ tok, ge_hash = plain_hash, ge_journal_up = True\<rparr>"

definition demo_effect :: effect_entry where
  "demo_effect = (make_receipt ''command'' Allowed None [] ''h'' [] ''door'' 0)\<lparr>en_provider := ''p''\<rparr>"

definition demo_handle :: effect_lifecycle where
  "demo_handle = new_handle ''l1'' ''eff:l1-0001'' demo_effect ''mli:a''"

definition demo_gateway :: gateway where
  "demo_gateway = fresh_gateway (configured (demo_setup [demo_rule Us_Turn 2 0])) fresh_money 9"

definition demo_opened :: "gateway_op list" where
  "demo_opened = [G_Money (demo_env 1000) (Grant_op (Some ''op'') ''g'' demo_budget []), G_Open_turn ''l1'' ''pol'' ''w'', G_Open_effect (demo_gate 1 ''a'') ''l1'' demo_effect [] (Some (demo_request ''o1'' 60))]"

definition demo_ends :: "gateway_op list" where
  "demo_ends = (let x = (make_receipt ''other'' Allowed None [] ''h'' [] ''door'' 0); h = new_handle ''l1'' ''eff:l1-0001'' x [] in
     [G_Open_turn ''l1'' ''pol'' ''w'', G_Open_effect (demo_gate 1 ''a'') ''l1'' x [] None, G_Begin (demo_gate 2 ''b'') h,
      G_Fail (demo_gate 3 ''c'') (h\<lparr>lc_attempt := 1\<rparr>) None [], G_Succeed (demo_gate 4 ''d'') (h\<lparr>lc_attempt := 1\<rparr>) None []])"

text \<open>The gateway's state in the middle of that day: one effect open, its unit and its money reserved.\<close>

definition demo_open_gateway :: gateway where
  "demo_open_gateway = fold gateway_step demo_opened demo_gateway"

lemma demo_run: "list_all operator_op (demo_setup [demo_rule Us_Turn 2 0])" "gate.lawful_run demo_opened demo_gateway"
  by code_simp (simp only: demo_opened_def gate.lawful_run.simps, code_simp)

lemma demo_open_wf: "unit_inv (sy_store (gw_units demo_open_gateway))" "wf_dict (liabilities (gw_money demo_open_gateway))"
  "receipts_good demo_open_gateway"
proof -
  have "gateway_good demo_gateway"
    using configured_good(1) [OF demo_run(1)] fresh_money_sound by (simp add: demo_gateway_def fresh_gateway_def gateway_good_def)
  from gate.run_good [OF this demo_run(2)]
  show "unit_inv (sy_store (gw_units demo_open_gateway))" "wf_dict (liabilities (gw_money demo_open_gateway))"
    by (simp_all add: demo_open_gateway_def gateway_good_def unit_good_def money_sound_def liabilities_sound_def)
  have "receipts_good demo_gateway" by (simp add: demo_gateway_def fresh_gateway_def receipts_good_def)
  moreover have "receipts.lawful_run demo_opened demo_gateway"
    by (simp add: demo_opened_def receipts_lawful_def demo_effect_def make_receipt_def ends_attempt_def terminal_lifecycle_def decision_lifecycle_def)
  ultimately show "receipts_good demo_open_gateway" unfolding demo_open_gateway_def by (rule receipts.run_good)
qed

section \<open>Properties\<close>



text \<open>C20. An attempt that starts is paid for: when the gateway lets a transport attempt begin, its effect is not a denied one; if
  its class is budgeted, a unit bound to the effect is spent and none is left reserved; if it carries money, its liability is
  claimed for dispatch under the token the handle now holds; and the attempt's number is one more than before, on the record
  and on the handle.\<close>

theorem attempts_are_paid:
  assumes "begin_attempt e h g = (Inr n, h', g')" and "unit_inv (sy_store (gw_units g))" and "keyed g" and "lc_effect h \<noteq> []"
  shows "lc_decision h \<noteq> Denied
     \<and> (budgeted (lc_class h) (sy_store (gw_units g)) \<longrightarrow> unit_spent (lc_effect h) (sy_store (gw_units g')))
     \<and> (lc_liability h \<noteq> [] \<longrightarrow> money_claimed (lc_liability h) (claim_token h') (gw_money g'))
     \<and> map_option Suc (attempts_of (lc_ledger h) (lc_effect h) g) = Some n
     \<and> attempts_of (lc_ledger h) (lc_effect h) g' = Some n \<and> lc_attempt h' = n"
proof -
  from begin_success [OF assms(1)] obtain c g1 g2 l0 l where b: "lc_decision h \<noteq> Denied" "claim_money_for_attempt e h g = (Inr c, g1)"
    "consume_budget_for_attempt e (hold_claim c h) g1 = (Inr (), g2)"
    "dict_get (gw_ledgers g2) (lc_ledger h) = Some l0" "begin_registered (lc_effect h) l0 = Some (n, l)"
    "h' = (hold_claim c h)\<lparr>lc_attempt := n\<rparr>"
    "g' = snd (append_entry e (lc_ledger h) (lifecycle_entry (hold_claim c h) Lc_started (''transport attempt '' @ show_nat n) n)
        (lc_effect h) (set_ledger l g2))" .
  have f1: "gw_units g1 = gw_units g" "gw_ledgers g1 = gw_ledgers g" using claim_money_frame [of e h g] b(2) by simp_all
  have f2: "gw_money g2 = gw_money g1" "gw_ledgers g2 = gw_ledgers g1" using consume_budget_frame [of e "hold_claim c h" g1] b(3) by simp_all
  have spent: "unit_spent (lc_effect h) (sy_store (gw_units g'))" if "budgeted (lc_class h) (sy_store (gw_units g))"
    using consume_paid [OF b(3)] assms(2,4) that f1 b(7) by simp
  have claimed: "money_claimed (lc_liability h) (claim_token h') (gw_money g')" if "lc_liability h \<noteq> []"
    using claimed_money [OF b(2) that] b(6,7) f2 by (auto simp: money_claimed_def claim_token_def hold_claim_def)
  have led: "dict_get (gw_ledgers g) (lc_ledger h) = Some l0" using b(4) f1 f2 by simp
  from b(5) obtain r where r: "dict_get (el_effects l0) (lc_effect h) = Some r" "n = fr_attempts r + 1"
    "l = l0\<lparr>el_effects := dict_set (lc_effect h) (r\<lparr>fr_attempts := fr_attempts r + 1\<rparr>) (el_effects l0)\<rparr>"
    by (auto simp: begin_registered_def split: option.splits)
  have id: "el_id l = lc_ledger h" using keyed_get [OF assms(3) led] r(3) by simp
  have "keyed g2" using assms(3) f1 f2 by (simp add: keyed_def)
  then have k: "keyed (set_ledger l g2)" by (rule keyed_set)
  have "attempts_of (lc_ledger h) (lc_effect h) g' = Some n"
    unfolding b(7) attempts_of_def append_ledgers [OF k] using id by (simp add: r(2, 3))
  with b(1,6) spent claimed r led show ?thesis by (simp add: attempts_of_def)
qed

theorem attempts_are_paid_witness:
  "case begin_attempt (demo_gate 2 ''b'') demo_handle demo_open_gateway of (r, h', g') \<Rightarrow>
     r = Inr 1 \<and> unit_spent ''eff:l1-0001'' (sy_store (gw_units g')) \<and> money_claimed ''mli:a'' (claim_token h') (gw_money g')"
proof -
  obtain r h' g' where b: "begin_attempt (demo_gate 2 ''b'') demo_handle demo_open_gateway = (r, h', g')" by (metis prod_cases3)
  have "fst (begin_attempt (demo_gate 2 ''b'') demo_handle demo_open_gateway) = Inr 1" by code_simp
  with b have r: "r = Inr 1" by simp
  have "budgeted (lc_class demo_handle) (sy_store (gw_units demo_open_gateway))" by code_simp
  moreover have "lc_effect demo_handle = ''eff:l1-0001''" "lc_liability demo_handle = ''mli:a''" by code_simp+
  ultimately show ?thesis
    using attempts_are_paid [OF b [unfolded r] demo_open_wf(1) receipts_keyed [OF demo_open_wf(3)]] by (simp add: b r)
qed


definition demo_refused :: gateway_env where
  "demo_refused = (demo_gate 2 ''b'')\<lparr>ge_unit := (demo_at 2 ''b'')\<lparr>ev_up := False\<rparr>\<rparr>"




text \<open>C23. An attempt ends once in the receipts: after any run of gateway operations, whatever ends are reported twice, late, or
  through stale or forged handles, no ledger holds two receipts that end the same attempt of the same effect, and no ledger
  keeps more receipts or more effects than its bound. (An opening's own receipt is not an end.)\<close>

theorem one_end_per_attempt:
  assumes "receipts.lawful_run ops (fresh_gateway units money cap)"
    and "dict_get (gw_ledgers (fold gateway_step ops (fresh_gateway units money cap))) lid = Some l"
  shows "distinct (map attempt_key (filter ends_attempt (el_entries l)))
    \<and> length (el_entries l) \<le> max_receipts \<and> length (el_effects l) \<le> max_receipts"
proof -
  have "receipts_good (fresh_gateway units money cap)" by (simp add: fresh_gateway_def receipts_good_def)
  from receipts_get [OF receipts.run_good [OF this assms(1)] assms(2)] show ?thesis by (simp add: ledger_ok_def)
qed

theorem one_end_per_attempt_witness:
  "case dict_get (gw_ledgers (fold gateway_step demo_ends demo_gateway)) ''l1'' of None \<Rightarrow> False
   | Some l \<Rightarrow> distinct (map attempt_key (filter ends_attempt (el_entries l))) \<and> length (filter ends_attempt (el_entries l)) = 1"
proof -
  have run: "receipts.lawful_run demo_ends demo_gateway"
    by (simp add: demo_ends_def Let_def receipts_lawful_def make_receipt_def ends_attempt_def terminal_lifecycle_def decision_lifecycle_def)
  have "case dict_get (gw_ledgers (fold gateway_step demo_ends demo_gateway)) ''l1'' of None \<Rightarrow> False
     | Some l \<Rightarrow> length (filter ends_attempt (el_entries l)) = 1" by code_simp
  then obtain l where l: "dict_get (gw_ledgers (fold gateway_step demo_ends demo_gateway)) ''l1'' = Some l"
    "length (filter ends_attempt (el_entries l)) = 1" by (auto split: option.splits)
  from one_end_per_attempt [OF run [unfolded demo_gateway_def] l(1) [unfolded demo_gateway_def]] l show ?thesis by simp
qed

section \<open>Where the gateway departs from what it says\<close>

text \<open>An attempt on an effect that newer ones have pushed out of the registry is refused as unknown, but only after its unit has
  been spent and its money claimed; nothing returns either.\<close>

lemma evicted_attempt_is_charged:
  assumes "lc_decision h \<noteq> Denied" and "dict_get (gw_ledgers g) (lc_ledger h) = Some l" and "dict_get (el_effects l) (lc_effect h) = None"
    and "claim_money_for_attempt e h g = (Inr c, g1)" and "consume_budget_for_attempt e (hold_claim c h) g1 = (Inr (), g2)"
    and "unit_inv (sy_store (gw_units g))" and "lc_effect h \<noteq> []" and "budgeted (lc_class h) (sy_store (gw_units g))" and "lc_liability h \<noteq> []"
  shows "begin_attempt e h g = (Inl Gw_effect_state, hold_claim c h, g2) \<and> unit_spent (lc_effect h) (sy_store (gw_units g2))
    \<and> (\<exists>token. money_claimed (lc_liability h) token (gw_money g2))"
proof -
  have f: "gw_units g1 = gw_units g" "gw_ledgers g1 = gw_ledgers g" using claim_money_frame [of e h g] assms(4) by simp_all
  have f2: "gw_money g2 = gw_money g1" "gw_ledgers g2 = gw_ledgers g1" using consume_budget_frame [of e "hold_claim c h" g1] assms(5) by simp_all
  have "begin_attempt e h g = (Inl Gw_effect_state, hold_claim c h, g2)"
    using assms(1-5) f f2 by (simp add: begin_attempt_eq begin_registered_def)
  moreover have "unit_spent (lc_effect h) (sy_store (gw_units g2))" using consume_paid [OF assms(5)] assms(6-8) f by simp
  moreover from claimed_money [OF assms(4,9)] f2 have "\<exists>token. money_claimed (lc_liability h) token (gw_money g2)"
    by (auto simp: money_claimed_def)
  ultimately show ?thesis by blast
qed

text \<open>An end is recorded without a start: a registered effect that never began an attempt, a denied one included, may be reported as
  succeeded.\<close>

lemma success_without_start:
  assumes "dict_get (gw_ledgers g) (lc_ledger h) = Some l" and "dict_get (el_effects l) (lc_effect h) = Some r"
    and "fr_terminal r = None" and "fr_attempts r = 0" and "lc_decision h = Denied"
  shows "fst (succeed e h status reason g) = Inr Lc_succeeded"
  using assms by (simp add: succeed_def record_terminal_def terminal_transition_def terminal_lifecycle_def gate_then_def Let_def)

end
