(* ===== verification/Council_Pin.thy ===== *)
theory Council_Pin
  imports Vool_Prelude
begin

text \<open>
  The council's ownership of the machine's one model pin (\<open>core/council/pin_lock.py\<close>): the fence
  that admits ordinary chat turns and model writes while no council owns the pin or is taking it,
  and that makes a council wait for the admitted ones before it pins.

  \<^item> \<open>fence\<close> is the module's globals; every operation runs under the module's one condition variable,
    so an operation is one step. The two that do not run in one hold of the lock are split where
    the code lets go of it: an admission door first compares the capability and then admits
    (\<open>admit_chat_turn\<close>, and \<open>admit\<close> alone for a turn whose comparison failed a moment ago), and
    \<open>acquire\<close> waits between two passes of its loop (\<open>acquire_enter\<close> up to the first wait,
    \<open>acquire_pass\<close> for each waking).
  \<^item> Clock readings and the random texts (\<open>uuid4().hex\<close>, \<open>token_urlsafe(32)\<close>) are arguments.
  \<^item> The prose of a refusal (\<open>detail\<close>, \<open>reason\<close>) is left out where it carries no more than the
    run's name; the sentence of \<open>refuse_pin_write_reason\<close> is kept whole.
\<close>

section \<open>The fence\<close>

record pin_owner =
  owner_run :: string
  owner_state :: string
  owner_since :: time
  owner_capability :: string

record fence =
  fence_owner :: "pin_owner option"
  fence_pending :: string
  fence_admissions :: "(string, time) dict"

record pin_refusal =
  refused_error :: string
  refused_run :: string
  refused_state :: string
  refused_since :: time
  refused_retry_after :: "string list"

record admission =
  ad_refusal :: "pin_refusal option"
  ad_token :: string
  ad_seat :: bool
  ad_released :: bool

datatype pin_busy = Invalid_run_id | Pin_active string | Turns_in_flight nat int

definition busy_code :: "pin_busy \<Rightarrow> string" where
  "busy_code b = (case b of Invalid_run_id \<Rightarrow> ''invalid_run_id''
     | Pin_active r \<Rightarrow> ''council_model_pin_active'' | Turns_in_flight n age \<Rightarrow> ''chat_turn_in_flight'')"

definition drain_timeout :: time where
  "drain_timeout = 20"

definition terminal_states :: "string list" where
  "terminal_states = [''converged'', ''failed'', ''no_convergence'', ''stopped'', ''crashed'', ''needs_attention'']"

definition refusal_error :: string where
  "refusal_error = ''council_model_pin_active''"

text \<open>\<open>str(run_id or "").strip()\<close>.\<close>

definition clean_run :: "string \<Rightarrow> string" where
  "clean_run r = py_strip r"

subsection \<open>Admission\<close>

definition live_admissions :: "fence \<Rightarrow> nat" where
  "live_admissions f = length (fence_admissions f)"

definition oldest_admission_age :: "time \<Rightarrow> fence \<Rightarrow> time" where
  "oldest_admission_age now f =
     (case map snd (fence_admissions f) of [] \<Rightarrow> 0 | t # ts \<Rightarrow> max 0 (now - fold min ts t))"

definition owned_or_pending :: "fence \<Rightarrow> bool" where
  "owned_or_pending f \<longleftrightarrow> fence_owner f \<noteq> None \<or> fence_pending f \<noteq> []"

definition refusal :: "time \<Rightarrow> fence \<Rightarrow> pin_refusal" where
  "refusal wall f =
     (let (r, s, t) = (case fence_owner f of
                         Some p \<Rightarrow> (owner_run p, owner_state p, owner_since p)
                       | None \<Rightarrow> (fence_pending f, ''convening'', wall))
      in \<lparr>refused_error = refusal_error, refused_run = r, refused_state = s, refused_since = t,
          refused_retry_after = terminal_states\<rparr>)"

definition admit :: "string \<Rightarrow> time \<Rightarrow> time \<Rightarrow> fence \<Rightarrow> fence \<times> admission" where
  "admit token tick wall f =
     (if owned_or_pending f
      then (f, \<lparr>ad_refusal = Some (refusal wall f), ad_token = [], ad_seat = False, ad_released = False\<rparr>)
      else (f\<lparr>fence_admissions := dict_set token tick (fence_admissions f)\<rparr>,
            \<lparr>ad_refusal = None, ad_token = token, ad_seat = False, ad_released = False\<rparr>))"

definition is_dispatch_capability :: "string \<Rightarrow> bool \<Rightarrow> fence \<Rightarrow> bool" where
  "is_dispatch_capability presented owner_local f \<longleftrightarrow>
     (if presented = [] \<or> \<not> owner_local then False
      else (case fence_owner f of None \<Rightarrow> False | Some p \<Rightarrow> presented = owner_capability p))"

definition seat_admission :: admission where
  "seat_admission = \<lparr>ad_refusal = None, ad_token = [], ad_seat = True, ad_released = False\<rparr>"

definition admit_chat_turn :: "string \<Rightarrow> bool \<Rightarrow> string \<Rightarrow> time \<Rightarrow> time \<Rightarrow> fence \<Rightarrow> fence \<times> admission" where
  "admit_chat_turn capability owner_local token tick wall f =
     (if is_dispatch_capability capability owner_local f then (f, seat_admission)
      else admit token tick wall f)"

definition admit_model_write :: "string \<Rightarrow> bool \<Rightarrow> string \<Rightarrow> time \<Rightarrow> time \<Rightarrow> fence \<Rightarrow> fence \<times> admission" where
  "admit_model_write capability owner_local token tick wall f =
     (if is_dispatch_capability capability owner_local f then (f, seat_admission)
      else admit token tick wall f)"

definition refuse_pin_write_reason :: "string \<Rightarrow> bool \<Rightarrow> fence \<Rightarrow> string" where
  "refuse_pin_write_reason capability owner_local f =
     (if is_dispatch_capability capability owner_local f then []
      else if fence_owner f = None \<and> fence_pending f = [] then []
      else ''A council ('' @ (case fence_owner f of Some p \<Rightarrow> owner_run p | None \<Rightarrow> fence_pending f)
           @ '') currently owns this machine's model pin, so the model was ''
           @ ''left unchanged. The pin is handed back when the run reaches a terminal state.'')"

definition pin_write_refusal :: "string \<Rightarrow> bool \<Rightarrow> time \<Rightarrow> fence \<Rightarrow> pin_refusal option" where
  "pin_write_refusal capability owner_local wall f =
     (if is_dispatch_capability capability owner_local f then None
      else if fence_owner f = None \<and> fence_pending f = [] then None
      else Some (refusal wall f))"

text \<open>\<open>Admission.release\<close>, on the object and the globals.\<close>

definition release_admission :: "admission \<Rightarrow> fence \<Rightarrow> fence \<times> admission" where
  "release_admission a f =
     (if ad_released a then (f, a)
      else (let a' = a\<lparr>ad_released := True\<rparr> in
        if ad_token a = [] then (f, a')
        else (f\<lparr>fence_admissions := dict_pop (ad_token a) (fence_admissions f)\<rparr>, a')))"

subsection \<open>Taking, noting and handing back the pin\<close>

text \<open>What one pass of the loop of \<open>acquire\<close> ends in: another wait, of so many seconds, or the end.\<close>

datatype drain_pass = Keep_waiting time | Pinned string | Drain_failed pin_busy

text \<open>\<open>f"{age:.0f}"\<close>: to the nearest integer, a half to the even one.\<close>

definition round_half_even :: "time \<Rightarrow> int" where
  "round_half_even x =
     (let n = \<lfloor>x\<rfloor>; d = x - of_int n in
      if d < 1/2 then n else if 1/2 < d then n + 1 else if even n then n else n + 1)"

text \<open>
  One pass: the test of the loop and, when nobody is left, the body after it, with the \<open>finally\<close>
  on each way out. \<open>now\<close> and \<open>later\<close> are the readings of the monotonic clock for the remaining
  time and for the age in the message.
\<close>

definition acquire_pass ::
  "string \<Rightarrow> string \<Rightarrow> time \<Rightarrow> time \<Rightarrow> time \<Rightarrow> time \<Rightarrow> string \<Rightarrow> fence \<Rightarrow> fence \<times> drain_pass" where
  "acquire_pass clean state deadline now later wall capability f =
     (if 0 < live_admissions f
      then (let remaining = deadline - now in
        if remaining \<le> 0
        then (f\<lparr>fence_pending := []\<rparr>,
              Drain_failed (Turns_in_flight (live_admissions f) (round_half_even (oldest_admission_age later f))))
        else (f, Keep_waiting remaining))
      else (f\<lparr>fence_owner := Some \<lparr>owner_run = clean,
                                     owner_state = (if state = [] then ''convened'' else state),
                                     owner_since = wall, owner_capability = capability\<rparr>,
              fence_pending := []\<rparr>,
            Pinned capability))"

text \<open>
  The guards, the mark \<open>_pending_run\<close>, the deadline and the first pass, all in the first hold of the
  lock; the result names the cleaned run and the deadline the later passes work with.
\<close>

definition acquire_enter ::
  "string \<Rightarrow> string \<Rightarrow> time \<Rightarrow> time \<Rightarrow> time \<Rightarrow> time \<Rightarrow> string \<Rightarrow> fence \<Rightarrow> fence \<times> (pin_busy + string \<times> time \<times> drain_pass)" where
  "acquire_enter run_id state start now later wall capability f =
     (let clean = clean_run run_id in
      if clean = [] then (f, Inl Invalid_run_id)
      else case fence_owner f of
        Some p \<Rightarrow> (f, Inl (Pin_active (owner_run p)))
      | None \<Rightarrow>
          if fence_pending f \<noteq> [] then (f, Inl (Pin_active (fence_pending f)))
          else (let deadline = start + drain_timeout;
                    (f', r) = acquire_pass clean state deadline now later wall capability
                                (f\<lparr>fence_pending := clean\<rparr>)
                in (f', Inr (clean, deadline, r))))"

definition note_state :: "string \<Rightarrow> string \<Rightarrow> fence \<Rightarrow> fence" where
  "note_state run_id state f = (case fence_owner f of
     None \<Rightarrow> f
   | Some p \<Rightarrow> if owner_run p = clean_run run_id
               then f\<lparr>fence_owner := Some (p\<lparr>owner_state := (if state = [] then owner_state p else state)\<rparr>)\<rparr>
               else f)"

definition release_pin :: "string \<Rightarrow> fence \<Rightarrow> fence \<times> bool" where
  "release_pin run_id f = (case fence_owner f of
     None \<Rightarrow> (f, False)
   | Some p \<Rightarrow> if owner_run p \<noteq> clean_run run_id then (f, False)
               else (f\<lparr>fence_owner := None\<rparr>, True))"

definition reset_on_startup :: "fence \<Rightarrow> fence" where
  "reset_on_startup f = f\<lparr>fence_owner := None, fence_pending := [], fence_admissions := []\<rparr>"

subsection \<open>What is served\<close>

record pin_snapshot =
  snap_run :: string
  snap_state :: string
  snap_since :: time
  snap_seconds :: time

definition owner_snapshot :: "time \<Rightarrow> fence \<Rightarrow> pin_snapshot option" where
  "owner_snapshot wall f = (case fence_owner f of
     None \<Rightarrow> None
   | Some p \<Rightarrow> Some \<lparr>snap_run = owner_run p, snap_state = owner_state p, snap_since = owner_since p,
                     snap_seconds = max 0 (wall - owner_since p)\<rparr>)"

record pin_payload =
  pay_locked :: bool
  pay_run :: string
  pay_state :: string
  pay_times :: "(time \<times> time) option"

definition lock_payload :: "time \<Rightarrow> fence \<Rightarrow> pin_payload" where
  "lock_payload wall f = (case owner_snapshot wall f of
     None \<Rightarrow> \<lparr>pay_locked = False, pay_run = [], pay_state = [], pay_times = None\<rparr>
   | Some s \<Rightarrow> \<lparr>pay_locked = True, pay_run = snap_run s, pay_state = snap_state s,
                pay_times = Some (snap_since s, snap_seconds s)\<rparr>)"

section \<open>Everyone around the fence\<close>

text \<open>
  The fence together with what its callers hold: the \<open>Admission\<close> objects the two doors have
  returned (a turn or a write is in flight until its object is released), the \<open>acquire\<close> calls that
  wait, and the run and capability each finished \<open>acquire\<close> has returned, the latest last.
\<close>

record drain =
  dr_run :: string
  dr_state :: string
  dr_deadline :: time

record pin_world =
  pw_fence :: fence
  pw_turns :: "admission list"
  pw_drains :: "drain list"
  pw_handed :: "(string \<times> string) list"

text \<open>
  One hold of the lock by some thread, with the readings of the clocks and the random text it gets.
  \<open>Turn\<close> and \<open>Write\<close> are the two doors in one go; \<open>Late_turn\<close> is the second half of either, for a
  caller whose capability was compared, and refused, at some earlier moment. \<open>Finish i\<close> is the
  release of the i-th object, \<open>Wake i\<close> the waking of the i-th waiting \<open>acquire\<close> (a notification, the
  end of its wait, or a spurious one: \<open>Condition.wait\<close> promises no more).
\<close>

datatype pin_event =
    Turn string bool string time time
  | Write string bool string time time
  | Late_turn string time time
  | Finish nat
  | Acquire string string time time time time string
  | Wake nat time time time string
  | Note string string
  | Hand_back string

definition drop_nth :: "nat \<Rightarrow> 'a list \<Rightarrow> 'a list" where
  "drop_nth i xs = take i xs @ drop (Suc i) xs"

fun apply_pass :: "drain \<Rightarrow> fence \<times> drain_pass \<Rightarrow> pin_world \<Rightarrow> pin_world" where
  "apply_pass d (f, Keep_waiting t) w = w\<lparr>pw_fence := f, pw_drains := pw_drains w @ [d]\<rparr>"
| "apply_pass d (f, Pinned c) w = w\<lparr>pw_fence := f, pw_handed := pw_handed w @ [(dr_run d, c)]\<rparr>"
| "apply_pass d (f, Drain_failed b) w = w\<lparr>pw_fence := f\<rparr>"

definition admitted :: "fence \<times> admission \<Rightarrow> pin_world \<Rightarrow> pin_world" where
  "admitted r w = w\<lparr>pw_fence := fst r, pw_turns := pw_turns w @ [snd r]\<rparr>"

fun pin_apply :: "pin_event \<Rightarrow> pin_world \<Rightarrow> pin_world" where
  "pin_apply (Turn cap local token tick wall) w = admitted (admit_chat_turn cap local token tick wall (pw_fence w)) w"
| "pin_apply (Write cap local token tick wall) w = admitted (admit_model_write cap local token tick wall (pw_fence w)) w"
| "pin_apply (Late_turn token tick wall) w = admitted (admit token tick wall (pw_fence w)) w"
| "pin_apply (Finish i) w =
     (if i < length (pw_turns w)
      then (let (f, a) = release_admission (pw_turns w ! i) (pw_fence w)
            in w\<lparr>pw_fence := f, pw_turns := (pw_turns w)[i := a]\<rparr>)
      else w)"
| "pin_apply (Acquire run state start now later wall cap) w =
     (case acquire_enter run state start now later wall cap (pw_fence w) of
        (f, Inl b) \<Rightarrow> w\<lparr>pw_fence := f\<rparr>
      | (f, Inr (clean, deadline, r)) \<Rightarrow> apply_pass \<lparr>dr_run = clean, dr_state = state, dr_deadline = deadline\<rparr> (f, r) w)"
| "pin_apply (Wake i now later wall cap) w =
     (if i < length (pw_drains w)
      then (let d = pw_drains w ! i
            in apply_pass d (acquire_pass (dr_run d) (dr_state d) (dr_deadline d) now later wall cap (pw_fence w))
                 (w\<lparr>pw_drains := drop_nth i (pw_drains w)\<rparr>))
      else w)"
| "pin_apply (Note run state) w = w\<lparr>pw_fence := note_state run state (pw_fence w)\<rparr>"
| "pin_apply (Hand_back run) w = w\<lparr>pw_fence := fst (release_pin run (pw_fence w))\<rparr>"

text \<open>The serving app at boot: whatever the module held, nobody has an admission or a capability.\<close>

definition boot :: "fence \<Rightarrow> pin_world" where
  "boot f = \<lparr>pw_fence = reset_on_startup f, pw_turns = [], pw_drains = [], pw_handed = []\<rparr>"

text \<open>
  What the code relies on: the random texts are not empty and have not been drawn before. Every
  token drawn since boot is in an \<open>Admission\<close> that got it, every capability among those handed out.
\<close>

definition fresh_token :: "string \<Rightarrow> pin_world \<Rightarrow> bool" where
  "fresh_token t w \<longleftrightarrow> t \<noteq> [] \<and> t \<notin> ad_token ` set (pw_turns w)"

definition fresh_capability :: "string \<Rightarrow> pin_world \<Rightarrow> bool" where
  "fresh_capability c w \<longleftrightarrow> c \<noteq> [] \<and> c \<notin> snd ` set (pw_handed w)"

fun drawn_fresh :: "pin_event \<Rightarrow> pin_world \<Rightarrow> bool" where
  "drawn_fresh (Turn cap local token tick wall) w = fresh_token token w"
| "drawn_fresh (Write cap local token tick wall) w = fresh_token token w"
| "drawn_fresh (Late_turn token tick wall) w = fresh_token token w"
| "drawn_fresh (Acquire run state start now later wall cap) w = fresh_capability cap w"
| "drawn_fresh (Wake i now later wall cap) w = fresh_capability cap w"
| "drawn_fresh _ w = True"

text \<open>The traces of the fence: the events since boot, the latest last, and the world they lead to.\<close>

inductive pin_trace :: "pin_event list \<Rightarrow> pin_world \<Rightarrow> bool" where
  at_boot: "pin_trace [] (boot f)"
| snoc: "pin_trace es w \<Longrightarrow> drawn_fresh e w \<Longrightarrow> pin_trace (es @ [e]) (pin_apply e w)"

inductive_cases pin_trace_snocE: "pin_trace (es @ [e]) w"

text \<open>An admission in flight: neither refused, nor the council's own, nor released.\<close>

definition in_flight :: "admission \<Rightarrow> bool" where
  "in_flight a \<longleftrightarrow> ad_refusal a = None \<and> \<not> ad_seat a \<and> \<not> ad_released a"

end
