(* ===== verification/Council_Pin_Fence.thy ===== *)
theory Council_Pin_Fence
  imports Council_Pin
begin

text \<open>
  The fence of \<open>Council_Pin\<close> kept: the invariant of its traces (the admissions counted are exactly
  the ones in flight, at most one council is taking the pin, the owner holds the capability handed
  out last), and what it gives. An owner shares the pin with nobody, only the capability of the
  current ownership passes, a drain ends, and nothing served depends on the capability.
\<close>

section \<open>The invariant\<close>

definition flying :: "pin_world \<Rightarrow> string list" where
  "flying w = map ad_token (filter in_flight (pw_turns w))"

definition turn_ok :: "admission \<Rightarrow> bool" where
  "turn_ok a \<longleftrightarrow> (ad_token a \<noteq> [] \<longleftrightarrow> ad_refusal a = None \<and> \<not> ad_seat a)"

definition counted_ok :: "pin_world \<Rightarrow> bool" where
  "counted_ok w \<longleftrightarrow> dict_keys (fence_admissions (pw_fence w)) = flying w \<and> distinct (flying w) \<and>
     list_all turn_ok (pw_turns w)"

definition taking_ok :: "pin_world \<Rightarrow> bool" where
  "taking_ok w \<longleftrightarrow> (case pw_drains w of [] \<Rightarrow> fence_pending (pw_fence w) = []
     | d # ds \<Rightarrow> ds = [] \<and> dr_run d \<noteq> [] \<and> fence_pending (pw_fence w) = dr_run d \<and> fence_owner (pw_fence w) = None)"

definition owning_ok :: "pin_world \<Rightarrow> bool" where
  "owning_ok w \<longleftrightarrow> distinct (map snd (pw_handed w)) \<and> [] \<notin> snd ` set (pw_handed w) \<and>
     (\<forall>p. fence_owner (pw_fence w) = Some p \<longrightarrow> fence_admissions (pw_fence w) = [] \<and>
        pw_handed w \<noteq> [] \<and> last (pw_handed w) = (owner_run p, owner_capability p))"

definition fence_ok :: "pin_world \<Rightarrow> bool" where
  "fence_ok w \<longleftrightarrow> counted_ok w \<and> taking_ok w \<and> owning_ok w"

text \<open>What each part reads: a step that keeps it keeps the part.\<close>

lemma taking_ok_frame:
  "taking_ok w \<Longrightarrow> pw_drains w' = pw_drains w \<Longrightarrow> fence_owner (pw_fence w') = fence_owner (pw_fence w)
     \<Longrightarrow> fence_pending (pw_fence w') = fence_pending (pw_fence w) \<Longrightarrow> taking_ok w'"
  by (cases "pw_drains w") (simp_all add: taking_ok_def)

lemma owning_ok_frame:
  "owning_ok w \<Longrightarrow> pw_handed w' = pw_handed w \<Longrightarrow> fence_owner (pw_fence w') = fence_owner (pw_fence w)
     \<Longrightarrow> (fence_admissions (pw_fence w) = [] \<Longrightarrow> fence_admissions (pw_fence w') = []) \<Longrightarrow> owning_ok w'"
  by (simp add: owning_ok_def)

lemma counted_ok_frame:
  "counted_ok w \<Longrightarrow> pw_turns w' = pw_turns w
     \<Longrightarrow> fence_admissions (pw_fence w') = fence_admissions (pw_fence w) \<Longrightarrow> counted_ok w'"
  by (simp add: counted_ok_def flying_def)

lemma boot_ok: "fence_ok (boot f)"
  by (simp add: fence_ok_def counted_ok_def taking_ok_def owning_ok_def flying_def boot_def reset_on_startup_def)

lemma flying_tokens: "set (flying w) \<subseteq> ad_token ` set (pw_turns w)"
  by (auto simp: flying_def)

subsection \<open>The doors\<close>

lemma seat_in_flight [simp]: "\<not> in_flight seat_admission" "turn_ok seat_admission"
  by (simp_all add: in_flight_def seat_admission_def turn_ok_def)

lemma unadmitted_ok:
  assumes "fence_ok w" "\<not> in_flight a" "turn_ok a"
  shows "fence_ok (admitted (pw_fence w, a) w)"
proof -
  from assms have "counted_ok (admitted (pw_fence w, a) w)"
    by (simp add: fence_ok_def counted_ok_def flying_def admitted_def)
  then show ?thesis using assms(1)
    by (auto simp: fence_ok_def admitted_def elim: taking_ok_frame owning_ok_frame)
qed

lemma seat_ok: "fence_ok w \<Longrightarrow> fence_ok (admitted (pw_fence w, seat_admission) w)"
  by (rule unadmitted_ok) simp_all

lemma admit_ok:
  assumes "fence_ok w" "fresh_token t w"
  shows "fence_ok (admitted (admit t tick wall (pw_fence w)) w)"
proof (cases "owned_or_pending (pw_fence w)")
  case True
  then show ?thesis using unadmitted_ok [OF assms(1)]
    by (simp add: admit_def in_flight_def turn_ok_def)
next
  case False
  from assms(1) have c: "counted_ok w" by (simp add: fence_ok_def)
  from assms(2) have new: "t \<noteq> []" "t \<notin> set (flying w)"
    using flying_tokens [of w] by (auto simp: fresh_token_def)
  with c have "dict_get (fence_admissions (pw_fence w)) t = None"
    by (simp add: counted_ok_def dict_get_None_iff)
  with c new False have "counted_ok (admitted (admit t tick wall (pw_fence w)) w)"
    by (simp add: counted_ok_def admitted_def admit_def dict_set_append flying_def in_flight_def turn_ok_def)
  moreover have "taking_ok (admitted (admit t tick wall (pw_fence w)) w)"
    by (rule taking_ok_frame [of w]) (use assms(1) False in \<open>simp_all add: fence_ok_def admitted_def admit_def\<close>)
  moreover have "owning_ok (admitted (admit t tick wall (pw_fence w)) w)"
    using assms(1) False by (simp add: fence_ok_def owning_ok_def admitted_def admit_def owned_or_pending_def)
  ultimately show ?thesis by (simp add: fence_ok_def)
qed

lemma turn_admitted_ok:
  assumes "fence_ok w"
  shows "fresh_token t w \<Longrightarrow> fence_ok (pin_apply (Turn cap local t tick wall) w)"
    and "fresh_token t w \<Longrightarrow> fence_ok (pin_apply (Write cap local t tick wall) w)"
    and "fresh_token t w \<Longrightarrow> fence_ok (pin_apply (Late_turn t tick wall) w)"
  using assms by (simp_all add: admit_chat_turn_def admit_model_write_def admit_ok seat_ok)

text \<open>Taking one element out of a list by making it fail the filter.\<close>

lemma filter_update_out:
  assumes "i < length xs" "P (xs ! i)" "\<not> P a" "distinct (map g (filter P xs))"
  shows "map g (filter P (xs[i := a])) = removeAll (g (xs ! i)) (map g (filter P xs))"
  using assms
proof (induction xs arbitrary: i)
  case (Cons x xs)
  show ?case
  proof (cases i)
    case 0
    with Cons.prems have "g x \<notin> set (map g (filter P xs))" by simp
    then have "removeAll (g x) (map g (filter P xs)) = map g (filter P xs)" by (rule removeAll_id)
    with 0 Cons.prems show ?thesis by simp
  next
    case (Suc j)
    with Cons.prems have j: "j < length xs" "P (xs ! j)" "distinct (map g (filter P xs))"
      by (simp_all split: if_splits)
    from j have "xs ! j \<in> set (filter P xs)" by simp
    with Suc Cons.prems have "P x \<Longrightarrow> g x \<noteq> g (xs ! j)" by auto
    with Suc Cons.IH [OF j(1,2) Cons.prems(3) j(3)] show ?thesis by auto
  qed
qed simp

lemma filter_update_same:
  assumes "i < length xs" "\<not> P (xs ! i)" "\<not> P a"
  shows "filter P (xs[i := a]) = filter P xs"
  using assms by (induction xs arbitrary: i) (auto split: nat.split)

lemma dict_keys_pop: "dict_keys (dict_pop k d) = removeAll k (dict_keys d)"
  by (induction d) auto

lemma finish_counted:
  assumes "counted_ok w" "i < length (pw_turns w)"
    and "release_admission (pw_turns w ! i) (pw_fence w) = (f, a)"
  shows "counted_ok (w\<lparr>pw_fence := f, pw_turns := (pw_turns w)[i := a]\<rparr>)"
proof -
  let ?b = "pw_turns w ! i"
  from assms(1,2) have b: "turn_ok ?b" by (simp add: counted_ok_def list_all_length)
  from b assms(3) have a: "\<not> in_flight a" "turn_ok a"
    by (auto simp: release_admission_def in_flight_def turn_ok_def Let_def split: if_splits)
  from a(2) assms(1) have all: "list_all turn_ok ((pw_turns w)[i := a])"
    by (auto simp: counted_ok_def list_all_iff dest: set_update_subset_insert [THEN subsetD])
  show ?thesis
  proof (cases "in_flight ?b")
    case True
    with b have "ad_token ?b \<noteq> []" by (simp add: in_flight_def turn_ok_def)
    with True assms(3) have f: "fence_admissions f = dict_pop (ad_token ?b) (fence_admissions (pw_fence w))"
      by (auto simp: release_admission_def in_flight_def Let_def split: if_splits)
    have "map ad_token (filter in_flight ((pw_turns w)[i := a])) = removeAll (ad_token ?b) (flying w)"
      unfolding flying_def using assms(1,2) True a(1)
      by (intro filter_update_out) (simp_all add: counted_ok_def flying_def)
    with f assms(1) all show ?thesis
      by (simp add: counted_ok_def flying_def dict_keys_pop distinct_removeAll)
  next
    case False
    with assms(3) b have "f = pw_fence w"
      by (auto simp: release_admission_def in_flight_def turn_ok_def Let_def split: if_splits)
    with False a(1) assms(1,2) all show ?thesis
      by (simp add: counted_ok_def flying_def filter_update_same)
  qed
qed

lemma release_admission_fence:
  "release_admission a f = (f', b) \<Longrightarrow> fence_owner f' = fence_owner f \<and> fence_pending f' = fence_pending f \<and>
     (fence_admissions f = [] \<longrightarrow> fence_admissions f' = [])"
  by (auto simp: release_admission_def Let_def split: if_splits)

lemma finish_ok:
  assumes "fence_ok w" shows "fence_ok (pin_apply (Finish i) w)"
proof (cases "i < length (pw_turns w)")
  case True
  obtain f a where r: "release_admission (pw_turns w ! i) (pw_fence w) = (f, a)" by fastforce
  let ?w = "w\<lparr>pw_fence := f, pw_turns := (pw_turns w)[i := a]\<rparr>"
  note fr = release_admission_fence [OF r]
  have "counted_ok ?w" using assms True r by (simp add: fence_ok_def finish_counted)
  moreover have "taking_ok ?w" by (rule taking_ok_frame [of w]) (use assms fr in \<open>simp_all add: fence_ok_def\<close>)
  moreover have "owning_ok ?w" by (rule owning_ok_frame [of w]) (use assms fr in \<open>simp_all add: fence_ok_def\<close>)
  ultimately show ?thesis using True r by (simp add: fence_ok_def)
qed (use assms in simp)

subsection \<open>Taking the pin\<close>

text \<open>
  A pass of the loop, by the council that is marked as taking the pin while nobody owns it. Its
  three ends: it waits and the fence is as it was; it gives up, or it owns, and the mark is gone.
\<close>

lemma acquire_pass_cases:
  obtains (waiting) t where "live_admissions f \<noteq> 0" "0 < deadline - now" "t = deadline - now"
      "acquire_pass clean state deadline now later wall cap f = (f, Keep_waiting t)"
  | (failed) b where "live_admissions f \<noteq> 0" "deadline \<le> now"
      "acquire_pass clean state deadline now later wall cap f = (f\<lparr>fence_pending := []\<rparr>, Drain_failed b)"
  | (pinned) p where "live_admissions f = 0" "owner_run p = clean" "owner_capability p = cap"
      "acquire_pass clean state deadline now later wall cap f
         = (f\<lparr>fence_owner := Some p, fence_pending := []\<rparr>, Pinned cap)"
proof (cases "live_admissions f = 0")
  case True
  then show ?thesis by (intro pinned) (auto simp: acquire_pass_def)
next
  case False
  then show ?thesis
    by (cases "deadline \<le> now") (auto simp: acquire_pass_def Let_def intro: waiting failed)
qed

lemma no_live_admissions: "live_admissions f = 0 \<longleftrightarrow> fence_admissions f = []"
  by (simp add: live_admissions_def)

lemma apply_pass_ok:
  assumes "counted_ok w" "distinct (map snd (pw_handed w))" "[] \<notin> snd ` set (pw_handed w)"
    and "pw_drains w = []" "fence_owner (pw_fence w) = None"
    and "fence_pending (pw_fence w) = dr_run d" "dr_run d \<noteq> []" "fresh_capability cap w"
  shows "fence_ok (apply_pass d (acquire_pass (dr_run d) state deadline now later wall cap (pw_fence w)) w)"
proof (cases rule: acquire_pass_cases [of "pw_fence w" deadline now "dr_run d" state later wall cap])
  case (waiting t)
  have "counted_ok (apply_pass d (pw_fence w, Keep_waiting t) w)"
    by (rule counted_ok_frame [OF assms(1)]) simp_all
  with waiting assms show ?thesis by (simp add: fence_ok_def taking_ok_def owning_ok_def)
next
  case (failed b)
  have "counted_ok (apply_pass d (pw_fence w\<lparr>fence_pending := []\<rparr>, Drain_failed b) w)"
    by (rule counted_ok_frame [OF assms(1)]) simp_all
  with failed assms show ?thesis by (simp add: fence_ok_def taking_ok_def owning_ok_def)
next
  case (pinned p)
  have "counted_ok (apply_pass d (pw_fence w\<lparr>fence_owner := Some p, fence_pending := []\<rparr>, Pinned cap) w)"
    by (rule counted_ok_frame [OF assms(1)]) simp_all
  with pinned assms show ?thesis
    by (auto simp: fence_ok_def taking_ok_def owning_ok_def fresh_capability_def no_live_admissions)
qed

text \<open>The entry of \<open>acquire\<close>: refused at a guard, or a pass under the mark.\<close>

lemma acquire_enter_cases:
  obtains (refused) b where "acquire_enter run state start now later wall cap f = (f, Inl b)"
  | (entered) f' r where "clean_run run \<noteq> []" "fence_owner f = None" "fence_pending f = []"
      "acquire_pass (clean_run run) state (start + drain_timeout) now later wall cap
         (f\<lparr>fence_pending := clean_run run\<rparr>) = (f', r)"
      "acquire_enter run state start now later wall cap f = (f', Inr (clean_run run, start + drain_timeout, r))"
proof (cases "clean_run run = [] \<or> fence_owner f \<noteq> None \<or> fence_pending f \<noteq> []")
  case True
  then have "\<exists>b. acquire_enter run state start now later wall cap f = (f, Inl b)"
    by (auto simp: acquire_enter_def Let_def split: option.splits)
  with refused show ?thesis by blast
next
  case False
  then show ?thesis
    by (intro entered) (auto simp: acquire_enter_def Let_def intro: prod.collapse [symmetric] split: prod.splits)
qed

lemma apply_pass_fence:
  "apply_pass d r (w\<lparr>pw_fence := f\<rparr>) = apply_pass d r w"
  by (cases "(d, r, w)" rule: apply_pass.cases) simp_all

lemma acquire_ok:
  assumes "fence_ok w" "fresh_capability cap w"
  shows "fence_ok (pin_apply (Acquire run state start now later wall cap) w)"
proof (cases rule: acquire_enter_cases [of run state start now later wall cap "pw_fence w"])
  case (refused b)
  with assms(1) show ?thesis by simp
next
  case (entered f' r)
  let ?d = "\<lparr>dr_run = clean_run run, dr_state = state, dr_deadline = start + drain_timeout\<rparr>"
  let ?w = "w\<lparr>pw_fence := pw_fence w\<lparr>fence_pending := clean_run run\<rparr>\<rparr>"
  have "pw_drains w = []"
    using assms(1) entered(1,3) by (auto simp: fence_ok_def taking_ok_def split: list.splits)
  then have "fence_ok (apply_pass ?d (f', r) ?w)"
    using apply_pass_ok [of ?w ?d cap state "start + drain_timeout" now later wall] assms entered
    by (simp add: fence_ok_def owning_ok_def fresh_capability_def counted_ok_def flying_def)
  then show ?thesis using entered by (simp add: apply_pass_fence)
qed

lemma taking_index: "taking_ok w \<Longrightarrow> i < length (pw_drains w) \<Longrightarrow> i = 0 \<and> (\<exists>d. pw_drains w = [d])"
  by (auto simp: taking_ok_def split: list.splits)

lemma wake_ok:
  assumes "fence_ok w" "fresh_capability cap w"
  shows "fence_ok (pin_apply (Wake i now later wall cap) w)"
proof (cases "i < length (pw_drains w)")
  case True
  with assms(1) obtain d where d: "i = 0" "pw_drains w = [d]"
    using taking_index by (auto simp: fence_ok_def)
  let ?w = "w\<lparr>pw_drains := []\<rparr>"
  have "fence_ok (apply_pass d (acquire_pass (dr_run d) (dr_state d) (dr_deadline d) now later wall cap (pw_fence ?w)) ?w)"
    by (rule apply_pass_ok)
      (use assms d in \<open>simp_all add: fence_ok_def taking_ok_def owning_ok_def fresh_capability_def counted_ok_def flying_def\<close>)
  with d show ?thesis by (simp add: drop_nth_def Let_def)
qed (use assms in simp)

subsection \<open>Noting and handing back\<close>

lemma note_ok: "fence_ok w \<Longrightarrow> fence_ok (pin_apply (Note run state) w)"
  by (auto simp: fence_ok_def counted_ok_def taking_ok_def owning_ok_def flying_def note_state_def
      split: option.splits list.splits)

lemma hand_back_ok: "fence_ok w \<Longrightarrow> fence_ok (pin_apply (Hand_back run) w)"
  by (auto simp: fence_ok_def counted_ok_def taking_ok_def owning_ok_def flying_def release_pin_def
      split: option.splits list.splits)

lemmas pin_steps_ok = turn_admitted_ok finish_ok acquire_ok wake_ok
  note_ok hand_back_ok

interpretation fence: lawful_system pin_apply drawn_fresh fence_ok
proof
  fix w e
  assume "fence_ok w" "drawn_fresh e w"
  then show "fence_ok (pin_apply e w)"
    by (cases e) (simp_all add: pin_steps_ok del: pin_apply.simps)
qed

text \<open>A trace is a lawful run from some boot.\<close>

lemma trace_run: "pin_trace es w \<Longrightarrow> \<exists>f. fence.lawful_run es (boot f) \<and> w = fold pin_apply es (boot f)"
  by (induction rule: pin_trace.induct) (auto simp: fence.lawful_run_append intro: exI [of _ "f" for f])

lemma run_trace: "fence.lawful_run es (boot f) \<Longrightarrow> pin_trace es (fold pin_apply es (boot f))"
proof (induction es rule: rev_induct)
  case (snoc e es)
  then show ?case by (auto simp: fence.lawful_run_append intro: pin_trace.snoc)
qed (simp add: at_boot)

lemma trace_ok: "pin_trace es w \<Longrightarrow> fence_ok w"
  using trace_run fence.run_good boot_ok by blast

section \<open>What the fence promises\<close>

subsection \<open>While a council waits\<close>

lemma admit_admissions: "owned_or_pending f \<Longrightarrow> fst (admit t tick wall f) = f"
  by (simp add: admit_def)

lemma apply_pass_admissions:
  "fence_admissions (pw_fence (apply_pass d (acquire_pass c s dl now later wall cap f) w)) = fence_admissions f"
  by (cases rule: acquire_pass_cases [of f dl now c s later wall cap]) simp_all

text \<open>No step adds an admission while a council is taking the pin.\<close>

lemma taking_never_admits:
  assumes "fence_ok w" "fence_pending (pw_fence w) \<noteq> []"
  shows "live_admissions (pw_fence (pin_apply e w)) \<le> live_admissions (pw_fence w)"
proof -
  have p: "owned_or_pending (pw_fence w)" using assms(2) by (simp add: owned_or_pending_def)
  show ?thesis
  proof (cases e)
    case (Finish i)
    have "live_admissions (fst (release_admission a f)) \<le> live_admissions f" for a f
      by (simp add: release_admission_def live_admissions_def Let_def length_delete_le)
    then show ?thesis by (simp add: Finish split: prod.split) (metis fst_conv)
  next
    case (Acquire r s st n l wl c)
    show ?thesis using assms(2) unfolding Acquire
      by (cases rule: acquire_enter_cases [of r s st n l wl c "pw_fence w"]) simp_all
  qed (simp_all add: p admitted_def admit_chat_turn_def admit_model_write_def admit_admissions
        note_state_def release_pin_def live_admissions_def apply_pass_admissions Let_def split: option.split)
qed

text \<open>Once every object is released nobody is counted.\<close>

lemma released_same: "ad_released a \<Longrightarrow> a\<lparr>ad_released := True\<rparr> = a"
  by (cases a) simp

lemma finish_turns: "pw_turns (pin_apply (Finish i) w) = (pw_turns w)[i := (pw_turns w ! i)\<lparr>ad_released := True\<rparr>]"
  by (cases "i < length (pw_turns w)") (auto simp: release_admission_def released_same list_update_beyond Let_def split: prod.split)

lemma finish_rest:
  "pw_drains (pin_apply (Finish i) w) = pw_drains w" "pw_handed (pin_apply (Finish i) w) = pw_handed w"
  by (simp_all split: prod.split)

lemma finish_upto:
  assumes "n \<le> length (pw_turns w)"
  defines "w' \<equiv> fold pin_apply (map Finish [0..<n]) w"
  shows "length (pw_turns w') = length (pw_turns w) \<and> (\<forall>i < n. ad_released (pw_turns w' ! i)) \<and>
     pw_drains w' = pw_drains w \<and> pw_handed w' = pw_handed w \<and> (fence_ok w \<longrightarrow> fence_ok w')"
  using assms(1) unfolding w'_def
proof (induction n)
  case (Suc n)
  then show ?case
    by (auto simp: finish_turns finish_rest finish_ok nth_list_update less_Suc_eq simp del: pin_apply.simps)
qed simp

lemma all_released_none_live:
  assumes "fence_ok w" "\<forall>i < length (pw_turns w). ad_released (pw_turns w ! i)"
  shows "fence_admissions (pw_fence w) = []"
proof -
  from assms(2) have "flying w = []" by (auto simp: flying_def in_flight_def filter_empty_conv in_set_conv_nth)
  with assms(1) show ?thesis by (simp add: fence_ok_def counted_ok_def)
qed

subsection \<open>The secret\<close>

text \<open>
  A world with the capabilities blacked out, and an event with the one it draws blacked out.
  \<open>outsiders es w\<close>: in the run \<open>es\<close> from \<open>w\<close> nobody presents the capability of the owner of the moment.
\<close>

definition veil_fence :: "fence \<Rightarrow> fence" where
  "veil_fence f = f\<lparr>fence_owner := map_option (\<lambda>p. p\<lparr>owner_capability := []\<rparr>) (fence_owner f)\<rparr>"

definition veil :: "pin_world \<Rightarrow> pin_world" where
  "veil w = w\<lparr>pw_fence := veil_fence (pw_fence w), pw_handed := map (\<lambda>(r, c). (r, [])) (pw_handed w)\<rparr>"

fun blind :: "pin_event \<Rightarrow> pin_event" where
  "blind (Acquire run state start now later wall cap) = Acquire run state start now later wall []"
| "blind (Wake i now later wall cap) = Wake i now later wall []"
| "blind e = e"

fun outsider :: "pin_event \<Rightarrow> pin_world \<Rightarrow> bool" where
  "outsider (Turn cap local token tick wall) w = (\<not> is_dispatch_capability cap local (pw_fence w))"
| "outsider (Write cap local token tick wall) w = (\<not> is_dispatch_capability cap local (pw_fence w))"
| "outsider _ w = True"

fun outsiders :: "pin_event list \<Rightarrow> pin_world \<Rightarrow> bool" where
  "outsiders [] w = True"
| "outsiders (e # es) w = (outsider e w \<and> outsiders es (pin_apply e w))"

lemma veil_fence_simps [simp]:
  "fence_pending (veil_fence f) = fence_pending f"
  "fence_admissions (veil_fence f) = fence_admissions f"
  "fence_owner (veil_fence f) = None \<longleftrightarrow> fence_owner f = None"
  "live_admissions (veil_fence f) = live_admissions f"
  "oldest_admission_age now (veil_fence f) = oldest_admission_age now f"
  "owned_or_pending (veil_fence f) = owned_or_pending f"
  "\<not> is_dispatch_capability cap local (veil_fence f)"
  by (auto simp: veil_fence_def live_admissions_def oldest_admission_age_def owned_or_pending_def
      is_dispatch_capability_def split: option.splits)

lemma veil_shown:
  "refusal wall (veil_fence f) = refusal wall f"
  "owner_snapshot wall (veil_fence f) = owner_snapshot wall f"
  "lock_payload wall (veil_fence f) = lock_payload wall f"
  by (auto simp: veil_fence_def refusal_def owner_snapshot_def lock_payload_def split: option.splits)

lemma veil_acquire_pass:
  "acquire_pass c s dl now later wall [] (veil_fence f)
     = (let (f', r) = acquire_pass c s dl now later wall cap f
        in (veil_fence f', case r of Pinned x \<Rightarrow> Pinned [] | _ \<Rightarrow> r))"
  by (auto simp: acquire_pass_def Let_def) (auto simp: veil_fence_def)

lemma veil_apply_pass:
  "veil (apply_pass d (f, r) w)
     = apply_pass d (veil_fence f, case r of Pinned x \<Rightarrow> Pinned [] | _ \<Rightarrow> r) (veil w)"
  by (cases r) (simp_all add: veil_def)

lemma veil_admit: "veil_fence (fst (admit t tick wall f)) = fst (admit t tick wall (veil_fence f))"
    "snd (admit t tick wall (veil_fence f)) = snd (admit t tick wall f)"
  by (simp_all add: admit_def veil_shown) (simp add: veil_fence_def)

lemma veil_pending: "veil_fence (f\<lparr>fence_pending := r\<rparr>) = (veil_fence f)\<lparr>fence_pending := r\<rparr>"
  by (simp add: veil_fence_def)

lemma veil_acquire_enter:
  "acquire_enter run s start now later wall [] (veil_fence f)
     = (let (f', r) = acquire_enter run s start now later wall cap f
        in (veil_fence f', case r of Inr (c, dl, Pinned x) \<Rightarrow> Inr (c, dl, Pinned []) | _ \<Rightarrow> r))"
proof (cases rule: acquire_enter_cases [of run s start now later wall cap f])
  case (refused b)
  then show ?thesis
    by (auto simp: acquire_enter_def Let_def veil_fence_def split: option.splits if_splits prod.splits)
next
  case (entered f' r)
  from entered(1-3) have "acquire_enter run s start now later wall [] (veil_fence f)
      = (let (g, q) = acquire_pass (clean_run run) s (start + drain_timeout) now later wall []
                        (veil_fence (f\<lparr>fence_pending := clean_run run\<rparr>))
         in (g, Inr (clean_run run, start + drain_timeout, q)))"
    by (simp add: acquire_enter_def Let_def veil_pending split: option.split)
      (metis option.distinct(1) veil_fence_simps(3))
  with entered(4,5) show ?thesis
    by (simp add: veil_acquire_pass [of _ _ _ _ _ _ _ cap] split: drain_pass.split)
qed

lemma veil_simps:
  "pw_fence (veil w) = veil_fence (pw_fence w)" "pw_drains (veil w) = pw_drains w"
  "veil (w\<lparr>pw_drains := ds\<rparr>) = (veil w)\<lparr>pw_drains := ds\<rparr>" "pw_turns (veil w) = pw_turns w"
  by (simp_all add: veil_def)

text \<open>One step of outsiders under the veil: only what a later comparison could read has changed.\<close>

lemma veil_step:
  assumes "outsider e w"
  shows "veil (pin_apply e w) = pin_apply (blind e) (veil w)"
proof (cases e)
  case (Finish i)
  obtain f a where r: "release_admission (pw_turns w ! i) (pw_fence w) = (f, a)" by fastforce
  then have "release_admission (pw_turns w ! i) (veil_fence (pw_fence w)) = (veil_fence f, a)"
    by (auto simp: release_admission_def Let_def veil_fence_def split: if_splits)
  with r show ?thesis by (simp add: Finish veil_def)
next
  case (Acquire r s st n l wl c)
  obtain f' q where q: "acquire_enter r s st n l wl c (pw_fence w) = (f', q)" by fastforce
  show ?thesis
    by (cases q)
      (auto simp: Acquire q veil_acquire_enter [of _ _ _ _ _ _ _ c] veil_apply_pass veil_def
        split: drain_pass.split)
next
  case (Wake i n l wl c)
  show ?thesis
    by (simp add: Wake veil_acquire_pass [of _ _ _ _ _ _ _ c] veil_apply_pass veil_simps Let_def
        split: prod.split)
next
  case (Note r s)
  have "note_state r s (veil_fence f) = veil_fence (note_state r s f)" for f
    by (cases "fence_owner f") (auto simp: note_state_def veil_fence_def)
  then show ?thesis by (simp add: Note veil_def)
next
  case (Hand_back r)
  have "fst (release_pin r (veil_fence f)) = veil_fence (fst (release_pin r f))" for f
    by (cases "fence_owner f") (auto simp: release_pin_def veil_fence_def)
  then show ?thesis by (simp add: Hand_back veil_def)
qed (use assms in \<open>simp_all add: veil_def admitted_def admit_chat_turn_def admit_model_write_def veil_admit\<close>)

lemma veil_run: "outsiders es w \<Longrightarrow> veil (fold pin_apply es w) = fold pin_apply (map blind es) (veil w)"
  by (induction es arbitrary: w) (simp_all add: veil_step)

section \<open>A demonstration\<close>

text \<open>
  A turn is admitted, a council arrives and waits, a second turn is refused, the first one ends, the
  council wakes and owns the pin, its seat passes, it hands the pin back and another council takes it.
\<close>

definition demo_fence :: fence where
  "demo_fence = \<lparr>fence_owner = None, fence_pending = [], fence_admissions = []\<rparr>"

definition demo_waiting :: "pin_event list" where
  "demo_waiting = [Turn [] True ''t1'' 0 0, Acquire ''run-a'' ''convened'' 1 1 1 1 ''c1'', Turn [] True ''t2'' 2 2]"

definition demo_owned :: "string \<Rightarrow> pin_event list" where
  "demo_owned c = demo_waiting @ [Finish 0, Wake 0 3 3 3 c, Turn [] True ''t3'' 4 4]"

definition demo_second :: "pin_event list" where
  "demo_second = demo_owned ''c1'' @ [Turn ''c1'' True ''t4'' 4 4, Hand_back ''run-a'', Acquire ''run-b'' [] 5 5 5 5 ''c2'']"

lemma demo_lawful:
  "fence.lawful_run demo_waiting (boot demo_fence)" "fence.lawful_run (demo_owned ''c1'') (boot demo_fence)"
  "fence.lawful_run demo_second (boot demo_fence)"
  by (simp_all only: demo_second_def demo_owned_def demo_waiting_def append.simps fence.lawful_run.simps) code_simp+

lemmas demo_traces = demo_lawful [THEN run_trace]

lemma demo_states:
  "fence_owner (pw_fence (fold pin_apply (demo_owned ''c1'') (boot demo_fence))) \<noteq> None"
  "pw_handed (fold pin_apply demo_second (boot demo_fence)) = [(''run-a'', ''c1''), (''run-b'', ''c2'')]"
  "length (pw_drains (fold pin_apply demo_waiting (boot demo_fence))) = 1"
  "fresh_capability ''c1'' (fold pin_apply demo_waiting (boot demo_fence))"
  "outsiders (demo_owned ''c1'') (boot demo_fence)" "outsiders (demo_owned ''c9'') (boot demo_fence)"
  by code_simp+

section \<open>Properties\<close>

text \<open>C25. After any sequence of turns, model writes, acquisitions, wakings, state notes and hand-backs
  since boot: while a council owns the machine's model pin no ordinary turn or write is in flight
  (each one admitted has been released, or is the council's own, or was refused) and nobody else is
  taking the pin; and while a council is taking it, exactly that one waits, nobody owns the pin, and
  the turns counted against it are exactly the ones in flight.
\<close>

theorem pin_never_over_a_turn:
  assumes "pin_trace es w"
  shows "(\<forall>p. fence_owner (pw_fence w) = Some p \<longrightarrow>
            (\<forall>a \<in> set (pw_turns w). \<not> in_flight a) \<and> fence_pending (pw_fence w) = [] \<and> pw_drains w = [])
     \<and> (fence_pending (pw_fence w) \<noteq> [] \<longrightarrow> fence_owner (pw_fence w) = None \<and>
            (\<exists>d. pw_drains w = [d] \<and> dr_run d = fence_pending (pw_fence w)) \<and>
            dict_keys (fence_admissions (pw_fence w)) = map ad_token (filter in_flight (pw_turns w)))"
  using trace_ok [OF assms]
  by (cases "pw_drains w")
    (auto simp: fence_ok_def counted_ok_def taking_ok_def owning_ok_def flying_def filter_empty_conv)

theorem pin_never_over_a_turn_witness:
  "let w = fold pin_apply (demo_owned ''c1'') (boot demo_fence) in
     fence_owner (pw_fence w) \<noteq> None \<and> (\<forall>a \<in> set (pw_turns w). \<not> in_flight a) \<and> length (pw_turns w) = 3"
proof -
  let ?w = "fold pin_apply (demo_owned ''c1'') (boot demo_fence)"
  have "\<forall>a \<in> set (pw_turns ?w). \<not> in_flight a"
    using pin_never_over_a_turn [OF demo_traces(2)] demo_states(1) by blast
  moreover have "length (pw_turns ?w) = 3" by code_simp
  ultimately show ?thesis using demo_states(1) by (simp add: Let_def)
qed

text \<open>C26. A caller passes as the council's own seat exactly when it calls from loopback while somebody
  owns the pin and presents the capability handed out last; every capability handed out before that
  one, to whatever run, is refused, so a capability dies with its ownership.
\<close>

theorem only_the_owner_passes:
  assumes "pin_trace es w"
  shows "(is_dispatch_capability cap local (pw_fence w) \<longleftrightarrow>
            local \<and> fence_owner (pw_fence w) \<noteq> None \<and> pw_handed w \<noteq> [] \<and> cap = snd (last (pw_handed w)))
     \<and> (cap \<in> snd ` set (butlast (pw_handed w)) \<longrightarrow> \<not> is_dispatch_capability cap local (pw_fence w))"
proof -
  have ok: "owning_ok w" using trace_ok [OF assms] by (simp add: fence_ok_def)
  have key: "is_dispatch_capability cap local (pw_fence w) \<longleftrightarrow>
      local \<and> fence_owner (pw_fence w) \<noteq> None \<and> pw_handed w \<noteq> [] \<and> cap = snd (last (pw_handed w))"
    using ok last_in_set [of "pw_handed w"]
    by (cases "fence_owner (pw_fence w)") (force simp: is_dispatch_capability_def owning_ok_def)+
  moreover have "cap \<noteq> snd (last (pw_handed w))" if "cap \<in> snd ` set (butlast (pw_handed w))"
  proof -
    from that have ne: "pw_handed w \<noteq> []" by auto
    then have "map snd (pw_handed w) = map snd (butlast (pw_handed w)) @ [snd (last (pw_handed w))]"
      by (metis append_butlast_last_id list.simps(8,9) map_append)
    with ok have "distinct (map snd (butlast (pw_handed w)) @ [snd (last (pw_handed w))])"
      by (simp add: owning_ok_def)
    then have "snd (last (pw_handed w)) \<notin> snd ` set (butlast (pw_handed w))" by simp
    with that show ?thesis by (metis (no_types))
  qed
  ultimately show ?thesis by blast
qed

theorem only_the_owner_passes_witness:
  "let f = pw_fence (fold pin_apply demo_second (boot demo_fence)) in
     \<not> is_dispatch_capability ''c1'' True f \<and> \<not> is_dispatch_capability ''c2'' False f
     \<and> is_dispatch_capability ''c2'' True f"
proof -
  have "is_dispatch_capability ''c2'' True (pw_fence (fold pin_apply demo_second (boot demo_fence)))"
    by code_simp
  then show ?thesis
    using only_the_owner_passes [OF demo_traces(3), of "''c1''" True]
      only_the_owner_passes [OF demo_traces(3), of "''c2''" False]
    by (simp add: Let_def demo_states(2))
qed

text \<open>C27. A council that waits for the pin is not made to wait by others and does not wait for ever: no
  step of anybody adds to the turns it waits for, a waking at or after its deadline ends its wait and
  reopens the doors if it failed, and once every admission has been released its next waking, at
  whatever time, makes it the owner under the capability it draws.
\<close>

theorem drain_ends:
  assumes "pin_trace es w" "i < length (pw_drains w)" "fresh_capability cap w"
  shows "live_admissions (pw_fence (pin_apply e w)) \<le> live_admissions (pw_fence w)
     \<and> (dr_deadline (pw_drains w ! i) \<le> now \<longrightarrow>
           pw_drains (pin_apply (Wake i now later wall cap) w) = [] \<and>
           fence_pending (pw_fence (pin_apply (Wake i now later wall cap) w)) = [])
     \<and> (\<exists>p. fence_owner (pw_fence (pin_apply (Wake i now later wall cap)
                 (fold pin_apply (map Finish [0..<length (pw_turns w)]) w))) = Some p \<and>
             owner_run p = dr_run (pw_drains w ! i) \<and> owner_capability p = cap)"
proof (intro conjI impI)
  have ok: "fence_ok w" by (rule trace_ok [OF assms(1)])
  then obtain d where d: "i = 0" "pw_drains w = [d]" "dr_run d \<noteq> []" "fence_pending (pw_fence w) = dr_run d"
    using assms(2) by (auto simp: fence_ok_def taking_ok_def split: list.splits)
  then show "live_admissions (pw_fence (pin_apply e w)) \<le> live_admissions (pw_fence w)"
    using taking_never_admits [OF ok] by simp
  {
    assume late: "dr_deadline (pw_drains w ! i) \<le> now"
    show "pw_drains (pin_apply (Wake i now later wall cap) w) = []"
      using d late by (cases rule: acquire_pass_cases [of "pw_fence w" "dr_deadline d" now "dr_run d" "dr_state d" later wall cap])
        (simp_all add: drop_nth_def)
    show "fence_pending (pw_fence (pin_apply (Wake i now later wall cap) w)) = []"
      using d late by (cases rule: acquire_pass_cases [of "pw_fence w" "dr_deadline d" now "dr_run d" "dr_state d" later wall cap])
        (simp_all add: drop_nth_def)
  }
  let ?w = "fold pin_apply (map Finish [0..<length (pw_turns w)]) w"
  have fin: "fence_ok ?w" "pw_drains ?w = pw_drains w"
      "\<forall>i < length (pw_turns ?w). ad_released (pw_turns ?w ! i)"
    using finish_upto [of "length (pw_turns w)" w] ok by auto
  then have "live_admissions (pw_fence ?w) = 0"
    using all_released_none_live by (simp add: no_live_admissions)
  then show "\<exists>p. fence_owner (pw_fence (pin_apply (Wake i now later wall cap) ?w)) = Some p \<and>
      owner_run p = dr_run (pw_drains w ! i) \<and> owner_capability p = cap"
    using d fin(2) by (simp add: acquire_pass_def)
qed

theorem drain_ends_witness:
  "let w = fold pin_apply demo_waiting (boot demo_fence) in
     \<exists>p. fence_owner (pw_fence (pin_apply (Wake 0 9 9 9 ''c1'')
            (fold pin_apply (map Finish [0..<length (pw_turns w)]) w))) = Some p \<and>
         owner_run p = dr_run (pw_drains w ! 0) \<and> owner_capability p = ''c1''"
  using drain_ends [OF demo_traces(1) _ demo_states(4), of 0 "Note [] []" 9 9 9] demo_states(3)
  by (simp add: Let_def del: pin_apply.simps)

text \<open>C28. Nothing the fence shows depends on the capability: in two runs since boot that differ only in
  the random capabilities drawn, and in which nobody presents the one in force, every caller gets the
  same admission or the same refusal, and the lock page, the snapshot and the refusal body read the
  same afterwards.
\<close>

theorem capability_never_shown:
  assumes "outsiders es (boot f)" "outsiders es' (boot f)" "map blind es = map blind es'"
  defines "w \<equiv> fold pin_apply es (boot f)" and "w' \<equiv> fold pin_apply es' (boot f)"
  shows "pw_turns w = pw_turns w' \<and> pw_drains w = pw_drains w' \<and>
     lock_payload wall (pw_fence w) = lock_payload wall (pw_fence w') \<and>
     owner_snapshot wall (pw_fence w) = owner_snapshot wall (pw_fence w') \<and>
     refusal wall (pw_fence w) = refusal wall (pw_fence w')"
proof -
  have "veil w = veil w'"
    using veil_run [OF assms(1)] veil_run [OF assms(2)] assms(3) by (simp add: w_def w'_def)
  then have "pw_turns w = pw_turns w'" "pw_drains w = pw_drains w'"
      "veil_fence (pw_fence w) = veil_fence (pw_fence w')"
    by (metis veil_simps(4), metis veil_simps(2), metis veil_simps(1))
  then show ?thesis by (metis veil_shown)
qed

theorem capability_never_shown_witness:
  "lock_payload 7 (pw_fence (fold pin_apply (demo_owned ''c1'') (boot demo_fence)))
     = lock_payload 7 (pw_fence (fold pin_apply (demo_owned ''c9'') (boot demo_fence)))"
proof -
  have "map blind (demo_owned ''c1'') = map blind (demo_owned ''c9'')" by code_simp
  from capability_never_shown [OF demo_states(5,6) this, of 7] show ?thesis by blast
qed

end
