(* ===== verification/Mode_Permissions.thy ===== *)
theory Mode_Permissions
  imports Vool_Prelude "HOL-Library.List_Lexorder" "HOL-Library.Char_ord"
begin

text \<open>
  The operating modes and the standing authorities of a chat (\<open>core/mode_permission_policy.py\<close>):
  the permission matrix, the mode a session is in, the bypass grants with their confirmations, and the
  internal scopes. \<open>Mode_Approvals\<close> adds the operator's approvals and the decision itself.

  \<^item> \<open>permission_store\<close> is the module's globals, in the memory of one process; the files that mirror
    pending approvals and timerless grants are left out, except for whether a write to them succeeds.
  \<^item> \<open>permission_env\<close> is what one call reads from outside: the clock, the random text it draws, the
    file system's answers about paths, and the chat's server-owned workspace.
  \<^item> An argument that the code passes through \<open>str(x or "")\<close> is a string, empty when absent.
\<close>

section \<open>Modes, actions and the matrix\<close>

datatype operating_mode = Manual | Review_edits | Plan | Auto | Bypass_permissions

datatype permission_action =
    Read_files | Create_files | Modify_files | Overwrite_existing_files | Delete_files | List_directories
  | Run_safe_commands | Run_side_effecting_commands | Install_dependencies | Use_network | Use_browser
  | Access_external_providers | Access_secrets | Change_provider_configuration | Git_commit | Git_push
  | Git_merge_rebase | Git_reset_clean | Deploy | Send_external_messages | Financial_action
  | Change_settings | Change_security_settings | Unknown_side_effect | Public_read_only_retrieval

datatype permission_effect = Allow | Require_approval | Deny

definition all_actions :: "permission_action list" where
  "all_actions = [Read_files, Create_files, Modify_files, Overwrite_existing_files, Delete_files, List_directories,
     Run_safe_commands, Run_side_effecting_commands, Install_dependencies, Use_network, Use_browser,
     Access_external_providers, Access_secrets, Change_provider_configuration, Git_commit, Git_push,
     Git_merge_rebase, Git_reset_clean, Deploy, Send_external_messages, Financial_action,
     Change_settings, Change_security_settings, Unknown_side_effect, Public_read_only_retrieval]"

fun action_value :: "permission_action \<Rightarrow> string" where
  "action_value Read_files = ''read_files''"
| "action_value Create_files = ''create_files''"
| "action_value Modify_files = ''modify_files''"
| "action_value Overwrite_existing_files = ''overwrite_existing_files''"
| "action_value Delete_files = ''delete_files''"
| "action_value List_directories = ''list_directories''"
| "action_value Run_safe_commands = ''run_safe_commands''"
| "action_value Run_side_effecting_commands = ''run_side_effecting_commands''"
| "action_value Install_dependencies = ''install_dependencies''"
| "action_value Use_network = ''use_network_access''"
| "action_value Use_browser = ''use_browser_or_web_retrieval''"
| "action_value Access_external_providers = ''access_external_providers''"
| "action_value Access_secrets = ''access_secrets''"
| "action_value Change_provider_configuration = ''change_provider_configuration''"
| "action_value Git_commit = ''git_commit''"
| "action_value Git_push = ''git_push''"
| "action_value Git_merge_rebase = ''git_merge_or_rebase''"
| "action_value Git_reset_clean = ''git_reset_or_clean''"
| "action_value Deploy = ''deployment''"
| "action_value Send_external_messages = ''external_messages''"
| "action_value Financial_action = ''financial_or_paid_actions''"
| "action_value Change_settings = ''change_settings''"
| "action_value Change_security_settings = ''change_security_settings''"
| "action_value Unknown_side_effect = ''unknown_side_effect''"
| "action_value Public_read_only_retrieval = ''public_read_only_retrieval''"

definition matrix_row :: "permission_action list \<Rightarrow> permission_action list \<Rightarrow> permission_action \<Rightarrow> permission_effect" where
  "matrix_row allow prompt a = (if a \<in> set allow then Allow else if a \<in> set prompt then Require_approval else Deny)"

definition basic_reads :: "permission_action list" where
  "basic_reads = [Read_files, List_directories, Run_safe_commands]"

definition manual_mode_reads :: "permission_action list" where
  "manual_mode_reads = basic_reads @ [Public_read_only_retrieval]"

text \<open>The difference of two sets of actions.\<close>

definition without :: "permission_action list \<Rightarrow> permission_action list \<Rightarrow> permission_action list" where
  "without xs ys = filter (\<lambda>a. a \<notin> set ys) xs"

fun mode_matrix :: "operating_mode \<Rightarrow> permission_action \<Rightarrow> permission_effect" where
  "mode_matrix Manual = matrix_row manual_mode_reads (without all_actions (manual_mode_reads @ [Access_secrets]))"
| "mode_matrix Review_edits = matrix_row manual_mode_reads (without all_actions (manual_mode_reads @ [Access_secrets]))"
| "mode_matrix Plan = matrix_row basic_reads []"
| "mode_matrix Auto = matrix_row
     (basic_reads @ [Create_files, Modify_files, Run_side_effecting_commands, Use_network, Use_browser,
                     Access_external_providers, Public_read_only_retrieval])
     [Delete_files, Overwrite_existing_files, Install_dependencies, Change_provider_configuration, Git_commit,
      Git_push, Git_merge_rebase, Git_reset_clean, Deploy, Send_external_messages, Financial_action, Change_settings]"
| "mode_matrix Bypass_permissions = matrix_row
     (without all_actions [Access_secrets, Financial_action, Change_security_settings, Unknown_side_effect])
     [Financial_action]"

definition internal_ceiling :: "permission_action list" where
  "internal_ceiling = [Access_secrets, Financial_action, Change_security_settings, Unknown_side_effect]"

definition project_scope_actions :: "permission_action list" where
  "project_scope_actions = [Read_files, List_directories, Run_safe_commands, Create_files, Modify_files,
     Overwrite_existing_files]"

definition write_actions :: "permission_action list" where
  "write_actions = [Create_files, Modify_files, Overwrite_existing_files]"

definition chat_workspace_actions :: "permission_action list" where
  "chat_workspace_actions = [Read_files, List_directories, Create_files, Modify_files]"

fun mode_value :: "operating_mode \<Rightarrow> string" where
  "mode_value Manual = ''manual''"
| "mode_value Review_edits = ''review_edits''"
| "mode_value Plan = ''plan''"
| "mode_value Auto = ''auto''"
| "mode_value Bypass_permissions = ''bypass_permissions''"

definition all_modes :: "operating_mode list" where
  "all_modes = [Manual, Review_edits, Plan, Auto, Bypass_permissions]"

definition legacy_mode_aliases :: "(string, operating_mode) dict" where
  "legacy_mode_aliases = [(''ask'', Manual), (''build'', Auto), (''bypass'', Bypass_permissions)]"

definition normalize_mode :: "bool \<Rightarrow> string \<Rightarrow> operating_mode option" where
  "normalize_mode allow_legacy value =
     (let n = map (\<lambda>c. if c = CHR ''-'' \<or> c = CHR '' '' then CHR ''_'' else c) (py_lower (py_strip value)) in
      case (if allow_legacy then dict_get legacy_mode_aliases n else None) of
        Some m \<Rightarrow> Some m
      | None \<Rightarrow> dict_get (map (\<lambda>m. (mode_value m, m)) all_modes) n)"

definition supported_mode_values :: "string list" where
  "supported_mode_values = map mode_value all_modes"

section \<open>The store\<close>

record mode_state =
  ms_session :: string
  ms_project :: string
  ms_turn :: string
  ms_mode :: operating_mode
  ms_revision :: nat
  ms_updated :: time
  ms_bypass :: string
  ms_not_durable :: bool

datatype bypass_scope = Task_scope | Session_scope | Project_scope

record bypass_grant =
  bg_token :: string
  bg_session :: string
  bg_project :: string
  bg_task :: string
  bg_scope :: bypass_scope
  bg_issued :: time
  bg_expires :: "time option"
  bg_until_off :: bool
  bg_root :: string
  bg_revoked :: bool

record bypass_request =
  br_session :: string
  br_project :: string
  br_task :: string
  br_scope :: string
  br_duration :: int
  br_until_off :: bool
  br_root :: string

record confirmation =
  cf_request :: bypass_request
  cf_minted :: time

record internal_scope =
  is_label :: string
  is_actions :: "permission_action list"
  is_session :: string
  is_task :: string
  is_intents :: "string list"
  is_root :: string
  is_issued :: time
  is_expires :: time

record permission_env =
  pe_now :: time
  pe_token :: string
  pe_durable :: bool
  pe_resolve :: "string \<Rightarrow> string \<Rightarrow> string option"
  pe_under :: "string \<Rightarrow> string \<Rightarrow> bool"
  pe_inside :: "string \<Rightarrow> string \<Rightarrow> bool"
  pe_real :: "string \<Rightarrow> string"
  pe_full :: "string \<Rightarrow> string option"
  pe_home :: string
  pe_protected :: "string list"
  pe_chat_root :: "string \<Rightarrow> string \<times> string"
  pe_project_root :: "string \<Rightarrow> string"
  pe_project_granted :: "string \<Rightarrow> bool"

text \<open>
  A tool call as the module's classifier leaves it: its intent, the actions it needs, the path texts
  among its arguments and the arguments themselves, the aliases bound, each value as its JSON text.
\<close>

record tool_call =
  tc_intent :: string
  tc_actions :: "permission_action list"
  tc_paths :: "string list"
  tc_arguments :: "(string, string) dict"

text \<open>
  The parts of a turn's context that the module reads; \<open>cx_denied\<close> are the actions whose project
  permission is \<open>False\<close>, \<open>cx_batch\<close> the further calls of the same reply.
\<close>

record call_context =
  cx_runtime_session :: string
  cx_session :: string
  cx_project :: string
  cx_trusted_project :: string
  cx_cancel_turn :: string
  cx_mode :: string
  cx_bypass :: string
  cx_approval_token :: string
  cx_internal_token :: string
  cx_workspace :: string
  cx_root :: string
  cx_denied :: "permission_action list"
  cx_batch :: "tool_call list"

record modes_store =
  st_modes :: "(string, mode_state) dict"
  st_bypass :: "(string, bypass_grant) dict"
  st_confirmations :: "(string, confirmation) dict"
  st_internal :: "(string, internal_scope) dict"
  st_chat_scopes :: "(string, string) dict"

datatype permission_error = Mode_invalid | Bypass_unconfirmed | Bypass_unproven string | Bypass_malformed string
  | Scope_invalid string | Root_confined | Store_not_durable

definition py_or :: "string \<Rightarrow> string \<Rightarrow> string" where
  "py_or a b = (if a = [] then b else a)"

definition call_session :: "call_context \<Rightarrow> string" where
  "call_session cx = py_strip (py_or (cx_runtime_session cx) (cx_session cx))"

definition trusted_write_root :: "call_context \<Rightarrow> string" where
  "trusted_write_root cx = py_strip (py_or (cx_workspace cx) (cx_root cx))"

text \<open>Why a root may not host a standing grant, as a yes or no.\<close>

definition root_confined :: "permission_env \<Rightarrow> string \<Rightarrow> bool" where
  "root_confined e wroot =
     (let r = py_strip wroot in
      if r = [] then True
      else case pe_full e r of
        None \<Rightarrow> True
      | Some p \<Rightarrow> p = ''/'' \<or> p = pe_home e \<or> list_ex (\<lambda>g. pe_inside e g p) (pe_protected e))"

section \<open>Bypass grants\<close>

definition confirmation_ttl :: time where
  "confirmation_ttl = 60"

definition clean_request :: "bypass_request \<Rightarrow> bypass_request" where
  "clean_request r = \<lparr>br_session = py_strip (br_session r), br_project = py_strip (br_project r),
     br_task = py_strip (br_task r), br_scope = py_lower (py_strip (py_or (br_scope r) ''task'')),
     br_duration = (if br_duration r = 0 then 900 else br_duration r), br_until_off = br_until_off r,
     br_root = py_strip (br_root r)\<rparr>"

definition request_bypass_confirmation ::
  "permission_env \<Rightarrow> bypass_request \<Rightarrow> 'a modes_store_scheme \<Rightarrow> 'a modes_store_scheme \<times> (permission_error + string)" where
  "request_bypass_confirmation e r s =
     (if br_session (clean_request r) = [] then (s, Inl (Bypass_malformed ''session_id is required''))
      else (let live = filter (\<lambda>(c, v). \<not> confirmation_ttl < pe_now e - cf_minted v) (st_confirmations s)
            in (s\<lparr>st_confirmations := dict_set (pe_token e)
                    \<lparr>cf_request = clean_request r, cf_minted = pe_now e\<rparr> live\<rparr>, Inr (pe_token e))))"

definition differing_binding :: "bypass_request \<Rightarrow> bypass_request \<Rightarrow> string option" where
  "differing_binding a b =
     (if br_session a \<noteq> br_session b then Some ''session_id''
      else if br_project a \<noteq> br_project b then Some ''project_id''
      else if br_task a \<noteq> br_task b then Some ''task_id''
      else if br_scope a \<noteq> br_scope b then Some ''scope''
      else if br_duration a \<noteq> br_duration b then Some ''duration_seconds''
      else if br_until_off a \<noteq> br_until_off b then Some ''until_off''
      else if br_root a \<noteq> br_root b then Some ''workspace_root'' else None)"

definition consume_bypass_confirmation ::
  "permission_env \<Rightarrow> string \<Rightarrow> bypass_request \<Rightarrow> 'a modes_store_scheme \<Rightarrow> 'a modes_store_scheme \<times> string option" where
  "consume_bypass_confirmation e cid r s =
     (let s' = s\<lparr>st_confirmations := dict_pop cid (st_confirmations s)\<rparr> in
      case dict_get (st_confirmations s) cid of
        None \<Rightarrow> (s', Some ''confirmation not found, already used, or expired'')
      | Some c \<Rightarrow>
          if confirmation_ttl < pe_now e - cf_minted c then (s', Some ''confirmation expired'')
          else (s', case differing_binding (cf_request c) (clean_request r) of
                      Some k \<Rightarrow> Some (''confirmation was minted for different '' @ k) | None \<Rightarrow> None))"

definition bypass_scope_of :: "string \<Rightarrow> bypass_scope option" where
  "bypass_scope_of t = dict_get [(''task'', Task_scope), (''session'', Session_scope), (''project'', Project_scope)] t"

definition bypass_refusal :: "permission_env \<Rightarrow> bypass_request \<Rightarrow> permission_error option" where
  "bypass_refusal e q =
     (if br_session q = [] then Some (Bypass_malformed ''session_id is required'')
      else case bypass_scope_of (br_scope q) of
        None \<Rightarrow> Some (Bypass_malformed ''scope must be task, session, or project'')
      | Some sc \<Rightarrow>
          if sc = Task_scope \<and> br_task q = [] then Some (Bypass_malformed ''task scope requires an active task id'')
          else if sc = Project_scope \<and> br_project q = [] then Some (Bypass_malformed ''project scope requires an active project'')
          else if br_until_off q then
            (if sc \<noteq> Session_scope then Some (Bypass_malformed ''an until-off bypass is chat-scoped only'')
             else if br_root q = [] then Some (Bypass_malformed ''an until-off bypass requires the chat's trusted workspace root'')
             else if root_confined e (br_root q) then Some Root_confined else None)
          else None)"

definition activate_bypass_grant ::
  "permission_env \<Rightarrow> string \<Rightarrow> bypass_request \<Rightarrow> 'a modes_store_scheme \<Rightarrow> 'a modes_store_scheme \<times> (permission_error + bypass_grant)" where
  "activate_bypass_grant e cid r s =
     (case consume_bypass_confirmation e cid r s of
        (s', Some why) \<Rightarrow> (s', Inl (Bypass_unproven why))
      | (s', None) \<Rightarrow>
          (let q = clean_request r in
           case bypass_refusal e q of
             Some err \<Rightarrow> (s', Inl err)
           | None \<Rightarrow>
               (let g = \<lparr>bg_token = pe_token e, bg_session = br_session q, bg_project = br_project q, bg_task = br_task q,
                         bg_scope = the (bypass_scope_of (br_scope q)), bg_issued = pe_now e,
                         bg_expires = (if br_until_off q then None
                                       else Some (pe_now e + of_int (max 60 (min (br_duration q) 86400)))),
                         bg_until_off = br_until_off q, bg_root = (if br_until_off q then br_root q else []),
                         bg_revoked = False\<rparr>
                in if br_until_off q \<and> \<not> pe_durable e then (s'\<lparr>st_bypass := dict_pop (pe_token e) (st_bypass s')\<rparr>, Inl Store_not_durable)
                   else (s'\<lparr>st_bypass := dict_set (pe_token e) g (st_bypass s')\<rparr>, Inr g))))"

definition validate_bypass_grant ::
  "permission_env \<Rightarrow> string \<Rightarrow> string \<Rightarrow> string \<Rightarrow> string \<Rightarrow> string \<Rightarrow> 'a modes_store_scheme \<Rightarrow> bypass_grant option" where
  "validate_bypass_grant e token session project task wroot s =
     (let t = py_strip token in
      if t = [] then None
      else case dict_get (st_bypass s) t of
        None \<Rightarrow> None
      | Some g \<Rightarrow>
          if bg_revoked g then None
          else if bg_until_off g then
            (let bound = py_strip (bg_root g); call = py_strip wroot; (auth, reason) = pe_chat_root e session in
             if bg_session g \<noteq> session then None
             else if bound = [] \<or> call = [] \<or> \<not> pe_inside e call bound then None
             else if reason \<noteq> ''project'' \<or> pe_real e auth \<noteq> pe_real e bound then None
             else Some g)
          else if (case bg_expires g of None \<Rightarrow> 0 | Some x \<Rightarrow> x) \<le> pe_now e then None
          else if bg_scope g \<in> {Task_scope, Session_scope} \<and> bg_session g \<noteq> session then None
          else if bg_scope g = Task_scope \<and> bg_task g \<noteq> task then None
          else if bg_scope g = Project_scope \<and> (py_strip project = [] \<or> bg_project g \<noteq> py_strip project) then None
          else Some g)"

definition current_chat_bypass_grant :: "permission_env \<Rightarrow> string \<Rightarrow> 'a modes_store_scheme \<Rightarrow> bypass_grant option" where
  "current_chat_bypass_grant e session s =
     (let (wroot, reason) = pe_chat_root e session;
          mine = filter (\<lambda>g. bg_scope g = Session_scope \<and> bg_session g = session) (map snd (st_bypass s));
          tries = filter (\<lambda>g. \<not> (bg_until_off g \<and> reason \<noteq> ''project'')) (rev mine)
      in foldr (\<lambda>g found. case validate_bypass_grant e (bg_token g) session [] [] wroot s of Some v \<Rightarrow> Some v | None \<Rightarrow> found)
           tries None)"

definition back_to_manual :: "permission_env \<Rightarrow> mode_state \<Rightarrow> mode_state" where
  "back_to_manual e m = m\<lparr>ms_mode := Manual, ms_revision := ms_revision m + 1, ms_bypass := [], ms_updated := pe_now e\<rparr>"

text \<open>The result says whether the grant existed; \<open>Store_not_durable\<close> is raised after the revocation.\<close>

definition revoke_bypass_grant ::
  "permission_env \<Rightarrow> string \<Rightarrow> 'a modes_store_scheme \<Rightarrow> 'a modes_store_scheme \<times> (permission_error + bool)" where
  "revoke_bypass_grant e token s =
     (let t = py_strip token in
      case dict_get (st_bypass s) t of
        None \<Rightarrow> (s, Inr False)
      | Some g \<Rightarrow>
          (s\<lparr>st_bypass := dict_set t (g\<lparr>bg_revoked := True\<rparr>) (st_bypass s),
             st_modes := map (\<lambda>(k, m). (k, if ms_bypass m = t then back_to_manual e m else m)) (st_modes s)\<rparr>,
           if bg_until_off g \<and> \<not> pe_durable e then Inl Store_not_durable else Inr True))"

definition revoke_session_bypass_grants ::
  "permission_env \<Rightarrow> string \<Rightarrow> 'a modes_store_scheme \<Rightarrow> 'a modes_store_scheme \<times> (permission_error + nat)" where
  "revoke_session_bypass_grants e session s =
     (let c = py_strip session; hit = (\<lambda>g. bg_session g \<noteq> [] \<and> bg_session g = c \<and> \<not> bg_revoked g);
          n = length (filter hit (map snd (st_bypass s))) in
      if c = [] then (s, Inr 0)
      else if n = 0 then (s, Inr 0)
      else (s\<lparr>st_bypass := map (\<lambda>(k, g). (k, if hit g then g\<lparr>bg_revoked := True\<rparr> else g)) (st_bypass s),
              st_modes := map (\<lambda>(k, m). (k, if k = c \<and> ms_bypass m \<noteq> [] then back_to_manual e m else m)) (st_modes s)\<rparr>,
            if list_ex (\<lambda>g. bg_session g = c \<and> bg_until_off g \<and> (bg_revoked g \<or> hit g)) (map snd (st_bypass s)) \<and> \<not> pe_durable e
            then Inl Store_not_durable else Inr n))"

section \<open>The mode of a session\<close>

definition state_of :: "'a modes_store_scheme \<Rightarrow> string \<Rightarrow> mode_state option" where
  "state_of s session = (if session = [] then None else dict_get (st_modes s) session)"

text \<open>The durable revocation inside \<open>set_active_mode\<close>: what leaving bypass does to the session's own grant.\<close>

definition retire_token :: "string \<Rightarrow> 'a modes_store_scheme \<Rightarrow> 'a modes_store_scheme" where
  "retire_token t s = (case dict_get (st_bypass s) t of None \<Rightarrow> s
     | Some g \<Rightarrow> s\<lparr>st_bypass := dict_set t (g\<lparr>bg_revoked := True\<rparr>) (st_bypass s)\<rparr>)"

definition set_active_mode ::
  "permission_env \<Rightarrow> string \<Rightarrow> string \<Rightarrow> string \<Rightarrow> string \<Rightarrow> string \<Rightarrow> string \<Rightarrow> 'a modes_store_scheme
     \<Rightarrow> 'a modes_store_scheme \<times> (permission_error + mode_state)" where
  "set_active_mode e session mode project turn token wroot s =
     (let c = py_strip session in
      case normalize_mode True mode of
        None \<Rightarrow> (s, Inl Mode_invalid)
      | Some m \<Rightarrow>
          if c = [] then (s, Inl Mode_invalid)
          else if m = Bypass_permissions \<and>
                  validate_bypass_grant e token c (py_strip project) (py_strip turn) (py_strip wroot) s = None
          then (s, Inl Bypass_unconfirmed)
          else (let prev = dict_get (st_modes s) c;
                    revision = (case prev of None \<Rightarrow> 0 | Some p \<Rightarrow> ms_revision p)
                               + (if map_option ms_mode prev = Some m then 0 else 1);
                    stale = (case prev of None \<Rightarrow> [] | Some p \<Rightarrow> py_strip (ms_bypass p));
                    retire = (m \<noteq> Bypass_permissions \<and> stale \<noteq> []);
                    lost = (retire \<and> (case dict_get (st_bypass s) stale of None \<Rightarrow> False | Some g \<Rightarrow> bg_until_off g)
                            \<and> \<not> pe_durable e);
                    s' = (if retire then retire_token stale s else s);
                    st = \<lparr>ms_session = c,
                          ms_project = py_strip (py_or project (case prev of None \<Rightarrow> [] | Some p \<Rightarrow> ms_project p)),
                          ms_turn = py_strip (py_or turn (case prev of None \<Rightarrow> [] | Some p \<Rightarrow> ms_turn p)),
                          ms_mode = m, ms_revision = revision, ms_updated = pe_now e,
                          ms_bypass = (if m = Bypass_permissions then py_strip token else []),
                          ms_not_durable = lost\<rparr>
                in (s'\<lparr>st_modes := dict_set c st (st_modes s')\<rparr>, Inr st)))"

definition active_mode_state :: "permission_env \<Rightarrow> call_context \<Rightarrow> 'a modes_store_scheme \<Rightarrow> mode_state" where
  "active_mode_state e cx s =
     (let c = call_session cx in
      case state_of s c of
        Some st \<Rightarrow>
          if ms_mode st = Bypass_permissions \<and>
             validate_bypass_grant e (ms_bypass st) c (py_or (cx_project cx) (ms_project st))
               (py_or (cx_cancel_turn cx) (ms_turn st)) (trusted_write_root cx) s = None
          then st\<lparr>ms_mode := Manual\<rparr> else st
      | None \<Rightarrow>
          (let named = (case normalize_mode True (cx_mode cx) of None \<Rightarrow> Manual | Some m \<Rightarrow> m);
               m = (if named = Bypass_permissions \<and>
                       validate_bypass_grant e (cx_bypass cx) c (cx_project cx) (cx_cancel_turn cx) (trusted_write_root cx) s = None
                    then Manual else named)
           in \<lparr>ms_session = c, ms_project = py_strip (cx_project cx), ms_turn = py_strip (cx_cancel_turn cx), ms_mode = m,
               ms_revision = 0, ms_updated = 0, ms_bypass = (if m = Bypass_permissions then py_strip (cx_bypass cx) else []),
               ms_not_durable = False\<rparr>))"

definition mode_policy_is_active :: "call_context \<Rightarrow> 'a modes_store_scheme \<Rightarrow> bool" where
  "mode_policy_is_active cx s \<longleftrightarrow> normalize_mode True (cx_mode cx) \<noteq> None \<or> state_of s (call_session cx) \<noteq> None"

definition effective_mode_state :: "permission_env \<Rightarrow> call_context \<Rightarrow> 'a modes_store_scheme \<Rightarrow> mode_state" where
  "effective_mode_state e cx s = active_mode_state e cx s"

text \<open>What \<open>resolve_effective_mode\<close> answers: the state, and what it refused.\<close>

datatype mode_answer = Mode_answer mode_state "string option" bool

definition bare_context :: "string \<Rightarrow> string \<Rightarrow> string \<Rightarrow> call_context" where
  "bare_context session project turn = \<lparr>cx_runtime_session = session, cx_session = [], cx_project = py_strip project,
     cx_trusted_project = [], cx_cancel_turn = py_strip turn, cx_mode = [], cx_bypass = [], cx_approval_token = [],
     cx_internal_token = [], cx_workspace = [], cx_root = [], cx_denied = [], cx_batch = []\<rparr>"

definition register_mode ::
  "permission_env \<Rightarrow> string \<Rightarrow> operating_mode option \<Rightarrow> string \<Rightarrow> string \<Rightarrow> string \<Rightarrow> string \<Rightarrow> 'a modes_store_scheme
     \<Rightarrow> 'a modes_store_scheme \<times> (permission_error + mode_state)" where
  "register_mode e c requested project turn token wroot s =
     (case requested of
        Some m \<Rightarrow> if c \<noteq> [] then set_active_mode e c (mode_value m) (py_strip project) (py_strip turn) token (py_strip wroot) s
                   else (s, Inr (active_mode_state e (bare_context c project turn) s))
      | None \<Rightarrow> if state_of s c \<noteq> None \<or> c = [] then (s, Inr (active_mode_state e (bare_context c project turn) s))
                else set_active_mode e c (mode_value Manual) (py_strip project) (py_strip turn) [] [] s)"

definition with_answer ::
  "string option \<Rightarrow> bool \<Rightarrow> 'a modes_store_scheme \<times> (permission_error + mode_state)
     \<Rightarrow> 'a modes_store_scheme \<times> (permission_error + mode_answer)" where
  "with_answer refused down r = (fst r, map_sum id (\<lambda>st. Mode_answer st refused down) (snd r))"

definition resolve_effective_mode ::
  "permission_env \<Rightarrow> string \<Rightarrow> string option \<Rightarrow> string \<Rightarrow> string \<Rightarrow> string \<Rightarrow> string \<Rightarrow> 'a modes_store_scheme
     \<Rightarrow> 'a modes_store_scheme \<times> (permission_error + mode_answer)" where
  "resolve_effective_mode e session requested project turn token wroot s =
     (let c = py_strip session;
          req = normalize_mode True (case requested of None \<Rightarrow> [] | Some r \<Rightarrow> r);
          raw = (case requested of None \<Rightarrow> [] | Some r \<Rightarrow> py_strip r)
      in if req = None \<and> raw \<noteq> [] then
           (let base = (case state_of s c of
                          Some st \<Rightarrow> st
                        | None \<Rightarrow> \<lparr>ms_session = c, ms_project = py_strip project, ms_turn = py_strip turn, ms_mode = Manual,
                                   ms_revision = 0, ms_updated = 0, ms_bypass = [], ms_not_durable = False\<rparr>)
            in (s, Inr (Mode_answer (base\<lparr>ms_session := c, ms_mode := Manual, ms_bypass := []\<rparr>) (Some (take 80 raw)) False)))
         else if req = Some Bypass_permissions \<and>
                 validate_bypass_grant e token c (py_strip project) (py_strip turn) (py_strip wroot) s = None
         then with_answer None True (register_mode e c (Some Manual) project turn [] [] s)
         else with_answer None False (register_mode e c req project turn token wroot s))"

section \<open>Internal scopes\<close>

definition grant_internal_authority ::
  "permission_env \<Rightarrow> string \<Rightarrow> permission_action list \<Rightarrow> int \<Rightarrow> string \<Rightarrow> string \<Rightarrow> string list \<Rightarrow> string \<Rightarrow> 'a modes_store_scheme
     \<Rightarrow> 'a modes_store_scheme \<times> (permission_error + string)" where
  "grant_internal_authority e label actions duration session task intents wroot s =
     (let granted = without (remdups actions) internal_ceiling;
          clean_intents = filter (\<lambda>i. i \<noteq> []) (map py_strip intents)
      in if py_strip label = [] then (s, Inl (Scope_invalid ''label''))
         else if granted = [] then (s, Inl (Scope_invalid ''actions''))
         else if \<not> (1 \<le> duration \<and> duration \<le> 86400) then (s, Inl (Scope_invalid ''duration_seconds''))
         else if py_strip session = [] \<and> py_strip task = [] \<and> clean_intents = [] \<and> py_strip wroot = []
         then (s, Inl (Scope_invalid ''binding''))
         else (s\<lparr>st_internal := dict_set (pe_token e)
                  \<lparr>is_label = py_strip label, is_actions = granted, is_session = py_strip session, is_task = py_strip task,
                   is_intents = clean_intents, is_root = py_strip wroot, is_issued = pe_now e,
                   is_expires = pe_now e + of_int duration\<rparr> (st_internal s)\<rparr>,
               Inr (pe_token e)))"

definition revoke_internal_authority :: "string \<Rightarrow> 'a modes_store_scheme \<Rightarrow> 'a modes_store_scheme \<times> bool" where
  "revoke_internal_authority token s =
     (s\<lparr>st_internal := dict_pop (py_strip token) (st_internal s)\<rparr>, dict_get (st_internal s) (py_strip token) \<noteq> None)"

definition grant_chat_workspace_authority ::
  "permission_env \<Rightarrow> string \<Rightarrow> string \<Rightarrow> int \<Rightarrow> 'a modes_store_scheme \<Rightarrow> 'a modes_store_scheme \<times> (permission_error + string)" where
  "grant_chat_workspace_authority e session wroot duration s =
     (let c = py_strip session; r = py_strip wroot in
      if c = [] then (s, Inl (Scope_invalid ''session_id''))
      else if r = [] then (s, Inl (Scope_invalid ''workspace_root''))
      else if root_confined e r then (s, Inl Root_confined)
      else (let bounded = max 60 (min (if duration = 0 then 28800 else duration) 86400) in
        case grant_internal_authority e ''chat workspace read/edit approval'' chat_workspace_actions bounded c [] [] r s of
          (s', Inl err) \<Rightarrow> (s', Inl err)
        | (s', Inr token) \<Rightarrow>
            (let s'' = (case dict_get (st_chat_scopes s') c of
                          Some p \<Rightarrow> if p \<noteq> [] \<and> p \<noteq> token then s'\<lparr>st_internal := dict_pop p (st_internal s')\<rparr> else s'
                        | None \<Rightarrow> s')
             in (s''\<lparr>st_chat_scopes := dict_set c token (st_chat_scopes s'')\<rparr>, Inr token))))"

definition revoke_chat_workspace_authority :: "string \<Rightarrow> 'a modes_store_scheme \<Rightarrow> 'a modes_store_scheme \<times> bool" where
  "revoke_chat_workspace_authority session s =
     (let c = py_strip session; s' = s\<lparr>st_chat_scopes := dict_pop c (st_chat_scopes s)\<rparr> in
      case dict_get (st_chat_scopes s) c of
        None \<Rightarrow> (s', False)
      | Some t \<Rightarrow> if t = [] then (s', False) else (s'\<lparr>st_internal := dict_pop t (st_internal s')\<rparr>, True))"

text \<open>\<open>_internal_authority_scope\<close>: the token of the context, or the chat's standing one; an expired scope is dropped.\<close>

definition scope_token :: "call_context \<Rightarrow> 'a modes_store_scheme \<Rightarrow> string" where
  "scope_token cx s =
     (let t = py_strip (cx_internal_token cx) in
      if t \<noteq> [] then t
      else case dict_get (st_chat_scopes s) (call_session cx) of None \<Rightarrow> [] | Some u \<Rightarrow> u)"

definition internal_scope_for ::
  "permission_env \<Rightarrow> string \<Rightarrow> 'a modes_store_scheme \<Rightarrow> 'a modes_store_scheme \<times> internal_scope option" where
  "internal_scope_for e token s =
     (if token = [] then (s, None)
      else case dict_get (st_internal s) token of
        None \<Rightarrow> (s, None)
      | Some sc \<Rightarrow> if is_expires sc \<noteq> 0 \<and> is_expires sc \<le> pe_now e
                   then (s\<lparr>st_internal := dict_pop token (st_internal s)\<rparr>, None) else (s, Some sc))"

definition chat_workspace_authority_state ::
  "permission_env \<Rightarrow> string \<Rightarrow> 'a modes_store_scheme \<Rightarrow> 'a modes_store_scheme \<times> internal_scope option" where
  "chat_workspace_authority_state e session s =
     (let c = py_strip session in
      case dict_get (st_chat_scopes s) c of
        None \<Rightarrow> (s, None)
      | Some t \<Rightarrow> if t = [] then (s, None)
                   else (case internal_scope_for e (py_strip t) s of
                           (s', Some sc) \<Rightarrow> (s', Some sc)
                         | (s', None) \<Rightarrow> (s'\<lparr>st_chat_scopes := dict_pop c (st_chat_scopes s')\<rparr>, None)))"

definition internal_scope_matches :: "permission_env \<Rightarrow> internal_scope \<Rightarrow> call_context \<Rightarrow> string \<Rightarrow> string \<Rightarrow> bool" where
  "internal_scope_matches e sc cx intent task \<longleftrightarrow>
     (let bs = py_strip (is_session sc); bt = py_strip (is_task sc); br = py_strip (is_root sc); cr = trusted_write_root cx in
      (bs = [] \<or> call_session cx = bs) \<and>
      (bt = [] \<or> py_strip task = bt) \<and>
      (is_intents sc = [] \<or> py_strip intent \<in> set (is_intents sc)) \<and>
      (br = [] \<or> cr \<noteq> [] \<and> pe_inside e cr br))"

end
