(* ===== verification/Mode_Approvals.thy ===== *)
theory Mode_Approvals
  imports Mode_Permissions
begin

text \<open>
  The operator's approvals and the permission decision (\<open>core/mode_permission_policy.py\<close>, second
  half): what identifies a call, the requests a decision raises, how an answer becomes a grant, how a
  grant is spent, and \<open>_decide_tool_call\<close> with its read-only twin.

  \<^item> A fingerprint is the payload that \<open>_fingerprint\<close> hashes, so two fingerprints agree only when the
    payloads do: collisions of SHA-256 are outside the model. The same for the content hash.
  \<^item> The texts of reasons, summaries and previews, and the rows of the routing ledger, are left out.
\<close>

section \<open>What identifies a call\<close>

datatype identity_rest = Content_hash "(string \<times> string option) list" | Arguments "(string, string) dict"

record call_identity =
  id_intent :: string
  id_effects :: "permission_action list"
  id_targets :: "string list"
  id_rest :: identity_rest

record fingerprint =
  fp_session :: string
  fp_task :: string
  fp_identity :: call_identity
  fp_revision :: nat

definition write_content_keys :: "(string, string list) dict" where
  "write_content_keys = [(''workspace.write_file'', [''content'']), (''machine.write_file'', [''content'']),
     (''workspace.replace_in_file'', [''old_text'', ''new_text'', ''replace_all'']),
     (''workspace.apply_unified_diff'', [''patch''])]"

definition write_content_payload :: "tool_call \<Rightarrow> (string \<times> string option) list" where
  "write_content_payload c =
     (case dict_get write_content_keys (py_lower (py_strip (tc_intent c))) of
        Some keys \<Rightarrow> map (\<lambda>k. (k, dict_get (tc_arguments c) k)) (sort keys)
      | None \<Rightarrow> map (\<lambda>(k, v). (k, Some v)) (sort_key fst (tc_arguments c)))"

definition resolved_targets :: "permission_env \<Rightarrow> call_context \<Rightarrow> tool_call \<Rightarrow> string list" where
  "resolved_targets e cx c =
     sort (remdups (map (\<lambda>raw. case pe_resolve e (trusted_write_root cx) raw of Some p \<Rightarrow> p | None \<Rightarrow> CHR ''?'' # raw)
                      (tc_paths c)))"

definition within_actions :: "permission_action list \<Rightarrow> permission_action list \<Rightarrow> bool" where
  "within_actions xs ys \<longleftrightarrow> xs \<noteq> [] \<and> set xs \<subseteq> set ys"

definition resolved_identity :: "permission_env \<Rightarrow> call_context \<Rightarrow> tool_call \<Rightarrow> call_identity" where
  "resolved_identity e cx c =
     (let targets = resolved_targets e cx c
      in \<lparr>id_intent = tc_intent c, id_effects = sort_key action_value (tc_actions c), id_targets = targets,
          id_rest = (if within_actions (tc_actions c) write_actions \<and> targets \<noteq> []
                     then Content_hash (write_content_payload c)
                     else Arguments (sort_key fst (tc_arguments c)))\<rparr>)"

definition call_fingerprint ::
  "permission_env \<Rightarrow> call_context \<Rightarrow> string \<Rightarrow> string \<Rightarrow> nat \<Rightarrow> tool_call \<Rightarrow> fingerprint" where
  "call_fingerprint e cx session task revision c =
     \<lparr>fp_session = session, fp_task = task, fp_identity = resolved_identity e cx c, fp_revision = revision\<rparr>"

section \<open>Approvals\<close>

datatype approval_status = Pending | Approved | Denied_by_operator | Consumed | Expired

datatype approval_scope = Once | Task_wide | Request_wide | Project_wide

record approval =
  ap_session :: "string option"
  ap_task :: string
  ap_intent :: string
  ap_fingerprint :: "fingerprint option"
  ap_revision :: nat
  ap_actions :: "permission_action list"
  ap_edit_batch :: bool
  ap_eligible :: bool
  ap_project :: string
  ap_batch :: "fingerprint list"
  ap_remaining :: "fingerprint list"
  ap_options :: "approval_scope list"
  ap_status :: approval_status
  ap_scope :: "approval_scope option"
  ap_expires :: time

record task_grant =
  tg_session :: "string option"
  tg_task :: string
  tg_intent :: string
  tg_actions :: "permission_action list"
  tg_revision :: nat
  tg_expires :: time
  tg_fingerprint :: "fingerprint option"

record permission_store = modes_store +
  st_approvals :: "(string, approval) dict"
  st_task_grants :: "task_grant list"
  st_projects :: "(string, bool) dict"

definition request_scope_intents :: "string list" where
  "request_scope_intents = [''workspace.ensure_directory'', ''workspace.write_file'', ''workspace.replace_in_file'',
     ''workspace.apply_unified_diff'']"

definition request_scope_eligible :: "permission_env \<Rightarrow> call_context \<Rightarrow> tool_call \<Rightarrow> bool" where
  "request_scope_eligible e cx c =
     (if py_lower (py_strip (tc_intent c)) \<notin> set request_scope_intents then False
      else if \<not> within_actions (tc_actions c) write_actions then False
      else if trusted_write_root cx = [] then False
      else case pe_resolve e [] (trusted_write_root cx) of
        None \<Rightarrow> False
      | Some w \<Rightarrow> tc_paths c \<noteq> [] \<and>
          list_all (\<lambda>raw. case pe_resolve e w raw of None \<Rightarrow> False | Some p \<Rightarrow> pe_under e w p) (tc_paths c))"

definition max_request_members :: nat where
  "max_request_members = 32"

text \<open>The fold over the planned calls: the fingerprints and calls covered, and the calls refused.\<close>

fun batch_members ::
  "(tool_call \<Rightarrow> fingerprint) \<Rightarrow> (tool_call \<Rightarrow> bool) \<Rightarrow> tool_call list
     \<Rightarrow> fingerprint list \<times> tool_call list \<times> tool_call list \<Rightarrow> fingerprint list \<times> tool_call list \<times> tool_call list" where
  "batch_members F P [] acc = acc"
| "batch_members F P (c # cs) (fps, covered, excluded) =
     (if py_strip (tc_intent c) = [] then batch_members F P cs (fps, covered, excluded)
      else if \<not> P c then batch_members F P cs (fps, covered, excluded @ [c])
      else if F c \<in> set fps then batch_members F P cs (fps, covered, excluded)
      else batch_members F P cs (fps @ [F c], covered @ [c], excluded))"

definition planned_edit_batch ::
  "permission_env \<Rightarrow> call_context \<Rightarrow> string \<Rightarrow> string \<Rightarrow> nat \<Rightarrow> tool_call
     \<Rightarrow> fingerprint list \<times> tool_call list \<times> tool_call list" where
  "planned_edit_batch e cx session task revision head =
     (if cx_batch cx = [] \<or> \<not> request_scope_eligible e cx head then ([], [], [])
      else (let (fps, covered, excluded) =
                  batch_members (call_fingerprint e cx session task revision) (request_scope_eligible e cx)
                    (map (\<lambda>c. c\<lparr>tc_intent := py_strip (tc_intent c)\<rparr>) (take max_request_members (cx_batch cx)))
                    ([call_fingerprint e cx session task revision head], [head], [])
            in if length fps < 2 then ([], [], []) else (fps, covered, excluded)))"

definition new_approval ::
  "permission_env \<Rightarrow> string \<Rightarrow> string \<Rightarrow> nat \<Rightarrow> tool_call \<Rightarrow> fingerprint \<Rightarrow> bool \<Rightarrow> string \<Rightarrow> fingerprint list \<Rightarrow> approval" where
  "new_approval e session task revision c fp eligible pid fps =
     (let edit = list_ex (\<lambda>a. a \<in> set write_actions) (tc_actions c)
      in \<lparr>ap_session = Some session, ap_task = task, ap_intent = tc_intent c, ap_fingerprint = Some fp,
          ap_revision = revision, ap_actions = tc_actions c, ap_edit_batch = edit,
          ap_eligible = (eligible \<and> pid \<noteq> []), ap_project = pid, ap_batch = fps, ap_remaining = [],
          ap_options = (if edit then [Once] else [Once, Task_wide]) @ (if 1 < length fps then [Request_wide] else [])
                       @ (if eligible \<and> pid \<noteq> [] then [Project_wide] else []),
          ap_status = Pending, ap_scope = None, ap_expires = pe_now e + 86400\<rparr>)"

text \<open>\<open>register_external_approval\<close>: the caller's fact sheet, with the token, status and expiry discipline on top.\<close>

definition register_external_approval ::
  "permission_env \<Rightarrow> approval \<Rightarrow> 'a permission_store_scheme \<Rightarrow> 'a permission_store_scheme \<times> string" where
  "register_external_approval e req s =
     (s\<lparr>st_approvals := dict_set (pe_token e)
          (req\<lparr>ap_status := Pending,
               ap_expires := (if ap_expires req = 0 then pe_now e + 86400 else ap_expires req)\<rparr>) (st_approvals s)\<rparr>,
      pe_token e)"

definition approval_is_pending :: "permission_env \<Rightarrow> string \<Rightarrow> 'a permission_store_scheme \<Rightarrow> bool" where
  "approval_is_pending e token s =
     (case dict_get (st_approvals s) token of None \<Rightarrow> False
      | Some a \<Rightarrow> ap_status a = Pending \<and> pe_now e < ap_expires a)"

definition session_text :: "approval \<Rightarrow> string" where
  "session_text a = (case ap_session a of None \<Rightarrow> [] | Some x \<Rightarrow> x)"

definition pending_approval_record ::
  "permission_env \<Rightarrow> string \<Rightarrow> string \<Rightarrow> bool \<Rightarrow> 'a permission_store_scheme \<Rightarrow> approval option" where
  "pending_approval_record e session aid include_approved s =
     (if py_strip session = [] \<or> py_strip aid = [] then None
      else case dict_get (st_approvals s) (py_strip aid) of
        None \<Rightarrow> None
      | Some a \<Rightarrow> if session_text a \<noteq> py_strip session then None
                  else if ap_status a \<noteq> Pending \<and> \<not> (include_approved \<and> ap_status a = Approved) then None
                  else if ap_expires a \<le> pe_now e then None else Some a)"

definition session_has_pending_workspace_approval ::
  "permission_env \<Rightarrow> string \<Rightarrow> 'a permission_store_scheme \<Rightarrow> bool" where
  "session_has_pending_workspace_approval e session s \<longleftrightarrow>
     py_strip session \<noteq> [] \<and>
     list_ex (\<lambda>(k, a). session_text a = py_strip session \<and> ap_status a = Pending \<and> pe_now e < ap_expires a \<and>
                       within_actions (ap_actions a) chat_workspace_actions) (st_approvals s)"

subsection \<open>Spending a grant\<close>

definition prior_allow_covers ::
  "permission_env \<Rightarrow> fingerprint \<Rightarrow> string \<Rightarrow> string \<Rightarrow> 'a permission_store_scheme \<Rightarrow> bool" where
  "prior_allow_covers e fp session task s \<longleftrightarrow>
     list_ex (\<lambda>(k, a). session_text a = session \<and> ap_task a = task \<and> ap_status a \<in> {Approved, Consumed} \<and>
                       pe_now e < ap_expires a \<and>
                       (ap_fingerprint a = Some fp \<or>
                        ap_scope a = Some Request_wide \<and> fp \<in> set (ap_batch a @ ap_remaining a)))
       (st_approvals s)"

definition approval_bound :: "permission_env \<Rightarrow> string \<Rightarrow> string \<Rightarrow> approval \<Rightarrow> bool" where
  "approval_bound e session task a \<longleftrightarrow>
     ap_status a = Approved \<and> ap_session a = Some session \<and> ap_task a = task \<and> pe_now e < ap_expires a"

definition consume_matching_approval ::
  "permission_env \<Rightarrow> call_context \<Rightarrow> fingerprint \<Rightarrow> string \<Rightarrow> string \<Rightarrow> 'a permission_store_scheme
     \<Rightarrow> 'a permission_store_scheme \<times> bool" where
  "consume_matching_approval e cx fp session task s =
     (let token = py_strip (cx_approval_token cx); prior = (s, prior_allow_covers e fp session task s) in
      if token = [] then prior
      else case dict_get (st_approvals s) token of
        None \<Rightarrow> prior
      | Some a \<Rightarrow>
          if \<not> approval_bound e session task a then prior
          else if ap_scope a = Some Request_wide then
            (if fp \<notin> set (ap_remaining a) then (s, False)
             else (let rest = remove1 fp (ap_remaining a)
                   in (s\<lparr>st_approvals := dict_set token
                          (a\<lparr>ap_remaining := rest, ap_status := (if rest = [] then Consumed else Approved)\<rparr>)
                          (st_approvals s)\<rparr>, True)))
          else if ap_fingerprint a \<noteq> Some fp then (s, False)
          else (s\<lparr>st_approvals := dict_set token (a\<lparr>ap_status := Consumed\<rparr>) (st_approvals s)\<rparr>, True))"

definition matching_approval_covers ::
  "permission_env \<Rightarrow> call_context \<Rightarrow> fingerprint \<Rightarrow> string \<Rightarrow> string \<Rightarrow> 'a permission_store_scheme \<Rightarrow> bool" where
  "matching_approval_covers e cx fp session task s =
     (let token = py_strip (cx_approval_token cx); prior = prior_allow_covers e fp session task s in
      if token = [] then prior
      else case dict_get (st_approvals s) token of
        None \<Rightarrow> prior
      | Some a \<Rightarrow>
          if \<not> approval_bound e session task a then prior
          else if ap_scope a = Some Request_wide then fp \<in> set (ap_remaining a)
          else ap_fingerprint a = Some fp)"

subsection \<open>Standing project grants\<close>

definition bound_project :: "permission_env \<Rightarrow> call_context \<Rightarrow> (string \<times> string) option" where
  "bound_project e cx =
     (let pid = py_strip (py_or (cx_trusted_project cx) (cx_project cx)) in
      if pid = [] then None
      else if pe_project_root e pid = [] then None
      else map_option (Pair pid) (pe_resolve e [] (pe_project_root e pid)))"

definition project_scope_eligibility :: "permission_env \<Rightarrow> call_context \<Rightarrow> tool_call \<Rightarrow> bool \<times> string" where
  "project_scope_eligibility e cx c =
     (case bound_project e cx of
        None \<Rightarrow> (False, [])
      | Some (pid, wroot) \<Rightarrow>
          if wroot = [] then (False, [])
          else if \<not> within_actions (tc_actions c) project_scope_actions then (False, [])
          else (let targets = map (pe_resolve e (trusted_write_root cx)) (tc_paths c) in
            if None \<in> set targets then (False, [])
            else if \<not> list_all (\<lambda>t. pe_under e wroot (the t)) targets then (False, [])
            else if set (tc_actions c) \<inter> set write_actions \<noteq> {} \<and> targets = [] then (False, [])
            else (True, pid)))"

text \<open>The cached answer, or the project store's, cached; whether it says \<open>granted_at\<close>.\<close>

definition project_approval_state ::
  "permission_env \<Rightarrow> string \<Rightarrow> 'a permission_store_scheme \<Rightarrow> 'a permission_store_scheme \<times> bool" where
  "project_approval_state e project s =
     (let pid = py_strip project in
      if pid = [] then (s, False)
      else case dict_get (st_projects s) pid of
        Some g \<Rightarrow> (s, g)
      | None \<Rightarrow> (s\<lparr>st_projects := dict_set pid (pe_project_granted e pid) (st_projects s)\<rparr>, pe_project_granted e pid))"

definition grant_project_approval ::
  "permission_env \<Rightarrow> string \<Rightarrow> 'a permission_store_scheme \<Rightarrow> 'a permission_store_scheme \<times> permission_error option" where
  "grant_project_approval e project s =
     (let pid = py_strip project in
      if pid = [] then (s, None)
      else if pe_project_root e pid \<noteq> [] \<and> root_confined e (pe_project_root e pid) then (s, Some Root_confined)
      else (s\<lparr>st_projects := dict_set pid True (st_projects s)\<rparr>, None))"

definition revoke_project_approval ::
  "permission_env \<Rightarrow> string \<Rightarrow> 'a permission_store_scheme \<Rightarrow> 'a permission_store_scheme \<times> bool" where
  "revoke_project_approval e project s =
     (let pid = py_strip project in
      if pid = [] then (s, False)
      else (s\<lparr>st_projects := dict_set pid False (st_projects s)\<rparr>,
            pe_project_granted e pid \<or> dict_get (st_projects s) pid = Some True))"

subsection \<open>The operator's answer\<close>

definition answer_scope :: "string \<Rightarrow> approval \<Rightarrow> approval_scope" where
  "answer_scope requested a =
     (if requested = ''request'' \<and> ap_batch a \<noteq> [] then Request_wide
      else if requested = ''project'' \<and> ap_eligible a \<and> ap_project a \<noteq> [] then Project_wide
      else if ap_edit_batch a then Once
      else if requested = ''task'' then Task_wide else Once)"

definition answered :: "bool \<Rightarrow> string \<Rightarrow> approval \<Rightarrow> approval" where
  "answered allow requested a =
     (if \<not> allow then a\<lparr>ap_status := Denied_by_operator, ap_scope := Some Once\<rparr>
      else (let sc = answer_scope requested a
            in a\<lparr>ap_status := Approved, ap_scope := Some sc,
                 ap_remaining := (if sc = Request_wide then ap_batch a else ap_remaining a)\<rparr>))"

definition task_grant_of :: "approval \<Rightarrow> task_grant" where
  "task_grant_of a = \<lparr>tg_session = ap_session a, tg_task = ap_task a, tg_intent = ap_intent a, tg_actions = ap_actions a,
     tg_revision = ap_revision a, tg_expires = ap_expires a, tg_fingerprint = ap_fingerprint a\<rparr>"

definition resolve_approval ::
  "permission_env \<Rightarrow> string \<Rightarrow> string \<Rightarrow> string \<Rightarrow> 'a permission_store_scheme
     \<Rightarrow> 'a permission_store_scheme \<times> (permission_error + approval option)" where
  "resolve_approval e token decision scope s =
     (let t = py_strip token; d = py_lower (py_strip decision); r = py_lower (py_strip (py_or scope ''once'')) in
      case dict_get (st_approvals s) t of
        None \<Rightarrow> (s, Inr None)
      | Some a \<Rightarrow>
          if ap_status a \<noteq> Pending then (s, Inr None)
          else if d \<notin> {''allow'', ''deny''} then (s, Inr None)
          else if ap_expires a \<le> pe_now e
          then (s\<lparr>st_approvals := dict_set t (a\<lparr>ap_status := Expired\<rparr>) (st_approvals s)\<rparr>, Inr None)
          else (let b = answered (d = ''allow'') r a;
                    s1 = s\<lparr>st_approvals := dict_set t b (st_approvals s),
                           st_task_grants := st_task_grants s @
                             (if ap_status b = Approved \<and> ap_scope b = Some Task_wide then [task_grant_of b] else [])\<rparr>
                in if ap_status b = Approved \<and> ap_scope b = Some Project_wide
                   then (case grant_project_approval e (ap_project b) s1 of
                           (s2, Some err) \<Rightarrow> (s2, Inl err) | (s2, None) \<Rightarrow> (s2, Inr (Some b)))
                   else (s1, Inr (Some b))))"

section \<open>The decision\<close>

datatype grant_source = Exact_approval | Task_grant | Project_grant | Internal_scope_grant string

record permission_decision =
  pd_effect :: permission_effect
  pd_mode :: operating_mode
  pd_actions :: "permission_action list"
  pd_granted_by :: "grant_source option"
  pd_request :: "string option"
  pd_token_matched :: bool
  pd_asks :: bool

definition permission_verdict :: "permission_effect \<Rightarrow> operating_mode \<Rightarrow> tool_call \<Rightarrow> grant_source option \<Rightarrow> permission_decision" where
  "permission_verdict f m c g = \<lparr>pd_effect = f, pd_mode = m, pd_actions = tc_actions c, pd_granted_by = g, pd_request = None,
     pd_token_matched = False, pd_asks = False\<rparr>"

definition task_approved ::
  "permission_env \<Rightarrow> string \<Rightarrow> string \<Rightarrow> tool_call \<Rightarrow> nat \<Rightarrow> fingerprint \<Rightarrow> 'a permission_store_scheme \<Rightarrow> bool" where
  "task_approved e session task c revision fp s \<longleftrightarrow>
     list_ex (\<lambda>g. tg_session g = Some session \<and> tg_task g = task \<and> tg_intent g = tc_intent c \<and>
                  tg_actions g = tc_actions c \<and> tg_revision g = revision \<and> pe_now e < tg_expires g \<and>
                  tg_fingerprint g = Some fp) (st_task_grants s)"

definition scope_covers :: "permission_env \<Rightarrow> internal_scope \<Rightarrow> call_context \<Rightarrow> tool_call \<Rightarrow> string \<Rightarrow> bool" where
  "scope_covers e sc cx c task \<longleftrightarrow>
     within_actions (tc_actions c) (is_actions sc) \<and> set (tc_actions c) \<inter> set internal_ceiling = {} \<and>
     internal_scope_matches e sc cx (tc_intent c) task"

text \<open>
  The prompt: a standing project grant turns it into an allow; otherwise the operator is asked, and
  the consuming decision records the request.
\<close>

definition decide_prompt ::
  "bool \<Rightarrow> permission_env \<Rightarrow> call_context \<Rightarrow> operating_mode \<Rightarrow> string \<Rightarrow> string \<Rightarrow> nat \<Rightarrow> tool_call \<Rightarrow> 'a permission_store_scheme
     \<Rightarrow> 'a permission_store_scheme \<times> permission_decision" where
  "decide_prompt consume e cx m session task revision c s =
     (let (eligible, pid) = project_scope_eligibility e cx c;
          (s1, standing) = (if eligible then project_approval_state e pid s else (s, False)) in
      if eligible \<and> standing then (s1, permission_verdict Allow m c (Some Project_grant))
      else if \<not> consume then (s1, (permission_verdict Require_approval m c None)\<lparr>pd_asks := True\<rparr>)
      else (let fp = call_fingerprint e cx session task revision c;
                (fps, covered, excluded) = planned_edit_batch e cx session task revision c
            in (s1\<lparr>st_approvals := dict_set (pe_token e) (new_approval e session task revision c fp eligible pid fps)
                                     (st_approvals s1)\<rparr>,
                (permission_verdict Require_approval m c None)\<lparr>pd_request := Some (pe_token e), pd_asks := True\<rparr>)))"

definition decide_matrix ::
  "bool \<Rightarrow> permission_env \<Rightarrow> call_context \<Rightarrow> operating_mode \<Rightarrow> string \<Rightarrow> string \<Rightarrow> nat \<Rightarrow> tool_call \<Rightarrow> 'a permission_store_scheme
     \<Rightarrow> 'a permission_store_scheme \<times> permission_decision" where
  "decide_matrix consume e cx m session task revision c s =
     (let effects = map (mode_matrix m) (tc_actions c) in
      if Deny \<in> set effects then (s, permission_verdict Deny m c None)
      else if Require_approval \<in> set effects then decide_prompt consume e cx m session task revision c s
      else (s, permission_verdict Allow m c None))"

definition logical_task :: "call_context \<Rightarrow> mode_state \<Rightarrow> string \<Rightarrow> string" where
  "logical_task cx st task = py_strip (py_or (cx_cancel_turn cx) (py_or (ms_turn st) task))"

definition decision_session :: "call_context \<Rightarrow> mode_state \<Rightarrow> string" where
  "decision_session cx st = py_strip (py_or (cx_runtime_session cx) (py_or (cx_session cx) (ms_session st)))"

definition decide_with ::
  "bool \<Rightarrow> permission_env \<Rightarrow> call_context \<Rightarrow> string \<Rightarrow> tool_call \<Rightarrow> 'a permission_store_scheme
     \<Rightarrow> 'a permission_store_scheme \<times> permission_decision" where
  "decide_with consume e cx task_id c s =
     (let st = active_mode_state e cx s; m = ms_mode st; revision = ms_revision st;
          session = decision_session cx st; task = logical_task cx st task_id;
          fp = call_fingerprint e cx session task revision c;
          (s1, matched) = (if consume then consume_matching_approval e cx fp session task s
                           else (s, matching_approval_covers e cx fp session task s)) in
      if matched then (s1, (permission_verdict Allow m c (Some Exact_approval))\<lparr>pd_token_matched := True\<rparr>)
      else if task_approved e session task c revision fp s1 then (s1, permission_verdict Allow m c (Some Task_grant))
      else if list_ex (\<lambda>a. a \<in> set (cx_denied cx)) (tc_actions c) then (s1, permission_verdict Deny m c None)
      else case internal_scope_for e (scope_token cx s1) s1 of
        (s2, Some sc) \<Rightarrow>
          if scope_covers e sc cx c task_id then (s2, permission_verdict Allow m c (Some (Internal_scope_grant (is_label sc))))
          else decide_matrix consume e cx m session task revision c s2
      | (s2, None) \<Rightarrow> decide_matrix consume e cx m session task revision c s2)"

definition decide_tool_call ::
  "permission_env \<Rightarrow> call_context \<Rightarrow> string \<Rightarrow> tool_call \<Rightarrow> 'a permission_store_scheme
     \<Rightarrow> 'a permission_store_scheme \<times> permission_decision" where
  "decide_tool_call e cx task_id c s = decide_with True e cx task_id c s"

record permission_preview =
  pv_effect :: permission_effect
  pv_mode :: operating_mode
  pv_actions :: "permission_action list"
  pv_consumes :: bool
  pv_asks :: bool

definition preview_tool_call ::
  "permission_env \<Rightarrow> call_context \<Rightarrow> string \<Rightarrow> tool_call \<Rightarrow> 'a permission_store_scheme
     \<Rightarrow> 'a permission_store_scheme \<times> permission_preview" where
  "preview_tool_call e cx task_id c s =
     (let (s', d) = decide_with False e cx task_id c s
      in (s', \<lparr>pv_effect = pd_effect d, pv_mode = pd_mode d, pv_actions = pd_actions d,
               pv_consumes = pd_token_matched d, pv_asks = pd_asks d\<rparr>))"

definition request_batch_grant_covers ::
  "permission_env \<Rightarrow> call_context \<Rightarrow> string \<Rightarrow> tool_call \<Rightarrow> 'a permission_store_scheme \<Rightarrow> bool" where
  "request_batch_grant_covers e cx task_id c s =
     (let token = py_strip (cx_approval_token cx); st = active_mode_state e cx s;
          session = decision_session cx st; task = logical_task cx st task_id in
      if token = [] then False
      else case dict_get (st_approvals s) token of
        None \<Rightarrow> False
      | Some a \<Rightarrow> ap_scope a = Some Request_wide \<and> approval_bound e session task a \<and>
                  call_fingerprint e cx session task (ms_revision st) c \<in> set (ap_remaining a))"

definition reset_mode_permission_state :: "'a permission_store_scheme \<Rightarrow> 'a permission_store_scheme" where
  "reset_mode_permission_state s = s\<lparr>st_modes := [], st_bypass := [], st_approvals := [], st_task_grants := [],
     st_projects := [], st_internal := []\<rparr>"

end
