(* ===== verification/Mode_Permission_Laws.thy ===== *)
theory Mode_Permission_Laws
  imports Mode_Approvals
begin

text \<open>
  The operations of the permission module as one step function, and what each leaves alone: the
  operations on modes, bypass grants and internal scopes keep the approvals, those on approvals keep
  the modes and the grants. Then the facts of a single decision.
\<close>

datatype perm_op =
    Set_mode string string string string string string
  | Resolve_mode string "string option" string string string string
  | Confirm bypass_request
  | Activate string bypass_request
  | Revoke string
  | Revoke_session string
  | Grant_scope string "permission_action list" int string string "string list" string
  | Revoke_scope string
  | Grant_chat_scope string string int
  | Revoke_chat_scope string
  | Chat_scope_state string
  | Register approval
  | Answer string string string
  | Grant_project string
  | Revoke_project string
  | Decide call_context string tool_call
  | Preview call_context string tool_call

fun perm_step :: "permission_env \<times> perm_op \<Rightarrow> permission_store \<Rightarrow> permission_store" where
  "perm_step (e, Set_mode session mode project turn token wroot) s = fst (set_active_mode e session mode project turn token wroot s)"
| "perm_step (e, Resolve_mode session requested project turn token wroot) s =
     fst (resolve_effective_mode e session requested project turn token wroot s)"
| "perm_step (e, Confirm r) s = fst (request_bypass_confirmation e r s)"
| "perm_step (e, Activate cid r) s = fst (activate_bypass_grant e cid r s)"
| "perm_step (e, Revoke token) s = fst (revoke_bypass_grant e token s)"
| "perm_step (e, Revoke_session session) s = fst (revoke_session_bypass_grants e session s)"
| "perm_step (e, Grant_scope label acts duration session task intents wroot) s =
     fst (grant_internal_authority e label acts duration session task intents wroot s)"
| "perm_step (e, Revoke_scope token) s = fst (revoke_internal_authority token s)"
| "perm_step (e, Grant_chat_scope session wroot duration) s = fst (grant_chat_workspace_authority e session wroot duration s)"
| "perm_step (e, Revoke_chat_scope session) s = fst (revoke_chat_workspace_authority session s)"
| "perm_step (e, Chat_scope_state session) s = fst (chat_workspace_authority_state e session s)"
| "perm_step (e, Register req) s = fst (register_external_approval e req s)"
| "perm_step (e, Answer token d scope) s = fst (resolve_approval e token d scope s)"
| "perm_step (e, Grant_project project) s = fst (grant_project_approval e project s)"
| "perm_step (e, Revoke_project project) s = fst (revoke_project_approval e project s)"
| "perm_step (e, Decide cx task c) s = fst (decide_tool_call e cx task c s)"
| "perm_step (e, Preview cx task c) s = fst (preview_tool_call e cx task c s)"

definition empty_store :: permission_store where
  "empty_store = \<lparr>st_modes = [], st_bypass = [], st_confirmations = [], st_internal = [], st_chat_scopes = [],
     st_approvals = [], st_task_grants = [], st_projects = []\<rparr>"

section \<open>What an operation leaves alone\<close>

lemma more_keeps:
  fixes s s' :: permission_store
  assumes "modes_store.more s' = modes_store.more s"
  shows "st_approvals s' = st_approvals s" "st_task_grants s' = st_task_grants s" "st_projects s' = st_projects s"
  using assms by (cases s; cases s'; simp)+

lemma set_active_mode_more: "modes_store.more (fst (set_active_mode e session mode project turn token wroot s)) = modes_store.more s"
  by (simp add: set_active_mode_def retire_token_def Let_def split: option.split)

lemma register_mode_more: "modes_store.more (fst (register_mode e c r project turn token wroot s)) = modes_store.more s"
  by (simp add: register_mode_def set_active_mode_more split: option.split)

lemma resolve_effective_mode_more:
  "modes_store.more (fst (resolve_effective_mode e session r project turn token wroot s)) = modes_store.more s"
  by (simp add: resolve_effective_mode_def Let_def with_answer_def register_mode_more)

lemma confirm_more: "modes_store.more (fst (request_bypass_confirmation e r s)) = modes_store.more s"
  by (simp add: request_bypass_confirmation_def Let_def)

lemma consume_confirmation_fst:
  "fst (consume_bypass_confirmation e cid r s) = s\<lparr>st_confirmations := dict_pop cid (st_confirmations s)\<rparr>"
  by (simp add: consume_bypass_confirmation_def Let_def split: option.split)

lemma activate_more: "modes_store.more (fst (activate_bypass_grant e cid r s)) = modes_store.more s"
proof -
  obtain s' w where "consume_bypass_confirmation e cid r s = (s', w)" by fastforce
  moreover from this have "modes_store.more s' = modes_store.more s"
    using consume_confirmation_fst [of e cid r s] by simp
  ultimately show ?thesis
    by (simp add: activate_bypass_grant_def Let_def split: option.split)
qed

lemma revoke_more: "modes_store.more (fst (revoke_bypass_grant e token s)) = modes_store.more s"
  by (simp add: revoke_bypass_grant_def Let_def split: option.split)

lemma revoke_session_more: "modes_store.more (fst (revoke_session_bypass_grants e session s)) = modes_store.more s"
  by (simp add: revoke_session_bypass_grants_def Let_def)

lemma grant_scope_more:
  "modes_store.more (fst (grant_internal_authority e label acts duration session task intents wroot s)) = modes_store.more s"
  by (simp add: grant_internal_authority_def Let_def)

lemma revoke_scope_more: "modes_store.more (fst (revoke_internal_authority token s)) = modes_store.more s"
  by (simp add: revoke_internal_authority_def)

lemma grant_chat_more: "modes_store.more (fst (grant_chat_workspace_authority e session wroot duration s)) = modes_store.more s"
proof -
  let ?b = "max 60 (min (if duration = 0 then 28800 else duration) 86400)"
  obtain s' r where g: "grant_internal_authority e ''chat workspace read/edit approval'' chat_workspace_actions ?b
      (py_strip session) [] [] (py_strip wroot) s = (s', r)" by fastforce
  have "modes_store.more s' = modes_store.more s" by (metis g grant_scope_more fst_conv)
  then show ?thesis
    by (cases r) (simp_all add: grant_chat_workspace_authority_def Let_def g split: option.split)
qed

lemma revoke_chat_more: "modes_store.more (fst (revoke_chat_workspace_authority session s)) = modes_store.more s"
  by (simp add: revoke_chat_workspace_authority_def Let_def split: option.split)

lemma internal_scope_more: "modes_store.more (fst (internal_scope_for e token s)) = modes_store.more s"
  by (simp add: internal_scope_for_def split: option.split)

lemma chat_state_more: "modes_store.more (fst (chat_workspace_authority_state e session s)) = modes_store.more s"
proof (cases "dict_get (st_chat_scopes s) (py_strip session)")
  case (Some t)
  obtain s' r where g: "internal_scope_for e (py_strip t) s = (s', r)" by fastforce
  then have "modes_store.more s' = modes_store.more s" by (metis internal_scope_more fst_conv)
  with Some g show ?thesis
    by (cases r) (simp_all add: chat_workspace_authority_state_def Let_def)
qed (simp add: chat_workspace_authority_state_def)

lemmas modes_more = set_active_mode_more resolve_effective_mode_more confirm_more activate_more revoke_more
  revoke_session_more grant_scope_more revoke_scope_more grant_chat_more revoke_chat_more chat_state_more

section \<open>The matrix\<close>

lemma secrets_denied: "mode_matrix m Access_secrets = Deny"
  by (cases m) (simp_all add: matrix_row_def without_def basic_reads_def manual_mode_reads_def)

lemma ceiling_never_allowed: "a \<in> set internal_ceiling \<Longrightarrow> mode_matrix m a \<noteq> Allow"
  by (cases m) (auto simp: internal_ceiling_def matrix_row_def without_def basic_reads_def manual_mode_reads_def)

lemma ceiling_beyond_project: "set project_scope_actions \<inter> set internal_ceiling = {}"
  by (simp add: project_scope_actions_def internal_ceiling_def)

section \<open>One decision\<close>

text \<open>An approval whose operator said yes, for this call: what the code calls a prior allow or a bound token.\<close>

definition fps_of :: "approval \<Rightarrow> fingerprint set" where
  "fps_of a = set_option (ap_fingerprint a) \<union> set (ap_batch a) \<union> set (ap_remaining a)"

definition said_yes :: "approval \<Rightarrow> bool" where
  "said_yes a \<longleftrightarrow> ap_status a \<in> {Approved, Consumed}"

definition grants :: "permission_env \<Rightarrow> string \<Rightarrow> string \<Rightarrow> fingerprint \<Rightarrow> approval \<Rightarrow> bool" where
  "grants e session task fp a \<longleftrightarrow> said_yes a \<and> session_text a = session \<and> ap_task a = task \<and> pe_now e < ap_expires a \<and>
     fp \<in> fps_of a"

lemma prior_allow_grants:
  assumes "prior_allow_covers e fp session task s"
  shows "\<exists>(k, a) \<in> set (st_approvals s). grants e session task fp a"
proof -
  from assms obtain k a where "(k, a) \<in> set (st_approvals s)" "session_text a = session" "ap_task a = task"
      "ap_status a \<in> {Approved, Consumed}" "pe_now e < ap_expires a"
      "ap_fingerprint a = Some fp \<or> fp \<in> set (ap_batch a @ ap_remaining a)"
    by (auto simp: prior_allow_covers_def list_ex_iff)
  then show ?thesis by (intro bexI [of _ "(k, a)"]) (auto simp: grants_def said_yes_def fps_of_def)
qed

lemma bound_grants:
  "approval_bound e session task a \<Longrightarrow> fp \<in> fps_of a \<Longrightarrow> grants e session task fp a"
  by (simp add: approval_bound_def grants_def said_yes_def session_text_def)

text \<open>Spending: the flag is what the read-only twin says, nothing changes unless a token is spent.\<close>

lemma consume_cases:
  obtains (no) "consume_matching_approval e cx fp session task s = (s, False)"
      "\<not> matching_approval_covers e cx fp session task s"
  | (prior) "consume_matching_approval e cx fp session task s = (s, True)"
      "matching_approval_covers e cx fp session task s" "prior_allow_covers e fp session task s"
  | (spent) t a b where "dict_get (st_approvals s) t = Some a" "approval_bound e session task a" "fp \<in> fps_of a"
      "consume_matching_approval e cx fp session task s = (s\<lparr>st_approvals := dict_set t b (st_approvals s)\<rparr>, True)"
      "matching_approval_covers e cx fp session task s"
      "b = a\<lparr>ap_status := Consumed\<rparr> \<or> (\<exists>r st. b = a\<lparr>ap_remaining := r, ap_status := st\<rparr> \<and> set r \<subseteq> set (ap_remaining a) \<and> st \<in> {Consumed, Approved})"
proof (cases "prior_allow_covers e fp session task s \<and>
    (py_strip (cx_approval_token cx) = [] \<or> dict_get (st_approvals s) (py_strip (cx_approval_token cx)) = None \<or>
     (\<exists>a. dict_get (st_approvals s) (py_strip (cx_approval_token cx)) = Some a \<and> \<not> approval_bound e session task a))")
  case True
  then show ?thesis
    by (intro prior) (auto simp: consume_matching_approval_def matching_approval_covers_def Let_def split: option.split)
next
  case False
  let ?t = "py_strip (cx_approval_token cx)"
  show ?thesis
  proof (cases "?t \<noteq> [] \<and> (\<exists>a. dict_get (st_approvals s) ?t = Some a \<and> approval_bound e session task a)")
    case True
    then obtain a where a: "?t \<noteq> []" "dict_get (st_approvals s) ?t = Some a" "approval_bound e session task a" by auto
    show ?thesis
    proof (cases "if ap_scope a = Some Request_wide then fp \<in> set (ap_remaining a) else ap_fingerprint a = Some fp")
      case hit: True
      have sub: "set (remove1 fp (ap_remaining a)) \<subseteq> set (ap_remaining a)" by (rule set_remove1_subset)
      show ?thesis
      proof (cases "ap_scope a = Some Request_wide")
        case True
        let ?r = "remove1 fp (ap_remaining a)"
        let ?st = "if ?r = [] then Consumed else Approved"
        have eq: "consume_matching_approval e cx fp session task s
            = (s\<lparr>st_approvals := dict_set ?t (a\<lparr>ap_remaining := ?r, ap_status := ?st\<rparr>) (st_approvals s)\<rparr>, True)"
          using a hit True by (simp add: consume_matching_approval_def Let_def)
        have cov: "matching_approval_covers e cx fp session task s" "fp \<in> fps_of a"
          using a hit True by (simp_all add: matching_approval_covers_def fps_of_def)
        have "?st \<in> {Consumed, Approved}" by simp
        with sub show ?thesis using spent [OF a(2,3) cov(2) eq cov(1)] by blast
      next
        case False
        have eq: "consume_matching_approval e cx fp session task s
            = (s\<lparr>st_approvals := dict_set ?t (a\<lparr>ap_status := Consumed\<rparr>) (st_approvals s)\<rparr>, True)"
          using a hit False by (simp add: consume_matching_approval_def Let_def)
        have cov: "matching_approval_covers e cx fp session task s" "fp \<in> fps_of a"
          using a hit False by (simp_all add: matching_approval_covers_def fps_of_def)
        show ?thesis using spent [OF a(2,3) cov(2) eq cov(1)] by blast
      qed
    next
      case miss: False
      with a show ?thesis
        by (intro no) (auto simp: consume_matching_approval_def matching_approval_covers_def Let_def split: if_splits)
    qed
  next
    case unbound: False
    with False show ?thesis
      by (intro no) (auto simp: consume_matching_approval_def matching_approval_covers_def Let_def split: option.split)
  qed
qed

lemma consume_grants:
  assumes "matching_approval_covers e cx fp session task s"
  shows "\<exists>(k, a) \<in> set (st_approvals s). grants e session task fp a"
  using assms
proof (cases rule: consume_cases [of e cx fp session task s])
  case (spent t a b)
  from dict_get_mem [OF spent(1)] bound_grants [OF spent(2,3)] show ?thesis by blast
qed (auto intro: prior_allow_grants)

text \<open>What a decision works with: the state of the mode, the ids and the fingerprint of the call.\<close>

definition mode_of :: "permission_env \<Rightarrow> call_context \<Rightarrow> 'a modes_store_scheme \<Rightarrow> operating_mode" where
  "mode_of e cx s = ms_mode (active_mode_state e cx s)"

definition session_of :: "permission_env \<Rightarrow> call_context \<Rightarrow> 'a modes_store_scheme \<Rightarrow> string" where
  "session_of e cx s = decision_session cx (active_mode_state e cx s)"

definition task_of :: "permission_env \<Rightarrow> call_context \<Rightarrow> string \<Rightarrow> 'a modes_store_scheme \<Rightarrow> string" where
  "task_of e cx task_id s = logical_task cx (active_mode_state e cx s) task_id"

definition revision_of :: "permission_env \<Rightarrow> call_context \<Rightarrow> 'a modes_store_scheme \<Rightarrow> nat" where
  "revision_of e cx s = ms_revision (active_mode_state e cx s)"

definition fp_of :: "permission_env \<Rightarrow> call_context \<Rightarrow> string \<Rightarrow> tool_call \<Rightarrow> 'a modes_store_scheme \<Rightarrow> fingerprint" where
  "fp_of e cx task_id c s = call_fingerprint e cx (session_of e cx s) (task_of e cx task_id s) (revision_of e cx s) c"

lemmas decision_parts = mode_of_def session_of_def task_of_def revision_of_def fp_of_def

definition matched :: "permission_env \<Rightarrow> call_context \<Rightarrow> string \<Rightarrow> tool_call \<Rightarrow> 'a permission_store_scheme \<Rightarrow> bool" where
  "matched e cx task_id c s \<longleftrightarrow> matching_approval_covers e cx (fp_of e cx task_id c s) (session_of e cx s) (task_of e cx task_id s) s"

definition after_match ::
  "bool \<Rightarrow> permission_env \<Rightarrow> call_context \<Rightarrow> string \<Rightarrow> tool_call \<Rightarrow> 'a permission_store_scheme \<Rightarrow> 'a permission_store_scheme" where
  "after_match consume e cx task_id c s =
     (if consume then fst (consume_matching_approval e cx (fp_of e cx task_id c s) (session_of e cx s) (task_of e cx task_id s) s) else s)"

lemma decide_matched:
  assumes "matched e cx task_id c s"
  shows "decide_with consume e cx task_id c s
     = (after_match consume e cx task_id c s, (permission_verdict Allow (mode_of e cx s) c (Some Exact_approval))\<lparr>pd_token_matched := True\<rparr>)"
  using assms
  by (cases rule: consume_cases [of e cx "fp_of e cx task_id c s" "session_of e cx s" "task_of e cx task_id s" s])
    (simp_all add: decide_with_def matched_def after_match_def Let_def decision_parts)

lemma decide_unmatched:
  assumes "\<not> matched e cx task_id c s"
  shows "decide_with consume e cx task_id c s =
     (if task_approved e (session_of e cx s) (task_of e cx task_id s) c (revision_of e cx s) (fp_of e cx task_id c s) s
      then (s, permission_verdict Allow (mode_of e cx s) c (Some Task_grant))
      else if list_ex (\<lambda>a. a \<in> set (cx_denied cx)) (tc_actions c) then (s, permission_verdict Deny (mode_of e cx s) c None)
      else let (s2, r) = internal_scope_for e (scope_token cx s) s in
        case r of
          Some sc \<Rightarrow> if scope_covers e sc cx c task_id
                     then (s2, permission_verdict Allow (mode_of e cx s) c (Some (Internal_scope_grant (is_label sc))))
                     else decide_matrix consume e cx (mode_of e cx s) (session_of e cx s) (task_of e cx task_id s) (revision_of e cx s) c s2
        | None \<Rightarrow> decide_matrix consume e cx (mode_of e cx s) (session_of e cx s) (task_of e cx task_id s) (revision_of e cx s) c s2)"
  using assms
  by (cases rule: consume_cases [of e cx "fp_of e cx task_id c s" "session_of e cx s" "task_of e cx task_id s" s])
    (simp_all add: decide_with_def matched_def Let_def decision_parts split: prod.split option.split)

lemma decision_simps [simp]:
  "pd_effect (permission_verdict f m c g) = f" "pd_mode (permission_verdict f m c g) = m" "pd_actions (permission_verdict f m c g) = tc_actions c"
  "pd_granted_by (permission_verdict f m c g) = g" "pd_token_matched (permission_verdict f m c g) = False" "pd_asks (permission_verdict f m c g) = False"
  by (simp_all add: permission_verdict_def)

text \<open>The prompt: an allow of the project, or a request that only the consuming decision records.\<close>

lemma project_state_frame:
  "project_approval_state e p s = (s', g) \<Longrightarrow> st_approvals s' = st_approvals s \<and> st_task_grants s' = st_task_grants s
     \<and> st_modes s' = st_modes s \<and> st_bypass s' = st_bypass s \<and> st_confirmations s' = st_confirmations s"
  by (auto simp: project_approval_state_def Let_def split: if_splits option.splits)

lemma internal_scope_frame:
  "internal_scope_for e t s = (s', r) \<Longrightarrow> st_modes s' = st_modes s \<and> st_bypass s' = st_bypass s
     \<and> st_confirmations s' = st_confirmations s"
  by (auto simp: internal_scope_for_def split: if_splits option.splits)

lemma eligible_low_risk:
  "fst (project_scope_eligibility e cx c) \<Longrightarrow> within_actions (tc_actions c) project_scope_actions"
  by (auto simp: project_scope_eligibility_def Let_def split: option.splits if_splits)

lemma decide_prompt_cases:
  obtains (standing) s1 where "decide_prompt consume e cx m session task revision c s = (s1, permission_verdict Allow m c (Some Project_grant))"
      "within_actions (tc_actions c) project_scope_actions" "st_approvals s1 = st_approvals s"
      "st_task_grants s1 = st_task_grants s" "st_modes s1 = st_modes s" "st_bypass s1 = st_bypass s"
      "st_confirmations s1 = st_confirmations s"
  | (asked) s1 d el pid fps where "decide_prompt consume e cx m session task revision c s = (s1, d)"
      "pd_effect d = Require_approval" "pd_mode d = m" "pd_actions d = tc_actions c" "pd_granted_by d = None" "pd_asks d"
      "\<not> pd_token_matched d"
      "st_approvals s1 = (if consume then dict_set (pe_token e)
          (new_approval e session task revision c (call_fingerprint e cx session task revision c) el pid fps) (st_approvals s)
        else st_approvals s)"
      "fps = fst (planned_edit_batch e cx session task revision c)"
      "st_task_grants s1 = st_task_grants s" "st_modes s1 = st_modes s" "st_bypass s1 = st_bypass s"
      "st_confirmations s1 = st_confirmations s"
proof -
  obtain el pid where el: "project_scope_eligibility e cx c = (el, pid)" by fastforce
  obtain s1 g where g: "(if el then project_approval_state e pid s else (s, False)) = (s1, g)" by fastforce
  have "st_approvals s1 = st_approvals s \<and> st_task_grants s1 = st_task_grants s \<and>
      st_modes s1 = st_modes s \<and> st_bypass s1 = st_bypass s \<and> st_confirmations s1 = st_confirmations s"
  proof (cases el)
    case True
    with g have "project_approval_state e pid s = (s1, g)" by simp
    from project_state_frame [OF this] show ?thesis .
  next
    case False
    with g show ?thesis by simp
  qed
  then have fr: "st_approvals s1 = st_approvals s" "st_task_grants s1 = st_task_grants s"
      "st_modes s1 = st_modes s" "st_bypass s1 = st_bypass s" "st_confirmations s1 = st_confirmations s" by blast+
  obtain fps cov exc where b: "planned_edit_batch e cx session task revision c = (fps, cov, exc)" by (cases rule: prod_cases3)
  show ?thesis
  proof (cases "el \<and> g")
    case True
    then show ?thesis using eligible_low_risk [of e cx c] el g fr
      by (intro standing [of s1]) (simp_all add: decide_prompt_def)
  next
    case no: False
    then have no': "(el \<and> g) = False" by simp
    show ?thesis
    proof (cases consume)
      case True
      show ?thesis
        by (rule asked [of "s1\<lparr>st_approvals := dict_set (pe_token e) (new_approval e session task revision c
              (call_fingerprint e cx session task revision c) el pid fps) (st_approvals s1)\<rparr>"
              "(permission_verdict Require_approval m c None)\<lparr>pd_request := Some (pe_token e), pd_asks := True\<rparr>" el pid fps])
          (simp_all add: decide_prompt_def no' True el g fr b)
    next
      case False
      show ?thesis
        by (rule asked [of s1 "(permission_verdict Require_approval m c None)\<lparr>pd_asks := True\<rparr>" el pid fps])
          (simp_all add: decide_prompt_def no' False el g fr b)
    qed
  qed
qed

text \<open>A decision that allows, by its source.\<close>

lemma decide_allows:
  assumes "pd_effect (snd (decide_with consume e cx task_id c s)) = Allow"
  shows "(\<exists>(k, a) \<in> set (st_approvals s). grants e (session_of e cx s) (task_of e cx task_id s) (fp_of e cx task_id c s) a)
     \<or> task_approved e (session_of e cx s) (task_of e cx task_id s) c (revision_of e cx s) (fp_of e cx task_id c s) s
     \<or> set (tc_actions c) \<inter> set internal_ceiling = {}"
proof (cases "matched e cx task_id c s")
  case True
  then show ?thesis unfolding matched_def by (intro disjI1 consume_grants)
next
  case no: False
  have plain: "set (tc_actions c) \<inter> set internal_ceiling = {}"
    if "pd_effect (snd (decide_matrix consume e cx m se ta re c s2)) = Allow" for m se ta re s2
  proof (cases "Require_approval \<in> mode_matrix m ` set (tc_actions c)")
    case True
    with that have pr: "pd_effect (snd (decide_prompt consume e cx m se ta re c s2)) = Allow"
      by (auto simp: decide_matrix_def Let_def split: if_splits)
    then have "within_actions (tc_actions c) project_scope_actions"
      by (cases rule: decide_prompt_cases [of consume e cx m se ta re c s2]) simp_all
    then show ?thesis using ceiling_beyond_project by (auto simp: within_actions_def)
  next
    case False
    have deny: "Deny \<notin> mode_matrix m ` set (tc_actions c)"
    proof
      assume "Deny \<in> mode_matrix m ` set (tc_actions c)"
      then have "decide_matrix consume e cx m se ta re c s2 = (s2, permission_verdict Deny m c None)"
        by (simp add: decide_matrix_def)
      with that show False by simp
    qed
    have "mode_matrix m a = Allow" if "a \<in> set (tc_actions c)" for a
    proof (cases "mode_matrix m a")
      case Require_approval
      with that False show ?thesis by (metis imageI)
    next
      case Deny
      with that deny show ?thesis by (metis imageI)
    qed
    then show ?thesis using ceiling_never_allowed by blast
  qed
  obtain s2 r where r: "internal_scope_for e (scope_token cx s) s = (s2, r)" by fastforce
  consider (task) "task_approved e (session_of e cx s) (task_of e cx task_id s) c (revision_of e cx s) (fp_of e cx task_id c s) s"
    | (scope) sc where "scope_covers e sc cx c task_id"
    | (matrix) "pd_effect (snd (decide_matrix consume e cx (mode_of e cx s) (session_of e cx s) (task_of e cx task_id s)
        (revision_of e cx s) c s2)) = Allow"
    using assms by (simp add: decide_unmatched [OF no] r split: if_splits option.splits)
  then show ?thesis
  proof cases
    case matrix
    then show ?thesis by (intro disjI2 plain)
  qed (simp_all add: scope_covers_def)
qed

text \<open>What a decision does to the approvals: nothing, one spent, or one raised under no matrix deny.\<close>

definition spent_form :: "approval \<Rightarrow> approval \<Rightarrow> bool" where
  "spent_form a b \<longleftrightarrow> b = a\<lparr>ap_status := Consumed\<rparr> \<or>
     (\<exists>r st. b = a\<lparr>ap_remaining := r, ap_status := st\<rparr> \<and> set r \<subseteq> set (ap_remaining a) \<and> st \<in> {Consumed, Approved})"

definition spends :: "'a permission_store_scheme \<Rightarrow> 'a permission_store_scheme \<Rightarrow> bool" where
  "spends s s' \<longleftrightarrow> (\<exists>t a b. dict_get (st_approvals s) t = Some a \<and> said_yes a \<and> spent_form a b \<and>
     st_approvals s' = dict_set t b (st_approvals s))"

definition raises ::
  "permission_env \<Rightarrow> call_context \<Rightarrow> operating_mode \<Rightarrow> string \<Rightarrow> string \<Rightarrow> nat \<Rightarrow> tool_call
     \<Rightarrow> 'a permission_store_scheme \<Rightarrow> 'a permission_store_scheme \<Rightarrow> bool" where
  "raises e cx m se ta re c s s' \<longleftrightarrow> Deny \<notin> mode_matrix m ` set (tc_actions c) \<and>
     (\<exists>el pid. st_approvals s' = dict_set (pe_token e)
        (new_approval e se ta re c (call_fingerprint e cx se ta re c) el pid (fst (planned_edit_batch e cx se ta re c)))
        (st_approvals s))"

definition same_rest :: "'a permission_store_scheme \<Rightarrow> 'a permission_store_scheme \<Rightarrow> bool" where
  "same_rest s s' \<longleftrightarrow> st_task_grants s' = st_task_grants s \<and> st_modes s' = st_modes s \<and> st_bypass s' = st_bypass s \<and>
     st_confirmations s' = st_confirmations s"

lemma decide_matrix_frame:
  assumes "decide_matrix consume e cx m se ta re c s = (s', d)"
  shows "same_rest s s' \<and> (st_approvals s' = st_approvals s \<or> consume \<and> raises e cx m se ta re c s s')"
proof (cases "Deny \<in> mode_matrix m ` set (tc_actions c) \<or> Require_approval \<notin> mode_matrix m ` set (tc_actions c)")
  case True
  with assms have "s' = s" by (auto simp: decide_matrix_def Let_def split: if_splits)
  then show ?thesis by (simp add: same_rest_def)
next
  case False
  with assms have pr: "decide_prompt consume e cx m se ta re c s = (s', d)"
    by (simp add: decide_matrix_def Let_def)
  show ?thesis
  proof (cases rule: decide_prompt_cases [of consume e cx m se ta re c s])
    case (standing s1)
    with pr show ?thesis by (simp add: same_rest_def)
  next
    case (asked s1 d1 el pid fps)
    with pr False show ?thesis by (auto simp: same_rest_def raises_def)
  qed
qed

lemma decide_frame:
  fixes s :: permission_store
  assumes "decide_with consume e cx task_id c s = (s', d)"
  shows "same_rest s s' \<and> (st_approvals s' = st_approvals s \<or> consume \<and> spends s s' \<or>
     consume \<and> raises e cx (mode_of e cx s) (session_of e cx s) (task_of e cx task_id s) (revision_of e cx s) c s s')"
proof (cases "matched e cx task_id c s")
  case True
  with assms have s': "s' = after_match consume e cx task_id c s" by (simp add: decide_matched)
  show ?thesis
  proof (cases rule: consume_cases [of e cx "fp_of e cx task_id c s" "session_of e cx s" "task_of e cx task_id s" s])
    case (spent t a b)
    from spent(2) have "said_yes a" by (simp add: approval_bound_def said_yes_def)
    with spent(1,6) have "spends s (s\<lparr>st_approvals := dict_set t b (st_approvals s)\<rparr>)"
      unfolding spends_def spent_form_def by (intro exI [of _ t] exI [of _ a] exI [of _ b]) simp
    with spent(4) show ?thesis by (cases consume) (simp_all add: s' after_match_def same_rest_def)
  qed (simp_all add: s' after_match_def same_rest_def)
next
  case no: False
  obtain s2 r where r: "internal_scope_for e (scope_token cx s) s = (s2, r)" by fastforce
  have fr: "st_approvals s2 = st_approvals s" "st_task_grants s2 = st_task_grants s" "st_modes s2 = st_modes s"
      "st_bypass s2 = st_bypass s" "st_confirmations s2 = st_confirmations s"
    using internal_scope_frame [OF r] internal_scope_more [of e "scope_token cx s" s] r more_keeps [of s2 s] by simp_all
  from assms consider "s' = s" | "s' = s2"
    | "decide_matrix consume e cx (mode_of e cx s) (session_of e cx s) (task_of e cx task_id s) (revision_of e cx s) c s2 = (s', d)"
    by (auto simp: decide_unmatched [OF no] r Let_def split: if_splits option.splits)
  then show ?thesis
  proof cases
    case 3
    have "raises e cx m se ta re c s2 s' \<Longrightarrow> raises e cx m se ta re c s s'" for m se ta re
      by (simp add: raises_def fr)
    with decide_matrix_frame [OF 3] fr show ?thesis unfolding same_rest_def by metis
  qed (simp_all add: fr same_rest_def)
qed

end
