(* ===== verification/Mode_Approval_Runs.thy ===== *)
theory Mode_Approval_Runs
  imports Mode_Permission_Laws
begin

text \<open>
  Runs of the permission module, as far as approvals go: what each operation does to them, where an
  approval or a task grant comes from, and the invariants of every run from an empty store. No
  approval ever covers a call that touches secrets, one that says yes was answered by the operator,
  and the revision of a session only rises.
\<close>

section \<open>How approvals change\<close>

definition heir :: "approval \<Rightarrow> approval \<Rightarrow> bool" where
  "heir a b \<longleftrightarrow> ap_session b = ap_session a \<and> ap_task b = ap_task a \<and> ap_expires b = ap_expires a \<and>
     ap_fingerprint b = ap_fingerprint a \<and> fps_of b \<subseteq> fps_of a"

definition says_allow :: "string \<Rightarrow> bool" where
  "says_allow d \<longleftrightarrow> py_lower (py_strip d) = ''allow''"

fun answers_yes :: "perm_op \<Rightarrow> string \<Rightarrow> bool" where
  "answers_yes (Answer t d sc) tok = (py_strip t = tok \<and> says_allow d)"
| "answers_yes _ tok = False"

fun external_ok :: "perm_op \<Rightarrow> bool" where
  "external_ok (Register req) = (ap_fingerprint req = None \<and> ap_batch req = [] \<and> ap_remaining req = [])"
| "external_ok _ = True"

lemma heir_refl [simp]: "heir a a"
  by (simp add: heir_def)

lemma heir_spent: "spent_form a b \<Longrightarrow> said_yes a \<Longrightarrow> heir a b \<and> said_yes b"
  by (auto simp: spent_form_def heir_def fps_of_def said_yes_def)

lemma heir_answered: "heir a (answered allow r a)" "said_yes (answered allow r a) \<longleftrightarrow> allow"
  by (auto simp: answered_def heir_def fps_of_def said_yes_def Let_def)

lemma heir_expired: "heir a (a\<lparr>ap_status := Expired\<rparr>)" "\<not> said_yes (a\<lparr>ap_status := Expired\<rparr>)"
  by (simp_all add: heir_def fps_of_def said_yes_def)

text \<open>The operator's answer.\<close>

lemma grant_project_frame:
  "grant_project_approval e p s = (s', r) \<Longrightarrow> st_approvals s' = st_approvals s \<and> st_task_grants s' = st_task_grants s
     \<and> st_modes s' = st_modes s \<and> st_bypass s' = st_bypass s \<and> st_confirmations s' = st_confirmations s"
  by (auto simp: grant_project_approval_def Let_def split: if_splits)

lemma revoke_project_frame:
  "st_approvals (fst (revoke_project_approval e p s)) = st_approvals s \<and>
   st_task_grants (fst (revoke_project_approval e p s)) = st_task_grants s
     \<and> st_modes (fst (revoke_project_approval e p s)) = st_modes s \<and> st_bypass (fst (revoke_project_approval e p s)) = st_bypass s
     \<and> st_confirmations (fst (revoke_project_approval e p s)) = st_confirmations s"
  by (simp add: revoke_project_approval_def Let_def)

lemma resolve_cases:
  fixes s :: permission_store
  assumes "fst (resolve_approval e t d sc s) = s'"
  obtains (nothing) "s' = s"
  | (expired) a where "dict_get (st_approvals s) (py_strip t) = Some a" "ap_status a = Pending" "same_rest s s'"
      "st_approvals s' = dict_set (py_strip t) (a\<lparr>ap_status := Expired\<rparr>) (st_approvals s)"
  | (given) a allow r g where "dict_get (st_approvals s) (py_strip t) = Some a" "ap_status a = Pending" "allow \<longleftrightarrow> says_allow d"
      "st_approvals s' = dict_set (py_strip t) (answered allow r a) (st_approvals s)"
      "st_task_grants s' = st_task_grants s @ (if allow \<and> g then [task_grant_of (answered allow r a)] else [])"
      "st_modes s' = st_modes s" "st_bypass s' = st_bypass s" "st_confirmations s' = st_confirmations s"
proof (cases "dict_get (st_approvals s) (py_strip t)")
  case None
  with assms have "s' = s" by (simp add: resolve_approval_def Let_def)
  then show ?thesis by (rule nothing)
next
  case (Some a)
  let ?d = "py_lower (py_strip d)"
  consider "ap_status a \<noteq> Pending \<or> ?d \<notin> {''allow'', ''deny''}"
    | "ap_status a = Pending" "?d \<in> {''allow'', ''deny''}" "ap_expires a \<le> pe_now e"
    | "ap_status a = Pending" "?d \<in> {''allow'', ''deny''}" "\<not> ap_expires a \<le> pe_now e" by blast
  then show ?thesis
  proof cases
    case 1
    with assms Some have "s' = s" by (auto simp: resolve_approval_def Let_def)
    then show ?thesis by (rule nothing)
  next
    case 2
    with assms Some have s': "s' = s\<lparr>st_approvals := dict_set (py_strip t) (a\<lparr>ap_status := Expired\<rparr>) (st_approvals s)\<rparr>"
      by (auto simp: resolve_approval_def Let_def)
    show ?thesis by (rule expired [OF Some 2(1)]) (simp_all add: s' same_rest_def)
  next
    case 3
    let ?r = "py_lower (py_strip (py_or sc ''once''))"
    let ?b = "answered (?d = ''allow'') ?r a"
    let ?s1 = "s\<lparr>st_approvals := dict_set (py_strip t) ?b (st_approvals s),
                st_task_grants := st_task_grants s @
                  (if ap_status ?b = Approved \<and> ap_scope ?b = Some Task_wide then [task_grant_of ?b] else [])\<rparr>"
    obtain s2 err where g: "grant_project_approval e (ap_project ?b) ?s1 = (s2, err)" by fastforce
    note fr = grant_project_frame [OF g]
    from assms Some 3 g have s': "s' = s2 \<or> s' = ?s1"
      by (auto simp: resolve_approval_def Let_def split: option.splits if_splits)
    have ap: "ap_status ?b = Approved \<longleftrightarrow> ?d = ''allow''" by (simp add: answered_def Let_def)
    show ?thesis
      by (rule given [of a "?d = ''allow''" ?r "ap_scope ?b = Some Task_wide"])
        (use s' fr ap Some 3 in \<open>auto simp: says_allow_def\<close>)
  qed
qed

text \<open>Every operation, by what it does to the approvals.\<close>

fun on_approvals :: "perm_op \<Rightarrow> bool" where
  "on_approvals (Register req) = True"
| "on_approvals (Answer t d sc) = True"
| "on_approvals (Grant_project p) = True"
| "on_approvals (Revoke_project p) = True"
| "on_approvals (Decide cx task c) = True"
| "on_approvals (Preview cx task c) = True"
| "on_approvals _ = False"

lemma perm_step_more: "\<not> on_approvals op \<Longrightarrow> modes_store.more (perm_step (e, op) s) = modes_store.more s"
  by (cases op) (simp_all add: modes_more)

lemma perm_step_cases:
  assumes "perm_step (e, op) s = s'"
  obtains (keep) "st_approvals s' = st_approvals s" "st_task_grants s' = st_task_grants s"
  | (spend) "spends s s'" "st_task_grants s' = st_task_grants s"
  | (register) req x where "op = Register req" "st_task_grants s' = st_task_grants s"
      "st_approvals s' = dict_set (pe_token e) (req\<lparr>ap_status := Pending, ap_expires := x\<rparr>) (st_approvals s)"
  | (ask) cx task c where "op = Decide cx task c" "st_task_grants s' = st_task_grants s"
      "raises e cx (mode_of e cx s) (session_of e cx s) (task_of e cx task s) (revision_of e cx s) c s s'"
  | (expire) t d sc a where "op = Answer t d sc" "dict_get (st_approvals s) (py_strip t) = Some a" "ap_status a = Pending"
      "st_task_grants s' = st_task_grants s"
      "st_approvals s' = dict_set (py_strip t) (a\<lparr>ap_status := Expired\<rparr>) (st_approvals s)"
  | (answer) t d sc a allow r g where "op = Answer t d sc" "dict_get (st_approvals s) (py_strip t) = Some a" "ap_status a = Pending"
      "allow \<longleftrightarrow> says_allow d" "st_approvals s' = dict_set (py_strip t) (answered allow r a) (st_approvals s)"
      "st_task_grants s' = st_task_grants s @ (if allow \<and> g then [task_grant_of (answered allow r a)] else [])"
proof (cases "on_approvals op")
  case False
  from more_keeps [OF perm_step_more [OF this, of e s]] keep show ?thesis using assms by simp
next
  case True
  show ?thesis
  proof (cases op)
    case (Register req)
    from assms Register have "s' = s\<lparr>st_approvals := dict_set (pe_token e) (req\<lparr>ap_status := Pending,
        ap_expires := (if ap_expires req = 0 then pe_now e + 86400 else ap_expires req)\<rparr>) (st_approvals s)\<rparr>"
      by (simp add: register_external_approval_def)
    then show ?thesis by (intro register [OF Register]) simp_all
  next
    case (Answer t d sc)
    with assms have "fst (resolve_approval e t d sc s) = s'" by simp
    then show ?thesis
    proof (cases rule: resolve_cases)
      case nothing
      then show ?thesis by (intro keep) simp_all
    next
      case (expired a)
      then show ?thesis by (intro expire [OF Answer]) (simp_all add: same_rest_def)
    next
      case (given a allow r g)
      from answer [OF Answer given(1-5)] show ?thesis .
    qed
  next
    case (Grant_project p)
    with assms have "fst (grant_project_approval e p s) = s'" by simp
    then obtain r where "grant_project_approval e p s = (s', r)" by (metis prod.collapse)
    from grant_project_frame [OF this] show ?thesis by (intro keep) simp_all
  next
    case (Revoke_project p)
    with assms revoke_project_frame [of e p s] show ?thesis by (intro keep) auto
  next
    case (Decide cx task c)
    with assms have "fst (decide_with True e cx task c s) = s'" by (simp add: decide_tool_call_def)
    then obtain d where d: "decide_with True e cx task c s = (s', d)" by (metis prod.collapse)
    from decide_frame [OF d] have tg: "st_task_grants s' = st_task_grants s" by (simp add: same_rest_def)
    from decide_frame [OF d] consider "st_approvals s' = st_approvals s" | "spends s s'"
      | "raises e cx (mode_of e cx s) (session_of e cx s) (task_of e cx task s) (revision_of e cx s) c s s'" by blast
    then show ?thesis by cases (fact keep [OF _ tg] spend [OF _ tg] ask [OF Decide tg])+
  next
    case (Preview cx task c)
    with assms have "fst (decide_with False e cx task c s) = s'"
      by (simp add: preview_tool_call_def split: prod.splits)
    then obtain d where d: "decide_with False e cx task c s = (s', d)" by (metis prod.collapse)
    from decide_frame [OF d] show ?thesis by (intro keep) (simp_all add: same_rest_def)
  qed (use True in simp_all)
qed

section \<open>Heritage\<close>

text \<open>An approval after a step comes from one before it, or was raised by the step; and none is lost.\<close>

lemma approval_origin:
  assumes "external_ok op" "dict_get (st_approvals (perm_step (e, op) s)) tok = Some b"
  obtains (old) a where "dict_get (st_approvals s) tok = Some a" "heir a b" "said_yes b \<Longrightarrow> said_yes a \<or> answers_yes op tok"
  | (registered) "tok = pe_token e" "fps_of b = {}" "\<not> said_yes b"
  | (asked) cx task c where "op = Decide cx task c" "tok = pe_token e" "\<not> said_yes b"
      "Deny \<notin> mode_matrix (mode_of e cx s) ` set (tc_actions c)"
      "fps_of b \<subseteq> insert (fp_of e cx task c s)
         (set (fst (planned_edit_batch e cx (session_of e cx s) (task_of e cx task s) (revision_of e cx s) c)))"
proof -
  have eq: "perm_step (e, op) s = perm_step (e, op) s" ..
  from eq show ?thesis
  proof (cases rule: perm_step_cases)
  case keep
  with assms(2) show ?thesis by (intro old [of b]) simp_all
next
  case spend
  then obtain t a x where x: "dict_get (st_approvals s) t = Some a" "said_yes a" "spent_form a x"
      "st_approvals (perm_step (e, op) s) = dict_set t x (st_approvals s)"
    by (auto simp: spends_def)
  show ?thesis
  proof (cases "tok = t")
    case True
    with x assms(2) heir_spent [OF x(3,2)] show ?thesis by (intro old [of a]) simp_all
  next
    case False
    with x assms(2) show ?thesis by (intro old [of b]) simp_all
  qed
next
  case (register req x)
  show ?thesis
  proof (cases "tok = pe_token e")
    case True
    with register assms show ?thesis by (intro registered) (auto simp: fps_of_def said_yes_def)
  next
    case False
    with register assms(2) show ?thesis by (intro old [of b]) simp_all
  qed
next
  case (ask cx task c)
  then obtain el pid where x: "Deny \<notin> mode_matrix (mode_of e cx s) ` set (tc_actions c)"
      "st_approvals (perm_step (e, op) s) = dict_set (pe_token e)
        (new_approval e (session_of e cx s) (task_of e cx task s) (revision_of e cx s) c (fp_of e cx task c s) el pid
          (fst (planned_edit_batch e cx (session_of e cx s) (task_of e cx task s) (revision_of e cx s) c))) (st_approvals s)"
    by (auto simp: raises_def fp_of_def)
  show ?thesis
  proof (cases "tok = pe_token e")
    case True
    with x assms(2) show ?thesis
      by (intro asked [OF ask(1)]) (auto simp: new_approval_def fps_of_def said_yes_def Let_def)
  next
    case False
    with x assms(2) show ?thesis by (intro old [of b]) simp_all
  qed
next
  case (expire t d sc a)
  show ?thesis
  proof (cases "tok = py_strip t")
    case True
    with expire assms(2) heir_expired show ?thesis by (intro old [of a]) (auto simp: heir_expired)
  next
    case False
    with expire assms(2) show ?thesis by (intro old [of b]) simp_all
  qed
next
  case (answer t d sc a allow r g)
  show ?thesis
  proof (cases "tok = py_strip t")
    case True
    with answer assms(2) show ?thesis by (intro old [of a]) (auto simp: heir_answered)
  next
    case False
    with answer assms(2) show ?thesis by (intro old [of b]) simp_all
  qed
qed
qed

lemma approval_kept:
  assumes "dict_get (st_approvals s) tok = Some a" "tok \<noteq> pe_token e"
  shows "\<exists>b. dict_get (st_approvals (perm_step (e, op) s)) tok = Some b \<and> heir a b \<and> (said_yes a \<longrightarrow> said_yes b)"
proof -
  have eq: "perm_step (e, op) s = perm_step (e, op) s" ..
  from eq show ?thesis
  proof (cases rule: perm_step_cases)
  case spend
  then obtain t x y where x: "dict_get (st_approvals s) t = Some x" "said_yes x" "spent_form x y"
      "st_approvals (perm_step (e, op) s) = dict_set t y (st_approvals s)"
    by (auto simp: spends_def)
  with assms(1) heir_spent [OF x(3,2)] show ?thesis by (cases "tok = t") auto
next
  case (ask cx task c)
  with assms(1,2) show ?thesis by (auto simp: raises_def)
next
  case (expire t d sc x)
  then have "\<not> said_yes x" by (simp add: said_yes_def)
  with expire assms(1) heir_expired show ?thesis by (cases "tok = py_strip t") auto
next
  case (answer t d sc x allow r g)
  then have "\<not> said_yes x" by (simp add: said_yes_def)
  with answer assms(1) heir_answered show ?thesis by (cases "tok = py_strip t") auto
qed (use assms in auto)
qed

lemma task_grant_origin:
  assumes "g \<in> set (st_task_grants (perm_step (e, op) s))"
  shows "g \<in> set (st_task_grants s) \<or>
    (\<exists>tok b. dict_get (st_approvals (perm_step (e, op) s)) tok = Some b \<and> said_yes b \<and> g = task_grant_of b)"
proof -
  have eq: "perm_step (e, op) s = perm_step (e, op) s" ..
  from eq show ?thesis
  proof (cases rule: perm_step_cases)
    case (answer t d sc a allow r k)
    with assms have "g \<in> set (st_task_grants s) \<or> allow \<and> g = task_grant_of (answered allow r a)"
      by (auto split: if_splits)
    with answer show ?thesis by (auto simp: heir_answered)
  qed (use assms in auto)
qed

lemma wf_approvals_step: "wf_dict (st_approvals s) \<Longrightarrow> wf_dict (st_approvals (perm_step (e, op) s))"
proof -
  assume wf: "wf_dict (st_approvals s)"
  have eq: "perm_step (e, op) s = perm_step (e, op) s" ..
  from eq show ?thesis
  proof (cases rule: perm_step_cases)
    case spend
    with wf show ?thesis by (auto simp: spends_def)
  next
    case (ask cx task c)
    with wf show ?thesis by (auto simp: raises_def)
  qed (use wf in auto)
qed

section \<open>The invariants of a run\<close>

definition never_drawn :: "string \<Rightarrow> 'a permission_store_scheme \<Rightarrow> bool" where
  "never_drawn t s \<longleftrightarrow> t \<notin> set (dict_keys (st_approvals s)) \<and> t \<notin> set (dict_keys (st_bypass s)) \<and>
     t \<notin> set (dict_keys (st_confirmations s)) \<and> t \<notin> set (dict_keys (st_internal s))"

text \<open>
  A lawful operation: the random text it draws is not in use, and an approval registered from outside
  (a provider's spend consent) carries no fingerprint of a tool call, as its one caller's does not.
\<close>

fun perm_lawful :: "permission_env \<times> perm_op \<Rightarrow> permission_store \<Rightarrow> bool" where
  "perm_lawful (e, op) s = (external_ok op \<and> never_drawn (pe_token e) s)"

subsection \<open>Fingerprints raised\<close>

lemma batch_members_fps:
  "fp \<in> set (fst (batch_members F P cs acc)) \<Longrightarrow> fp \<in> set (fst acc) \<or> (\<exists>c. P c \<and> fp = F c)"
proof (induction F P cs acc rule: batch_members.induct)
  case (2 F P c cs fps covered excluded)
  then show ?case by (auto split: if_splits)
qed simp

lemma planned_fps:
  assumes "fp \<in> set (fst (planned_edit_batch e cx se ta re head))"
  obtains c where "fp = call_fingerprint e cx se ta re c" "c = head \<or> within_actions (tc_actions c) write_actions"
proof -
  from assms have "fp \<in> set (fst (batch_members (call_fingerprint e cx se ta re) (request_scope_eligible e cx)
      (map (\<lambda>c. c\<lparr>tc_intent := py_strip (tc_intent c)\<rparr>) (take max_request_members (cx_batch cx)))
      ([call_fingerprint e cx se ta re head], [head], [])))"
    by (auto simp: planned_edit_batch_def split: if_splits prod.splits)
  from batch_members_fps [OF this] consider "fp = call_fingerprint e cx se ta re head"
    | c where "request_scope_eligible e cx c" "fp = call_fingerprint e cx se ta re c" by auto
  then show ?thesis
  proof cases
    case (2 c)
    then show ?thesis by (intro that [of c]) (auto simp: request_scope_eligible_def split: if_splits)
  qed (use that in blast)
qed

lemma fingerprint_parts:
  "set (id_effects (fp_identity (call_fingerprint e cx se ta re c))) = set (tc_actions c)"
  "fp_session (call_fingerprint e cx se ta re c) = se" "fp_revision (call_fingerprint e cx se ta re c) = re"
  by (simp_all add: call_fingerprint_def resolved_identity_def Let_def)

text \<open>What a decision raises is for its own session and revision, and for actions its mode does not deny.\<close>

lemma raised_fps:
  assumes "fp \<in> insert (fp_of e cx task c s)
      (set (fst (planned_edit_batch e cx (session_of e cx s) (task_of e cx task s) (revision_of e cx s) c)))"
  shows "fp_session fp = session_of e cx s \<and> fp_revision fp = revision_of e cx s \<and>
     (set (id_effects (fp_identity fp)) = set (tc_actions c) \<or> set (id_effects (fp_identity fp)) \<subseteq> set write_actions)"
proof -
  from assms consider "fp = fp_of e cx task c s"
    | "fp \<in> set (fst (planned_edit_batch e cx (session_of e cx s) (task_of e cx task s) (revision_of e cx s) c))" by blast
  then show ?thesis
  proof cases
    case 2
    then show ?thesis by (rule planned_fps) (auto simp: fingerprint_parts within_actions_def)
  qed (simp add: fp_of_def fingerprint_parts)
qed

subsection \<open>No secrets\<close>

definition clean_fp :: "fingerprint \<Rightarrow> bool" where
  "clean_fp fp \<longleftrightarrow> Access_secrets \<notin> set (id_effects (fp_identity fp))"

definition no_secrets :: "permission_store \<Rightarrow> bool" where
  "no_secrets s \<longleftrightarrow> wf_dict (st_approvals s) \<and>
     (\<forall>tok a fp. dict_get (st_approvals s) tok = Some a \<longrightarrow> fp \<in> fps_of a \<longrightarrow> clean_fp fp) \<and>
     (\<forall>g fp. g \<in> set (st_task_grants s) \<longrightarrow> tg_fingerprint g = Some fp \<longrightarrow> clean_fp fp)"

lemma no_secrets_step:
  assumes ok: "no_secrets s" and law: "external_ok op"
  shows "no_secrets (perm_step (e, op) s)"
proof -
  let ?s = "perm_step (e, op) s"
  have a: "clean_fp fp" if "dict_get (st_approvals ?s) tok = Some b" "fp \<in> fps_of b" for tok b fp
    using law that(1)
  proof (cases rule: approval_origin)
    case (old a)
    with ok that(2) show ?thesis by (auto simp: no_secrets_def heir_def)
  next
    case registered
    with that(2) show ?thesis by simp
  next
    case (asked cx task c)
    from asked(4) have "Access_secrets \<notin> set (tc_actions c)" using secrets_denied by (metis imageI)
    with raised_fps [of fp e cx task c s] asked(5) that(2) show ?thesis
      by (auto simp: clean_fp_def write_actions_def)
  qed
  have "clean_fp fp" if "g \<in> set (st_task_grants ?s)" "tg_fingerprint g = Some fp" for g fp
    using task_grant_origin [OF that(1)]
  proof
    assume "g \<in> set (st_task_grants s)"
    with ok that(2) show ?thesis by (auto simp: no_secrets_def)
  next
    assume "\<exists>tok b. dict_get (st_approvals ?s) tok = Some b \<and> said_yes b \<and> g = task_grant_of b"
    then obtain tok b where b: "dict_get (st_approvals ?s) tok = Some b" "g = task_grant_of b" by blast
    with that(2) have "fp \<in> fps_of b" by (simp add: task_grant_of_def fps_of_def)
    with a b show ?thesis by blast
  qed
  with a show ?thesis using wf_approvals_step ok by (auto simp: no_secrets_def)
qed

interpretation perms: lawful_system perm_step perm_lawful no_secrets
proof
  fix s x
  assume "no_secrets s" "perm_lawful x s"
  then show "no_secrets (perm_step x s)" by (cases x) (simp add: no_secrets_step)
qed

lemma empty_no_secrets: "no_secrets empty_store"
  by (simp add: no_secrets_def empty_store_def)

subsection \<open>Every yes is the operator's\<close>

definition answered_in :: "(permission_env \<times> perm_op) list \<Rightarrow> string \<Rightarrow> bool" where
  "answered_in ops tok \<longleftrightarrow> (\<exists>(e, op) \<in> set ops. answers_yes op tok)"

definition backed :: "task_grant \<Rightarrow> approval \<Rightarrow> bool" where
  "backed g a \<longleftrightarrow> said_yes a \<and> ap_session a = tg_session g \<and> ap_task a = tg_task g \<and> ap_expires a = tg_expires g \<and>
     ap_fingerprint a = tg_fingerprint g"

definition yes_by_operator :: "(permission_env \<times> perm_op) list \<Rightarrow> permission_store \<Rightarrow> bool" where
  "yes_by_operator ops s \<longleftrightarrow>
     (\<forall>tok a. dict_get (st_approvals s) tok = Some a \<longrightarrow> said_yes a \<longrightarrow> answered_in ops tok) \<and>
     (\<forall>g \<in> set (st_task_grants s). \<exists>tok a. dict_get (st_approvals s) tok = Some a \<and> backed g a)"

lemma backed_heir: "backed g a \<Longrightarrow> heir a b \<Longrightarrow> said_yes b \<Longrightarrow> backed g b"
  by (simp add: backed_def heir_def)

lemma backed_grant: "said_yes b \<Longrightarrow> backed (task_grant_of b) b"
  by (simp add: backed_def task_grant_of_def)

lemma yes_by_operator_step:
  assumes ok: "yes_by_operator ops s" and law: "perm_lawful (e, op) s"
  shows "yes_by_operator (ops @ [(e, op)]) (perm_step (e, op) s)"
proof -
  let ?s = "perm_step (e, op) s"
  from law have ext: "external_ok op" and new: "dict_get (st_approvals s) (pe_token e) = None"
    by (auto simp: never_drawn_def dict_get_None_iff)
  have a: "answered_in (ops @ [(e, op)]) tok" if "dict_get (st_approvals ?s) tok = Some b" "said_yes b" for tok b
    using ext that(1)
  proof (cases rule: approval_origin)
    case (old a)
    with ok that(2) show ?thesis by (auto simp: yes_by_operator_def answered_in_def)
  qed (use that(2) in auto)
  have "\<exists>tok b. dict_get (st_approvals ?s) tok = Some b \<and> backed g b" if "g \<in> set (st_task_grants ?s)" for g
    using task_grant_origin [OF that]
  proof
    assume "g \<in> set (st_task_grants s)"
    with ok obtain tok a where a: "dict_get (st_approvals s) tok = Some a" "backed g a"
      by (auto simp: yes_by_operator_def)
    with new have "tok \<noteq> pe_token e" by auto
    from approval_kept [OF a(1) this, of op] obtain b where b: "dict_get (st_approvals ?s) tok = Some b" "heir a b"
        "said_yes a \<longrightarrow> said_yes b" by blast
    from a(2) have "said_yes a" by (simp add: backed_def)
    with b a(2) have "backed g b" by (intro backed_heir [of g a b]) simp_all
    with b(1) show ?thesis by blast
  next
    assume "\<exists>tok b. dict_get (st_approvals ?s) tok = Some b \<and> said_yes b \<and> g = task_grant_of b"
    then show ?thesis using backed_grant by blast
  qed
  with a show ?thesis by (simp add: yes_by_operator_def)
qed

lemma run_yes_by_operator:
  "perms.lawful_run ops empty_store \<Longrightarrow> yes_by_operator ops (fold perm_step ops empty_store)"
proof (induction ops rule: rev_induct)
  case Nil
  then show ?case by (simp add: yes_by_operator_def empty_store_def)
next
  case (snoc x ops)
  then show ?case by (cases x) (simp add: perms.lawful_run_append yes_by_operator_step del: perm_lawful.simps)
qed

text \<open>An approval or a task grant behind a decision is one of the store, answered yes.\<close>

lemma entry_get: "wf_dict d \<Longrightarrow> (k, v) \<in> set d \<Longrightarrow> dict_get d k = Some v"
  by (rule dict_mem_get)

lemma decision_backing:
  assumes wf: "wf_dict (st_approvals s)" and yes: "yes_by_operator ops s"
    and src: "(\<exists>(k, a) \<in> set (st_approvals s). grants e se ta fp a) \<or> task_approved e se ta c re fp s"
  obtains tok a where "dict_get (st_approvals s) tok = Some a" "grants e se ta fp a" "answered_in ops tok"
proof -
  from src have "\<exists>tok a. dict_get (st_approvals s) tok = Some a \<and> grants e se ta fp a"
  proof
    assume "\<exists>(k, a) \<in> set (st_approvals s). grants e se ta fp a"
    with wf show ?thesis using entry_get by fast
  next
    assume "task_approved e se ta c re fp s"
    then obtain g where g: "g \<in> set (st_task_grants s)" "tg_session g = Some se" "tg_task g = ta" "pe_now e < tg_expires g"
        "tg_fingerprint g = Some fp"
      by (auto simp: task_approved_def list_ex_iff)
    with yes obtain tok a where "dict_get (st_approvals s) tok = Some a" "backed g a"
      by (auto simp: yes_by_operator_def)
    with g show ?thesis
      by (intro exI [of _ tok] exI [of _ a]) (auto simp: backed_def grants_def session_text_def fps_of_def)
  qed
  then obtain tok a where a: "dict_get (st_approvals s) tok = Some a" "grants e se ta fp a" by blast
  with yes have "answered_in ops tok" by (auto simp: yes_by_operator_def grants_def)
  with a that show ?thesis by blast
qed

end
