(* ===== verification/Mode_Bypass_Runs.thy ===== *)
theory Mode_Bypass_Runs
  imports Mode_Approval_Runs
begin

text \<open>
  Runs of the permission module, as far as modes and bypass grants go: the revision of a session only
  rises, a grant comes from an activation that found its own confirmation, and a revoked one stays so.
\<close>

section \<open>Dictionaries rewritten in place\<close>

lemma dict_get_map_entries: "dict_get (map (\<lambda>(k, v). (k, f k v)) d) x = map_option (f x) (dict_get d x)"
  by (induction d) auto

lemma dict_get_map_values: "dict_get (map (\<lambda>(k, v). (k, f v)) d) x = map_option f (dict_get d x)"
  by (induction d) auto

lemma set_dict_set_subset: "set (dict_set k v d) \<subseteq> insert (k, v) (set d)"
  by (induction d) auto

section \<open>Revisions\<close>

definition current_revision :: "'a modes_store_scheme \<Rightarrow> string \<Rightarrow> nat" where
  "current_revision s c = (case state_of s c of None \<Rightarrow> 0 | Some st \<Rightarrow> ms_revision st)"

lemma current_revision_frame: "st_modes s' = st_modes s \<Longrightarrow> current_revision s c \<le> current_revision s' c"
  by (simp add: current_revision_def state_of_def)

lemma retire_token_modes [simp]: "st_modes (retire_token t s) = st_modes s"
  by (simp add: retire_token_def split: option.split)

lemma set_active_mode_revision:
  "current_revision s x \<le> current_revision (fst (set_active_mode e session mode project turn token wroot s)) x"
  by (auto simp: set_active_mode_def current_revision_def state_of_def Let_def split: option.split)

lemma set_active_mode_result:
  assumes "set_active_mode e session mode project turn token wroot s = (s', Inr st)"
  shows "state_of s' (py_strip session) = Some st"
    and "map_option ms_mode (state_of s (py_strip session)) \<noteq> Some (ms_mode st)
      \<Longrightarrow> current_revision s (py_strip session) < current_revision s' (py_strip session)"
  using assms
  by (auto simp: set_active_mode_def current_revision_def state_of_def Let_def split: option.splits if_splits)

lemma register_mode_revision:
  "current_revision s x \<le> current_revision (fst (register_mode e c r project turn token wroot s)) x"
  by (auto simp: register_mode_def set_active_mode_revision split: option.split)

lemma resolve_mode_revision:
  "current_revision s x \<le> current_revision (fst (resolve_effective_mode e session r project turn token wroot s)) x"
  by (simp add: resolve_effective_mode_def Let_def with_answer_def register_mode_revision)

lemma revoke_revision: "current_revision s x \<le> current_revision (fst (revoke_bypass_grant e token s)) x"
  by (auto simp: revoke_bypass_grant_def Let_def current_revision_def state_of_def dict_get_map_values back_to_manual_def
      split: option.split)

lemma revoke_session_revision: "current_revision s x \<le> current_revision (fst (revoke_session_bypass_grants e session s)) x"
  by (auto simp: revoke_session_bypass_grants_def Let_def current_revision_def state_of_def dict_get_map_entries back_to_manual_def
      split: option.split)

text \<open>The operations on internal scopes and confirmations, and those on approvals, keep modes and grants.\<close>

lemma scope_ops_keep:
  "st_modes (fst (grant_internal_authority e label acts duration session task intents wroot s)) = st_modes s"
  "st_bypass (fst (grant_internal_authority e label acts duration session task intents wroot s)) = st_bypass s"
  "st_confirmations (fst (grant_internal_authority e label acts duration session task intents wroot s)) = st_confirmations s"
  by (simp_all add: grant_internal_authority_def Let_def)

lemma grant_chat_keep:
  "st_modes (fst (grant_chat_workspace_authority e session wroot duration s)) = st_modes s \<and>
   st_bypass (fst (grant_chat_workspace_authority e session wroot duration s)) = st_bypass s \<and>
   st_confirmations (fst (grant_chat_workspace_authority e session wroot duration s)) = st_confirmations s"
proof -
  let ?b = "max 60 (min (if duration = 0 then 28800 else duration) 86400)"
  obtain s' r where g: "grant_internal_authority e ''chat workspace read/edit approval'' chat_workspace_actions ?b
      (py_strip session) [] [] (py_strip wroot) s = (s', r)" by fastforce
  have "st_modes s' = st_modes s" "st_bypass s' = st_bypass s" "st_confirmations s' = st_confirmations s"
    by (metis g scope_ops_keep(1) fst_conv, metis g scope_ops_keep(2) fst_conv, metis g scope_ops_keep(3) fst_conv)
  then show ?thesis
    by (cases r) (simp_all add: grant_chat_workspace_authority_def Let_def g split: option.split)
qed

lemma chat_state_keep:
  "st_modes (fst (chat_workspace_authority_state e session s)) = st_modes s \<and>
   st_bypass (fst (chat_workspace_authority_state e session s)) = st_bypass s \<and>
   st_confirmations (fst (chat_workspace_authority_state e session s)) = st_confirmations s"
proof (cases "dict_get (st_chat_scopes s) (py_strip session)")
  case (Some t)
  obtain s' r where g: "internal_scope_for e (py_strip t) s = (s', r)" by fastforce
  from internal_scope_frame [OF g] Some g show ?thesis
    by (cases r) (simp_all add: chat_workspace_authority_state_def Let_def)
qed (simp add: chat_workspace_authority_state_def)

lemma revoke_scope_keep:
  "st_modes (fst (revoke_internal_authority token s)) = st_modes s"
  "st_bypass (fst (revoke_internal_authority token s)) = st_bypass s"
  "st_confirmations (fst (revoke_internal_authority token s)) = st_confirmations s"
  "st_modes (fst (revoke_chat_workspace_authority session s)) = st_modes s"
  "st_bypass (fst (revoke_chat_workspace_authority session s)) = st_bypass s"
  "st_confirmations (fst (revoke_chat_workspace_authority session s)) = st_confirmations s"
  by (simp_all add: revoke_internal_authority_def revoke_chat_workspace_authority_def Let_def split: option.split)

lemma activate_modes: "st_modes (fst (activate_bypass_grant e cid r s)) = st_modes s"
proof -
  obtain s' w where c: "consume_bypass_confirmation e cid r s = (s', w)" by fastforce
  then have "st_modes s' = st_modes s" using consume_confirmation_fst [of e cid r s] by simp
  with c show ?thesis by (simp add: activate_bypass_grant_def Let_def split: option.split)
qed

definition modes_kept :: "permission_store \<Rightarrow> permission_store \<Rightarrow> bool" where
  "modes_kept s s' \<longleftrightarrow> st_modes s' = st_modes s \<and> st_bypass s' = st_bypass s \<and> st_confirmations s' = st_confirmations s"

lemma on_approvals_keep: "on_approvals op \<Longrightarrow> modes_kept s (perm_step (e, op) s)"
proof (cases op)
  case (Answer t d sc)
  define s' where "s' = fst (resolve_approval e t d sc s)"
  then have "fst (resolve_approval e t d sc s) = s'" by simp
  then have "modes_kept s s'"
  proof (cases rule: resolve_cases)
    case nothing
    then show ?thesis by (simp add: modes_kept_def)
  next
    case (expired a)
    then show ?thesis by (simp add: modes_kept_def same_rest_def)
  next
    case (given a allow r g)
    show ?thesis unfolding modes_kept_def by (intro conjI given)
  qed
  then show ?thesis by (simp add: Answer s'_def)
next
  case (Grant_project p)
  obtain s' r where g: "grant_project_approval e p s = (s', r)" by fastforce
  from grant_project_frame [OF g] show ?thesis by (simp add: Grant_project g modes_kept_def)
next
  case (Decide cx task c)
  obtain s' d where d: "decide_with True e cx task c s = (s', d)" by fastforce
  from decide_frame [OF d] show ?thesis by (simp add: Decide d decide_tool_call_def modes_kept_def same_rest_def)
next
  case (Preview cx task c)
  obtain s' d where d: "decide_with False e cx task c s = (s', d)" by fastforce
  from decide_frame [OF d] show ?thesis by (simp add: Preview d preview_tool_call_def modes_kept_def same_rest_def)
qed (simp_all add: modes_kept_def register_external_approval_def revoke_project_frame)

lemma revision_rises: "current_revision s x \<le> current_revision (perm_step (e, op) s) x"
proof (cases "on_approvals op")
  case True
  from on_approvals_keep [OF this, of s e] show ?thesis
    by (intro current_revision_frame) (simp add: modes_kept_def)
next
  case False
  then show ?thesis
  proof (cases op)
    case (Confirm r)
    show ?thesis by (rule current_revision_frame) (simp add: Confirm request_bypass_confirmation_def Let_def)
  next
    case (Activate cid r)
    show ?thesis by (rule current_revision_frame) (simp add: Activate activate_modes)
  next
    case (Grant_scope a b c d f g h)
    show ?thesis by (rule current_revision_frame) (simp add: Grant_scope scope_ops_keep)
  next
    case (Revoke_scope t)
    show ?thesis by (rule current_revision_frame) (simp add: Revoke_scope revoke_scope_keep)
  next
    case (Grant_chat_scope a b c)
    show ?thesis by (rule current_revision_frame) (simp add: Grant_chat_scope grant_chat_keep)
  next
    case (Revoke_chat_scope c)
    show ?thesis by (rule current_revision_frame) (simp add: Revoke_chat_scope revoke_scope_keep)
  next
    case (Chat_scope_state c)
    show ?thesis by (rule current_revision_frame) (simp add: Chat_scope_state chat_state_keep)
  qed (simp_all add: set_active_mode_revision resolve_mode_revision revoke_revision revoke_session_revision)
qed

section \<open>Bypass grants\<close>

text \<open>Every operation, by what it does to the grants and the confirmations.\<close>

definition newly_granted ::
  "permission_env \<Rightarrow> string \<Rightarrow> bypass_request \<Rightarrow> permission_store \<Rightarrow> bypass_grant \<Rightarrow> bool" where
  "newly_granted e cid r s g \<longleftrightarrow>
     (\<exists>c. (cid, c) \<in> set (st_confirmations s) \<and> pe_now e - cf_minted c \<le> confirmation_ttl \<and> cf_request c = clean_request r) \<and>
     bg_session g = br_session (clean_request r) \<and> bg_until_off g = br_until_off r \<and> \<not> bg_revoked g"

lemma differing_None: "differing_binding a b = None \<Longrightarrow> a = b"
  by (cases a; cases b) (auto simp: differing_binding_def split: if_splits)

lemma activate_cases:
  obtains (refused) "st_bypass (fst (activate_bypass_grant e cid r s)) = st_bypass s"
  | (undone) "st_bypass (fst (activate_bypass_grant e cid r s)) = dict_pop (pe_token e) (st_bypass s)"
  | (granted) g where "st_bypass (fst (activate_bypass_grant e cid r s)) = dict_set (pe_token e) g (st_bypass s)"
      "\<exists>c. (cid, c) \<in> set (st_confirmations s) \<and> pe_now e - cf_minted c \<le> confirmation_ttl \<and> cf_request c = clean_request r"
      "bg_session g = br_session (clean_request r)" "bg_until_off g = br_until_off r" "\<not> bg_revoked g"
proof (cases "consume_bypass_confirmation e cid r s")
  case (Pair s' w)
  then have s': "st_bypass s' = st_bypass s" using consume_confirmation_fst [of e cid r s] by simp
  show ?thesis
  proof (cases "w = None \<and> bypass_refusal e (clean_request r) = None")
    case False
    then show ?thesis using Pair s'
      by (intro refused) (auto simp: activate_bypass_grant_def Let_def split: option.splits)
  next
    case ok: True
    show ?thesis
    proof (cases "br_until_off (clean_request r) \<and> \<not> pe_durable e")
      case True
      with ok Pair s' show ?thesis by (intro undone) (simp add: activate_bypass_grant_def Let_def)
    next
      case False
      from ok Pair obtain c where c: "dict_get (st_confirmations s) cid = Some c" "\<not> confirmation_ttl < pe_now e - cf_minted c"
          "differing_binding (cf_request c) (clean_request r) = None"
        by (auto simp: consume_bypass_confirmation_def Let_def split: option.splits if_splits)
      with differing_None have conf: "\<exists>c. (cid, c) \<in> set (st_confirmations s) \<and> pe_now e - cf_minted c \<le> confirmation_ttl \<and>
          cf_request c = clean_request r"
        by (intro exI [of _ c]) (auto dest: dict_get_mem)
      let ?q = "clean_request r"
      let ?g = "\<lparr>bg_token = pe_token e, bg_session = br_session ?q, bg_project = br_project ?q, bg_task = br_task ?q,
                 bg_scope = the (bypass_scope_of (br_scope ?q)), bg_issued = pe_now e,
                 bg_expires = (if br_until_off ?q then None
                               else Some (pe_now e + of_int (max 60 (min (br_duration ?q) 86400)))),
                 bg_until_off = br_until_off ?q, bg_root = (if br_until_off ?q then br_root ?q else []), bg_revoked = False\<rparr>"
      have "st_bypass (fst (activate_bypass_grant e cid r s)) = dict_set (pe_token e) ?g (st_bypass s)"
        using ok Pair False s' by (simp add: activate_bypass_grant_def Let_def del: of_int_max of_int_min)
      then show ?thesis using conf by (rule granted) (simp_all add: clean_request_def)
    qed
  qed
qed

text \<open>\<open>older\<close>: the same grant, perhaps revoked since.\<close>

definition older :: "bypass_grant \<Rightarrow> bypass_grant \<Rightarrow> bool" where
  "older g g' \<longleftrightarrow> g' = g \<or> g' = g\<lparr>bg_revoked := True\<rparr>"

lemma older_revoked: "older g g' \<Longrightarrow> bg_revoked g \<Longrightarrow> bg_revoked g'"
  by (auto simp: older_def)

lemma older_session: "older g g' \<Longrightarrow> bg_session g' = bg_session g"
  by (auto simp: older_def)

definition aged :: "(string, bypass_grant) dict \<Rightarrow> (string, bypass_grant) dict \<Rightarrow> bool" where
  "aged d d' \<longleftrightarrow> (\<forall>t g. dict_get d t = Some g \<longrightarrow> (\<exists>g'. dict_get d' t = Some g' \<and> older g g')) \<and>
     (\<forall>t g'. (t, g') \<in> set d' \<longrightarrow> (\<exists>g. (t, g) \<in> set d \<and> older g g'))"

lemma aged_refl: "aged d d"
  by (auto simp: aged_def older_def)

lemma aged_revoke:
  assumes "dict_get d t = Some g" shows "aged d (dict_set t (g\<lparr>bg_revoked := True\<rparr>) d)"
proof -
  have "\<exists>h. (x, h) \<in> set d \<and> older h h'" if "(x, h') \<in> set (dict_set t (g\<lparr>bg_revoked := True\<rparr>) d)" for x h'
    using that set_dict_set_subset [of t "g\<lparr>bg_revoked := True\<rparr>" d] dict_get_mem [OF assms] by (fastforce simp: older_def)
  then show ?thesis using assms by (auto simp: aged_def older_def)
qed

lemma aged_mark: "aged d (map (\<lambda>(k, g). (k, if hit g then g\<lparr>bg_revoked := True\<rparr> else g)) d)"
  unfolding aged_def older_def by (auto simp: dict_get_map_values)

lemma retire_token_aged: "aged (st_bypass s) (st_bypass (retire_token t s))"
proof (cases "dict_get (st_bypass s) t")
  case (Some g)
  from aged_revoke [OF this] show ?thesis by (simp add: retire_token_def Some)
qed (simp add: retire_token_def aged_refl)

lemma set_active_mode_aged: "aged (st_bypass s) (st_bypass (fst (set_active_mode e session mode project turn token wroot s)))"
  by (simp add: set_active_mode_def Let_def retire_token_aged aged_refl split: option.split)

lemma register_mode_aged: "aged (st_bypass s) (st_bypass (fst (register_mode e c r project turn token wroot s)))"
  by (simp add: register_mode_def set_active_mode_aged aged_refl split: option.split)

lemma resolve_mode_aged: "aged (st_bypass s) (st_bypass (fst (resolve_effective_mode e session r project turn token wroot s)))"
  by (simp add: resolve_effective_mode_def Let_def with_answer_def register_mode_aged aged_refl)

lemma mode_ops_confirmations:
  "st_confirmations (fst (set_active_mode e session mode project turn token wroot s)) = st_confirmations s"
  "st_confirmations (fst (resolve_effective_mode e session r project turn token wroot s)) = st_confirmations s"
  "st_confirmations (fst (revoke_bypass_grant e token s)) = st_confirmations s"
  "st_confirmations (fst (revoke_session_bypass_grants e session s)) = st_confirmations s"
proof -
  have set: "st_confirmations (fst (set_active_mode e session mode project turn token wroot s)) = st_confirmations s"
    for session mode project turn token wroot
    by (simp add: set_active_mode_def retire_token_def Let_def split: option.split)
  then show "st_confirmations (fst (set_active_mode e session mode project turn token wroot s)) = st_confirmations s" .
  show "st_confirmations (fst (resolve_effective_mode e session r project turn token wroot s)) = st_confirmations s"
    by (simp add: resolve_effective_mode_def Let_def with_answer_def register_mode_def set split: option.split)
  show "st_confirmations (fst (revoke_bypass_grant e token s)) = st_confirmations s"
    by (simp add: revoke_bypass_grant_def Let_def split: option.split)
  show "st_confirmations (fst (revoke_session_bypass_grants e session s)) = st_confirmations s"
    by (simp add: revoke_session_bypass_grants_def Let_def)
qed

lemma perm_step_bypass:
  obtains (aged) "aged (st_bypass s) (st_bypass (perm_step (e, op) s))"
  | (undone) "st_bypass (perm_step (e, op) s) = dict_pop (pe_token e) (st_bypass s)"
  | (granted) cid r g where "op = Activate cid r" "st_bypass (perm_step (e, op) s) = dict_set (pe_token e) g (st_bypass s)"
      "\<exists>c. (cid, c) \<in> set (st_confirmations s) \<and> pe_now e - cf_minted c \<le> confirmation_ttl \<and> cf_request c = clean_request r"
      "bg_session g = br_session (clean_request r)"
proof (cases "on_approvals op")
  case True
  from on_approvals_keep [OF this, of s e] aged_refl show ?thesis by (intro aged) (simp add: modes_kept_def)
next
  case False
  then show ?thesis
  proof (cases op)
    case (Set_mode a b c d f g)
    show ?thesis by (rule aged) (simp add: Set_mode set_active_mode_aged)
  next
    case (Resolve_mode a b c d f g)
    show ?thesis by (rule aged) (simp add: Resolve_mode resolve_mode_aged)
  next
    case (Activate cid r)
    show ?thesis
      by (cases rule: activate_cases [of e cid r s])
        (use Activate aged aged_refl undone granted in \<open>auto simp del: dict_get_set\<close>)
  next
    case (Revoke t)
    show ?thesis
      by (rule aged) (simp add: Revoke revoke_bypass_grant_def Let_def aged_refl aged_revoke split: option.split)
  next
    case (Revoke_session c)
    show ?thesis
      by (rule aged) (simp add: Revoke_session revoke_session_bypass_grants_def Let_def aged_refl aged_mark)
  next
    case (Confirm r)
    show ?thesis using aged_refl by (intro aged) (simp add: Confirm request_bypass_confirmation_def Let_def)
  next
    case (Grant_scope a b c d f g h)
    show ?thesis using aged_refl by (intro aged) (simp add: Grant_scope scope_ops_keep)
  next
    case (Revoke_scope t)
    show ?thesis using aged_refl by (intro aged) (simp add: Revoke_scope revoke_scope_keep)
  next
    case (Grant_chat_scope a b c)
    show ?thesis using aged_refl by (intro aged) (simp add: Grant_chat_scope grant_chat_keep)
  next
    case (Revoke_chat_scope c)
    show ?thesis using aged_refl by (intro aged) (simp add: Revoke_chat_scope revoke_scope_keep)
  next
    case (Chat_scope_state c)
    show ?thesis using aged_refl by (intro aged) (simp add: Chat_scope_state chat_state_keep)
  qed simp_all
qed

end
