(* ===== verification/Mode_Permission_Safety.thy ===== *)
theory Mode_Permission_Safety
  imports Mode_Bypass_Runs
begin

text \<open>
  What the permission module guarantees over every run of its operations from an empty store:
  secrets are never allowed, the ceilinged actions only by the operator's own answer for that exact
  call, a change of mode voids every approval before it, a revoked bypass grant never counts again
  and each one was confirmed, and the preview says what the decision would do.
\<close>

lemma dict_get_key: "dict_get d k = Some v \<Longrightarrow> k \<in> set (dict_keys d)"
  by (drule dict_get_mem) (simp add: rev_image_eqI)

lemma dict_key_get: "k \<in> set (dict_keys d) \<Longrightarrow> \<exists>v. dict_get d k = Some v"
  by (rule ccontr) (simp add: dict_get_None_iff)

section \<open>Bypass grants over a run\<close>

lemma confirmation_origin:
  assumes "(cid, c) \<in> set (st_confirmations (perm_step (e, op) s))"
  shows "(cid, c) \<in> set (st_confirmations s) \<or>
    (\<exists>r. op = Confirm r \<and> cid = pe_token e \<and> cf_request c = clean_request r \<and> cf_minted c = pe_now e)"
proof (cases "on_approvals op")
  case True
  from on_approvals_keep [OF this, of s e] assms show ?thesis by (simp add: modes_kept_def)
next
  case False
  then show ?thesis
  proof (cases op)
    case (Confirm r)
    show ?thesis
    proof (cases "br_session (clean_request r) = []")
      case True
      with assms show ?thesis by (simp add: Confirm request_bypass_confirmation_def)
    next
      case False
      from assms have "(cid, c) \<in> set (dict_set (pe_token e) \<lparr>cf_request = clean_request r, cf_minted = pe_now e\<rparr>
          (filter (\<lambda>(c, v). \<not> confirmation_ttl < pe_now e - cf_minted v) (st_confirmations s)))"
        using False by (simp add: Confirm request_bypass_confirmation_def Let_def)
      with set_dict_set_subset have "(cid, c) \<in> insert (pe_token e, \<lparr>cf_request = clean_request r, cf_minted = pe_now e\<rparr>)
          (set (st_confirmations s))" by fastforce
      then show ?thesis using Confirm by auto
    qed
  next
    case (Activate cid' r)
    obtain s' w where p: "consume_bypass_confirmation e cid' r s = (s', w)" by fastforce
    then have "st_confirmations s' = dict_pop cid' (st_confirmations s)"
      using consume_confirmation_fst [of e cid' r s] by simp
    moreover have "st_confirmations (perm_step (e, op) s) = st_confirmations s'"
      by (simp add: Activate activate_bypass_grant_def p Let_def split: option.split)
    ultimately show ?thesis using assms by (simp add: set_dict_pop)
  next
    case (Grant_scope a b c d f g h)
    with assms show ?thesis by (simp add: scope_ops_keep)
  next
    case (Revoke_scope t)
    with assms show ?thesis by (simp add: revoke_scope_keep)
  next
    case (Grant_chat_scope a b c)
    with assms show ?thesis by (simp add: grant_chat_keep)
  next
    case (Revoke_chat_scope c)
    with assms show ?thesis by (simp add: revoke_scope_keep)
  next
    case (Chat_scope_state c)
    with assms show ?thesis by (simp add: chat_state_keep)
  qed (use assms in \<open>simp_all add: mode_ops_confirmations\<close>)
qed

definition confirmed_in :: "(permission_env \<times> perm_op) list \<Rightarrow> string \<Rightarrow> string \<Rightarrow> bool" where
  "confirmed_in ops t session \<longleftrightarrow> (\<exists>e1 r1 e2 cid r2. (e1, Confirm r1) \<in> set ops \<and> (e2, Activate cid r2) \<in> set ops \<and>
     pe_token e2 = t \<and> pe_token e1 = cid \<and> clean_request r1 = clean_request r2 \<and> session = br_session (clean_request r2) \<and>
     pe_now e2 - pe_now e1 \<le> confirmation_ttl)"

definition grants_confirmed :: "(permission_env \<times> perm_op) list \<Rightarrow> permission_store \<Rightarrow> bool" where
  "grants_confirmed ops s \<longleftrightarrow>
     (\<forall>(cid, c) \<in> set (st_confirmations s). \<exists>e r. (e, Confirm r) \<in> set ops \<and> pe_token e = cid \<and>
        cf_request c = clean_request r \<and> cf_minted c = pe_now e) \<and>
     (\<forall>(t, g) \<in> set (st_bypass s). confirmed_in ops t (bg_session g))"

lemma confirmed_in_mono: "confirmed_in ops t u \<Longrightarrow> confirmed_in (ops @ x) t u"
  unfolding confirmed_in_def by auto

lemma grants_confirmed_step:
  assumes ok: "grants_confirmed ops s"
  shows "grants_confirmed (ops @ [(e, op)]) (perm_step (e, op) s)"
proof -
  let ?s = "perm_step (e, op) s" and ?ops = "ops @ [(e, op)]"
  have conf: "\<exists>e1 r. (e1, Confirm r) \<in> set ops \<and> pe_token e1 = cid \<and> cf_request c = clean_request r \<and> cf_minted c = pe_now e1"
    if "(cid, c) \<in> set (st_confirmations s)" for cid c
    using ok that by (auto simp: grants_confirmed_def)
  have a: "\<exists>e1 r. (e1, Confirm r) \<in> set ?ops \<and> pe_token e1 = cid \<and> cf_request c = clean_request r \<and> cf_minted c = pe_now e1"
    if "(cid, c) \<in> set (st_confirmations ?s)" for cid c
    using confirmation_origin [OF that] conf [of cid c] by fastforce
  have b: "confirmed_in ?ops t (bg_session g')" if mem: "(t, g') \<in> set (st_bypass ?s)" for t g'
  proof -
    have old: "confirmed_in ?ops t (bg_session g)" if "(t, g) \<in> set (st_bypass s)" for g
      using ok that confirmed_in_mono by (auto simp: grants_confirmed_def)
    show ?thesis
    proof (cases rule: perm_step_bypass [of s e op])
      case aged
      then obtain g where "(t, g) \<in> set (st_bypass s)" "older g g'" using mem unfolding aged_def by blast
      from old [OF this(1)] older_session [OF this(2)] show ?thesis by simp
    next
      case undone
      with mem old show ?thesis by (simp add: set_dict_pop)
    next
      case (granted cid r g)
      with mem set_dict_set_subset [of "pe_token e" g "st_bypass s"]
      consider "(t, g') \<in> set (st_bypass s)" | "t = pe_token e" "g' = g" by auto
      then show ?thesis
      proof cases
        case 2
        from granted(3) obtain c where c: "(cid, c) \<in> set (st_confirmations s)" "pe_now e - cf_minted c \<le> confirmation_ttl"
            "cf_request c = clean_request r" by blast
        from conf [OF c(1)] obtain e1 r1 where r1: "(e1, Confirm r1) \<in> set ops" "pe_token e1 = cid"
            "cf_request c = clean_request r1" "cf_minted c = pe_now e1" by blast
        show ?thesis unfolding confirmed_in_def
          by (rule exI [of _ e1], rule exI [of _ r1], rule exI [of _ e], rule exI [of _ cid], rule exI [of _ r])
            (use r1 c granted 2 in simp)
      qed (rule old)
    qed
  qed
  from a b show ?thesis unfolding grants_confirmed_def by blast
qed

lemma run_grants_confirmed: "grants_confirmed ops (fold perm_step ops empty_store)"
proof (induction ops rule: rev_induct)
  case Nil
  then show ?case by (simp add: grants_confirmed_def empty_store_def)
next
  case (snoc x ops)
  then show ?case by (cases x) (simp add: grants_confirmed_step)
qed

text \<open>A mode read as bypass rests on a grant of the store that is not revoked.\<close>

lemma bypass_mode_grant:
  assumes "ms_mode (active_mode_state e cx s) = Bypass_permissions"
  obtains g where "dict_get (st_bypass s) (py_strip (ms_bypass (active_mode_state e cx s))) = Some g" "\<not> bg_revoked g"
proof -
  have val: "\<exists>g. dict_get (st_bypass s) (py_strip t) = Some g \<and> \<not> bg_revoked g"
    if "validate_bypass_grant e t a b c d s \<noteq> None" for t a b c d
  proof (cases "dict_get (st_bypass s) (py_strip t)")
    case None
    then have "validate_bypass_grant e t a b c d s = None" by (simp add: validate_bypass_grant_def Let_def)
    with that show ?thesis by simp
  next
    case (Some g)
    then have "bg_revoked g \<Longrightarrow> validate_bypass_grant e t a b c d s = None" by (simp add: validate_bypass_grant_def Let_def)
    with that have "\<not> bg_revoked g" by auto
    with Some show ?thesis by simp
  qed
  have "\<exists>g. dict_get (st_bypass s) (py_strip (ms_bypass (active_mode_state e cx s))) = Some g \<and> \<not> bg_revoked g"
  proof (cases "state_of s (call_session cx)")
    case (Some st)
    let ?v = "validate_bypass_grant e (ms_bypass st) (call_session cx) (py_or (cx_project cx) (ms_project st))
               (py_or (cx_cancel_turn cx) (ms_turn st)) (trusted_write_root cx) s"
    have eq: "active_mode_state e cx s = (if ms_mode st = Bypass_permissions \<and> ?v = None then st\<lparr>ms_mode := Manual\<rparr> else st)"
      by (simp add: active_mode_state_def Some Let_def)
    with assms have "?v \<noteq> None" by (auto split: if_splits)
    with eq val [OF this] show ?thesis by simp
  next
    case None
    let ?v = "validate_bypass_grant e (cx_bypass cx) (call_session cx) (cx_project cx) (cx_cancel_turn cx) (trusted_write_root cx) s"
    let ?n = "case normalize_mode True (cx_mode cx) of None \<Rightarrow> Manual | Some m \<Rightarrow> m"
    have eq: "ms_mode (active_mode_state e cx s) = (if ?n = Bypass_permissions \<and> ?v = None then Manual else ?n)"
      by (simp add: active_mode_state_def None Let_def)
    with assms have "?v \<noteq> None" by (auto split: if_splits)
    moreover have "ms_bypass (active_mode_state e cx s) = py_strip (cx_bypass cx)"
      using assms by (simp add: active_mode_state_def None Let_def split: if_splits)
    ultimately show ?thesis using val [of "cx_bypass cx"] by simp
  qed
  with that show ?thesis by blast
qed

section \<open>Approvals before a change of mode\<close>

text \<open>
  The approvals in \<open>old\<close> cover calls of the session \<open>c\<close> at most up to the revision \<open>n\<close>, which the
  session has left behind.
\<close>

definition left_behind :: "string set \<Rightarrow> string \<Rightarrow> nat \<Rightarrow> permission_store \<Rightarrow> bool" where
  "left_behind old c n s \<longleftrightarrow> n < current_revision s c \<and> old \<subseteq> set (dict_keys (st_approvals s)) \<and>
     (\<forall>tok a fp. tok \<in> old \<longrightarrow> dict_get (st_approvals s) tok = Some a \<longrightarrow> fp \<in> fps_of a \<longrightarrow> fp_session fp = c \<longrightarrow> fp_revision fp \<le> n)"

text \<open>The session of a decision and the revision it works with.\<close>

lemma py_or_Nil [simp]: "py_or a [] = a" "py_or [] a = a"
  by (simp_all add: py_or_def)

lemma active_state_session:
  "ms_revision (active_mode_state e cx s) = current_revision s (call_session cx)"
  by (auto simp: active_mode_state_def current_revision_def Let_def split: option.split)

lemma session_of_call: "session_of e cx s = call_session cx"
proof (cases "py_or (cx_runtime_session cx) (cx_session cx) = []")
  case True
  then have parts: "cx_runtime_session cx = []" "cx_session cx = []" by (auto simp: py_or_def split: if_splits)
  then have c: "call_session cx = []" by (simp add: call_session_def)
  then have "ms_session (active_mode_state e cx s) = []"
    by (simp add: active_mode_state_def state_of_def Let_def)
  with parts c show ?thesis by (simp add: session_of_def decision_session_def)
next
  case False
  then have "decision_session cx st = call_session cx" for st
    by (auto simp: decision_session_def call_session_def py_or_def)
  then show ?thesis by (simp add: session_of_def)
qed

lemma revision_of_call: "revision_of e cx s = current_revision s (call_session cx)"
  by (simp add: revision_of_def active_state_session)

definition revisions_ok :: "permission_store \<Rightarrow> bool" where
  "revisions_ok s \<longleftrightarrow> (\<forall>tok a fp. dict_get (st_approvals s) tok = Some a \<longrightarrow> fp \<in> fps_of a \<longrightarrow>
     fp_revision fp \<le> current_revision s (fp_session fp))"

lemma revisions_ok_step:
  assumes ok: "revisions_ok s" and law: "external_ok op"
  shows "revisions_ok (perm_step (e, op) s)"
  unfolding revisions_ok_def
proof (intro allI impI)
  fix tok b fp
  assume b: "dict_get (st_approvals (perm_step (e, op) s)) tok = Some b" and fp: "fp \<in> fps_of b"
  from law b show "fp_revision fp \<le> current_revision (perm_step (e, op) s) (fp_session fp)"
  proof (cases rule: approval_origin)
    case (old a)
    with ok fp have "fp_revision fp \<le> current_revision s (fp_session fp)" by (auto simp: revisions_ok_def heir_def)
    also have "\<dots> \<le> current_revision (perm_step (e, op) s) (fp_session fp)" by (rule revision_rises)
    finally show ?thesis .
  next
    case registered
    with fp show ?thesis by simp
  next
    case (asked cx task c)
    with fp raised_fps [of fp e cx task c s] have "fp_revision fp = current_revision s (fp_session fp)"
      by (auto simp: session_of_call revision_of_call)
    then show ?thesis using revision_rises [of s "fp_session fp" e op] by simp
  qed
qed

lemma run_revisions_ok: "perms.lawful_run ops empty_store \<Longrightarrow> revisions_ok (fold perm_step ops empty_store)"
proof (induction ops rule: rev_induct)
  case Nil
  then show ?case by (simp add: revisions_ok_def empty_store_def)
next
  case (snoc x ops)
  then show ?case by (cases x) (simp add: perms.lawful_run_append revisions_ok_step)
qed

lemma left_behind_step:
  assumes lb: "left_behind old c n s" and law: "perm_lawful (e, op) s"
  shows "left_behind old c n (perm_step (e, op) s)"
proof -
  let ?s = "perm_step (e, op) s"
  from law have ext: "external_ok op" and new: "pe_token e \<notin> set (dict_keys (st_approvals s))"
    by (simp_all add: never_drawn_def)
  have "n < current_revision ?s c"
    using lb revision_rises [of s c e op] by (simp add: left_behind_def)
  moreover have "tok \<in> set (dict_keys (st_approvals ?s))" if "tok \<in> old" for tok
  proof -
    from that lb have "tok \<in> set (dict_keys (st_approvals s))" by (auto simp: left_behind_def)
    with new have "tok \<noteq> pe_token e" by blast
    moreover from dict_key_get [OF \<open>tok \<in> set (dict_keys (st_approvals s))\<close>]
    obtain a where "dict_get (st_approvals s) tok = Some a" by blast
    ultimately obtain b where "dict_get (st_approvals ?s) tok = Some b" using approval_kept by blast
    then show ?thesis by (rule dict_get_key)
  qed
  moreover have "fp_revision fp \<le> n" if "tok \<in> old" "dict_get (st_approvals ?s) tok = Some b" "fp \<in> fps_of b" "fp_session fp = c"
    for tok b fp
    using ext that(2)
  proof (cases rule: approval_origin)
    case (old a)
    with lb that show ?thesis by (auto simp: left_behind_def heir_def)
  next
    case registered
    with that show ?thesis by simp
  next
    case (asked cx task c')
    with that(1) lb new show ?thesis by (auto simp: left_behind_def)
  qed
  ultimately show ?thesis unfolding left_behind_def by blast
qed

lemma left_behind_run:
  "left_behind old c n s \<Longrightarrow> perms.lawful_run ops s \<Longrightarrow> left_behind old c n (fold perm_step ops s)"
  by (induction ops arbitrary: s) (auto simp: left_behind_step simp del: perm_step.simps perm_lawful.simps)

text \<open>A decision that rests on an approval rests on one of the store, made for its own fingerprint.\<close>

lemma granted_exactly:
  fixes s :: permission_store
  assumes "pd_granted_by (snd (decide_with consume e cx task_id c s)) \<in> {Some Exact_approval, Some Task_grant}"
  shows "(\<exists>(k, a) \<in> set (st_approvals s). grants e (session_of e cx s) (task_of e cx task_id s) (fp_of e cx task_id c s) a)
     \<or> task_approved e (session_of e cx s) (task_of e cx task_id s) c (revision_of e cx s) (fp_of e cx task_id c s) s"
proof (cases "matched e cx task_id c s")
  case True
  then show ?thesis unfolding matched_def by (intro disjI1 consume_grants)
next
  case no: False
  obtain s2 r where r: "internal_scope_for e (scope_token cx s) s = (s2, r)" by fastforce
  have pr: "pd_granted_by (snd (decide_prompt consume e cx m se ta re c u)) \<notin> {Some Exact_approval, Some Task_grant}" for m se ta re and u :: permission_store
    by (cases rule: decide_prompt_cases [of consume e cx m se ta re c u]) simp_all
  then have "pd_granted_by (snd (decide_matrix consume e cx m se ta re c u)) \<notin> {Some Exact_approval, Some Task_grant}" for m se ta re and u :: permission_store
    by (simp add: decide_matrix_def Let_def)
  with assms show ?thesis
    by (auto simp: decide_unmatched [OF no] r split: if_splits option.splits)
qed

section \<open>Revocation and preview\<close>

definition revoked_at :: "string \<Rightarrow> permission_store \<Rightarrow> bool" where
  "revoked_at t s \<longleftrightarrow> (\<exists>g. dict_get (st_bypass s) t = Some g \<and> bg_revoked g)"

lemma revoked_step:
  assumes "revoked_at t s" "perm_lawful (e, op) s" shows "revoked_at t (perm_step (e, op) s)"
proof -
  from assms(1) obtain g where g: "dict_get (st_bypass s) t = Some g" "bg_revoked g" by (auto simp: revoked_at_def)
  from assms(2) have "pe_token e \<notin> set (dict_keys (st_bypass s))" by (simp add: never_drawn_def)
  with dict_get_key [OF g(1)] have "t \<noteq> pe_token e" by blast
  show ?thesis
  proof (cases rule: perm_step_bypass [of s e op])
    case aged
    then obtain g' where "dict_get (st_bypass (perm_step (e, op) s)) t = Some g'" "older g g'"
      using g(1) unfolding aged_def by blast
    with g(2) older_revoked show ?thesis unfolding revoked_at_def by blast
  qed (use g \<open>t \<noteq> pe_token e\<close> in \<open>simp_all add: revoked_at_def\<close>)
qed

lemma revoked_run: "revoked_at t s \<Longrightarrow> perms.lawful_run ops s \<Longrightarrow> revoked_at t (fold perm_step ops s)"
  by (induction ops arbitrary: s) (auto simp: revoked_step simp del: perm_step.simps perm_lawful.simps)

text \<open>What a caller sees of a decision, the recorded request aside.\<close>

definition same_view :: "permission_decision \<Rightarrow> permission_decision \<Rightarrow> bool" where
  "same_view d d' \<longleftrightarrow> pd_effect d' = pd_effect d \<and> pd_mode d' = pd_mode d \<and> pd_actions d' = pd_actions d \<and>
     pd_token_matched d' = pd_token_matched d \<and> pd_asks d' = pd_asks d"

lemma decide_prompt_view:
  fixes s :: permission_store
  shows "same_view (snd (decide_prompt True e cx m se ta re c s)) (snd (decide_prompt False e cx m se ta re c s))"
  by (simp add: decide_prompt_def same_view_def split: prod.split)

lemma decide_matrix_view:
  fixes s :: permission_store
  shows "same_view (snd (decide_matrix True e cx m se ta re c s)) (snd (decide_matrix False e cx m se ta re c s))"
  using decide_prompt_view [of e cx m se ta re c s] by (simp add: decide_matrix_def Let_def same_view_def)

section \<open>A demonstration\<close>

text \<open>
  One chat: the mode is set to manual, a payment is asked for and allowed once, the mode changes and
  the payment is asked for again; two bypass grants are confirmed and the first is revoked.
\<close>

definition demo_perm_env :: "time \<Rightarrow> string \<Rightarrow> permission_env" where
  "demo_perm_env now token = \<lparr>pe_now = now, pe_token = token, pe_durable = True, pe_resolve = (\<lambda>r p. Some p),
     pe_under = (\<lambda>r p. prefix r p), pe_inside = (\<lambda>p r. prefix r p), pe_real = (\<lambda>p. p), pe_full = Some,
     pe_home = ''/home'', pe_protected = [], pe_chat_root = (\<lambda>s. ([], [])), pe_project_root = (\<lambda>p. []),
     pe_project_granted = (\<lambda>p. False)\<rparr>"

definition demo_cx :: "string \<Rightarrow> tool_call list \<Rightarrow> call_context" where
  "demo_cx token batch = \<lparr>cx_runtime_session = ''chat'', cx_session = [], cx_project = [], cx_trusted_project = [],
     cx_cancel_turn = ''turn'', cx_mode = [], cx_bypass = [], cx_approval_token = token, cx_internal_token = [],
     cx_workspace = [], cx_root = ''/w'', cx_denied = [], cx_batch = batch\<rparr>"

definition demo_pay :: tool_call where
  "demo_pay = \<lparr>tc_intent = ''wallet.pay'', tc_actions = [Financial_action], tc_paths = [], tc_arguments = [(''amount'', ''5'')]\<rparr>"

definition demo_secret :: tool_call where
  "demo_secret = \<lparr>tc_intent = ''vault.read'', tc_actions = [Access_secrets], tc_paths = [], tc_arguments = []\<rparr>"

definition demo_mode :: "string \<Rightarrow> string \<Rightarrow> perm_op" where
  "demo_mode mode token = Set_mode ''chat'' mode [] ''turn'' token ''/w''"

definition demo_asked :: "(permission_env \<times> perm_op) list" where
  "demo_asked = [(demo_perm_env 1 ''t1'', demo_mode ''manual'' []), (demo_perm_env 2 ''a1'', Decide (demo_cx [] []) [] demo_pay),
     (demo_perm_env 3 ''t3'', Answer ''a1'' ''allow'' ''once'')]"

definition demo_again :: "(permission_env \<times> perm_op) list" where
  "demo_again = [(demo_perm_env 5 ''a2'', Decide (demo_cx ''a1'' []) [] demo_pay), (demo_perm_env 6 ''t6'', Answer ''a2'' ''allow'' ''once'')]"

definition demo_bypass_request :: bypass_request where
  "demo_bypass_request = \<lparr>br_session = ''chat'', br_project = [], br_task = ''turn'', br_scope = ''task'', br_duration = 900,
     br_until_off = False, br_root = []\<rparr>"

definition demo_bypass :: "(permission_env \<times> perm_op) list" where
  "demo_bypass = [(demo_perm_env 1 ''c1'', Confirm demo_bypass_request), (demo_perm_env 2 ''b1'', Activate ''c1'' demo_bypass_request),
     (demo_perm_env 3 ''c2'', Confirm demo_bypass_request), (demo_perm_env 4 ''b2'', Activate ''c2'' demo_bypass_request)]"

lemma demo_asked_lawful: "perms.lawful_run demo_asked empty_store"
  by (simp only: demo_asked_def perms.lawful_run.simps) code_simp

lemma demo_change_lawful:
  "perms.lawful_run (demo_asked @ (demo_perm_env 4 ''t4'', Set_mode ''chat'' ''auto'' [] ''turn'' [] ''/w'') # demo_again) empty_store"
  by (simp only: demo_asked_def demo_again_def append.simps perms.lawful_run.simps) code_simp

lemma demo_bypass_lawful:
  "perms.lawful_run (demo_bypass @ (demo_perm_env 5 ''t5'', Revoke ''b1'') # [(demo_perm_env 6 ''t6'', demo_mode ''bypass'' ''b2'')]) empty_store"
  by (simp only: demo_bypass_def append.simps perms.lawful_run.simps) code_simp

section \<open>Properties\<close>

text \<open>C2. Whatever operations came before -- whatever the operator approved, granted or confirmed, in
  whatever mode -- a call that touches secrets is denied.\<close>

theorem secrets_never_allowed:
  assumes "perms.lawful_run ops empty_store" "Access_secrets \<in> set (tc_actions c)"
  shows "pd_effect (snd (decide_tool_call e cx task_id c (fold perm_step ops empty_store))) = Deny"
proof -
  let ?s = "fold perm_step ops empty_store"
  have ok: "no_secrets ?s" by (rule perms.run_good [OF empty_no_secrets assms(1)])
  have dirty: "\<not> clean_fp (fp_of e cx task_id c ?s)"
    using assms(2) by (simp add: clean_fp_def fp_of_def fingerprint_parts)
  have "\<not> grants e x y (fp_of e cx task_id c ?s) a" if "(k, a) \<in> set (st_approvals ?s)" for k a x y
    using ok dirty that dict_mem_get [OF _ that] by (auto simp: no_secrets_def grants_def)
  then have no: "\<not> matched e cx task_id c ?s"
    using consume_grants by (fastforce simp: matched_def)
  have no_task: "\<not> task_approved e x y c n (fp_of e cx task_id c ?s) ?s" for x y n
    using ok dirty by (auto simp: no_secrets_def task_approved_def list_ex_iff)
  have "\<not> scope_covers e sc cx c task_id" for sc
    using assms(2) by (auto simp: scope_covers_def internal_ceiling_def)
  moreover have "decide_matrix True e cx m x y n c u = (u, permission_verdict Deny m c None)" for m x y n and u :: permission_store
    using assms(2) secrets_denied [of m] by (simp add: decide_matrix_def) (metis imageI)
  ultimately show ?thesis
    by (simp add: decide_tool_call_def decide_unmatched [OF no] no_task split: prod.split option.split)
qed

theorem secrets_never_allowed_witness:
  "pd_effect (snd (decide_tool_call (demo_perm_env 4 ''t4'') (demo_cx ''a1'' []) [] demo_secret (fold perm_step demo_asked empty_store))) = Deny"
  by (rule secrets_never_allowed [OF demo_asked_lawful]) (simp add: demo_secret_def)

text \<open>C1. A call that needs money, a security setting, a secret or an effect the classifier could not
  name is allowed only through the operator's own answer: the run contains an allow for an approval
  that was raised in the same session and task, is unexpired, and covers the fingerprint of this very
  call (its intent, targets, arguments and mode revision). No mode, internal scope, project grant or
  bypass allows it.\<close>

theorem ceiling_needs_the_operator:
  assumes "perms.lawful_run ops empty_store" "set (tc_actions c) \<inter> set internal_ceiling \<noteq> {}"
  defines "s \<equiv> fold perm_step ops empty_store"
  assumes "pd_effect (snd (decide_tool_call e cx task_id c s)) = Allow"
  shows "\<exists>tok a. dict_get (st_approvals s) tok = Some a \<and> answered_in ops tok \<and>
     grants e (session_of e cx s) (task_of e cx task_id s) (fp_of e cx task_id c s) a"
proof -
  have wf: "wf_dict (st_approvals s)"
    using perms.run_good [OF empty_no_secrets assms(1)] by (simp add: no_secrets_def s_def)
  have yes: "yes_by_operator ops s" unfolding s_def by (rule run_yes_by_operator [OF assms(1)])
  have "(\<exists>(k, a) \<in> set (st_approvals s). grants e (session_of e cx s) (task_of e cx task_id s) (fp_of e cx task_id c s) a)
     \<or> task_approved e (session_of e cx s) (task_of e cx task_id s) c (revision_of e cx s) (fp_of e cx task_id c s) s"
    using decide_allows [of True e cx task_id c s] assms(2,4) by (simp add: decide_tool_call_def)
  from wf yes this show ?thesis by (rule decision_backing) blast
qed

theorem ceiling_needs_the_operator_witness:
  "let s = fold perm_step demo_asked empty_store; e = demo_perm_env 4 ''t4''; cx = demo_cx ''a1'' [] in
     pd_effect (snd (decide_tool_call e cx [] demo_pay s)) = Allow \<and>
     (\<exists>tok a. dict_get (st_approvals s) tok = Some a \<and> answered_in demo_asked tok \<and>
        grants e (session_of e cx s) (task_of e cx [] s) (fp_of e cx [] demo_pay s) a)"
proof -
  have allow: "pd_effect (snd (decide_tool_call (demo_perm_env 4 ''t4'') (demo_cx ''a1'' []) [] demo_pay (fold perm_step demo_asked empty_store))) = Allow"
    by code_simp
  have "set (tc_actions demo_pay) \<inter> set internal_ceiling \<noteq> {}" by (simp add: demo_pay_def internal_ceiling_def)
  from ceiling_needs_the_operator [OF demo_asked_lawful this allow] allow show ?thesis by (simp only: Let_def simp_thms)
qed





text \<open>The preview of a decision says what the decision would say on the same store -- the same
  effect, mode and actions, whether an approval would be spent and whether the operator would be
  asked -- and leaves approvals, task grants, modes, grants and confirmations as they are.\<close>

theorem preview_agrees_with_decision:
  fixes s :: permission_store
  shows "let (s1, d) = decide_tool_call e cx task_id c s; (s2, p) = preview_tool_call e cx task_id c s
     in pv_effect p = pd_effect d \<and> pv_mode p = pd_mode d \<and> pv_actions p = pd_actions d \<and>
        pv_consumes p = pd_token_matched d \<and> pv_asks p = pd_asks d \<and> st_approvals s2 = st_approvals s \<and> same_rest s s2"
proof -
  obtain s1 d where d: "decide_with True e cx task_id c s = (s1, d)" by fastforce
  obtain s2 d' where d': "decide_with False e cx task_id c s = (s2, d')" by fastforce
  have "same_view d d'"
  proof (cases "matched e cx task_id c s")
    case True
    with d d' show ?thesis by (auto simp: decide_matched same_view_def)
  next
    case no: False
    obtain u r where u: "internal_scope_for e (scope_token cx s) s = (u, r)" by fastforce
    from d d' decide_matrix_view [of e cx "mode_of e cx s" "session_of e cx s" "task_of e cx task_id s" "revision_of e cx s" c u]
    show ?thesis
      by (auto simp: decide_unmatched [OF no] u same_view_def split: if_splits option.splits)
  qed
  with decide_frame [OF d'] d d' show ?thesis
    by (simp add: decide_tool_call_def preview_tool_call_def same_view_def)
qed

section \<open>How long an answer lasts\<close>

text \<open>
  A call approved once is allowed again: a later consult of the same call, with no token or a spent
  one, is covered by the earlier answer until that expires, a day later. \<open>_prior_allow_covers_locked\<close>
  documents this as the operator's answer standing for its exact call.
\<close>

lemma approved_once_runs_again:
  "let s = fold perm_step (demo_asked @ [(demo_perm_env 4 ''t4'', Decide (demo_cx ''a1'' []) [] demo_pay)]) empty_store in
     map_option ap_status (dict_get (st_approvals s) ''a1'') = Some Consumed \<and>
     pd_granted_by (snd (decide_tool_call (demo_perm_env 5000 ''t5'') (demo_cx [] []) [] demo_pay s)) = Some Exact_approval"
  by code_simp

text \<open>
  The same for the calls of a request-wide grant, of which the comment on
  \<open>_consume_matching_approval\<close> says each is covered exactly once. Presenting the token makes the
  answer stricter: with it the write that has been spent is asked for again, without it it is allowed.
\<close>

definition demo_write :: "string \<Rightarrow> tool_call" where
  "demo_write path = \<lparr>tc_intent = ''workspace.write_file'', tc_actions = [Create_files], tc_paths = [path],
     tc_arguments = [(''content'', ''x''), (''path'', path)]\<rparr>"

definition demo_batch :: "(permission_env \<times> perm_op) list" where
  "demo_batch = [(demo_perm_env 1 ''t1'', demo_mode ''manual'' []),
     (demo_perm_env 2 ''a1'', Decide (demo_cx [] [demo_write ''/w/b'']) [] (demo_write ''/w/a'')),
     (demo_perm_env 3 ''t3'', Answer ''a1'' ''allow'' ''request''),
     (demo_perm_env 4 ''t4'', Decide (demo_cx ''a1'' []) [] (demo_write ''/w/a''))]"

lemma spent_member_runs_again:
  "let s = fold perm_step demo_batch empty_store in
     pd_effect (snd (decide_tool_call (demo_perm_env 5 ''t5'') (demo_cx ''a1'' []) [] (demo_write ''/w/a'') s)) = Require_approval \<and>
     pd_granted_by (snd (decide_tool_call (demo_perm_env 5 ''t5'') (demo_cx [] []) [] (demo_write ''/w/a'') s)) = Some Exact_approval"
  by code_simp

text \<open>
  \<open>reset_mode_permission_state\<close> is documented to clear every mode and permission state of the
  sessions; a bypass confirmation requested before it still activates a grant after it.
\<close>

lemma confirmation_survives_reset:
  "let s = reset_mode_permission_state (perm_step (demo_perm_env 1 ''c1'', Confirm demo_bypass_request) empty_store);
       (s', r) = activate_bypass_grant (demo_perm_env 2 ''b1'') ''c1'' demo_bypass_request s
   in isl r = False \<and> dict_get (st_bypass s') ''b1'' \<noteq> None"
  by code_simp

end
