(* ===== verification/Policy_Projection.thy ===== *)
theory Policy_Projection
  imports Vool_Prelude
begin

text \<open>
  The immutable projection that a turn's policy is frozen from (\<open>core/policy_projection.py\<close>): the walk
  over a live object graph, the policy inputs it could not carry, and the fresh rendering each
  consult gets.

  \<^item> A live value is a scalar or a reference into a heap of mappings, sequences and other objects, so
    shared and cyclic structures are as the code meets them; \<open>id(value)\<close> is the reference.
  \<^item> A key that is not a string is known by its type, as the marker of the code names it.
  \<^item> The class \<open>FrozenMapping\<close> is a value here: its immutability is HOL's.
\<close>

section \<open>Live values and projections\<close>

datatype scalar = Sc_none | Sc_bool bool | Sc_int int | Sc_float rat | Sc_str string

datatype live_value = Scalar scalar | Ref nat

datatype live_key = Key string | Foreign_key string

datatype live_object = Mapping_object "(live_key \<times> live_value) list" | Sequence_object "live_value list" | Other_object string

type_synonym heap = "nat \<Rightarrow> live_object"

datatype projected = Leaf scalar | Frozen "(string \<times> projected) list" | Tuple "projected list"

definition policy_input_keys :: "string list" where
  "policy_input_keys = [''_trusted_project_id'', ''allow_remote_fetch'', ''autonomy_override'', ''bypass_token'',
     ''cancel_turn_id'', ''client_turn_id'', ''mode_approval_token'', ''operating_mode'', ''operating_mode_revision'',
     ''platform'', ''project_id'', ''project_permissions'', ''runtime_session_id'', ''session_id'', ''surface'',
     ''workspace'', ''workspace_root'']"

definition max_projection_depth :: nat where
  "max_projection_depth = 12"

definition max_projection_items :: nat where
  "max_projection_items = 512"

definition marker_prefix :: string where
  "marker_prefix = ''<unserializable:''"

definition truncated_mark :: string where
  "truncated_mark = ''<truncated>''"

definition cycle_mark :: string where
  "cycle_mark = ''<cycle>''"

definition too_deep_mark :: string where
  "too_deep_mark = ''<too-deep>''"

text \<open>The marker of a type, given its qualified name.\<close>

definition unserializable_marker :: "string \<Rightarrow> string" where
  "unserializable_marker qualified = marker_prefix @ qualified @ ''>''"

definition is_unserializable_marker :: "projected \<Rightarrow> bool" where
  "is_unserializable_marker v \<longleftrightarrow> (case v of Leaf (Sc_str s) \<Rightarrow> prefix marker_prefix s | _ \<Rightarrow> False)"

definition projected_key :: "live_key \<Rightarrow> string" where
  "projected_key k = (case k of Key s \<Rightarrow> s | Foreign_key t \<Rightarrow> unserializable_marker t)"

text \<open>\<open>projected[key] = ...\<close> over the items: the first 512, then the count of the rest.\<close>

definition project_items :: "('v \<Rightarrow> projected) \<Rightarrow> (live_key \<times> 'v) list \<Rightarrow> (string \<times> projected) list" where
  "project_items f kvs =
     (let d = fold (\<lambda>(k, v) d. dict_set (projected_key k) (f v) d) (take max_projection_items kvs) []
      in if max_projection_items < length kvs
         then dict_set truncated_mark (Leaf (Sc_int (int (length kvs) - int max_projection_items))) d else d)"

definition project_elements :: "('v \<Rightarrow> projected) \<Rightarrow> 'v list \<Rightarrow> projected list" where
  "project_elements f vs = map f (take max_projection_items vs)
     @ (if max_projection_items < length vs then [Leaf (Sc_str truncated_mark)] else [])"

text \<open>\<open>project\<close>: \<open>room\<close> is \<open>MAX_PROJECTION_DEPTH - _depth\<close>, the levels still to go.\<close>

fun project_at :: "heap \<Rightarrow> nat \<Rightarrow> nat set \<Rightarrow> live_value \<Rightarrow> projected" where
  "project_at h room seen (Scalar c) = Leaf c"
| "project_at h 0 seen (Ref i) = Leaf (Sc_str too_deep_mark)"
| "project_at h (Suc room) seen (Ref i) =
     (if i \<in> seen then Leaf (Sc_str cycle_mark)
      else case h i of
        Mapping_object kvs \<Rightarrow> Frozen (project_items (project_at h room (insert i seen)) kvs)
      | Sequence_object vs \<Rightarrow> Tuple (project_elements (project_at h room (insert i seen)) vs)
      | Other_object t \<Rightarrow> Leaf (Sc_str (unserializable_marker t)))"

definition project :: "heap \<Rightarrow> live_value \<Rightarrow> projected" where
  "project h v = project_at h max_projection_depth {} v"

definition project_context :: "heap \<Rightarrow> live_value \<Rightarrow> (string \<times> projected) list" where
  "project_context h v = (case v of
     Ref i \<Rightarrow> (case h i of
       Mapping_object kvs \<Rightarrow> (case project h v of Frozen d \<Rightarrow> d | _ \<Rightarrow> [])
     | _ \<Rightarrow> [])
   | _ \<Rightarrow> [])"

text \<open>The names come out sorted, as the constant list already is.\<close>

definition unreadable_policy_inputs :: "(string \<times> projected) list \<Rightarrow> string list" where
  "unreadable_policy_inputs d =
     filter (\<lambda>k. case dict_get d k of None \<Rightarrow> False | Some v \<Rightarrow> is_unserializable_marker v) policy_input_keys"

text \<open>The mutable rendering: plain dicts, lists and scalars.\<close>

datatype plain = Plain scalar | Dict "(string \<times> plain) list" | List "plain list"

fun render_mutable :: "projected \<Rightarrow> plain" where
  "render_mutable (Leaf c) = Plain c"
| "render_mutable (Frozen d) = Dict (map (\<lambda>(k, v). (k, render_mutable v)) d)"
| "render_mutable (Tuple vs) = List (map render_mutable vs)"

end
