(* ===== verification/Policy_Projection_Laws.thy ===== *)
theory Policy_Projection_Laws
  imports Policy_Projection
begin

text \<open>
  What the projection guarantees: it is bounded whatever it walks, plain data survives it unchanged,
  and a policy input is reported unreadable exactly when its live value could not be carried; then
  two inputs that slip past the report.
\<close>

section \<open>Bounds\<close>

fun bounded :: "nat \<Rightarrow> projected \<Rightarrow> bool" where
  "bounded n (Leaf c) = True"
| "bounded 0 (Frozen d) = False"
| "bounded 0 (Tuple vs) = False"
| "bounded (Suc n) (Frozen d) = (length d \<le> 513 \<and> (\<forall>p \<in> set d. bounded n (snd p)))"
| "bounded (Suc n) (Tuple vs) = (length vs \<le> 513 \<and> (\<forall>v \<in> set vs. bounded n v))"

lemma length_dict_set_le: "length (dict_set k v d) \<le> Suc (length d)"
  by (induction d) auto

lemma set_dict_set_bound: "p \<in> set (dict_set k v d) \<Longrightarrow> p = (k, v) \<or> p \<in> set d"
  by (induction d) (auto split: if_splits)

lemma fold_items:
  "length (fold (\<lambda>(k, v) d. dict_set (projected_key k) (f v) d) kvs d) \<le> length kvs + length d"
  "p \<in> set (fold (\<lambda>(k, v) d. dict_set (projected_key k) (f v) d) kvs d) \<Longrightarrow> p \<in> set d \<or> (\<exists>v. snd p = f v)"
proof (induction kvs arbitrary: d)
  case (Cons x kvs)
  obtain k v where x: "x = (k, v)" by fastforce
  {
    case 1
    show ?case using Cons.IH(1) [of "dict_set (projected_key k) (f v) d"] length_dict_set_le [of "projected_key k" "f v" d]
      by (simp add: x)
  next
    case 2
    then show ?case using Cons.IH(2) [of "dict_set (projected_key k) (f v) d"] set_dict_set_bound
      by (fastforce simp: x)
  }
qed simp_all

lemma project_items_bound: "length (project_items f kvs) \<le> 513"
proof -
  let ?d = "fold (\<lambda>(k, v) d. dict_set (projected_key k) (f v) d) (take max_projection_items kvs) []"
  have "length ?d \<le> 512" using fold_items(1) [of f "take max_projection_items kvs" "[]"]
    by (simp add: max_projection_items_def)
  moreover have "length (dict_set truncated_mark v ?d) \<le> Suc (length ?d)" for v
    by (rule length_dict_set_le)
  ultimately have "length (dict_set truncated_mark v ?d) \<le> 513" for v
    using order_trans [of "length (dict_set truncated_mark v ?d)" "Suc (length ?d)" 513] by simp
  moreover have "length (fold (\<lambda>(k, v) d. dict_set (projected_key k) (f v) d) kvs []) \<le> 513"
    if "length kvs \<le> 512" using that fold_items(1) [of f kvs "[]"] by simp
  ultimately show ?thesis by (simp add: project_items_def Let_def max_projection_items_def)
qed

lemma project_items_values: "p \<in> set (project_items f kvs) \<Longrightarrow> (\<exists>v. snd p = f v) \<or> (\<exists>c. snd p = Leaf c)"
  using fold_items(2) [of p f "take max_projection_items kvs" "[]"]
  by (auto simp: project_items_def Let_def dest!: set_dict_set_bound split: if_splits)

lemma project_at_bounded: "bounded room (project_at h room seen v)"
proof (induction h room seen v rule: project_at.induct)
  case (3 h room seen i)
  show ?case
  proof (cases "i \<in> seen")
    case False
    show ?thesis
    proof (cases "h i")
      case (Mapping_object kvs)
      have "bounded room (snd p)" if "p \<in> set (project_items (project_at h room (insert i seen)) kvs)" for p
        using project_items_values [OF that] 3(1) [OF False Mapping_object] by auto
      with False Mapping_object show ?thesis by (simp add: project_items_bound)
    next
      case (Sequence_object vs)
      have "bounded room v" if "v \<in> set (project_elements (project_at h room (insert i seen)) vs)" for v
        using that 3(2) [OF False Sequence_object] by (auto simp: project_elements_def)
      with False Sequence_object show ?thesis by (simp add: project_elements_def max_projection_items_def)
    qed (use False in simp)
  qed simp
qed simp_all

section \<open>Plain data within the limits\<close>

text \<open>
  What a live value holds as plain data, \<open>room\<close> levels down: its containers hold at most 512 entries,
  its mappings are keyed by strings, and nothing in it is opaque.
\<close>

abbreviation string_items :: "(string \<times> 'v) list \<Rightarrow> (live_key \<times> 'v) list" where
  "string_items kvs \<equiv> map (\<lambda>(k, v). (Key k, v)) kvs"

inductive holds_data :: "heap \<Rightarrow> nat \<Rightarrow> live_value \<Rightarrow> plain \<Rightarrow> bool" for h where
  Scalar_data: "holds_data h room (Scalar c) (Plain c)"
| Dict_data: "h i = Mapping_object (string_items kvs) \<Longrightarrow> distinct (map fst kvs) \<Longrightarrow>
    length kvs \<le> max_projection_items \<Longrightarrow> list_all2 (rel_prod (=) (holds_data h room)) kvs d \<Longrightarrow>
    holds_data h (Suc room) (Ref i) (Dict d)"
| List_data: "h i = Sequence_object vs \<Longrightarrow> length vs \<le> max_projection_items \<Longrightarrow>
    list_all2 (holds_data h room) vs ps \<Longrightarrow> holds_data h (Suc room) (Ref i) (List ps)"

inductive_cases holds_ref: "holds_data h room (Ref i) p"
inductive_simps holds_scalar [simp]: "holds_data h room (Scalar c) p"

lemma string_items_inject [simp]: "string_items kvs = string_items kvs' \<longleftrightarrow> kvs = kvs'"
  by (auto simp: inj_map_eq_map inj_def)

lemma holds_dict: "holds_data h m (Ref i) q \<Longrightarrow> h i = Mapping_object (string_items kvs) \<Longrightarrow>
    \<exists>m' d. m = Suc m' \<and> q = Dict d \<and> list_all2 (rel_prod (=) (holds_data h m')) kvs d"
  by (erule holds_ref) auto

lemma holds_list: "holds_data h m (Ref i) q \<Longrightarrow> h i = Sequence_object vs \<Longrightarrow>
    \<exists>m' ps. m = Suc m' \<and> q = List ps \<and> list_all2 (holds_data h m') vs ps"
  by (erule holds_ref) auto

lemma list_all2_unique:
  "list_all2 (\<lambda>x y. P x y \<and> (\<forall>m z. Q m x z \<longrightarrow> y = z)) xs ys \<Longrightarrow> list_all2 (Q m) xs zs \<Longrightarrow> ys = zs"
  by (induction xs ys arbitrary: zs rule: list_all2_induct) (auto simp: list_all2_Cons1)

lemma list_all2_unique_prod:
  "list_all2 (rel_prod (=) (\<lambda>x y. P x y \<and> (\<forall>m z. Q m x z \<longrightarrow> y = z))) xs ys \<Longrightarrow>
    list_all2 (rel_prod (=) (Q m)) xs zs \<Longrightarrow> ys = zs"
  by (induction xs ys arbitrary: zs rule: list_all2_induct) (auto simp: list_all2_Cons1 rel_prod_sel prod_eq_iff)

lemma holds_data_unique: "holds_data h n v p \<Longrightarrow> holds_data h m v q \<Longrightarrow> p = q"
proof (induction n v p arbitrary: m q rule: holds_data.induct)
  case (Scalar_data room c)
  then show ?case by simp
next
  case (Dict_data i kvs room d)
  from holds_dict [OF Dict_data.prems Dict_data.hyps(1)] obtain m' d' where
    q: "q = Dict d'" "list_all2 (rel_prod (=) (holds_data h m')) kvs d'" by blast
  have "d = d'" by (rule list_all2_unique_prod [where Q = "holds_data h", OF Dict_data.IH q(2)])
  with q(1) show ?case by simp
next
  case (List_data i vs room ps)
  from holds_list [OF List_data.prems List_data.hyps(1)] obtain m' ps' where
    q: "q = List ps'" "list_all2 (holds_data h m') vs ps'" by blast
  have "ps = ps'" by (rule list_all2_unique [where Q = "holds_data h", OF List_data.IH q(2)])
  with q(1) show ?case by simp
qed

text \<open>Items with distinct string keys are carried in their order.\<close>

lemma dict_set_fresh: "k \<notin> set (dict_keys d) \<Longrightarrow> dict_set k v d = d @ [(k, v)]"
  by (induction d) auto

lemma projected_string_key [simp]: "projected_key (Key k) = k"
  by (simp add: projected_key_def)

lemma fold_plain_items:
  "distinct (map fst kvs) \<Longrightarrow> set (map fst kvs) \<inter> set (map fst d) = {} \<Longrightarrow>
    fold (\<lambda>(k, v) d. dict_set (projected_key k) (f v) d) (string_items kvs) d
      = d @ map (\<lambda>(k, v). (k, f v)) kvs"
proof (induction kvs arbitrary: d)
  case (Cons x kvs)
  obtain k v where x: "x = (k, v)" by fastforce
  have "dict_set k (f v) d = d @ [(k, f v)]"
    by (rule dict_set_fresh) (use Cons.prems(2) in \<open>simp add: x\<close>)
  moreover have "fold (\<lambda>(k, v) d. dict_set (projected_key k) (f v) d) (string_items kvs) (d @ [(k, f v)])
      = (d @ [(k, f v)]) @ map (\<lambda>(k, v). (k, f v)) kvs"
    by (rule Cons.IH) (use Cons.prems in \<open>auto simp: x\<close>)
  ultimately show ?case by (simp add: x)
qed simp

lemma plain_items:
  "distinct (map fst kvs) \<Longrightarrow> length kvs \<le> max_projection_items \<Longrightarrow>
    project_items f (string_items kvs) = map (\<lambda>(k, v). (k, f v)) kvs"
  using fold_plain_items [of kvs "[]" f] by (simp add: project_items_def)

lemma plain_elements: "length vs \<le> max_projection_items \<Longrightarrow> project_elements f vs = map f vs"
  by (simp add: project_elements_def)

text \<open>
  On the path from the root, every container holds strictly more than what is still below it, so a
  finite reading never meets the cycle mark.
\<close>

fun embed :: "plain \<Rightarrow> projected" where
  "embed (Plain c) = Leaf c"
| "embed (Dict d) = Frozen (map (\<lambda>(k, p). (k, embed p)) d)"
| "embed (List ps) = Tuple (map embed ps)"

lemma render_embed [simp]: "render_mutable (embed p) = p"
  by (induction p rule: embed.induct) (auto intro!: map_idI)

lemma project_at_data:
  "holds_data h room v p \<Longrightarrow> (\<And>j m q. j \<in> seen \<Longrightarrow> holds_data h m (Ref j) q \<Longrightarrow> size p < size q) \<Longrightarrow>
    project_at h room seen v = embed p"
proof (induction room v p arbitrary: seen rule: holds_data.induct)
  case (Scalar_data room c)
  then show ?case by simp
next
  case (Dict_data i kvs room d)
  have "list_all2 (rel_prod (=) (holds_data h room)) kvs d"
    by (rule list_all2_mono [OF Dict_data.IH]) (auto elim!: rel_prod.cases)
  then have whole: "holds_data h (Suc room) (Ref i) (Dict d)"
    by (rule holds_data.Dict_data [where h = h and i = i and kvs = kvs, OF Dict_data.hyps])
  then have fresh: "i \<notin> seen" using Dict_data.prems by blast
  let ?f = "project_at h room (insert i seen)"
  have "map (\<lambda>(k, v). (k, ?f v)) kvs = map (\<lambda>(k, p). (k, embed p)) d"
  proof (rule nth_equalityI)
    show "length (map (\<lambda>(k, v). (k, ?f v)) kvs) = length (map (\<lambda>(k, p). (k, embed p)) d)"
      using Dict_data.IH by (simp add: list_all2_lengthD)
    fix j assume "j < length (map (\<lambda>(k, v). (k, ?f v)) kvs)"
    then have j: "j < length kvs" "j < length d" using list_all2_lengthD [OF Dict_data.IH] by simp_all
    obtain k v where kv: "kvs ! j = (k, v)" by fastforce
    obtain l p' where lp: "d ! j = (l, p')" by fastforce
    from list_all2_nthD [OF Dict_data.IH j(1)] have at: "l = k" and child: "holds_data h room v p'"
      and IH: "\<And>seen. (\<And>j m q. j \<in> seen \<Longrightarrow> holds_data h m (Ref j) q \<Longrightarrow> size p' < size q) \<Longrightarrow>
        project_at h room seen v = embed p'"
      unfolding kv lp rel_prod_inject by - (erule conjE, erule sym, (erule conjE)+, assumption, (erule conjE)+, blast)
    have "(k, p') \<in> set d" using nth_mem [OF j(2)] by (simp add: lp at)
    then have small: "size p' < size (Dict d)" by (simp add: size_list_estimation' less_Suc_eq_le)
    have "?f v = embed p'"
    proof (rule IH)
      fix l m q assume "l \<in> insert i seen" and q: "holds_data h m (Ref l) q"
      then show "size p' < size q"
        using holds_data_unique [OF whole] Dict_data.prems small by (metis insertE less_trans)
    qed
    with at j kv lp show "map (\<lambda>(k, v). (k, ?f v)) kvs ! j = map (\<lambda>(k, p). (k, embed p)) d ! j" by simp
  qed
  with fresh Dict_data.hyps show ?case by (simp add: plain_items)
next
  case (List_data i vs room ps)
  have "list_all2 (holds_data h room) vs ps" by (rule list_all2_mono [OF List_data.IH]) simp
  then have whole: "holds_data h (Suc room) (Ref i) (List ps)"
    by (rule holds_data.List_data [where h = h and i = i and vs = vs, OF List_data.hyps])
  then have fresh: "i \<notin> seen" using List_data.prems by blast
  let ?f = "project_at h room (insert i seen)"
  have "map ?f vs = map embed ps"
  proof (rule nth_equalityI)
    show "length (map ?f vs) = length (map embed ps)"
      using List_data.IH by (simp add: list_all2_lengthD)
    fix j assume "j < length (map ?f vs)"
    then have j: "j < length vs" "j < length ps" using List_data.IH by (simp_all add: list_all2_lengthD)
    have small: "size (ps ! j) < size (List ps)"
      using size_list_estimation' [OF nth_mem [OF j(2)], of "size (ps ! j)" size] by simp
    have "?f (vs ! j) = embed (ps ! j)"
    proof (rule conjunct2 [OF list_all2_nthD [OF List_data.IH j(1)], rule_format])
      fix l m q assume "l \<in> insert i seen" and q: "holds_data h m (Ref l) q"
      then show "size (ps ! j) < size q"
        using holds_data_unique [OF whole] List_data.prems small by (metis insertE less_trans)
    qed
    with j show "map ?f vs ! j = map embed ps ! j" by simp
  qed
  with fresh List_data.hyps show ?case by (simp add: plain_elements)
qed

section \<open>Policy inputs\<close>

text \<open>What the report looks for on a live policy value: an object it cannot carry, or a string spelled like a marker.\<close>

definition opaque_value :: "heap \<Rightarrow> live_value \<Rightarrow> bool" where
  "opaque_value h v = (case v of
     Scalar c \<Rightarrow> is_unserializable_marker (Leaf c)
   | Ref i \<Rightarrow> (case h i of Other_object t \<Rightarrow> True | _ \<Rightarrow> False))"

lemma marker_is_marker [simp]: "is_unserializable_marker (Leaf (Sc_str (unserializable_marker t)))"
  by (simp add: is_unserializable_marker_def unserializable_marker_def)

lemma other_marks [simp]:
  "\<not> is_unserializable_marker (Leaf (Sc_str cycle_mark))"
  "\<not> is_unserializable_marker (Leaf (Sc_int n))"
  "\<not> is_unserializable_marker (Frozen d)" "\<not> is_unserializable_marker (Tuple vs)"
  by (simp_all add: is_unserializable_marker_def cycle_mark_def marker_prefix_def)

lemma projected_opaque:
  assumes "h r = Mapping_object kvs"
  shows "is_unserializable_marker (project_at h (Suc room) {r} v) \<longleftrightarrow> opaque_value h v"
proof (cases v)
  case (Ref i)
  then show ?thesis using assms by (auto simp: opaque_value_def split: live_object.split)
qed (simp add: opaque_value_def)

lemma policy_key_is_string: "k \<in> set policy_input_keys \<Longrightarrow> projected_key x = k \<longleftrightarrow> x = Key k"
  by (cases x) (auto simp: policy_input_keys_def projected_key_def unserializable_marker_def marker_prefix_def)

lemma policy_key_not_count: "k \<in> set policy_input_keys \<Longrightarrow> k \<noteq> truncated_mark"
  by (auto simp: policy_input_keys_def truncated_mark_def)

lemma folded_value:
  "distinct (map fst kvs) \<Longrightarrow> k \<in> set policy_input_keys \<Longrightarrow>
    dict_get (fold (\<lambda>(k, v) d. dict_set (projected_key k) (f v) d) kvs d) k
      = (case dict_get kvs (Key k) of Some v \<Rightarrow> Some (f v) | None \<Rightarrow> dict_get d k)"
proof (induction kvs arbitrary: d)
  case (Cons x kvs)
  obtain j v where x: "x = (j, v)" by fastforce
  show ?case
  proof (cases "j = Key k")
    case True
    then have "dict_get kvs (Key k) = None"
      using Cons.prems(1) by (simp add: x dict_get_None_iff)
    with True Cons show ?thesis by (simp add: x)
  next
    case False
    then have "projected_key j \<noteq> k" using policy_key_is_string [OF Cons.prems(2), of j] by simp
    with False Cons show ?thesis by (simp add: x split: option.split)
  qed
qed simp

lemma policy_value:
  "distinct (map fst kvs) \<Longrightarrow> k \<in> set policy_input_keys \<Longrightarrow>
    dict_get (project_items f kvs) k = map_option f (dict_get (take max_projection_items kvs) (Key k))"
  using folded_value [of "take max_projection_items kvs" k f "[]"] policy_key_not_count [of k]
  by (auto simp: project_items_def Let_def distinct_take take_map [symmetric] split: option.split)

text \<open>
  A policy input is reported unreadable exactly when it stands among the first 512 keys of the
  context and its live value is an object the projection cannot carry, or a string spelled like the
  mark of one. Everything else in the context, however opaque, is never reported.
\<close>

theorem unreadable_exactly:
  assumes "h r = Mapping_object kvs" "distinct (map fst kvs)"
  shows "k \<in> set (unreadable_policy_inputs (project_context h (Ref r))) \<longleftrightarrow>
    k \<in> set policy_input_keys \<and>
    (\<exists>v. dict_get (take max_projection_items kvs) (Key k) = Some v \<and> opaque_value h v)"
proof -
  have "project_context h (Ref r) = project_items (project_at h 11 {r}) kvs"
    using assms(1) by (simp add: project_context_def project_def max_projection_depth_def eval_nat_numeral)
  moreover have "is_unserializable_marker (project_at h 11 {r} v) \<longleftrightarrow> opaque_value h v" for v
    using projected_opaque [where h = h and r = r and kvs = kvs and room = 10 and v = v] assms(1) by simp
  ultimately show ?thesis
    using policy_value [OF assms(2), of k]
    by (auto simp: unreadable_policy_inputs_def split: option.splits)
qed


section \<open>Rendering gives plain data back\<close>

text \<open>Data made of scalars, lists and mappings keyed by strings, at most twelve levels deep and 512
  entries wide, is given back by rendering its projection. A part reached on two paths is given back
  on both: only an object met inside itself is cut off.\<close>

theorem plain_data_survives:
  assumes "holds_data h max_projection_depth v p"
  shows "render_mutable (project h v) = p"
  using project_at_data [OF assms, of "{}"] by (simp add: project_def)

definition demo_heap :: heap where
  "demo_heap i = (if i = 0 then Mapping_object [(Key ''surface'', Scalar (Sc_str ''chat'')), (Key ''roots'', Ref 1),
       (Key ''again'', Ref 1)]
     else if i = 1 then Sequence_object [Scalar (Sc_str ''/work''), Ref 2]
     else if i = 2 then Mapping_object [(Key ''depth'', Scalar (Sc_int 3))]
     else if i = 3 then Mapping_object [(Key ''project_permissions'', Ref 4), (Key ''handle'', Ref 5), (Key ''bypass_token'', Ref 5)]
     else if i = 4 then Mapping_object [(Key ''allow'', Ref 5)]
     else Other_object ''_thread.lock'')"

definition demo_data :: plain where
  "demo_data = Dict [(''surface'', Plain (Sc_str ''chat'')),
     (''roots'', List [Plain (Sc_str ''/work''), Dict [(''depth'', Plain (Sc_int 3))]]),
     (''again'', List [Plain (Sc_str ''/work''), Dict [(''depth'', Plain (Sc_int 3))]])]"

text \<open>The same data wherever its outermost mapping is.\<close>

lemma demo_heap_data:
  assumes "h r = demo_heap 0" "h 1 = demo_heap 1" "h 2 = demo_heap 2"
  shows "holds_data h max_projection_depth (Ref r) demo_data"
proof -
  have limits: "max_projection_depth = Suc (Suc (Suc 9))" "\<And>n. n < 10 \<Longrightarrow> n \<le> max_projection_items"
    by (simp_all add: max_projection_depth_def max_projection_items_def)
  have inner: "holds_data h (Suc n) (Ref 2) (Dict [(''depth'', Plain (Sc_int 3))])" for n
    by (rule Dict_data [where kvs = "[(''depth'', Scalar (Sc_int 3))]"]) (simp_all add: assms demo_heap_def limits)
  have middle: "holds_data h (Suc (Suc n)) (Ref 1) (List [Plain (Sc_str ''/work''), Dict [(''depth'', Plain (Sc_int 3))]])" for n
    by (rule List_data [where vs = "[Scalar (Sc_str ''/work''), Ref 2]"]) (simp_all add: assms(2) [unfolded One_nat_def] demo_heap_def limits inner)
  show ?thesis
    unfolding limits(1) demo_data_def
    by (rule Dict_data [where kvs = "[(''surface'', Scalar (Sc_str ''chat'')), (''roots'', Ref 1), (''again'', Ref 1)]"])
      (simp_all add: assms(1) demo_heap_def limits middle [of 9, simplified])
qed

lemma demo_data_survives: "render_mutable (project demo_heap (Ref 0)) = demo_data"
  by (intro plain_data_survives demo_heap_data refl)

lemma demo_unreadable:
  "unreadable_policy_inputs (project_context demo_heap (Ref 3)) = [''bypass_token''] \<and>
   ''bypass_token'' \<in> set (unreadable_policy_inputs (project_context demo_heap (Ref 3)))"
proof
  show "''bypass_token'' \<in> set (unreadable_policy_inputs (project_context demo_heap (Ref 3)))"
    by (subst unreadable_exactly
      [where kvs = "[(Key ''project_permissions'', Ref 4), (Key ''handle'', Ref 5), (Key ''bypass_token'', Ref 5)]"])
      (simp_all add: demo_heap_def policy_input_keys_def max_projection_items_def opaque_value_def)
qed code_simp

section \<open>Inputs the report does not see\<close>

text \<open>A policy input behind 512 other keys is dropped by the projection, and is not reported.\<close>

lemma dropped_input_not_reported:
  assumes "h r = Mapping_object (kvs @ (Key k, v) # rest)" "distinct (map fst (kvs @ (Key k, v) # rest))"
    and "max_projection_items \<le> length kvs" "k \<in> set policy_input_keys"
  shows "dict_get (project_context h (Ref r)) k = None \<and> k \<notin> set (unreadable_policy_inputs (project_context h (Ref r)))"
proof -
  have "project_context h (Ref r) = project_items (project_at h 11 {r}) (kvs @ (Key k, v) # rest)"
    using assms(1) by (simp add: project_context_def project_def max_projection_depth_def eval_nat_numeral)
  moreover have "dict_get (take max_projection_items (kvs @ (Key k, v) # rest)) (Key k) = None"
    using assms(2,3) by (auto simp: dict_get_None_iff dest!: in_set_takeD)
  ultimately have "dict_get (project_context h (Ref r)) k = None"
    using policy_value [OF assms(2,4)] by (simp only: option.map(1))
  then show ?thesis by (simp add: unreadable_policy_inputs_def)
qed

text \<open>
  Inside a policy input, an object that could not be carried is not reported: the gate reads its marker as
  the value.
\<close>

lemma nested_object_not_reported:
  "dict_get (project_context demo_heap (Ref 3)) ''project_permissions''
     = Some (Frozen [(''allow'', Leaf (Sc_str (unserializable_marker ''_thread.lock'')))]) \<and>
   ''project_permissions'' \<notin> set (unreadable_policy_inputs (project_context demo_heap (Ref 3)))"
  by code_simp

text \<open>
  Projecting a truncated mapping again, which the freezing of a turn's policy does, counts one dropped
  entry whatever the first projection counted.
\<close>

lemma count_lost_by_second_projection:
  "length kvs = 513 \<Longrightarrow> dict_get (project_items f kvs) truncated_mark = Some (Leaf (Sc_int 1))"
  by (simp add: project_items_def max_projection_items_def)

end
