(* ===== verification/Turn_Policy.thy ===== *)
theory Turn_Policy
  imports Effect_Gateway_Receipts Mode_Permission_Laws Policy_Projection_Laws
begin

text \<open>
  The policy a turn is frozen with, and the network door that is decided under it
  (\<open>core/effect_gateway.py\<close>: \<open>TurnPolicy\<close>, \<open>current_turn_policy\<close>, \<open>consume_turn_policy\<close>,
  \<open>decide_network_fetch\<close>; \<open>request_is_owner_local\<close> of \<open>core/request_trust.py\<close>). Three components meet
  here: the projection of the turn's context, the permission module the door consults, and the
  gateway whose current ledger keeps the first verdict.

  \<^item> The context the gates read is a lookup of texts: Python's \<open>str(context.get(key) or "")\<close>. How a
    value that is not a string prints is an argument.
  \<^item> \<open>dict(source_context)\<close> is a new object, at an address that is an argument.
  \<^item> The saved autonomy preference is an argument, \<open>Inl\<close> the text of the exception reading it raised.
  \<^item> A call comes as the permission module's classifier leaves it; the sentence that explains a
    decision is an argument.
\<close>

section \<open>Reading a context\<close>

definition context_of :: "(string \<Rightarrow> string) \<Rightarrow> permission_action list \<Rightarrow> tool_call list \<Rightarrow> call_context" where
  "context_of text denied batch = \<lparr>cx_runtime_session = text ''runtime_session_id'', cx_session = text ''session_id'',
     cx_project = text ''project_id'', cx_trusted_project = text ''_trusted_project_id'',
     cx_cancel_turn = text ''cancel_turn_id'', cx_mode = text ''operating_mode'', cx_bypass = text ''bypass_token'',
     cx_approval_token = text ''mode_approval_token'', cx_internal_token = text ''internal_authority_token'',
     cx_workspace = text ''workspace'', cx_root = text ''workspace_root'', cx_denied = denied, cx_batch = batch\<rparr>"

fun scalar_truth :: "scalar \<Rightarrow> bool" where
  "scalar_truth Sc_none = False"
| "scalar_truth (Sc_bool b) = b"
| "scalar_truth (Sc_int n) = (n \<noteq> 0)"
| "scalar_truth (Sc_float x) = (x \<noteq> 0)"
| "scalar_truth (Sc_str s) = (s \<noteq> [])"

definition live_truth :: "heap \<Rightarrow> live_value \<Rightarrow> bool" where
  "live_truth h v = (case v of
     Scalar c \<Rightarrow> scalar_truth c
   | Ref i \<Rightarrow> (case h i of Mapping_object kvs \<Rightarrow> kvs \<noteq> [] | Sequence_object vs \<Rightarrow> vs \<noteq> [] | Other_object t \<Rightarrow> True))"

definition live_text :: "(live_value \<Rightarrow> string) \<Rightarrow> heap \<Rightarrow> (live_key \<times> live_value) list \<Rightarrow> string \<Rightarrow> string" where
  "live_text str h kvs k = (case dict_get kvs (Key k) of
     None \<Rightarrow> []
   | Some v \<Rightarrow> if \<not> live_truth h v then [] else (case v of Scalar (Sc_str s) \<Rightarrow> s | _ \<Rightarrow> str v))"

definition plain_truth :: "plain \<Rightarrow> bool" where
  "plain_truth p = (case p of Plain c \<Rightarrow> scalar_truth c | Dict d \<Rightarrow> d \<noteq> [] | List ps \<Rightarrow> ps \<noteq> [])"

definition plain_text :: "(plain \<Rightarrow> string) \<Rightarrow> (string \<times> plain) list \<Rightarrow> string \<Rightarrow> string" where
  "plain_text str d k = (case dict_get d k of
     None \<Rightarrow> []
   | Some p \<Rightarrow> if \<not> plain_truth p then [] else (case p of Plain (Sc_str s) \<Rightarrow> s | _ \<Rightarrow> str p))"

text \<open>\<open>dict(project_permissions or {})\<close>: a mapping, or a list of pairs; anything else raises.\<close>

definition two_of :: "plain \<Rightarrow> (plain \<times> plain) option" where
  "two_of p = (case p of
     List [a, b] \<Rightarrow> Some (a, b)
   | Dict [(j, a), (k, b)] \<Rightarrow> Some (Plain (Sc_str j), Plain (Sc_str k))
   | Plain (Sc_str [x, y]) \<Rightarrow> Some (Plain (Sc_str [x]), Plain (Sc_str [y]))
   | _ \<Rightarrow> None)"

fun pairs_of :: "plain list \<Rightarrow> (string, plain) dict \<Rightarrow> (string, plain) dict option" where
  "pairs_of [] d = Some d"
| "pairs_of (p # ps) d = (case two_of p of
     Some (Plain (Sc_str k), v) \<Rightarrow> pairs_of ps (dict_set k v d)
   | Some (Plain c, v) \<Rightarrow> pairs_of ps d
   | _ \<Rightarrow> None)"

definition permissions_of :: "(string \<times> plain) list \<Rightarrow> (string, plain) dict option" where
  "permissions_of d = (case dict_get d ''project_permissions'' of
     None \<Rightarrow> Some []
   | Some p \<Rightarrow> if \<not> plain_truth p then Some []
       else (case p of Dict e \<Rightarrow> Some e | List ps \<Rightarrow> pairs_of ps [] | Plain c \<Rightarrow> None))"

definition denied_of :: "(string, plain) dict \<Rightarrow> permission_action list" where
  "denied_of e = filter (\<lambda>a. dict_get e (action_value a) = Some (Plain (Sc_bool False))) all_actions"

section \<open>The policy\<close>

datatype policy_fault = Unreadable_inputs "string list" | Autonomy_unread string

fun fault_text :: "policy_fault \<Rightarrow> string" where
  "fault_text (Unreadable_inputs ks) = ''decision_context policy inputs could not be projected: '' @ py_join '', '' ks"
| "fault_text (Autonomy_unread x) = ''autonomy: '' @ x"

record turn_policy =
  tp_id :: string
  tp_principal :: string
  tp_mode :: operating_mode
  tp_revision :: nat
  tp_active :: bool
  tp_root :: string
  tp_network :: string
  tp_autonomy :: string
  tp_faults :: "policy_fault list"
  tp_context :: "(string \<times> projected) list"

record turn_env =
  te_perm :: permission_env
  te_address :: nat
  te_policy :: string
  te_text :: "live_value \<Rightarrow> string"
  te_autonomy :: "string + string"

definition owner_surfaces :: "string list" where
  "owner_surfaces = [''cli'', ''desktop'', ''local'', '''']"

definition request_is_owner_local :: "(live_value \<Rightarrow> string) \<Rightarrow> heap \<Rightarrow> (live_key \<times> live_value) list \<Rightarrow> bool" where
  "request_is_owner_local str h kvs = (case dict_get kvs (Key ''_owner_local'') of
     Some v \<Rightarrow> live_truth h v
   | None \<Rightarrow>
       if (case dict_get kvs (Key ''_http_ingress'') of None \<Rightarrow> False | Some v \<Rightarrow> live_truth h v) then False
       else py_lower (py_strip (live_text str h kvs ''surface'')) \<in> set owner_surfaces)"

definition live_mapping :: "heap \<Rightarrow> live_value \<Rightarrow> (live_key \<times> live_value) list" where
  "live_mapping h v = (case v of Scalar c \<Rightarrow> []
     | Ref i \<Rightarrow> (case h i of Mapping_object kvs \<Rightarrow> kvs | Sequence_object vs \<Rightarrow> [] | Other_object t \<Rightarrow> []))"

text \<open>
  The dataclass freezes what it is given, which is a projection already: the same walk over a
  projection, whose tree has no cycles.
\<close>

fun reproject :: "nat \<Rightarrow> projected \<Rightarrow> projected" where
  "reproject room (Leaf c) = Leaf c"
| "reproject 0 (Frozen d) = Leaf (Sc_str too_deep_mark)"
| "reproject 0 (Tuple vs) = Leaf (Sc_str too_deep_mark)"
| "reproject (Suc room) (Frozen d) = Frozen (project_items (reproject room) (map (\<lambda>(k, v). (Key k, v)) d))"
| "reproject (Suc room) (Tuple vs) = Tuple (project_elements (reproject room) vs)"

definition freeze_context :: "(string \<times> projected) list \<Rightarrow> (string \<times> projected) list" where
  "freeze_context d = (case reproject max_projection_depth (Frozen d) of Frozen d' \<Rightarrow> d' | _ \<Rightarrow> [])"

definition from_source_context :: "turn_env \<Rightarrow> heap \<Rightarrow> live_value \<Rightarrow> 'a permission_store_scheme \<Rightarrow> turn_policy" where
  "from_source_context e h v s =
     (let kvs = live_mapping h v; h' = h(te_address e := Mapping_object kvs); text = live_text (te_text e) h' kvs;
          frozen = project_context h' (Ref (te_address e)); unreadable = unreadable_policy_inputs frozen;
          cx = context_of text [] []; st = active_mode_state (te_perm e) cx s
      in \<lparr>tp_id = te_policy e,
          tp_principal = (if request_is_owner_local (te_text e) h' kvs then ''owner_local'' else ''remote_untrusted''),
          tp_mode = ms_mode st, tp_revision = ms_revision st, tp_active = mode_policy_is_active cx s,
          tp_root = text ''workspace_root'', tp_network = text ''allow_remote_fetch'',
          tp_autonomy = (case te_autonomy e of Inl x \<Rightarrow> [] | Inr a \<Rightarrow> a),
          tp_faults = (if unreadable = [] then [] else [Unreadable_inputs unreadable])
            @ (case te_autonomy e of Inl x \<Rightarrow> [Autonomy_unread x] | Inr a \<Rightarrow> []),
          tp_context = freeze_context frozen\<rparr>)"

definition policy_error :: "turn_policy \<Rightarrow> string" where
  "policy_error p = py_join ''; '' (map fault_text (tp_faults p))"

definition decision_context_copy :: "turn_policy \<Rightarrow> (string \<times> plain) list" where
  "decision_context_copy p = (case render_mutable (Frozen (tp_context p)) of Dict d \<Rightarrow> d | _ \<Rightarrow> [])"

section \<open>The door\<close>

text \<open>The gateway, the policy frozen on each of its ledgers, and the permission module's store.\<close>

record turn_world =
  tw_gateway :: gateway
  tw_policies :: "(string, turn_policy) dict"
  tw_store :: permission_store

definition open_turn :: "turn_env \<Rightarrow> heap \<Rightarrow> live_value \<Rightarrow> string \<Rightarrow> turn_world \<Rightarrow> turn_world" where
  "open_turn e h v lid w =
     (let p = from_source_context e h v (tw_store w)
      in w\<lparr>tw_gateway := open_effect_receipt_scope lid (tp_id p) (tp_root p) (tw_gateway w),
           tw_policies := dict_set lid p (tw_policies w)\<rparr>)"

definition open_background :: "turn_env \<Rightarrow> heap \<Rightarrow> live_value \<Rightarrow> string \<Rightarrow> bool \<Rightarrow> string \<Rightarrow> string \<Rightarrow> turn_world
    \<Rightarrow> (gateway_refusal + string \<times> bool) \<times> turn_world" where
  "open_background e h v name durable inst lid w =
     (let p = from_source_context e h v (tw_store w);
          (r, g) = enter_background_scope name durable lid inst (tp_id p) (tp_root p) (tw_gateway w)
      in (r, w\<lparr>tw_gateway := g,
               tw_policies := (case r of Inr (_, True) \<Rightarrow> dict_set lid p (tw_policies w) | _ \<Rightarrow> tw_policies w)\<rparr>))"

definition current_turn_policy :: "turn_world \<Rightarrow> turn_policy option" where
  "current_turn_policy w = (case gw_stack (tw_gateway w) of [] \<Rightarrow> None | lid # _ \<Rightarrow> dict_get (tw_policies w) lid)"

datatype policy_unavailable = No_active_ledger | Policy_faulty string

definition consume_turn_policy :: "turn_world \<Rightarrow> policy_unavailable + turn_policy" where
  "consume_turn_policy w = (case current_turn_policy w of
     None \<Rightarrow> Inl No_active_ledger
   | Some p \<Rightarrow> if policy_error p \<noteq> [] then Inl (Policy_faulty (policy_error p)) else Inr p)"

record consult_env =
  ce_perm :: permission_env
  ce_text :: "plain \<Rightarrow> string"
  ce_batch :: "tool_call list"
  ce_call :: tool_call
  ce_reason :: "permission_decision \<Rightarrow> string"
  ce_raised :: string

definition network_fetch_class :: string where
  "network_fetch_class = ''network_fetch''"

text \<open>
  The consult of the permission module on the frozen context. Where \<open>dict(project_permissions)\<close>
  raises, every step of the decision behind it is skipped, which denying every action says too.
\<close>

definition consult_modes :: "consult_env \<Rightarrow> turn_policy \<Rightarrow> permission_store \<Rightarrow> permission_store \<times> decision \<times> string" where
  "consult_modes e p s =
     (let d = decision_context_copy p; perms = permissions_of d;
          denied = (case perms of None \<Rightarrow> tc_actions (ce_call e) | Some m \<Rightarrow> denied_of m);
          (s', r) = decide_tool_call (ce_perm e) (context_of (plain_text (ce_text e) d) denied (ce_batch e)) [] (ce_call e) s
      in (s', if perms = None \<and> pd_granted_by r \<notin> {Some Exact_approval, Some Task_grant}
              then (Denied, ''gateway consult failed closed: '' @ ce_raised e)
              else if pd_effect r = Allow then (Allowed, ce_reason e r)
              else (Denied, py_or (ce_reason e r) ''denied'')))"

text \<open>No mode policy when the turn began is a positive reading: allowed.\<close>

definition door_verdict :: "consult_env \<Rightarrow> turn_policy \<Rightarrow> permission_store \<Rightarrow> permission_store \<times> decision \<times> string" where
  "door_verdict e p s =
     (if \<not> tp_active p then (s, Allowed, ''no mode policy active (principal='' @ tp_principal p @ '')'') else consult_modes e p s)"

definition no_ledger_reason :: string where
  "no_ledger_reason = ''no active turn ledger: a network fetch outside a turn scope is denied ''
     @ ''(decide_network_fetch fails closed; non-turn fetches run under ''
     @ ''named_background_effect_scope, which the open_remote door provides)''"

definition decide_network_fetch :: "consult_env \<Rightarrow> turn_world \<Rightarrow> (decision \<times> string) \<times> turn_world" where
  "decide_network_fetch e w = (case gw_stack (tw_gateway w) of
     [] \<Rightarrow> ((Denied, no_ledger_reason), w)
   | lid # _ \<Rightarrow> (case (dict_get (tw_policies w) lid, dict_get (gw_ledgers (tw_gateway w)) lid) of
       (Some p, Some l) \<Rightarrow>
         if policy_error p \<noteq> [] then ((Denied, ''policy construction failed closed: '' @ policy_error p), w)
         else (case frozen_decision network_fetch_class l of
             Some (Denied, why) \<Rightarrow> ((Denied, why), w)
           | _ \<Rightarrow>
             (let (s', verdict) = door_verdict e p (tw_store w)
              in (verdict, w\<lparr>tw_store := s', tw_gateway := freeze_on lid network_fetch_class verdict (tw_gateway w)\<rparr>)))
     | _ \<Rightarrow> ((Denied, no_ledger_reason), w)))"

end
