(* ===== verification/Turn_Policy_Runs.thy ===== *)
theory Turn_Policy_Runs
  imports Turn_Policy
begin

text \<open>
  Runs of the turn's world: scopes opened with their policies, every other operation of the gateway,
  every operation of the permission module, and the network door. What a ledger's memo says is a law
  of its own, that nothing the gateway does breaks; the door's first verdict rests on it.
\<close>

section \<open>Steps of the world\<close>

datatype turn_op =
    Begin_turn turn_env heap live_value string
  | Background turn_env heap live_value string bool string string
  | Gate_op gateway_op
  | Permission_op permission_env perm_op
  | Fetch consult_env

fun turn_step :: "turn_op \<Rightarrow> turn_world \<Rightarrow> turn_world" where
  "turn_step (Begin_turn e h v lid) w = open_turn e h v lid w"
| "turn_step (Background e h v name durable inst lid) w = snd (open_background e h v name durable inst lid w)"
| "turn_step (Gate_op x) w = w\<lparr>tw_gateway := gateway_step x (tw_gateway w)\<rparr>"
| "turn_step (Permission_op e x) w = w\<lparr>tw_store := perm_step (e, x) (tw_store w)\<rparr>"
| "turn_step (Fetch e) w = snd (decide_network_fetch e w)"

text \<open>A scope opens under an identifier not used before, and with the policy of its context.\<close>

definition unused :: "string \<Rightarrow> turn_world \<Rightarrow> bool" where
  "unused lid w \<longleftrightarrow> dict_get (gw_ledgers (tw_gateway w)) lid = None \<and> dict_get (tw_policies w) lid = None"

definition opens_scope :: "gateway_op \<Rightarrow> bool" where
  "opens_scope x \<longleftrightarrow> (case x of G_Open_turn i p ws \<Rightarrow> True | G_Enter n d i j p ws \<Rightarrow> True | _ \<Rightarrow> False)"

definition turn_lawful :: "turn_op \<Rightarrow> turn_world \<Rightarrow> bool" where
  "turn_lawful x w = (case x of
     Begin_turn e h v lid \<Rightarrow> unused lid w
   | Background e h v name durable inst lid \<Rightarrow> unused lid w
   | Gate_op y \<Rightarrow> \<not> opens_scope y
   | _ \<Rightarrow> True)"

section \<open>Laws of a ledger that read only its memo\<close>

definition ledger_keeps :: "(effect_ledger \<Rightarrow> bool) \<Rightarrow> string \<Rightarrow> gateway \<Rightarrow> bool" where
  "ledger_keeps Q lid g \<longleftrightarrow> keyed g \<and> (\<exists>l. dict_get (gw_ledgers g) lid = Some l \<and> Q l)"

lemma keeps_cong: "gw_ledgers g' = gw_ledgers g \<Longrightarrow> ledger_keeps Q lid g' = ledger_keeps Q lid g"
  by (simp add: ledger_keeps_def keyed_def)

lemma keeps_other: "ledger_keeps Q lid g \<Longrightarrow> el_id l \<noteq> lid \<Longrightarrow> ledger_keeps Q lid (set_ledger l g)"
  by (auto simp: ledger_keeps_def keyed_set)

lemma keeps_calls [simp]:
  "ledger_keeps Q lid (snd (unit_call r g)) = ledger_keeps Q lid g"
  "ledger_keeps Q lid (snd (money_call q g)) = ledger_keeps Q lid g"
  by (rule keeps_cong, simp)+

lemma keeps_then:
  assumes "ledger_keeps Q lid (snd r)" "\<And>a g1. r = (Inr a, g1) \<Longrightarrow> ledger_keeps Q lid (snd (k a g1))"
  shows "ledger_keeps Q lid (snd (gate_then r k))"
  using assms by (cases r rule: prod.exhaust; cases "fst r") (auto simp: gate_then_def)

lemma keeps_with:
  assumes "ledger_keeps Q lid g" "\<And>l. dict_get (gw_ledgers g) i = Some l \<Longrightarrow> ledger_keeps Q lid (snd (k l))"
  shows "ledger_keeps Q lid (snd (with_ledger i k g))"
  using assms by (simp add: with_ledger_def split: option.split)

lemma resolve_memo [simp]: "el_memo (resolve_identity cx l) = el_memo l" "el_id (resolve_identity cx l) = el_id l"
  by (simp_all add: resolve_identity_def)

lemma append_memo:
  "ledger_append cx stamp en keep l0 = (m, p, b, l) \<Longrightarrow> el_memo l = el_memo l0 \<and> el_id l = el_id l0"
  by (auto simp: ledger_append_def Let_def split: if_splits)

lemma register_memo: "el_memo (register_effect eid en l) = el_memo l \<and> el_id (register_effect eid en l) = el_id l"
  by (simp add: register_effect_def Let_def split: option.split)

lemma begin_memo: "begin_registered eid l0 = Some (n, l) \<Longrightarrow> el_memo l = el_memo l0 \<and> el_id l = el_id l0"
  by (auto simp: begin_registered_def split: option.splits)

definition turn_keeps :: "(effect_ledger \<Rightarrow> bool) \<Rightarrow> string \<Rightarrow> turn_policy \<Rightarrow> turn_world \<Rightarrow> bool" where
  "turn_keeps Q lid p w \<longleftrightarrow> ledger_keeps Q lid (tw_gateway w) \<and> dict_get (tw_policies w) lid = Some p"

locale ledger_law =
  fixes Q :: "effect_ledger \<Rightarrow> bool"
  assumes memo: "Q l \<Longrightarrow> el_memo l' = el_memo l \<Longrightarrow> Q l'"
    and freeze: "Q l \<Longrightarrow> Q (freeze_decision cls v l)"
begin

lemma kept_set:
  assumes "ledger_keeps Q lid g" "dict_get (gw_ledgers g) i = Some l0" "el_id l = el_id l0" "el_memo l = el_memo l0"
  shows "ledger_keeps Q lid (set_ledger l g)"
proof (cases "i = lid")
  case True
  have "el_id l0 = i" using assms(1,2) keyed_get by (auto simp: ledger_keeps_def)
  moreover have "Q l" using assms(1,2,4) True memo [of l0 l] by (auto simp: ledger_keeps_def)
  ultimately show ?thesis using assms(1,3) True by (auto simp: ledger_keeps_def keyed_set)
next
  case False
  then have "el_id l \<noteq> lid" using assms(1-3) keyed_get by (auto simp: ledger_keeps_def)
  with assms(1) show ?thesis by (rule keeps_other)
qed

lemma kept_freeze:
  assumes g: "ledger_keeps Q lid g"
  shows "ledger_keeps Q lid (freeze_on i cls v g)"
proof (cases "dict_get (gw_ledgers g) i")
  case (Some l)
  have id: "el_id l = i" using g Some keyed_get by (auto simp: ledger_keeps_def)
  have same: "el_id (freeze_decision cls v l) = el_id l" by (simp add: freeze_decision_def)
  show ?thesis
  proof (cases "i = lid")
    case True
    have "Q (freeze_decision cls v l)" using g Some True freeze by (auto simp: ledger_keeps_def)
    with g Some True id same show ?thesis by (simp add: freeze_on_def ledger_keeps_def keyed_set)
  qed (use g Some id same in \<open>simp add: freeze_on_def keeps_other\<close>)
qed (use g in \<open>simp add: freeze_on_def\<close>)

lemma kept_append:
  assumes "ledger_keeps Q lid g"
  shows "ledger_keeps Q lid (snd (append_entry e i en keep g))"
proof (cases "dict_get (gw_ledgers g) i")
  case (Some l0)
  obtain m p b l where a: "ledger_append (ge_context e) (ge_stamp e) en keep l0 = (m, p, b, l)" by (metis prod_cases4)
  have "ledger_keeps Q lid (set_ledger l g)"
    using append_memo [OF a] by (intro kept_set [OF assms Some]) simp_all
  then have "ledger_keeps Q lid (set_ledger l g)" "ledger_keeps Q lid ((set_ledger l g)\<lparr>gw_journal := j\<rparr>)" for j
    by (simp_all add: ledger_keeps_def keyed_def)
  with Some a show ?thesis by (simp add: append_entry_def Let_def)
qed (use assms in \<open>simp add: append_entry_def\<close>)

lemma kept_terminal:
  assumes k: "ledger_keeps Q lid g"
  shows "ledger_keeps Q lid (snd (terminal_transition e i eid n lc en g))"
proof (cases "dict_get (gw_ledgers g) i")
  case (Some l)
  have "ledger_keeps Q lid (set_ledger (l\<lparr>el_effects := d\<rparr>) g)" for d
    by (rule kept_set [OF k Some]) simp_all
  then show ?thesis using Some k by (simp add: terminal_transition_def kept_append split: option.split)
qed (use k in \<open>simp add: terminal_transition_def\<close>)

lemma kept_end: "ledger_keeps Q lid g \<Longrightarrow> ledger_keeps Q lid (snd (record_terminal e h lc reason status g))"
  by (simp add: record_terminal_def Let_def kept_terminal)

lemma kept_begin:
  assumes k: "ledger_keeps Q lid g"
  shows "ledger_keeps Q lid (snd (snd (begin_attempt e h g)))"
proof (cases "fst (begin_attempt e h g)")
  case (Inl x)
  then obtain h' g' where b: "begin_attempt e h g = (Inl x, h', g')" by (metis prod.collapse)
  with begin_refused_ledgers [OF b] k show ?thesis by (simp add: ledger_keeps_def keyed_def)
next
  case (Inr n)
  then obtain h' g' where b: "begin_attempt e h g = (Inr n, h', g')" by (metis prod.collapse)
  from begin_success [OF b] obtain c g1 g2 l0 l where "lc_decision h \<noteq> Denied" and s: "claim_money_for_attempt e h g = (Inr c, g1)"
    "consume_budget_for_attempt e (hold_claim c h) g1 = (Inr (), g2)"
    "dict_get (gw_ledgers g2) (lc_ledger h) = Some l0" "begin_registered (lc_effect h) l0 = Some (n, l)"
    "h' = (hold_claim c h)\<lparr>lc_attempt := n\<rparr>"
    "g' = snd (append_entry e (lc_ledger h) (lifecycle_entry (hold_claim c h) Lc_started (''transport attempt '' @ show_nat n) n) (lc_effect h) (set_ledger l g2))" .
  have "gw_ledgers g2 = gw_ledgers g"
    using claim_money_frame [of e h g] consume_budget_frame [of e "hold_claim c h" g1] s(1,2) by simp
  then have "ledger_keeps Q lid g2" using k by (simp add: keeps_cong [of g2 g])
  then have "ledger_keeps Q lid (set_ledger l g2)"
    using begin_memo [OF s(4)] by (intro kept_set [OF _ s(3)]) simp_all
  then show ?thesis by (simp add: b s(6) kept_append)
qed

lemma kept_resolved:
  assumes "ledger_keeps Q lid g" "dict_get (gw_ledgers g) i = Some l"
  shows "ledger_keeps Q lid (set_ledger (resolve_identity cx l) g)"
  by (rule kept_set [OF assms]) simp_all

lemma kept_units:
  assumes "ledger_keeps Q lid g" "dict_get (gw_ledgers g) i = Some l"
  shows "ledger_keeps Q lid (snd (reserve_budget_units e l en retry g))"
proof (cases "gateway_budget_class (en_class en)")
  case (Some c)
  obtain r p s where r: "reserve_effect_units (ge_unit e) (Some c) [] (el_id l) (budget_identity (ge_context e) l (en_provider en)) 1
      (process_of (ev_pid (ge_unit e)) (gw_units g)) (sy_store (gw_units g)) = (r, p, s)" by (metis prod_cases3)
  have "ledger_keeps Q lid ((set_ledger (resolve_identity (ge_context e) l) g)\<lparr>gw_units := sy\<rparr>)" for sy
    using kept_resolved [OF assms, of "ge_context e"] by (simp add: ledger_keeps_def keyed_def)
  with Some r assms(1) show ?thesis
    by (auto simp: reserve_budget_units_def Let_def intro: kept_append split: sum.split)
qed (use assms(1) in \<open>simp add: reserve_budget_units_def\<close>)

lemma kept_refuse: "ledger_keeps Q lid g \<Longrightarrow> ledger_keeps Q lid (snd (refuse_money e l en rid c g))"
  by (simp add: refuse_money_def Let_def kept_append)

lemma kept_money:
  assumes "ledger_keeps Q lid g" "dict_get (gw_ledgers g) i = Some l"
  shows "ledger_keeps Q lid (snd (reserve_money_at_gate e l en rq rid g))"
proof -
  note g = kept_resolved [OF assms, of "ge_context e"]
  then have "ledger_keeps Q lid ((set_ledger (resolve_identity (ge_context e) l) g)\<lparr>gw_money := db\<rparr>)" for db
    by (simp add: ledger_keeps_def keyed_def)
  with g show ?thesis
    by (auto simp: reserve_money_at_gate_def Let_def intro: kept_refuse split: sum.split prod.split)
qed

lemma kept_enrolled: "ledger_keeps Q lid g \<Longrightarrow> ledger_keeps Q lid (enroll i eid en g)"
  using register_memo by (auto simp: enroll_def intro: kept_set split: option.split)

lemma kept_opening: "ledger_keeps Q lid g \<Longrightarrow> ledger_keeps Q lid (snd (snd (record_opening e i en known retry g)))"
  using kept_append [of lid g e i] by (simp add: record_opening_def Let_def split: prod.split) (metis snd_conv)

lemma kept_bound:
  assumes g: "ledger_keeps Q lid g"
  shows "ledger_keeps Q lid (snd (bind_opening e i eid en rid li g))"
  unfolding bind_opening_def
proof (rule keeps_then)
  show u: "ledger_keeps Q lid (snd (if rid = [] then (Inr (), g)
      else unit_call (bind_reservation_effect (ge_unit e) rid eid (sy_store (gw_units g))) g))"
    using g by simp
  fix a g1 assume "(if rid = [] then (Inr (), g)
      else unit_call (bind_reservation_effect (ge_unit e) rid eid (sy_store (gw_units g))) g) = (Inr a, g1)"
  with u have g1: "ledger_keeps Q lid g1" by (simp only: snd_conv)
  show "ledger_keeps Q lid (snd (gate_then (if li = [] then (Inr (), g1) else money_call (bind_liability_effect li eid (gw_money g1)) g1)
      (\<lambda>_ g2. (Inr (new_handle i eid en li), enroll i eid en g2))))"
  proof (rule keeps_then)
    show m: "ledger_keeps Q lid (snd (if li = [] then (Inr (), g1) else money_call (bind_liability_effect li eid (gw_money g1)) g1))"
      using g1 by simp
    fix b g2 assume "(if li = [] then (Inr (), g1) else money_call (bind_liability_effect li eid (gw_money g1)) g1) = (Inr b, g2)"
    with m have "ledger_keeps Q lid g2" by (simp only: snd_conv)
    then show "ledger_keeps Q lid (snd (Inr (new_handle i eid en li), enroll i eid en g2))"
      by (simp add: kept_enrolled)
  qed
qed

lemma kept_open:
  assumes g: "ledger_keeps Q lid g"
  shows "ledger_keeps Q lid (snd (open_effect e i en retry mny g))"
  unfolding open_effect_def Let_def
proof (rule keeps_with [OF g])
  fix l assume l: "dict_get (gw_ledgers g) i = Some l"
  show "ledger_keeps Q lid (snd (gate_then
      (if en_decision en = Allowed then reserve_budget_units e l en (if known_effect retry l then retry else []) g else (Inr [], g))
      (\<lambda>rid g1. gate_then (case mny of None \<Rightarrow> (Inr [], g1)
         | Some rq \<Rightarrow> if en_decision en = Allowed then with_ledger i (\<lambda>l. reserve_money_at_gate e l en rq rid g1) g1 else (Inr [], g1))
       (\<lambda>li g2. case record_opening e i en (known_effect retry l) retry g2 of (eid, en', g3) \<Rightarrow> bind_opening e i eid en' rid li g3))))"
  proof (rule keeps_then)
    show u: "ledger_keeps Q lid (snd (if en_decision en = Allowed then reserve_budget_units e l en (if known_effect retry l then retry else []) g else (Inr [], g)))"
      using kept_units [OF g l] g by simp
    fix rid g1
    assume "(if en_decision en = Allowed then reserve_budget_units e l en (if known_effect retry l then retry else []) g else (Inr [], g)) = (Inr rid, g1)"
    with u have g1: "ledger_keeps Q lid g1" by simp
    show "ledger_keeps Q lid (snd (gate_then (case mny of None \<Rightarrow> (Inr [], g1)
         | Some rq \<Rightarrow> if en_decision en = Allowed then with_ledger i (\<lambda>l. reserve_money_at_gate e l en rq rid g1) g1 else (Inr [], g1))
       (\<lambda>li g2. case record_opening e i en (known_effect retry l) retry g2 of (eid, en', g3) \<Rightarrow> bind_opening e i eid en' rid li g3)))"
    proof (rule keeps_then)
      show m: "ledger_keeps Q lid (snd (case mny of None \<Rightarrow> (Inr [], g1)
         | Some rq \<Rightarrow> if en_decision en = Allowed then with_ledger i (\<lambda>l. reserve_money_at_gate e l en rq rid g1) g1 else (Inr [], g1)))"
        using kept_money [OF g1] g1 by (auto intro!: keeps_with split: option.split)
      fix li g2
      assume "(case mny of None \<Rightarrow> (Inr [], g1)
         | Some rq \<Rightarrow> if en_decision en = Allowed then with_ledger i (\<lambda>l. reserve_money_at_gate e l en rq rid g1) g1 else (Inr [], g1)) = (Inr li, g2)"
      with m have g2: "ledger_keeps Q lid g2" by (simp only: snd_conv)
      show "ledger_keeps Q lid (snd (case record_opening e i en (known_effect retry l) retry g2 of (eid, en', g3) \<Rightarrow> bind_opening e i eid en' rid li g3))"
        using kept_opening [OF g2, of e i en "known_effect retry l" retry]
        by (cases "record_opening e i en (known_effect retry l) retry g2") (simp add: kept_bound)
    qed
  qed
qed

lemma kept_step:
  assumes g: "ledger_keeps Q lid g"
    and new: "\<And>i p ws. x = G_Open_turn i p ws \<Longrightarrow> i \<noteq> lid" "\<And>n d i j p ws. x = G_Enter n d i j p ws \<Longrightarrow> i \<noteq> lid"
  shows "ledger_keeps Q lid (gateway_step x g)"
proof -
  have led: "ledger_keeps Q lid g'" if "gw_ledgers g' = gw_ledgers g0" "ledger_keeps Q lid g0" for g' g0 :: gateway
    using that by (simp add: keeps_cong [of g' g0])
  have after: "ledger_keeps Q lid (money_after_attempt e h d why g1)" "ledger_keeps Q lid (return_money e h why g1)"
    "ledger_keeps Q lid (return_unspent e i why why' g1)" if "ledger_keeps Q lid g1" for e h d why why' i g1
    by (rule led [OF _ that]; auto simp: money_after_attempt_def return_money_def return_unspent_def Let_def split: option.split)+
  have fresh: "ledger_keeps Q lid (set_ledger (new_ledger i scope durable inst policy ws) g\<lparr>gw_stack := st\<rparr>)" if "i \<noteq> lid"
    for i scope durable inst policy ws st
  proof -
    have "ledger_keeps Q lid (set_ledger (new_ledger i scope durable inst policy ws) g)"
      by (rule keeps_other [OF g]) (simp add: new_ledger_def that)
    then show ?thesis by (rule led [rotated]) simp
  qed
  have money: "ledger_keeps Q lid (snd (with_money h (\<lambda>g. money_call (r (gw_money g)) g) g))" for h r
    using g by (simp add: with_money_def)
  have ended: "ledger_keeps Q lid g1" if "record_terminal e h lc why st g = (r, g1)" for e h lc why st r g1
    using kept_end [OF g, of e h lc why st] that by simp
  show ?thesis
  proof (cases x)
    case (G_Close e)
    show ?thesis
    proof (cases "gw_stack g")
      case (Cons i rest)
      have g1: "ledger_keeps Q lid (return_unspent e i why why' (g\<lparr>gw_stack := rest\<rparr>))" for why why'
        by (rule after(3)) (rule led [OF _ g], simp)
      have "ledger_keeps Q lid (set_ledger (finalized (ge_context e) l) g')"
        if "ledger_keeps Q lid g'" "dict_get (gw_ledgers g') i = Some l" for l g'
        by (rule kept_set [OF that]) (simp_all add: finalized_def Let_def)
      with g1 show ?thesis using Cons G_Close
        by (simp add: close_effect_receipt_scope_def Let_def split: option.split)
    qed (use G_Close g in \<open>simp add: close_effect_receipt_scope_def\<close>)
  next
    case (G_Leave e sc)
    have "ledger_keeps Q lid (g\<lparr>gw_stack := []\<rparr>)" by (rule led [OF _ g]) simp
    with G_Leave g after show ?thesis by (cases sc) (simp add: leave_background_scope_def)
  next
    case (G_Freeze i cls v)
    then show ?thesis by (simp add: kept_freeze [OF g])
  next
    case (G_Cancel e h reason)
    then show ?thesis using g after
      by (auto simp: cancel_def simp del: first_stated.simps intro!: keeps_then kept_end dest!: ended)
  next
    case (G_Succeed e h status reason)
    then show ?thesis using g after
      by (auto simp: succeed_def Let_def intro!: keeps_then kept_end dest!: ended)
  next
    case (G_Fail e h f reason)
    then show ?thesis using g after
      by (auto simp: fail_def Let_def simp del: first_stated.simps intro!: keeps_then kept_end dest!: ended)
  next
    case (G_Enter name durable i inst policy ws)
    then show ?thesis using g fresh new(2) by (simp add: enter_background_scope_def Let_def split: list.split)
  next
    case (G_Units y)
    show ?thesis unfolding G_Units by (rule led [OF _ g]) simp
  next
    case (G_Money m y)
    show ?thesis unfolding G_Money by (rule led [OF _ g]) simp
  next
    case (G_Open_turn i policy ws)
    then show ?thesis using fresh new(1) by (simp add: open_effect_receipt_scope_def)
  next
    case (G_Open_effect e i en retry m)
    then show ?thesis using g by (simp add: kept_open)
  qed (use g money in \<open>simp_all add: money_unsent_def money_unknown_def settle_money_def kept_begin kept_append kept_end\<close>)
qed

lemma turn_kept:
  assumes k: "turn_keeps Q lid p w" and x: "turn_lawful x w"
  shows "turn_keeps Q lid p (turn_step x w)"
proof -
  have g: "ledger_keeps Q lid (tw_gateway w)" and p: "dict_get (tw_policies w) lid = Some p"
    using k by (simp_all add: turn_keeps_def)
  have other: "i \<noteq> lid" if "unused i w" for i using that p by (auto simp: unused_def)
  show ?thesis
  proof (cases x)
    case (Begin_turn e h v i)
    with x other have "i \<noteq> lid" by (simp add: turn_lawful_def)
    with kept_step [OF g, of "G_Open_turn i q ws" for q ws] p Begin_turn show ?thesis
      by (simp add: open_turn_def Let_def turn_keeps_def)
  next
    case (Background e h v name durable inst i)
    with x other have i: "i \<noteq> lid" by (simp add: turn_lawful_def)
    let ?p = "from_source_context e h v (tw_store w)"
    obtain r g' where r: "enter_background_scope name durable i inst (tp_id ?p) (tp_root ?p) (tw_gateway w) = (r, g')" by fastforce
    have "ledger_keeps Q lid g'"
      using kept_step [OF g, of "G_Enter name durable i inst (tp_id ?p) (tp_root ?p)"] i r by simp
    with i r p Background show ?thesis
      by (auto simp: open_background_def Let_def turn_keeps_def split: sum.split prod.split bool.split)
  next
    case (Gate_op y)
    have "ledger_keeps Q lid (gateway_step y (tw_gateway w))"
      using x Gate_op by (intro kept_step [OF g]) (auto simp: turn_lawful_def opens_scope_def)
    with p Gate_op show ?thesis by (simp add: turn_keeps_def)
  next
    case (Permission_op e y)
    with g p show ?thesis by (simp add: turn_keeps_def)
  next
    case (Fetch e)
    have "tw_policies (snd (decide_network_fetch e w)) = tw_policies w"
      by (simp add: decide_network_fetch_def Let_def split: list.split option.split prod.split decision.split)
    moreover have "ledger_keeps Q lid (tw_gateway (snd (decide_network_fetch e w)))"
      using g kept_freeze [OF g]
      by (simp add: decide_network_fetch_def Let_def split: list.split option.split prod.split decision.split)
    ultimately show ?thesis using p Fetch by (simp add: turn_keeps_def)
  qed
qed

sublocale scope: lawful_system turn_step turn_lawful "turn_keeps Q lid p" for lid p
  by unfold_locales (rule turn_kept)

end

section \<open>The verdict a ledger remembers\<close>

interpretation any_ledger: ledger_law "\<lambda>l. True"
  by unfold_locales simp_all

interpretation verdict: ledger_law "\<lambda>l. frozen_decision network_fetch_class l = Some v" for v :: "decision \<times> string"
  by unfold_locales (simp_all add: frozen_decision_def freeze_decision_def)

lemma fault_text_nonempty: "fault_text x \<noteq> []"
  by (cases x) simp_all

lemma join_nonempty: "xs \<noteq> [] \<Longrightarrow> [] \<notin> set xs \<Longrightarrow> py_join sep xs \<noteq> []"
  by (induction sep xs rule: py_join.induct) auto

lemma policy_error_iff: "policy_error p = [] \<longleftrightarrow> tp_faults p = []"
proof (cases "tp_faults p")
  case (Cons x xs)
  then have "py_join ''; '' (map fault_text (tp_faults p)) \<noteq> []"
    by (intro join_nonempty) (auto simp: fault_text_nonempty dest: sym)
  with Cons show ?thesis by (simp add: policy_error_def)
qed (simp add: policy_error_def)

lemma door_decides: "fst (snd (door_verdict e p s)) \<in> {Allowed, Denied}"
  by (simp add: door_verdict_def consult_modes_def Let_def split: prod.split)

lemma fetch_decides: "fst (fst (decide_network_fetch e w)) \<in> {Allowed, Denied}"
  using door_decides
  by (auto simp: decide_network_fetch_def split: list.split option.split prod.split decision.split) (metis fst_conv snd_conv)+

lemma no_turn_no_fetch:
  "gw_stack (tw_gateway w) = [] \<Longrightarrow> decide_network_fetch e w = ((Denied, no_ledger_reason), w)"
  "gw_stack (tw_gateway w) = [] \<Longrightarrow> consume_turn_policy w = Inl No_active_ledger"
  by (simp_all add: decide_network_fetch_def consume_turn_policy_def current_turn_policy_def)

lemma freeze_stack [simp]: "gw_stack (freeze_on i cls v g) = gw_stack g"
  by (simp add: freeze_on_def set_ledger_def split: option.split)

lemma fetch_stack [simp]: "gw_stack (tw_gateway (snd (decide_network_fetch e w))) = gw_stack (tw_gateway w)"
  by (simp add: decide_network_fetch_def split: list.split option.split prod.split decision.split)

lemma open_turn_gateway [simp]:
  "gw_stack (tw_gateway (open_turn e h v lid w)) = lid # gw_stack (tw_gateway w)"
  "map_option el_memo (dict_get (gw_ledgers (tw_gateway (open_turn e h v lid w))) lid) = Some []"
  by (simp_all add: open_turn_def Let_def open_effect_receipt_scope_def set_ledger_def new_ledger_def)

lemma fetch_after_open:
  assumes "p = from_source_context e h v (tw_store w)" "policy_error p = []"
  shows "fst (decide_network_fetch c (open_turn e h v lid w)) = snd (door_verdict c p (tw_store w))"
    and "tw_store (snd (decide_network_fetch c (open_turn e h v lid w))) = fst (door_verdict c p (tw_store w))"
  using assms(2)
  by (simp_all add: open_turn_def Let_def assms(1) [symmetric] decide_network_fetch_def open_effect_receipt_scope_def
      set_ledger_def new_ledger_def frozen_decision_def split: prod.split)

text \<open>The door on a ledger that is current and has its policy.\<close>

lemma fetch_on:
  assumes "gw_stack (tw_gateway w) = lid # st" "dict_get (tw_policies w) lid = Some p"
    "dict_get (gw_ledgers (tw_gateway w)) lid = Some l"
  shows "policy_error p \<noteq> [] \<Longrightarrow>
      decide_network_fetch e w = ((Denied, ''policy construction failed closed: '' @ policy_error p), w)"
    and "policy_error p = [] \<Longrightarrow> frozen_decision network_fetch_class l = Some (Denied, why) \<Longrightarrow>
      decide_network_fetch e w = ((Denied, why), w)"
  using assms by (simp_all add: decide_network_fetch_def)

lemma first_fetch:
  assumes "gw_stack (tw_gateway w) = lid # st" "turn_keeps (\<lambda>l. True) lid p w" "policy_error p = []"
    "dict_get (gw_ledgers (tw_gateway w)) lid = Some l" "frozen_decision network_fetch_class l = None"
  shows "turn_keeps (\<lambda>l. frozen_decision network_fetch_class l = Some (fst (decide_network_fetch e w))) lid p (snd (decide_network_fetch e w))"
proof -
  have k: "keyed (tw_gateway w)" "dict_get (tw_policies w) lid = Some p" "el_id l = lid"
    using assms(2,4) keyed_get by (auto simp: turn_keeps_def ledger_keeps_def)
  obtain s v where sv: "door_verdict e p (tw_store w) = (s, v)" by (meson surj_pair)
  have d: "decide_network_fetch e w = (v, w\<lparr>tw_store := s, tw_gateway := freeze_on lid network_fetch_class v (tw_gateway w)\<rparr>)"
    by (simp add: decide_network_fetch_def assms(1,3-5) k(2) sv)
  have "el_id (freeze_decision network_fetch_class v l) = lid"
    "frozen_decision network_fetch_class (freeze_decision network_fetch_class v l) = Some v"
    using k(3) assms(5) by (simp_all add: freeze_decision_def frozen_decision_def)
  then show ?thesis using k assms(4)
    by (simp add: d turn_keeps_def ledger_keeps_def freeze_on_def keyed_set)
qed

lemma opened_keeps:
  assumes "keyed (tw_gateway w)"
  shows "turn_keeps (\<lambda>l. True) lid (from_source_context e h v (tw_store w)) (turn_step (Begin_turn e h v lid) w)"
proof -
  let ?l = "new_ledger lid [] False [] (te_policy e) (tp_root (from_source_context e h v (tw_store w)))"
  have "el_id ?l = lid" by (simp add: new_ledger_def)
  moreover have "keyed (set_ledger ?l (tw_gateway w))" by (rule keyed_set [OF assms])
  ultimately show ?thesis
    by (simp add: open_turn_def Let_def turn_keeps_def ledger_keeps_def open_effect_receipt_scope_def keyed_def
        from_source_context_def)
qed

lemma lawful_turns:
  "any_ledger.scope.lawful_run xs w \<Longrightarrow> turn_keeps (\<lambda>l. frozen_decision network_fetch_class l = Some v) lid p w \<Longrightarrow>
    turn_keeps (\<lambda>l. frozen_decision network_fetch_class l = Some v) lid p (fold turn_step xs w)"
  by (rule verdict.scope.run_good)

lemma kept_parts:
  assumes "turn_keeps Q lid p w"
  obtains l where "dict_get (tw_policies w) lid = Some p" "dict_get (gw_ledgers (tw_gateway w)) lid = Some l" "Q l"
  using assms by (auto simp: turn_keeps_def ledger_keeps_def)

section \<open>What the gates read\<close>

lemma reproject_data: "holds_data h room v p \<Longrightarrow> reproject room (embed p) = embed p"
proof (induction room v p rule: holds_data.induct)
  case (Dict_data i kvs room d)
  have keys: "map fst kvs = map fst d"
    using Dict_data.IH by (induction rule: list_all2_induct) (auto simp: rel_prod_sel)
  have "reproject room (embed q) = embed q" if "(k, q) \<in> set d" for k q
  proof -
    from that obtain j where j: "j < length d" "d ! j = (k, q)" by (auto simp: in_set_conv_nth)
    then have "j < length kvs" using keys by (metis length_map)
    from list_all2_nthD [OF Dict_data.IH this] j show ?thesis by (auto simp: rel_prod_sel)
  qed
  moreover have "project_items (reproject room) (map (\<lambda>(k, v). (Key k, v)) (map (\<lambda>(k, p). (k, embed p)) d))
      = map (\<lambda>(k, v). (k, reproject room v)) (map (\<lambda>(k, p). (k, embed p)) d)"
    by (rule plain_items) (use Dict_data.hyps(2,3) keys in \<open>simp_all add: comp_def case_prod_beta, metis length_map\<close>)
  ultimately show ?case by (auto simp: case_prod_beta)
next
  case (List_data i vs room ps)
  have "reproject room (embed q) = embed q" if "q \<in> set ps" for q
  proof -
    from that obtain j where j: "j < length ps" "ps ! j = q" by (auto simp: in_set_conv_nth)
    then have "j < length vs" using List_data.IH by (metis list_all2_lengthD)
    from list_all2_nthD [OF List_data.IH this] j show ?thesis by simp
  qed
  moreover have "length ps \<le> max_projection_items" using List_data.hyps(2) List_data.IH by (metis list_all2_lengthD)
  ultimately show ?case by (simp add: plain_elements)
qed simp

section \<open>A turn at the door\<close>

text \<open>
  A chat in manual mode. Its turn carries a handle as cargo; its other turn carries one as a policy
  input. The door is asked for a research call that uses the network.
\<close>

definition demo_turn_perm :: permission_env where
  "demo_turn_perm = \<lparr>pe_now = 5, pe_token = ''t'', pe_durable = True, pe_resolve = (\<lambda>r p. Some p), pe_under = (\<lambda>r p. prefix r p),
     pe_inside = (\<lambda>p r. prefix r p), pe_real = (\<lambda>p. p), pe_full = Some, pe_home = ''/home'', pe_protected = [],
     pe_chat_root = (\<lambda>s. ([], [])), pe_project_root = (\<lambda>p. []), pe_project_granted = (\<lambda>p. False)\<rparr>"

definition demo_turn_env :: turn_env where
  "demo_turn_env = \<lparr>te_perm = demo_turn_perm, te_address = 9, te_policy = ''tp:1'', te_text = (\<lambda>v. ''?''), te_autonomy = Inr ''hands_off''\<rparr>"

definition demo_consult :: consult_env where
  "demo_consult = \<lparr>ce_perm = demo_turn_perm, ce_text = (\<lambda>p. ''?''), ce_batch = [],
     ce_call = \<lparr>tc_intent = ''web.research'', tc_actions = [Use_network], tc_paths = [], tc_arguments = []\<rparr>,
     ce_reason = (\<lambda>d. ''the mode''), ce_raised = ''TypeError''\<rparr>"

definition demo_turn_heap :: heap where
  "demo_turn_heap i = (if i = 0 then Mapping_object [(Key ''runtime_session_id'', Scalar (Sc_str ''chat'')), (Key ''handle'', Ref 2)]
     else if i = 1 then Mapping_object [(Key ''runtime_session_id'', Scalar (Sc_str ''chat'')), (Key ''workspace_root'', Ref 2)]
     else Other_object ''_thread.lock'')"

definition demo_modes :: "string \<Rightarrow> turn_op" where
  "demo_modes mode = Permission_op demo_turn_perm (Set_mode ''chat'' mode [] [] [] [])"

definition demo_turn_world :: turn_world where
  "demo_turn_world = turn_step (demo_modes ''manual'')
     \<lparr>tw_gateway = fresh_gateway (configured []) fresh_money 9, tw_policies = [], tw_store = empty_store\<rparr>"

definition demo_policy :: turn_policy where
  "demo_policy = \<lparr>tp_id = ''tp:1'', tp_principal = ''owner_local'', tp_mode = Manual, tp_revision = 1, tp_active = True,
     tp_root = [], tp_network = [], tp_autonomy = ''hands_off'', tp_faults = [],
     tp_context = [(''runtime_session_id'', Leaf (Sc_str ''chat'')), (''handle'', Leaf (Sc_str ''<unserializable:_thread.lock>''))]\<rparr>"

definition demo_turn_store :: permission_store where
  "demo_turn_store = empty_store\<lparr>st_modes := [(''chat'', \<lparr>ms_session = ''chat'', ms_project = [], ms_turn = [], ms_mode = Manual,
     ms_revision = 1, ms_updated = 5, ms_bypass = [], ms_not_durable = False\<rparr>)]\<rparr>"

lemma demo_store: "tw_store demo_turn_world = demo_turn_store"
proof -
  have "perm_step (demo_turn_perm, Set_mode ''chat'' ''manual'' [] [] [] []) empty_store = demo_turn_store" by code_simp
  then show ?thesis by (simp add: demo_turn_world_def demo_modes_def del: perm_step.simps)
qed

lemma demo_policy: "demo_policy = from_source_context demo_turn_env demo_turn_heap (Ref 0) (tw_store demo_turn_world)"
  unfolding demo_store by code_simp

lemma demo_turn_stack: "gw_stack (tw_gateway demo_turn_world) = []" "unused i demo_turn_world"
  by (simp_all add: demo_turn_world_def demo_modes_def fresh_gateway_def unused_def)

lemma demo_turn_keyed: "keyed (tw_gateway demo_turn_world)"
  by (simp add: demo_turn_world_def demo_modes_def fresh_gateway_def keyed_def)

section \<open>Properties\<close>



text \<open>C12. A turn whose context holds a policy input that cannot be carried -- among its first 512 keys, an
  object other than a mapping or sequence -- never fetches and never authorizes: on its ledger every
  consult of the network door is denied and leaves the world as it is, and every gate that consumes the
  policy is refused, for as long as the ledger lives.\<close>

theorem unreadable_context_never_fetches:
  assumes "keyed (tw_gateway w)" "any_ledger.scope.lawful_run (Begin_turn e h (Ref i) lid # ops) w"
    and ctx: "h i = Mapping_object kvs" "distinct (map fst kvs)"
    and input: "k \<in> set policy_input_keys" "dict_get (take max_projection_items kvs) (Key k) = Some (Ref j)"
      "h j = Other_object t" "j \<noteq> te_address e"
  defines "w' \<equiv> fold turn_step (Begin_turn e h (Ref i) lid # ops) w"
  assumes current: "gw_stack (tw_gateway w') = lid # st"
  shows "fst (fst (decide_network_fetch c w')) = Denied \<and> snd (decide_network_fetch c w') = w' \<and> isl (consume_turn_policy w')"
proof -
  let ?p = "from_source_context e h (Ref i) (tw_store w)" and ?h = "h(te_address e := Mapping_object kvs)"
  have heap: "?h (te_address e) = Mapping_object kvs" by simp
  have "k \<in> set (unreadable_policy_inputs (project_context ?h (Ref (te_address e))))"
    using unreadable_exactly [where h = "?h" and r = "te_address e" and kvs = kvs and k = k] heap ctx(2) input
    by (simp add: opaque_value_def)
  then have "tp_faults ?p \<noteq> []" by (auto simp: from_source_context_def live_mapping_def ctx(1) Let_def)
  then have faulty: "policy_error ?p \<noteq> []" by (simp add: policy_error_iff)
  have "any_ledger.scope.lawful_run ops (turn_step (Begin_turn e h (Ref i) lid) w)" using assms(2) by simp
  from any_ledger.scope.run_good [OF opened_keeps [OF assms(1)] this] have "turn_keeps (\<lambda>l. True) lid ?p w'"
    by (simp add: w'_def)
  then obtain l where l: "dict_get (tw_policies w') lid = Some ?p" "dict_get (gw_ledgers (tw_gateway w')) lid = Some l"
    by (rule kept_parts)
  from fetch_on(1) [OF current l faulty] current l(1) faulty show ?thesis
    by (simp add: consume_turn_policy_def current_turn_policy_def)
qed

theorem unreadable_context_never_fetches_witness:
  "let w' = fold turn_step [Begin_turn demo_turn_env demo_turn_heap (Ref 1) ''l1'', demo_modes ''auto''] demo_turn_world in
     fst (fst (decide_network_fetch demo_consult w')) = Denied \<and> isl (consume_turn_policy w')"
proof -
  let ?ops = "[demo_modes ''auto'']"
  have run: "any_ledger.scope.lawful_run (Begin_turn demo_turn_env demo_turn_heap (Ref 1) ''l1'' # ?ops) demo_turn_world"
    by (simp add: turn_lawful_def demo_modes_def demo_turn_stack)
  have ctx: "demo_turn_heap 1 = Mapping_object [(Key ''runtime_session_id'', Scalar (Sc_str ''chat'')), (Key ''workspace_root'', Ref 2)]"
    "distinct (map fst [(Key ''runtime_session_id'', Scalar (Sc_str ''chat'')), (Key ''workspace_root'', Ref 2)])"
    by (simp_all add: demo_turn_heap_def)
  have input: "''workspace_root'' \<in> set policy_input_keys"
    "dict_get (take max_projection_items [(Key ''runtime_session_id'', Scalar (Sc_str ''chat'')), (Key ''workspace_root'', Ref 2)])
       (Key ''workspace_root'') = Some (Ref 2)"
    "demo_turn_heap 2 = Other_object ''_thread.lock''" "2 \<noteq> te_address demo_turn_env"
    by (simp_all add: policy_input_keys_def max_projection_items_def demo_turn_heap_def demo_turn_env_def)
  have "gw_stack (tw_gateway (fold turn_step (Begin_turn demo_turn_env demo_turn_heap (Ref 1) ''l1'' # ?ops) demo_turn_world)) = [''l1'']"
    by (simp add: demo_modes_def demo_turn_stack)
  from unreadable_context_never_fetches [OF demo_turn_keyed run ctx input this] show ?thesis by (simp only: Let_def simp_thms)
qed

text \<open>C31. When a turn's context is plain data within the limits, what every gate of the turn reads is that
  data: the policy freezes it by projecting it twice, and renders a fresh copy for each consult.\<close>

theorem gates_read_the_plain_context:
  assumes "holds_data (h(te_address e := Mapping_object (live_mapping h v))) max_projection_depth (Ref (te_address e)) (Dict d)"
  shows "decision_context_copy (from_source_context e h v s) = d"
proof -
  let ?h = "h(te_address e := Mapping_object (live_mapping h v))"
  have pr: "project ?h (Ref (te_address e)) = embed (Dict d)"
    using project_at_data [OF assms, of "{}"] by (simp add: project_def)
  then have "project_context ?h (Ref (te_address e)) = map (\<lambda>(k, p). (k, embed p)) d"
    by (simp add: project_context_def)
  moreover have "reproject max_projection_depth (embed (Dict d)) = embed (Dict d)" by (rule reproject_data [OF assms])
  ultimately have "Frozen (tp_context (from_source_context e h v s)) = embed (Dict d)"
    by (simp add: from_source_context_def freeze_context_def Let_def)
  then show ?thesis by (simp only: decision_context_copy_def render_embed plain.case)
qed

theorem gates_read_the_plain_context_witness:
  "Dict (decision_context_copy (from_source_context demo_turn_env demo_heap (Ref 0) empty_store)) = demo_data"
proof -
  obtain d where d: "demo_data = Dict d" by (simp add: demo_data_def)
  have "holds_data (demo_heap(te_address demo_turn_env := Mapping_object (live_mapping demo_heap (Ref 0)))) max_projection_depth
      (Ref (te_address demo_turn_env)) (Dict d)"
    unfolding d [symmetric] by (rule demo_heap_data) (simp_all add: demo_turn_env_def live_mapping_def demo_heap_def)
  from gates_read_the_plain_context [OF this, of empty_store] d show ?thesis by simp
qed

end
