(* ===== verification/Spec2Isabelle.thy ===== *)
theory Spec2Isabelle
  imports Task_Dag Updater_Versions Updater_Flow Wallet_Amounts Team_Budget Agent_Names Team_Plan Wallet_Limits
    Fee_Ledger Money_Law Money_Liability Money_Safety Money_Life Money_Ceilings
    Effect_Budget Effect_Budget_Laws Effect_Budget_Safety Effect_Journal Effect_Gateway Effect_Gateway_Safety
    Council_Pin Council_Pin_Fence
    Mode_Permissions Mode_Approvals Mode_Permission_Laws Mode_Approval_Runs Mode_Bypass_Runs Mode_Permission_Safety
    Policy_Projection Policy_Projection_Laws Turn_Policy Turn_Policy_Runs
begin

text \<open>
  VOOL is a local-first agent runtime: a chat agent with tools, teams of sub-agents, a council of models that share
  a task ledger, a wallet and paid providers, and an updater. This development models the parts that carry laws of
  their own -- who may write, who may spend, what may be installed -- and proves that the code keeps them.

  The parts and their theories

  \<^item> \<open>Vool_Prelude\<close>: Python strings, dictionaries, clocks and exceptions as HOL types, the lemmas on them, and the
    interfaces as locales. \<open>lawful_system\<close> is an invariant kept by every lawful operation, \<open>bounded_meter\<close> adds a
    usage under a ceiling, \<open>transition_table\<close> is a state machine given by its successors, \<open>fencing_authority\<close> an
    epoch that only rises. Each is interpreted on the components below and their facts carry the properties.
  \<^item> \<open>Task_Dag\<close>: the council's ledger (\<open>src/core/council/task_dag.py\<close>), tasks, dependencies, writer leases with
    fencing counters, and the snapshot a restart reads. Live leases never overlap, a successor fences its
    predecessor, dependencies stay acyclic, a completed task stays complete, a restart recovers the ledger.
  \<^item> \<open>Updater_Versions\<close>, \<open>Updater_Flow\<close>: the signed update lane (\<open>src/core/updater/\<close>): versions and their order,
    the install decision, the replay marks, and data migrations with their backups.
  \<^item> \<open>Wallet_Amounts\<close>, \<open>Wallet_Limits\<close>: exact amounts and the spend ceilings of a wallet (\<open>src/core/wallet/\<close>):
    what is accepted is exact, what is held in a day stays under the caps, a settled spend is final, and a freeze
    holds nothing new.
  \<^item> \<open>Team_Budget\<close>, \<open>Agent_Names\<close>, \<open>Team_Plan\<close>: agent teams (\<open>src/core/agent_team/\<close>): the budget every model call
    passes, display names that never merge, and the validation of a plan (claims, depths, one writer per file,
    dependencies).
  \<^item> \<open>Fee_Ledger\<close>: the service fee (\<open>src/core/service_fee_ledger.py\<close>) in exact numerators over 10000, and the
    collections of whole units. Collections are backed by accruals, and accruing payments one at a time loses and
    gains nothing by rounding.
  \<^item> \<open>Money_Law\<close>, \<open>Money_Liability\<close>: the monetary law (\<open>src/core/effect_budget_money.py\<close>, with the provider's
    recovery in \<open>src/core/usepod/money_law.py\<close>). The first holds the data, the operator's operations (grants, rules,
    conversion bounds, observations, funding policy) and the checks of a reservation; the second the life of a
    liability. A liability names a grant, holds the maximum of each of its flows, and is reserved, claimed for
    dispatch, and then released, proven unsent, or settled by evidence; a settlement calls the fee ledger.
  \<^item> \<open>Money_Safety\<close>: claimed money leaves only by proof, one dispatch claim wins, evidence is applied once.
    \<open>Money_Life\<close>: every operation follows the documented states. \<open>Money_Ceilings\<close>: the outstanding and paid amounts
    under a grant never pass its ceilings.
  \<^item> \<open>Effect_Budget\<close>: the unit law (\<open>src/core/effect_budget.py\<close>): the operator's rules, the counters by class, scope and
    identity, the reservations (reserved, then consumed or released), the process instances whose death releases what
    they held, and the operations on them. \<open>Effect_Budget_Laws\<close> reduces every operation to a few moves and proves the
    books' invariant for each; \<open>Effect_Budget_Safety\<close> holds the ceilings, the windows, the settling of a reservation,
    the operator's monopoly on the rules, and the departures found.
  \<^item> \<open>Effect_Journal\<close>: receipts and the durable journal of background effects (\<open>src/core/effect_gateway.py\<close>,
    \<open>BackgroundEffectJournal\<close>), whose retained hash chain always verifies.
  \<^item> \<open>Effect_Gateway\<close>: the gate of every effect (\<open>EffectLedger\<close>, \<open>EffectLifecycle\<close> and the scopes of the same file),
    which composes the unit law, the monetary law and the journal. An opening effect reserves its unit and then its
    money; an attempt claims the money, spends the unit, and only then starts; an end settles the claim; a closing scope
    returns what was never used. \<open>Effect_Gateway_Laws\<close>: the gateway moves the two books only by the participants'
    operations of their laws, so their ceilings hold through it. \<open>Effect_Gateway_Attempts\<close> and
    \<open>Effect_Gateway_Receipts\<close>: one attempt branch by branch, and the invariant of the receipts.
    \<open>Effect_Gateway_Safety\<close>: what follows for every run, on a small day at the gate.
  \<^item> \<open>Council_Pin\<close>, \<open>Council_Pin_Fence\<close>: the fence of a council's pinned model (\<open>src/core/council/pin_lock.py\<close>):
    the two admission doors, the drain a council waits for, the seat's capability, and what is served of them.
    Nobody is in flight while a council owns the pin, a drain ends, and a capability is never shown.
  \<^item> \<open>Mode_Permissions\<close>, \<open>Mode_Approvals\<close>: the permission module (\<open>src/core/mode_permission_policy.py\<close>). The first
    holds modes and their matrix, bypass confirmations and grants, internal and chat scopes; the second the identity
    of a call, approvals and their answers, project grants, and the decision with its preview.
    \<open>Mode_Permission_Laws\<close>, \<open>Mode_Approval_Runs\<close>, \<open>Mode_Bypass_Runs\<close>: what each operation keeps, reduced to a few
    moves on approvals and grants. \<open>Mode_Permission_Safety\<close>: secrets are never allowed, the ceilinged actions only by
    the operator's own answer, a mode change voids what was approved, bypass is confirmed and revocable.
  \<^item> \<open>Policy_Projection\<close>, \<open>Policy_Projection_Laws\<close>: the immutable projection of a turn's context
    (\<open>src/core/policy_projection.py\<close>), a walk over a heap that may share and cycle. Plain data survives it, and the
    policy inputs it reports unreadable are exactly characterised.
  \<^item> \<open>Turn_Policy\<close>, \<open>Turn_Policy_Runs\<close>: the policy a turn is frozen with and the network door (\<open>TurnPolicy\<close>,
    \<open>consume_turn_policy\<close> and \<open>decide_network_fetch\<close> of \<open>src/core/effect_gateway.py\<close>, with the owner test of
    \<open>src/core/request_trust.py\<close>), where the projection, the permission module and the gateway's ledgers meet. The
    locale \<open>ledger_law\<close> is any law of a ledger that reads only its memo of verdicts: no operation of the gateway
    breaks one, so the door's first verdict is a ceiling for the turn.

  How the model corresponds to the code

  A Python dictionary or a keyed SQL table is an association list in insertion order, a row a record with the
  columns as fields, an enumerated name a datatype (\<open>None\<close>, or a constructor of its own, for a name outside it). An
  operation takes the state and returns the new state with \<open>Inl\<close> of the refusal or \<open>Inr\<close> of the result. A
  transaction that raises leaves the tables unchanged. Clock readings, random identifiers, the freeze, the operator's
  durable tokens, file contents and the file system's answers are arguments, so a run is a list of operations with
  what they read. Every interleaving of whole operations is such a run; that is what the locks and the
  BEGIN IMMEDIATE transactions of the code give. Amounts are integers, as in Python; times and dollars are rationals,
  because every finite double is one, and the rounding of a sum of doubles is not modelled. One
  call reads one clock: the laws that a gateway operation calls see the same instant.

  Bounds and fuel

  The loops over parents and dependencies in \<open>Team_Plan\<close> carry fuel, one more than the number of agents, and
  the validation is proved never to run out of it. The cycle search of \<open>Task_Dag\<close> terminates by the tasks it has
  not seen. Every other loop is structural or a fold. The width of stored amounts is written out where the code has
  it: 63 bits in \<open>Wallet_Amounts\<close>, 78 digits in \<open>Money_Law\<close>.

  Concrete runs (the definitions whose names begin with \<open>demo\<close>, and others named for an example) are
  evaluated by the kernel; each property that has hypotheses is applied to one of them.

  Not modelled

  Event texts and dictionaries built for display; refusals of malformed stored rows; of the permission module the
  classifier of a tool call into actions with its command parsers (a call comes with its actions), the resolution of
  paths (functions of the environment), the signed disk mirrors of grants and approvals and their restore; the
  projections of the monetary law and the UsePod adapter that calls it; key custody, signing and chain clients;
  signature checking and platform installers of the updater; the agent runtime, retrieval, routing and output guards
  around language models; the web pages and the HTTP service; networking, storage drivers and account integrations.
  These are input and output, third-party protocols, generated text or heuristics without a contract to prove.
\<close>

end
